(* ===== verification/Prelude.thy ===== *)
theory Prelude
  imports Main "HOL-Library.Word" "HOL-Library.AList" "HOL-Library.Signed_Division"
begin

unbundle bit_operations_syntax

section \<open>Shared model of the TypeScript run time\<close>

text \<open>
  What every component of BioFire-MPC shares: bytes (\<open>Uint8Array\<close> cells), strings, thrown
  errors as values, insertion-ordered \<open>Map\<close>s, big-endian integers, and the random tape on which
  the CSPRNG draws.

  Conventions.
  \<^item> \<open>bigint\<close> is \<^typ>\<open>int\<close>; its \<open>/\<close> and \<open>%\<close> truncate towards zero, so they are
    \<open>sdiv\<close> and \<open>smod\<close>.
  \<^item> a \<open>number\<close> that holds an integer (a timestamp, a count, a length) is \<^typ>\<open>int\<close> or
    \<^typ>\<open>nat\<close>; floating-point rounding is not modelled. Infinities and \<open>NaN\<close> are kept
    where a number reaches a comparison unchecked (Json, SideChannel).
  \<^item> a string is the \<^typ>\<open>string\<close> of its UTF-8 bytes, so \<open>TextEncoder\<close> is \<open>utf8\<close> below.
    Lone surrogates have no such form and are outside the model; case folding and trimming are
    the ASCII ones.
  \<^item> \<open>throw\<close> is \<open>Inl\<close> of an error, a normal return is \<open>Inr\<close>. Messages are kept up to their first
    sentence or interpolated value; no code reads the rest of one.
\<close>

named_theorems result_simps \<open>rules that run the error monad\<close>
named_theorems bytes_simps \<open>lengths and values of byte strings\<close>

type_synonym byte = "8 word"
type_synonym bytes = "byte list"

datatype js_error =
    Error string
  | RangeError string
  | TypeError string
  | ReferenceError string
  | SyntaxError string
  | CSPRNGError string
  | SerializationError string

type_synonym 'a result = "js_error + 'a"

subsection \<open>Errors as values\<close>

fun rbind :: "'a result \<Rightarrow> ('a \<Rightarrow> 'b result) \<Rightarrow> 'b result" where
  "rbind (Inl e) f = Inl e"
| "rbind (Inr x) f = f x"

lemma rbind_Inr_iff [result_simps]: "rbind m f = Inr y \<longleftrightarrow> (\<exists>x. m = Inr x \<and> f x = Inr y)"
  by (cases m) auto

lemma rbind_Inl_iff [result_simps]:
  "rbind m f = Inl e \<longleftrightarrow> m = Inl e \<or> (\<exists>x. m = Inr x \<and> f x = Inl e)"
  by (cases m) auto

lemma relabel_Inr_iff [result_simps]:
  "(case m of Inl e \<Rightarrow> Inl e' | Inr x \<Rightarrow> Inr x) = Inr y \<longleftrightarrow> m = Inr y"
  by (cases m) auto

lemma rbind_assoc: "rbind (rbind m f) g = rbind m (\<lambda>x. rbind (f x) g)"
  by (cases m) auto

lemma rbind_cong [fundef_cong]:
  "m = m' \<Longrightarrow> (\<And>x. m' = Inr x \<Longrightarrow> f x = g x) \<Longrightarrow> rbind m f = rbind m' g"
  by (cases m) auto

subsection \<open>Strings and bytes\<close>

text \<open>\<open>new TextEncoder().encode(s)\<close>\<close>

definition utf8 :: "string \<Rightarrow> bytes" where
  "utf8 s = map (\<lambda>c. of_nat (of_char c)) s"

definition bytes_str :: "bytes \<Rightarrow> string" where
  "bytes_str bs = map (\<lambda>b. char_of (unat b)) bs"

lemma length_utf8 [simp, bytes_simps]: "length (utf8 s) = length s"
  by (simp add: utf8_def)

lemma length_bytes_str [simp, bytes_simps]: "length (bytes_str bs) = length bs"
  by (simp add: bytes_str_def)

lemma utf8_append [simp]: "utf8 (s @ t) = utf8 s @ utf8 t"
  by (simp add: utf8_def)

lemma unat_char_byte: "unat (of_nat (of_char c) :: byte) = of_char c"
  by (simp add: unat_of_nat)

lemma bytes_str_utf8 [simp]: "bytes_str (utf8 s) = s"
  by (simp only: bytes_str_def utf8_def map_map comp_def unat_char_byte char_of_char) simp

lemma utf8_bytes_str [simp]: "utf8 (bytes_str bs) = bs"
proof -
  have "of_nat (of_char (char_of (unat b))) = b" for b :: byte
    using unsigned_less [of b, where 'a = nat] by (simp only: of_char_of) simp
  then show ?thesis
    by (simp only: bytes_str_def utf8_def map_map comp_def) simp
qed

lemma utf8_inj [simp]: "utf8 s = utf8 t \<longleftrightarrow> s = t"
  by (metis bytes_str_utf8)

subsection \<open>Big-endian integers\<close>

text \<open>The loop \<open>result = (result << 8n) | BigInt(b)\<close>, which the code repeats in
  \<open>randomBigInt\<close>, \<open>SecureBuffer.asBigInt\<close>, the Fiat-Shamir challenge and the serializer.\<close>

definition be_step :: "int \<Rightarrow> byte \<Rightarrow> int" where
  "be_step acc b = push_bit 8 acc OR uint b"

definition be_int :: "bytes \<Rightarrow> int" where
  "be_int bs = foldl be_step 0 bs"

lemma uint_byte_bounds: "0 \<le> uint (b :: byte)" "uint (b :: byte) < 256"
  using uint_lt2p [of b] by simp_all

lemma be_step_eq: "be_step acc b = 256 * acc + uint b"
proof -
  have "push_bit 8 acc AND uint b = 0"
    by (rule bit_eqI) (auto simp: bit_simps not_less dest: bit_imp_le_length)
  then have "push_bit 8 acc OR uint b = push_bit 8 acc + uint b"
    by (rule disjunctive_add_eq_or [symmetric])
  then show ?thesis
    by (simp add: be_step_def push_bit_eq_mult)
qed

lemma foldl_be_step: "foldl be_step acc bs = acc * 256 ^ length bs + foldl be_step 0 bs"
proof (induction bs arbitrary: acc)
  case Nil
  then show ?case by simp
next
  case (Cons b bs)
  show ?case
    using Cons [of "be_step acc b"] Cons [of "be_step 0 b"]
    by (simp add: be_step_eq algebra_simps)
qed

lemma be_int_Nil [simp]: "be_int [] = 0"
  by (simp add: be_int_def)

lemma be_int_append: "be_int (xs @ ys) = be_int xs * 256 ^ length ys + be_int ys"
  by (simp add: be_int_def foldl_be_step [of "foldl be_step 0 xs"])

lemma be_int_snoc: "be_int (xs @ [b]) = 256 * be_int xs + uint b"
  by (simp add: be_int_def be_step_eq)

lemma be_int_Cons: "be_int (b # bs) = uint b * 256 ^ length bs + be_int bs"
  using be_int_append [of "[b]" bs] by (simp add: be_int_def be_step_eq)

lemma be_int_nonneg [simp]: "0 \<le> be_int bs"
  by (induction bs rule: rev_induct) (auto simp: be_int_snoc)

lemma be_int_less: "be_int bs < 256 ^ length bs"
proof (induction bs rule: rev_induct)
  case Nil
  then show ?case by simp
next
  case (snoc b bs)
  then have "be_int bs + 1 \<le> 256 ^ length bs" by simp
  then have "256 * (be_int bs + 1) \<le> 256 * 256 ^ length bs"
    by (intro mult_left_mono) auto
  with uint_byte_bounds(2) [of b] show ?case
    unfolding be_int_snoc length_append by (simp add: algebra_simps)
qed

text \<open>The inverse loop, from the last byte down: \<open>bytes[i] = Number(v & 0xFFn); v >>= 8n\<close>.
  On a negative or too large value it keeps the low \<open>8 * n\<close> bits.\<close>

fun int_be :: "nat \<Rightarrow> int \<Rightarrow> bytes" where
  "int_be 0 v = []"
| "int_be (Suc n) v = int_be n (drop_bit 8 v) @ [word_of_int (v AND 255)]"

lemma length_int_be [simp, bytes_simps]: "length (int_be n v) = n"
  by (induction n arbitrary: v) auto

lemma uint_low_byte: "uint (word_of_int (v AND 255) :: byte) = v mod 256"
proof -
  have "(255 :: int) = mask 8" by (simp add: mask_eq_exp_minus_1)
  then have "v AND 255 = take_bit 8 v"
    by (simp only: take_bit_eq_mask)
  then have "v AND 255 = v mod 256"
    by (simp add: take_bit_eq_mod)
  then show ?thesis
    by (simp add: uint_word_of_int)
qed

lemma be_int_int_be: "be_int (int_be n v) = v mod 256 ^ n"
proof (induction n arbitrary: v)
  case 0
  then show ?case by simp
next
  case (Suc n)
  have "v mod (256 * 256 ^ n) = 256 * (v div 256 mod 256 ^ n) + v mod 256"
    by (rule zmod_zmult2_eq) simp
  then show ?case
    by (simp only: int_be.simps be_int_snoc uint_low_byte Suc power_Suc)
      (simp add: drop_bit_eq_div)
qed

lemma int_be_be_int: "int_be (length bs) (be_int bs) = bs"
proof (induction bs rule: rev_induct)
  case Nil
  then show ?case by simp
next
  case (snoc b bs)
  have b: "uint b div 256 = 0" "uint b mod 256 = uint b"
    using uint_byte_bounds [of b] by (auto simp: div_pos_pos_trivial mod_pos_pos_trivial)
  have "(256 * be_int bs + uint b) div 256 = be_int bs" using b by simp
  moreover have "(256 * be_int bs + uint b) mod 256 = uint b" using b by simp
  then have "(word_of_int ((256 * be_int bs + uint b) AND 255) :: byte) = b"
    by (metis uint_low_byte word_uint_eq_iff)
  ultimately show ?case
    using snoc by (simp add: be_int_snoc drop_bit_eq_div)
qed

lemma be_int_inject: "length xs = length ys \<Longrightarrow> be_int xs = be_int ys \<longleftrightarrow> xs = ys"
  by (metis int_be_be_int)

end
