(* ===== verification/Numbers.thy ===== *)
theory Numbers
  imports Prelude
begin

section \<open>Number theory used by the cryptographic components\<close>

text \<open>
  Facts about primes, powers and residues of \<^typ>\<open>int\<close> that the Paillier, MtA, Shamir and
  signing components share: Euclid's lemma, Fermat's little theorem, the exponent identity
  modulo \<open>n\<^sup>2\<close> on which Paillier decryption rests, and cancellation modulo a prime. No program
  code is modelled here.
\<close>

definition is_prime :: "int \<Rightarrow> bool" where
  "is_prime p \<longleftrightarrow> 1 < p \<and> (\<forall>d. 0 < d \<and> d dvd p \<longrightarrow> d = 1 \<or> d = p)"

lemma is_prime_gt1: "is_prime p \<Longrightarrow> 1 < p"
  by (simp add: is_prime_def)

lemma is_prime_coprime:
  assumes "is_prime p" and "\<not> p dvd a"
  shows "coprime p a"
proof -
  have "gcd p a dvd p" and "0 < gcd p a"
    using is_prime_gt1 [OF assms(1)] by auto
  with assms(1) have "gcd p a = 1 \<or> gcd p a = p"
    unfolding is_prime_def by blast
  moreover have "gcd p a \<noteq> p"
    using assms(2) by (metis gcd_dvd2)
  ultimately show ?thesis
    by (simp add: coprime_iff_gcd_eq_1)
qed

lemma euclid_dvd:
  assumes "is_prime p" and "p dvd a * b"
  shows "p dvd a \<or> p dvd b"
  using is_prime_coprime [OF assms(1)] assms(2) by (metis coprime_dvd_mult_right_iff)

text \<open>A finite search decides primality; witnesses use it.\<close>

lemma is_primeI:
  assumes "1 < p" and "list_all (\<lambda>d. p mod d \<noteq> 0) [2..p - 1]"
  shows "is_prime p"
  unfolding is_prime_def
proof (intro conjI allI impI assms(1))
  fix d assume d: "0 < d \<and> d dvd p"
  then have "d \<le> p" using assms(1) by (auto intro: zdvd_imp_le)
  with d assms(2) show "d = 1 \<or> d = p"
    by (cases "d = p"; cases "d = 1") (auto simp: list_all_iff dvd_eq_mod_eq_0)
qed

subsection \<open>Fermat's little theorem\<close>

lemma prime_dvd_choose:
  assumes "is_prime p" and "P = nat p" and "0 < k" and "k < P"
  shows "p dvd int (P choose k)"
proof -
  have "k * (P choose k) = P * ((P - 1) choose (k - 1))"
    using assms(3,4) by (metis binomial_absorption Suc_pred' times_binomial_minus1_eq)
  then have "int k * int (P choose k) = p * int ((P - 1) choose (k - 1))"
    using assms(1,2) is_prime_gt1 by (metis int_nat_eq less_int_code(1) of_nat_mult
        order_less_imp_le order_less_trans zero_less_one)
  then have "p dvd int k * int (P choose k)" by simp
  moreover have "\<not> p dvd int k"
    using assms by (auto dest: zdvd_imp_le)
  ultimately show ?thesis
    using euclid_dvd [OF assms(1)] by blast
qed

lemma freshman_dream:
  fixes a :: int
  assumes "is_prime p" and "P = nat p"
  shows "p dvd (a + 1) ^ P - (a ^ P + 1)"
proof -
  let ?f = "\<lambda>k. of_nat (P choose k) * a ^ k * 1 ^ (P - k)"
  have P: "1 < P" using assms is_prime_gt1 by fastforce
  have "{..P} = insert 0 (insert P {1..<P})" using P by auto
  then have "(\<Sum>k\<le>P. ?f k) = ?f 0 + (?f P + (\<Sum>k\<in>{1..<P}. ?f k))"
    using P by simp
  then have "(a + 1) ^ P - (a ^ P + 1) = (\<Sum>k\<in>{1..<P}. ?f k)"
    by (simp add: binomial_ring)
  moreover have "p dvd (\<Sum>k\<in>{1..<P}. ?f k)"
    by (rule dvd_sum) (auto intro!: prime_dvd_choose [OF assms] dvd_mult2)
  ultimately show ?thesis by simp
qed

lemma fermat_nat: "is_prime p \<Longrightarrow> p dvd int a ^ nat p - int a"
proof (induction a)
  case 0
  then show ?case using is_prime_gt1 [of p] by (simp add: zero_power)
next
  case (Suc a)
  have "int (Suc a) ^ nat p - int (Suc a) =
      ((int a + 1) ^ nat p - (int a ^ nat p + 1)) + (int a ^ nat p - int a)"
    by (simp add: algebra_simps)
  with Suc freshman_dream [of p "nat p" "int a"] show ?case
    by (metis dvd_add)
qed

lemma fermat_little:
  assumes "is_prime p" and "\<not> p dvd a"
  shows "a ^ nat (p - 1) mod p = 1"
proof -
  have p: "1 < p" by (rule is_prime_gt1 [OF assms(1)])
  let ?b = "nat (a mod p)"
  have b: "int ?b = a mod p" using p by simp
  have "nat p = Suc (nat (p - 1))" using p by simp
  then have "int ?b ^ nat p - int ?b = int ?b * (int ?b ^ nat (p - 1) - 1)"
    by (simp add: algebra_simps)
  with fermat_nat [OF assms(1), of ?b] have "p dvd int ?b * (int ?b ^ nat (p - 1) - 1)"
    by simp
  moreover have "\<not> p dvd int ?b" unfolding b using assms(2) by (simp add: dvd_mod_iff)
  ultimately have "p dvd int ?b ^ nat (p - 1) - 1"
    using euclid_dvd [OF assms(1)] by blast
  then have "int ?b ^ nat (p - 1) mod p = 1 mod p"
    by (simp add: mod_eq_dvd_iff)
  then have "(a mod p) ^ nat (p - 1) mod p = 1" using p b by simp
  then show ?thesis by (simp add: power_mod)
qed

lemma fermat_multiple:
  assumes "is_prime p" and "\<not> p dvd a" and "(p - 1) dvd e" and "0 \<le> e"
  shows "a ^ nat e mod p = 1"
proof -
  have p: "1 < p" by (rule is_prime_gt1 [OF assms(1)])
  obtain k where k: "e = (p - 1) * k" using assms(3) by blast
  with assms(4) p have "0 \<le> k" by (simp add: zero_le_mult_iff)
  then have "nat e = nat (p - 1) * nat k" using k p by (simp add: nat_mult_distrib)
  then have "a ^ nat e mod p = ((a ^ nat (p - 1)) mod p) ^ nat k mod p"
    by (simp add: power_mult power_mod)
  with fermat_little [OF assms(1,2)] p show ?thesis by simp
qed

subsection \<open>Residues modulo products and squares\<close>

lemma mod_eq_coprime_mult:
  fixes a b :: int
  assumes "coprime m n" and "a mod m = b mod m" and "a mod n = b mod n"
  shows "a mod (m * n) = b mod (m * n)"
  using assms by (simp add: mod_eq_dvd_iff divides_mult)

lemma power_one_plus:
  fixes n k :: int
  shows "(1 + k * n) ^ e mod n\<^sup>2 = (1 + int e * k * n) mod n\<^sup>2"
proof (induction e)
  case 0
  then show ?case by simp
next
  case (Suc e)
  have "(1 + k * n) ^ Suc e mod n\<^sup>2 = (1 + k * n) * ((1 + k * n) ^ e mod n\<^sup>2) mod n\<^sup>2"
    by (simp add: mod_mult_right_eq)
  also have "\<dots> = (1 + k * n) * (1 + int e * k * n) mod n\<^sup>2"
    by (simp add: Suc mod_mult_right_eq)
  also have "(1 + k * n) * (1 + int e * k * n)
      = 1 + int (Suc e) * k * n + (int e * k * k) * n\<^sup>2"
    by (simp add: algebra_simps power2_eq_square)
  also have "\<dots> mod n\<^sup>2 = (1 + int (Suc e) * k * n) mod n\<^sup>2"
    by simp
  finally show ?case .
qed

lemma power_n_of_one_mod_n:
  fixes n x :: int
  assumes "x mod n = 1 mod n"
  shows "x ^ nat n mod n\<^sup>2 = 1 mod n\<^sup>2"
proof (cases "0 \<le> n")
  case True
  from assms obtain k where k: "x - 1 = n * k"
    by (metis dvd_def mod_eq_dvd_iff)
  then have "x = 1 + k * n" by (simp add: algebra_simps)
  then have "x ^ nat n mod n\<^sup>2 = (1 + k * n\<^sup>2) mod n\<^sup>2"
    using power_one_plus [of k n "nat n"] True
    by (simp add: power2_eq_square algebra_simps)
  then show ?thesis by simp
qed simp

lemma one_plus_mod_square:
  fixes n a :: int
  assumes "1 < n"
  shows "(1 + a * n) mod n\<^sup>2 = 1 + (a mod n) * n"
proof -
  have "1 + a * n = 1 + (a mod n) * n + (a div n) * n\<^sup>2"
    by (metis add.assoc add.commute distrib_right mod_div_mult_eq mult.assoc power2_eq_square)
  then have "(1 + a * n) mod n\<^sup>2 = (1 + (a mod n) * n) mod n\<^sup>2"
    by (simp only: mod_mult_self1)
  moreover have "1 + (a mod n) * n < n\<^sup>2"
  proof -
    have "a mod n \<le> n - 1" using assms pos_mod_bound [of n a] by simp
    then have "(a mod n) * n \<le> (n - 1) * n" using assms by (intro mult_right_mono) auto
    then show ?thesis using assms by (simp add: power2_eq_square algebra_simps)
  qed
  moreover have "0 \<le> (a mod n) * n" using assms by simp
  ultimately show ?thesis by (simp add: mod_pos_pos_trivial)
qed

lemma mod_mult_cancel:
  fixes a b c m :: int
  assumes "coprime c m" and "(c * a) mod m = (c * b) mod m"
  shows "a mod m = b mod m"
proof -
  have "m dvd c * (a - b)" using assms(2) by (simp add: mod_eq_dvd_iff right_diff_distrib)
  then have "m dvd a - b" using assms(1) by (metis coprime_commute coprime_dvd_mult_right_iff)
  then show ?thesis by (simp add: mod_eq_dvd_iff)
qed

lemma mod_mult_power:
  fixes a b m :: int
  shows "((a mod m) * (b mod m) ^ k) mod m = (a * b ^ k) mod m"
  by (subst mod_mult_eq [symmetric]) (simp add: power_mod mod_mult_eq)

text \<open>The truncated \<open>%\<close> of \<open>bigint\<close>, where the code has made its operand non-negative.\<close>

lemma smod_nonneg: "0 \<le> a \<Longrightarrow> 0 < (m :: int) \<Longrightarrow> a smod m = a mod m"
  by (cases "a = 0") (auto simp: signed_modulo_int_def)

lemma sdiv_nonneg: "0 \<le> a \<Longrightarrow> 0 < (m :: int) \<Longrightarrow> a sdiv m = a div m"
  by (cases "a = 0") (auto simp: signed_divide_int_def)

lemma smod_abs_less: "(m :: int) \<noteq> 0 \<Longrightarrow> \<bar>a smod m\<bar> < \<bar>m\<bar>"
  by (auto simp: signed_modulo_int_def abs_mult sgn_if)

lemma smod_plus_smod: "0 < (m :: int) \<Longrightarrow> (a smod m + m) smod m = a mod m"
proof -
  assume m: "0 < m"
  have "0 \<le> a smod m + m" using smod_abs_less [of m a] m by linarith
  then have "(a smod m + m) smod m = (a smod m) mod m" using m by (simp add: smod_nonneg)
  also have "\<dots> = a mod m"
    using mod_mult_self2 [of "a smod m" m "a sdiv m"] smod_mult_sdiv_eq [of a m] by simp
  finally show ?thesis .
qed

end
