(* ===== verification/ModArith.thy ===== *)
theory ModArith
  imports Numbers
begin

unbundle bit_operations_syntax

section \<open>Modular arithmetic on \<open>bigint\<close>\<close>

text \<open>
  The arithmetic helpers of \<^verbatim>\<open>src/lib/crypto/paillier.ts\<close> (\<open>modPow\<close>, \<open>modInverse\<close>,
  \<open>extendedGcd\<close>, \<open>gcd\<close>, \<open>lcm\<close>) and of \<^verbatim>\<open>src/lib/crypto/secp256k1.ts\<close> (\<open>modN\<close>,
  \<open>modInverseOrder\<close>), with the truncated division of \<open>bigint\<close> and its \<open>RangeError\<close> on a zero
  divisor. The curve order is a constant of \<^verbatim>\<open>@noble/curves\<close>; it is the parameter \<open>q\<close>.
  Each routine is related to its mathematical meaning, and the two modular inverses are two
  instances of one interface, the locale \<open>modular_inverse\<close>.
\<close>

subsection \<open>Definitions\<close>

function modPow_loop :: "int \<Rightarrow> int \<Rightarrow> int \<Rightarrow> int \<Rightarrow> int" where
  "modPow_loop m acc b e =
     (if 0 < e
      then modPow_loop m (if e AND 1 \<noteq> 0 then (acc * b) smod m else acc)
             ((b * b) smod m) (drop_bit 1 e)
      else acc)"
  by pat_completeness auto
termination
  by (relation "measure (\<lambda>(m, acc, b, e). nat e)") (auto simp: drop_bit_eq_div)

definition modPow :: "int \<Rightarrow> int \<Rightarrow> int \<Rightarrow> int result" where
  "modPow b e m =
     (if m = 1 then Inr 0
      else if e < 0 then Inl (Error ''Negative exponents not supported in modPow'')
      else if m = 0 then Inl (RangeError ''Division by zero'')
      else Inr (modPow_loop m 1 ((b smod m + m) smod m) e))"

function gcd_loop :: "int \<Rightarrow> int \<Rightarrow> int" where
  "gcd_loop a b = (if b \<noteq> 0 then gcd_loop b (a smod b) else a)"
  by pat_completeness auto
termination
proof (relation "measure (\<lambda>(a, b). nat \<bar>b\<bar>)", goal_cases)
  case 1
  show ?case by simp
next
  case (2 a b)
  then show ?case using smod_abs_less [of b a] by simp
qed

definition js_gcd :: "int \<Rightarrow> int \<Rightarrow> int" where
  "js_gcd a b = gcd_loop (if a < 0 then - a else a) (if b < 0 then - b else b)"

definition js_lcm :: "int \<Rightarrow> int \<Rightarrow> int result" where
  "js_lcm a b =
     (if js_gcd a b = 0 then Inl (RangeError ''Division by zero'')
      else Inr ((a * b) sdiv js_gcd a b))"

function extendedGcd :: "int \<Rightarrow> int \<Rightarrow> int \<times> int \<times> int" where
  "extendedGcd a b =
     (if b = 0 then (a, 1, 0)
      else (case extendedGcd b (a smod b) of
              (g, x1, y1) \<Rightarrow> (g, y1, x1 - (a sdiv b) * y1)))"
  by pat_completeness auto
termination
proof (relation "measure (\<lambda>(a, b). nat \<bar>b\<bar>)", goal_cases)
  case 1
  show ?case by simp
next
  case (2 a b)
  then show ?case using smod_abs_less [of b a] by simp
qed

definition modInverse :: "int \<Rightarrow> int \<Rightarrow> int result" where
  "modInverse a m =
     (if m = 0 then Inl (RangeError ''Division by zero'')
      else (case extendedGcd ((a smod m + m) smod m) m of
              (g, x, _) \<Rightarrow>
                if g \<noteq> 1 then Inl (Error ''Modular inverse does not exist'')
                else Inr ((x smod m + m) smod m)))"

definition modN :: "int \<Rightarrow> int \<Rightarrow> int" where
  "modN q x = (let r = x smod q in if r < 0 then r + q else r)"

function modInverseOrder_loop :: "int \<Rightarrow> int \<Rightarrow> int \<Rightarrow> int \<Rightarrow> int \<times> int" where
  "modInverseOrder_loop t newt r newr =
     (if newr \<noteq> 0
      then (let d = r sdiv newr
            in modInverseOrder_loop newt (t - d * newt) newr (r - d * newr))
      else (t, r))"
  by pat_completeness auto
termination
proof (relation "measure (\<lambda>(t, newt, r, newr). nat \<bar>newr\<bar>)", goal_cases)
  case 1
  show ?case by simp
next
  case (2 t newt r newr d)
  then show ?case using smod_abs_less [of newr r] minus_sdiv_mult_eq_smod [of r newr] by simp
qed

definition modInverseOrder :: "int \<Rightarrow> int \<Rightarrow> int result" where
  "modInverseOrder q k =
     (if q = 0 then Inl (RangeError ''Division by zero'')
      else (case modInverseOrder_loop 0 1 q ((k smod q + q) smod q) of
              (t, r) \<Rightarrow>
                if 1 < r then Inl (Error ''Not invertible'')
                else Inr (if t < 0 then t + q else t)))"

declare modPow_loop.simps [simp del] gcd_loop.simps [simp del] extendedGcd.simps [simp del]
  modInverseOrder_loop.simps [simp del]

subsection \<open>Residues\<close>

lemma modN_eq: "0 < q \<Longrightarrow> modN q x = x mod q"
proof -
  assume q: "0 < q"
  let ?r = "x smod q"
  have x: "x mod q = ?r mod q"
    using mod_mult_self2 [of ?r q "x sdiv q"] smod_mult_sdiv_eq [of x q] by simp
  have r: "\<bar>?r\<bar> < q" using smod_abs_less [of q x] q by simp
  show ?thesis
  proof (cases "?r < 0")
    case True
    then have "(?r + q) mod q = ?r + q" using r by (intro mod_pos_pos_trivial) auto
    then show ?thesis using True x by (simp add: modN_def)
  next
    case False
    then have "?r mod q = ?r" using r by (intro mod_pos_pos_trivial) auto
    then show ?thesis using False x by (simp add: modN_def)
  qed
qed

lemma modN_bounds: "0 < q \<Longrightarrow> 0 \<le> modN q x \<and> modN q x < q"
  by (simp add: modN_eq)

subsection \<open>Fast exponentiation\<close>

lemma and_one_mod: "(e :: int) AND 1 = e mod 2"
  by (simp add: and_one_eq)

lemma modPow_loop_correct:
  assumes "1 < m" and "0 \<le> e" and "0 \<le> b" and "0 \<le> acc" and "acc < m"
  shows "modPow_loop m acc b e = acc * b ^ nat e mod m"
  using assms
proof (induction m acc b e rule: modPow_loop.induct)
  case (1 m acc b e)
  show ?case
  proof (cases "0 < e")
    case False
    with "1.prems" show ?thesis
      by (subst modPow_loop.simps) (simp add: mod_pos_pos_trivial)
  next
    case True
    let ?acc = "if e AND 1 \<noteq> 0 then (acc * b) smod m else acc"
    have acc: "?acc = acc * b ^ nat (e mod 2) mod m"
      using "1.prems" by (auto simp: and_one_mod smod_nonneg mod_pos_pos_trivial)
    have half: "drop_bit 1 e = e div 2" by (simp add: drop_bit_eq_div)
    have bb: "(b * b) smod m = b * b mod m" using "1.prems" by (simp add: smod_nonneg)
    have "modPow_loop m acc b e = modPow_loop m ?acc ((b * b) smod m) (drop_bit 1 e)"
      using True by (subst modPow_loop.simps) simp
    also have "\<dots> = ?acc * ((b * b) smod m) ^ nat (drop_bit 1 e) mod m"
      using "1.prems" True by (intro "1.IH") (auto simp: half acc bb)
    also have "\<dots> = acc * b ^ nat (e mod 2) * (b * b) ^ nat (e div 2) mod m"
      unfolding acc bb half by (rule mod_mult_power)
    also have "acc * b ^ nat (e mod 2) * (b * b) ^ nat (e div 2) = acc * b ^ nat e"
    proof -
      have "nat e = nat (e mod 2) + 2 * nat (e div 2)" 
        using "1.prems"(2) by (simp add: nat_mod_distrib nat_div_distrib)
      then show ?thesis by (metis mult.assoc power_add power_mult power2_eq_square)
    qed
    finally show ?thesis .
  qed
qed

lemma modPow_eq:
  assumes "1 < m" and "0 \<le> e"
  shows "modPow b e m = Inr (b ^ nat e mod m)"
proof -
  have "modPow b e m = Inr (modPow_loop m 1 (b mod m) e)"
    using assms by (simp add: modPow_def smod_plus_smod)
  also have "modPow_loop m 1 (b mod m) e = b ^ nat e mod m"
    using assms by (subst modPow_loop_correct) (auto simp: power_mod)
  finally show ?thesis .
qed

subsection \<open>Euclid\<close>

lemma gcd_smod: "gcd b (a smod b) = gcd a (b :: int)"
  by (metis gcd.commute gcd_add_mult smod_mult_sdiv_eq add.commute mult.commute)

lemma gcd_loop_eq: "0 \<le> a \<Longrightarrow> 0 \<le> b \<Longrightarrow> gcd_loop a b = gcd a b"
proof (induction a b rule: gcd_loop.induct)
  case (1 a b)
  show ?case
  proof (cases "b = 0")
    case True
    with 1 show ?thesis by (subst gcd_loop.simps) simp
  next
    case False
    with 1 have "0 \<le> a smod b" by (simp add: smod_nonneg)
    with 1 False have "gcd_loop b (a smod b) = gcd b (a smod b)" by simp
    with False show ?thesis by (subst gcd_loop.simps) (simp add: gcd_smod)
  qed
qed

lemma js_gcd_eq: "js_gcd a b = gcd a b"
  by (simp add: js_gcd_def gcd_loop_eq)

lemma js_lcm_eq: "0 < a \<Longrightarrow> 0 < b \<Longrightarrow> js_lcm a b = Inr (lcm a b)"
  by (simp add: js_lcm_def js_gcd_eq sdiv_nonneg lcm_altdef_int)

lemma extendedGcd_bezout: "extendedGcd a b = (g, x, y) \<Longrightarrow> x * a + y * b = g"
proof (induction a b arbitrary: g x y rule: extendedGcd.induct)
  case (1 a b)
  show ?case
  proof (cases "b = 0")
    case True
    with "1.prems" show ?thesis by (subst (asm) extendedGcd.simps) auto
  next
    case False
    obtain g1 x1 y1 where r: "extendedGcd b (a smod b) = (g1, x1, y1)"
      by (metis prod_cases3)
    with "1.prems" False have e: "g = g1" "x = y1" "y = x1 - (a sdiv b) * y1"
      by (auto simp: extendedGcd.simps [of a b])
    from "1.IH" [OF False r] have "x1 * b + y1 * (a smod b) = g1" .
    moreover have "a smod b = a - (a sdiv b) * b" by (simp add: minus_sdiv_mult_eq_smod)
    ultimately show ?thesis unfolding e by (simp add: algebra_simps)
  qed
qed

lemma extendedGcd_gcd: "0 \<le> a \<Longrightarrow> 0 \<le> b \<Longrightarrow> fst (extendedGcd a b) = gcd a b"
proof (induction a b rule: extendedGcd.induct)
  case (1 a b)
  show ?case
  proof (cases "b = 0")
    case True
    with 1 show ?thesis by (subst extendedGcd.simps) simp
  next
    case False
    with 1 have "0 \<le> a smod b" by (simp add: smod_nonneg)
    with 1 False have "fst (extendedGcd b (a smod b)) = gcd b (a smod b)" by simp
    with False show ?thesis
      by (cases "extendedGcd b (a smod b)") (simp add: extendedGcd.simps [of a b] gcd_smod)
  qed
qed

lemma modInverse_ok:
  assumes "1 < m" and "coprime a m"
  shows "\<exists>x. modInverse a m = Inr x \<and> 0 \<le> x \<and> x < m \<and> (a * x) mod m = 1"
proof -
  obtain g x y where e: "extendedGcd (a mod m) m = (g, x, y)" by (metis prod_cases3)
  have "fst (extendedGcd (a mod m) m) = gcd (a mod m) m"
    using assms(1) by (intro extendedGcd_gcd) auto
  with e assms(2) have g: "g = 1" by (simp add: coprime_iff_gcd_eq_1 gcd_red_int [symmetric] gcd.commute)
  have inv: "modInverse a m = Inr (x mod m)"
    using assms(1) e g by (simp add: modInverse_def smod_plus_smod)
  have "x * (a mod m) + y * m = 1" using extendedGcd_bezout [OF e] g by simp
  then have "(x * (a mod m)) mod m = 1 mod m" by (metis mod_mult_self1)
  then have "(a * (x mod m)) mod m = 1"
    using assms(1) by (simp add: mod_mult_left_eq mod_mult_right_eq mult.commute)
  with inv assms(1) show ?thesis by simp
qed

lemma modInverse_err:
  assumes "1 < m" and "\<not> coprime a m"
  shows "modInverse a m = Inl (Error ''Modular inverse does not exist'')"
proof -
  obtain g x y where e: "extendedGcd (a mod m) m = (g, x, y)" by (metis prod_cases3)
  have "fst (extendedGcd (a mod m) m) = gcd (a mod m) m"
    using assms(1) by (intro extendedGcd_gcd) auto
  with e assms(2) have "g \<noteq> 1" by (simp add: coprime_iff_gcd_eq_1 gcd_red_int [symmetric] gcd.commute)
  with e assms(1) show ?thesis by (simp add: modInverse_def smod_plus_smod)
qed

subsection \<open>The inverse modulo the curve order\<close>

text \<open>
  The loop keeps \<open>t * k \<equiv> r\<close> and \<open>newt * k \<equiv> newr\<close> modulo \<open>q\<close>, the gcd of the two
  remainders, the opposite signs of the two cofactors, and the sum
  \<open>\<bar>newt\<bar> * r + \<bar>t\<bar> * newr = q\<close>, which bounds them.
\<close>

definition euclid_inv :: "int \<Rightarrow> int \<Rightarrow> int \<Rightarrow> int \<Rightarrow> int \<Rightarrow> int \<Rightarrow> bool" where
  "euclid_inv q k t newt r newr \<longleftrightarrow>
     0 \<le> newr \<and> newr < r \<and> q dvd t * k - r \<and> q dvd newt * k - newr \<and> gcd r newr = gcd q k
     \<and> (t \<le> 0 \<and> 0 \<le> newt \<or> 0 \<le> t \<and> newt \<le> 0) \<and> \<bar>newt\<bar> * r + \<bar>t\<bar> * newr = q
     \<and> \<bar>t\<bar> \<le> q"

lemma euclid_inv_step:
  assumes "euclid_inv q k t newt r newr" and "newr \<noteq> 0"
  shows "euclid_inv q k newt (t - (r sdiv newr) * newt) newr (r - (r sdiv newr) * newr)"
proof -
  let ?d = "r sdiv newr"
  note I = assms(1) [unfolded euclid_inv_def]
  have pos: "0 < newr" "0 < r" using I assms(2) by auto
  have d: "?d = r div newr" "0 \<le> ?d" using pos by (auto simp: sdiv_nonneg pos_imp_zdiv_nonneg_iff)
  have rem: "r - ?d * newr = r mod newr" using d by (simp add: minus_div_mult_eq_mod)
  have c1: "0 \<le> r mod newr" "r mod newr < newr" using pos by auto
  have "q dvd (t * k - r) - ?d * (newt * k - newr)" using I by (blast intro: dvd_diff dvd_mult)
  then have c2: "q dvd (t - ?d * newt) * k - (r - ?d * newr)" by (simp add: algebra_simps)
  have c3: "gcd newr (r mod newr) = gcd q k"
    using I by (metis gcd_red_int gcd.commute)
  have c4: "newt \<le> 0 \<and> 0 \<le> t - ?d * newt \<or> 0 \<le> newt \<and> t - ?d * newt \<le> 0"
    using I d(2) by (smt (verit) mult_nonneg_nonneg mult_nonneg_nonpos)
  have abs: "\<bar>t - ?d * newt\<bar> = \<bar>t\<bar> + ?d * \<bar>newt\<bar>"
    using I d(2) by (smt (verit) mult_nonneg_nonneg mult_nonneg_nonpos mult_minus_right)
  have "\<bar>newt\<bar> \<le> q"
  proof -
    have "\<bar>newt\<bar> * 1 \<le> \<bar>newt\<bar> * r" using pos by (intro mult_left_mono) auto
    moreover have "0 \<le> \<bar>t\<bar> * newr" using pos by simp
    ultimately show ?thesis using I by linarith
  qed
  moreover have "\<bar>t - ?d * newt\<bar> * newr + \<bar>newt\<bar> * (r - ?d * newr) = q"
    using I abs by (simp add: algebra_simps)
  ultimately show ?thesis
    unfolding euclid_inv_def using I c1 c2 c3 c4 by (auto simp only: rem simp_thms)
qed

lemma modInverseOrder_loop_inv:
  "euclid_inv q k t newt r newr \<Longrightarrow> modInverseOrder_loop t newt r newr = (t', r') \<Longrightarrow>
   \<exists>newt'. euclid_inv q k t' newt' r' 0"
proof (induction t newt r newr rule: modInverseOrder_loop.induct)
  case (1 t newt r newr)
  show ?case
  proof (cases "newr = 0")
    case True
    with "1.prems" show ?thesis
      by (auto simp: modInverseOrder_loop.simps [of t newt r 0])
  next
    case False
    with "1.prems"(2) have "modInverseOrder_loop newt (t - (r sdiv newr) * newt) newr
        (r - (r sdiv newr) * newr) = (t', r')"
      by (simp add: modInverseOrder_loop.simps [of t newt r newr] Let_def)
    with False show ?thesis
      by (intro "1.IH" [OF False refl euclid_inv_step [OF "1.prems"(1) False]]) simp
  qed
qed

lemma modInverseOrder_cases:
  assumes "1 < q"
  obtains t r newt where "modInverseOrder q k
      = (if 1 < r then Inl (Error ''Not invertible'') else Inr (if t < 0 then t + q else t))"
    and "euclid_inv q (k mod q) t newt r 0"
proof -
  obtain t r where l: "modInverseOrder_loop 0 1 q (k mod q) = (t, r)" by force
  have "gcd q (k mod q) = gcd q (k mod q)" ..
  then have "euclid_inv q (k mod q) 0 1 q (k mod q)"
    using assms by (simp add: euclid_inv_def)
  from modInverseOrder_loop_inv [OF this l] obtain newt where "euclid_inv q (k mod q) t newt r 0"
    by blast
  with l assms show ?thesis
    by (intro that [of r t newt]) (simp_all add: modInverseOrder_def smod_plus_smod)
qed

lemma modInverseOrder_ok:
  assumes "1 < q" and "coprime k q"
  shows "\<exists>x. modInverseOrder q k = Inr x \<and> 0 \<le> x \<and> x < q \<and> (k * x) mod q = 1"
proof -
  obtain t r newt where res: "modInverseOrder q k
      = (if 1 < r then Inl (Error ''Not invertible'') else Inr (if t < 0 then t + q else t))"
    and I: "euclid_inv q (k mod q) t newt r 0"
    using modInverseOrder_cases [OF assms(1)] by blast
  have "gcd q (k mod q) = 1"
    using assms(2) by (metis coprime_iff_gcd_eq_1 gcd.commute gcd_red_int)
  with I have r: "r = 1" by (auto simp: euclid_inv_def)
  have "q dvd t * (k mod q) - 1" using I r by (simp add: euclid_inv_def)
  then have "(t * (k mod q)) mod q = 1 mod q" by (simp add: mod_eq_dvd_iff)
  then have tk: "(k * t) mod q = 1" using assms(1) by (simp add: mod_mult_right_eq mult.commute)
  let ?x = "if t < 0 then t + q else t"
  have x: "(k * ?x) mod q = 1" using tk by (simp add: distrib_left)
  have "\<not> q dvd t" using tk assms(1) by (metis dvd_mult mod_0_imp_dvd dvd_imp_mod_0 zero_neq_one)
  then have "t \<noteq> 0" "t \<noteq> q" "t \<noteq> - q" by auto
  moreover have "\<bar>t\<bar> \<le> q" using I by (simp add: euclid_inv_def)
  ultimately have "0 \<le> ?x \<and> ?x < q" by auto
  with res r x show ?thesis by simp
qed

lemma modInverseOrder_err:
  assumes "1 < q" and "\<not> coprime k q"
  shows "modInverseOrder q k = Inl (Error ''Not invertible'')"
proof -
  obtain t r newt where res: "modInverseOrder q k
      = (if 1 < r then Inl (Error ''Not invertible'') else Inr (if t < 0 then t + q else t))"
    and I: "euclid_inv q (k mod q) t newt r 0"
    using modInverseOrder_cases [OF assms(1)] by blast
  have "r = gcd k q" using I assms(1) by (auto simp: euclid_inv_def gcd_red_int [symmetric] gcd.commute)
  moreover have "gcd k q \<noteq> 1" using assms(2) by (simp add: coprime_iff_gcd_eq_1)
  moreover have "0 < gcd k q" using assms(1) by simp
  ultimately have "1 < r" by linarith
  with res show ?thesis by simp
qed

subsection \<open>The interface of a modular inverse\<close>

text \<open>
  What signing, Lagrange interpolation and Paillier key generation rely on: on a unit the
  routine returns the one inverse in range, on anything else it throws.
\<close>

locale modular_inverse =
  fixes inv :: "int \<Rightarrow> int \<Rightarrow> int result"
  assumes inv_ok: "1 < m \<Longrightarrow> coprime a m \<Longrightarrow>
      \<exists>x. inv m a = Inr x \<and> 0 \<le> x \<and> x < m \<and> (a * x) mod m = 1"
    and inv_err: "1 < m \<Longrightarrow> \<not> coprime a m \<Longrightarrow> \<exists>e. inv m a = Inl e"
begin

lemma inv_returns_iff: "1 < m \<Longrightarrow> (\<exists>x. inv m a = Inr x) \<longleftrightarrow> coprime a m"
  using inv_ok inv_err by (metis Inl_Inr_False)

lemma inv_Inr:
  assumes "1 < m" and "inv m a = Inr x"
  shows "coprime a m" and "0 \<le> x" and "x < m" and "(a * x) mod m = 1"
proof -
  show c: "coprime a m" using inv_returns_iff [OF assms(1)] assms(2) by blast
  show "0 \<le> x" "x < m" "(a * x) mod m = 1"
    using inv_ok [OF assms(1) c] assms(2) by auto
qed

text \<open>Dividing and multiplying back; the form in which the signing equations use it.\<close>

lemma inv_mult_cancel:
  assumes "1 < m" and "inv m a = Inr x"
  shows "(a * (x * b)) mod m = b mod m"
proof -
  have "(a * (x * b)) mod m = ((a * x) mod m * b) mod m"
    by (simp add: mod_mult_left_eq mult.assoc)
  with inv_Inr(4) [OF assms] show ?thesis by simp
qed

lemma inv_unique:
  assumes "1 < m" and "inv m a = Inr x" and "(a * y) mod m = 1" and "0 \<le> y" and "y < m"
  shows "y = x"
proof -
  have "y mod m = x mod m"
    by (rule mod_mult_cancel [of a]) (use inv_Inr [OF assms(1,2)] assms(3) in auto)
  with inv_Inr [OF assms(1,2)] assms(4,5) show ?thesis by (simp add: mod_pos_pos_trivial)
qed

lemma inv_prime:
  assumes "is_prime m" and "\<not> m dvd a"
  shows "\<exists>x. inv m a = Inr x"
  using inv_returns_iff [OF is_prime_gt1 [OF assms(1)]] is_prime_coprime [OF assms]
  by (simp add: coprime_commute)

end

interpretation paillier_inv: modular_inverse "\<lambda>m a. modInverse a m"
  by unfold_locales (auto intro: modInverse_ok simp: modInverse_err)

interpretation ord_inv: modular_inverse modInverseOrder
  by unfold_locales (auto intro: modInverseOrder_ok simp: modInverseOrder_err)

lemma inverses_agree:
  assumes "1 < m"
  shows "modInverse a m = Inr x \<longleftrightarrow> modInverseOrder m a = Inr x"
  by (metis assms ord_inv.inv_Inr ord_inv.inv_returns_iff ord_inv.inv_unique
      paillier_inv.inv_Inr paillier_inv.inv_returns_iff)

subsection \<open>Properties\<close>

text \<open>\<open>modPow\<close> is exponentiation modulo \<open>m\<close> on every branch: square-and-multiply returns
  \<open>b\<^sup>e mod m\<close> in \<open>[0, m)\<close> for every base (negative ones included) and every \<open>e \<ge> 0\<close>, modulus 1
  gives 0, and a negative exponent throws.\<close>

theorem modPow_correct:
  assumes "1 \<le> m"
  shows "modPow b e m =
    (if m = 1 then Inr 0
     else if e < 0 then Inl (Error ''Negative exponents not supported in modPow'')
     else Inr (b ^ nat e mod m))"
  using assms modPow_eq [of m e b] by (auto simp: modPow_def)

theorem modPow_correct_witness: "modPow (- 3) 5 7 = Inr ((- 3) ^ 5 mod 7)"
  using modPow_correct [of 7 "- 3" 5] by simp

text \<open>The two modular inverses, the recursive Bezout routine of \<open>paillier.ts\<close> and the iterative
  one of \<open>secp256k1.ts\<close>, are the same function: on an argument coprime to the modulus both
  return the one inverse in range, on anything else both throw.\<close>

theorem modular_inverses_agree:
  assumes "1 < m"
  shows "if coprime a m
    then \<exists>x. modInverse a m = Inr x \<and> modInverseOrder m a = Inr x \<and> 0 \<le> x \<and> x < m
           \<and> (a * x) mod m = 1
    else (\<exists>e. modInverse a m = Inl e) \<and> (\<exists>e. modInverseOrder m a = Inl e)"
proof (cases "coprime a m")
  case True
  from paillier_inv.inv_ok [OF assms True] inverses_agree [OF assms] True show ?thesis by auto
next
  case False
  with paillier_inv.inv_err [OF assms] ord_inv.inv_err [OF assms] show ?thesis by simp
qed

theorem modular_inverses_agree_witness:
  "modInverse 3 7 = modInverseOrder 7 3 \<and> (\<exists>e. modInverse 14 7 = Inl e)"
proof -
  have c: "coprime (3 :: int) 7" "\<not> coprime (14 :: int) 7" by code_simp+
  show ?thesis
    using modular_inverses_agree [of 7 3] modular_inverses_agree [of 7 14] c by auto
qed

end
