(* ===== verification/SecureRandom.thy ===== *)
theory SecureRandom
  imports Numbers
begin

section \<open>The CSPRNG\<close>

text \<open>
  \<^verbatim>\<open>src/lib/security/secure_random.ts\<close>. The operating system's random source is the tape:
  the bytes it will still deliver. A computation that draws is a function of the tape; it
  returns \<open>None\<close> when it has not returned after consuming everything on the tape, so a tape
  bounds how far an unbounded rejection loop is followed, and a loop that never accepts is
  \<open>None\<close> on every tape. \<open>crypto.getRandomValues\<close> is taken to exist (Node 20), so the last
  \<open>throw\<close> of \<open>secureRandomBytes\<close> is not reached.
\<close>

type_synonym tape = bytes
type_synonym 'a rnd = "tape \<Rightarrow> ('a result \<times> tape) option"

definition rnd_return :: "'a \<Rightarrow> 'a rnd" where
  "rnd_return x = (\<lambda>t. Some (Inr x, t))"

definition rnd_throw :: "js_error \<Rightarrow> 'a rnd" where
  "rnd_throw e = (\<lambda>t. Some (Inl e, t))"

definition rnd_lift :: "'a result \<Rightarrow> 'a rnd" where
  "rnd_lift r = (\<lambda>t. Some (r, t))"

definition rnd_bind :: "'a rnd \<Rightarrow> ('a \<Rightarrow> 'b rnd) \<Rightarrow> 'b rnd" where
  "rnd_bind m f = (\<lambda>t. case m t of
       None \<Rightarrow> None
     | Some (Inl e, t') \<Rightarrow> Some (Inl e, t')
     | Some (Inr x, t') \<Rightarrow> f x t')"

lemma rnd_return_iff [result_simps]: "rnd_return x t = Some (r, t') \<longleftrightarrow> r = Inr x \<and> t' = t"
  by (auto simp: rnd_return_def)

lemma rnd_throw_iff [result_simps]: "rnd_throw e t = Some (r, t') \<longleftrightarrow> r = Inl e \<and> t' = t"
  by (auto simp: rnd_throw_def)

lemma rnd_lift_iff [result_simps]: "rnd_lift m t = Some (r, t') \<longleftrightarrow> r = m \<and> t' = t"
  by (auto simp: rnd_lift_def)

lemma rnd_bind_Inr_iff [result_simps]:
  "rnd_bind m f t = Some (Inr y, t'') \<longleftrightarrow>
     (\<exists>x t'. m t = Some (Inr x, t') \<and> f x t' = Some (Inr y, t''))"
  by (auto simp: rnd_bind_def split: option.splits sum.splits)

lemma rnd_bind_Inl_iff [result_simps]:
  "rnd_bind m f t = Some (Inl e, t'') \<longleftrightarrow>
     m t = Some (Inl e, t'') \<or> (\<exists>x t'. m t = Some (Inr x, t') \<and> f x t' = Some (Inl e, t''))"
  by (auto simp: rnd_bind_def split: option.splits sum.splits)

lemma rnd_bind_step: "m t = Some (Inr x, t') \<Longrightarrow> rnd_bind m f t = f x t'"
  by (simp add: rnd_bind_def)

subsection \<open>Operations\<close>

definition secureRandomBytes :: "int \<Rightarrow> bytes rnd" where
  "secureRandomBytes len = (\<lambda>t.
     if len \<le> 0 \<or> 65536 < len then Some (Inl (CSPRNGError ''Invalid length''), t)
     else if length t < nat len then None
     else Some (Inr (take (nat len) t), drop (nat len) t))"

text \<open>\<open>max.toString(2).length\<close>\<close>

fun bitLength :: "int \<Rightarrow> nat" where
  "bitLength n = (if n < 2 then 1 else Suc (bitLength (n div 2)))"

declare bitLength.simps [simp del]

definition drawLength :: "int \<Rightarrow> int" where
  "drawLength mx = (int (bitLength mx) + 7) div 8 + 8"

function randomBigInt_loop :: "int \<Rightarrow> int \<Rightarrow> int rnd" where
  "randomBigInt_loop len mx t =
     (case secureRandomBytes len t of
        None \<Rightarrow> None
      | Some (Inl e, t') \<Rightarrow> Some (Inl e, t')
      | Some (Inr bs, t') \<Rightarrow>
          if be_int bs < mx then Some (Inr (be_int bs), t') else randomBigInt_loop len mx t')"
  by pat_completeness auto
termination
  by (relation "measure (\<lambda>(len, mx, t). length t)")
    (auto simp: secureRandomBytes_def split: if_splits)

definition randomBigInt :: "int \<Rightarrow> int rnd" where
  "randomBigInt mx =
     (if mx \<le> 0 then rnd_throw (CSPRNGError ''max must be positive'')
      else randomBigInt_loop (drawLength mx) mx)"

definition randomBigIntRange :: "int \<Rightarrow> int \<Rightarrow> int rnd" where
  "randomBigIntRange mn mx =
     (if mn \<ge> mx then rnd_throw (CSPRNGError ''min must be less than max'')
      else rnd_bind (randomBigInt (mx - mn)) (\<lambda>x. rnd_return (mn + x)))"

declare randomBigInt_loop.simps [simp del]

lemma randomBigInt_loop_step:
  assumes "0 < len" and "len \<le> 65536" and "length b = nat len"
  shows "randomBigInt_loop len mx (b @ t) =
     (if be_int b < mx then Some (Inr (be_int b), t) else randomBigInt_loop len mx t)"
  using assms by (subst randomBigInt_loop.simps) (auto simp: secureRandomBytes_def)

lemma randomBigInt_loop_short:
  "0 < len \<Longrightarrow> len \<le> 65536 \<Longrightarrow> length t < nat len \<Longrightarrow> randomBigInt_loop len mx t = None"
  by (subst randomBigInt_loop.simps) (auto simp: secureRandomBytes_def)

lemma randomBigInt_loop_bad_len:
  "len \<le> 0 \<or> 65536 < len \<Longrightarrow>
   randomBigInt_loop len mx t = Some (Inl (CSPRNGError ''Invalid length''), t)"
  by (subst randomBigInt_loop.simps) (auto simp: secureRandomBytes_def)

text \<open>What a returning draw has consumed: some rejected blocks, then the accepted one.\<close>

definition drawn :: "nat \<Rightarrow> int \<Rightarrow> tape \<Rightarrow> int \<Rightarrow> tape \<Rightarrow> bool" where
  "drawn n mx t x t' \<longleftrightarrow> (\<exists>rejected b. t = concat rejected @ b @ t'
     \<and> (\<forall>c \<in> set rejected. length c = n \<and> mx \<le> be_int c)
     \<and> length b = n \<and> be_int b = x \<and> x < mx)"

lemma drawn_Cons: "length c = n \<Longrightarrow> mx \<le> be_int c \<Longrightarrow> drawn n mx t x t' \<Longrightarrow> drawn n mx (c @ t) x t'"
  unfolding drawn_def by (metis append.assoc concat.simps(2) set_ConsD)

lemma randomBigInt_loop_rejects:
  assumes "0 < len" and "len \<le> 65536"
  shows "(\<forall>c \<in> set blocks. length c = nat len \<and> mx \<le> be_int c) \<Longrightarrow>
    randomBigInt_loop len mx (concat blocks @ t) = randomBigInt_loop len mx t"
  by (induction blocks) (auto simp: randomBigInt_loop_step [OF assms])

lemma randomBigInt_loop_drawn:
  assumes "0 < len" and "len \<le> 65536"
  shows "randomBigInt_loop len mx t = Some (Inr x, t') \<Longrightarrow> drawn (nat len) mx t x t'"
proof (induction t rule: length_induct)
  case (1 t)
  show ?case
  proof (cases "length t < nat len")
    case True
    with "1.prems" assms show ?thesis by (simp add: randomBigInt_loop_short)
  next
    case False
    let ?b = "take (nat len) t" and ?r = "drop (nat len) t"
    have b: "length ?b = nat len" using False by simp
    have step: "(if be_int ?b < mx then Some (Inr (be_int ?b), ?r) else randomBigInt_loop len mx ?r)
        = Some (Inr x, t')"
      using "1.prems" randomBigInt_loop_step [OF assms b, of mx ?r] by simp
    show ?thesis
    proof (cases "be_int ?b < mx")
      case True
      with step have "be_int ?b = x" "?r = t'"
        by auto
      with True b show ?thesis
        unfolding drawn_def by (intro exI [of _ "[]"] exI [of _ ?b]) auto
    next
      case nacc: False
      with step have "randomBigInt_loop len mx ?r = Some (Inr x, t')"
        by simp
      moreover have "length ?r < length t" using False assms by auto
      ultimately have "drawn (nat len) mx ?r x t'" using "1.IH" by blast
      with b nacc have "drawn (nat len) mx (?b @ ?r) x t'" by (intro drawn_Cons) auto
      then show ?thesis by simp
    qed
  qed
qed

lemma drawn_shorter: "drawn n mx t x t' \<Longrightarrow> 0 < n \<Longrightarrow> length t' < length t"
  by (auto simp: drawn_def)

lemma drawn_range: "drawn n mx t x t' \<Longrightarrow> 0 \<le> x \<and> x < mx"
  by (auto simp: drawn_def)

lemma drawLength_pos: "0 < drawLength mx"
  by (simp add: drawLength_def)

lemma randomBigInt_drawn:
  "randomBigInt mx t = Some (Inr x, t') \<Longrightarrow>
     0 < mx \<and> drawLength mx \<le> 65536 \<and> drawn (nat (drawLength mx)) mx t x t'"
  using randomBigInt_loop_bad_len [of "drawLength mx" mx t] drawLength_pos [of mx]
  by (cases "65536 < drawLength mx")
    (auto simp: randomBigInt_def result_simps split: if_splits intro: randomBigInt_loop_drawn)

lemma drawn_randomBigInt:
  assumes "0 < mx" and "drawLength mx \<le> 65536" and "drawn (nat (drawLength mx)) mx t x t'"
  shows "randomBigInt mx t = Some (Inr x, t')"
  using assms drawLength_pos [of mx]
  by (auto simp: randomBigInt_def drawn_def randomBigInt_loop_rejects randomBigInt_loop_step)

lemma randomBigInt_shorter: "randomBigInt mx t = Some (Inr x, t') \<Longrightarrow> length t' < length t"
  using randomBigInt_drawn [of mx t x t'] drawLength_pos [of mx] by (auto dest: drawn_shorter)

function randomScalar_loop :: "int \<Rightarrow> int rnd" where
  "randomScalar_loop q t =
     (case randomBigInt q t of
        None \<Rightarrow> None
      | Some (Inl e, t') \<Rightarrow> Some (Inl e, t')
      | Some (Inr s, t') \<Rightarrow> if s = 0 then randomScalar_loop q t' else Some (Inr s, t'))"
  by pat_completeness auto
termination
  by (relation "measure (\<lambda>(q, t). length t)") (auto dest: randomBigInt_shorter)

definition randomScalar :: "int \<Rightarrow> int rnd" where
  "randomScalar q =
     (if q \<le> 1 then rnd_throw (CSPRNGError ''curveOrder must be > 1'')
      else randomScalar_loop q)"

declare randomScalar_loop.simps [simp del]

subsection \<open>Ranges\<close>

lemma randomBigInt_range: "randomBigInt mx t = Some (Inr x, t') \<Longrightarrow> 0 \<le> x \<and> x < mx"
  by (auto dest!: randomBigInt_drawn dest: drawn_range)

lemma randomBigIntRange_range:
  "randomBigIntRange mn mx t = Some (Inr x, t') \<Longrightarrow> mn \<le> x \<and> x < mx"
  by (auto simp: randomBigIntRange_def result_simps split: if_splits dest!: randomBigInt_range)

lemma randomScalar_loop_range:
  "randomScalar_loop q t = Some (Inr x, t') \<Longrightarrow> 0 < x \<and> x < q \<and> length t' < length t"
proof (induction t arbitrary: x rule: length_induct)
  case (1 t)
  from "1.prems" obtain s u where d: "randomBigInt q t = Some (Inr s, u)"
    by (subst (asm) randomScalar_loop.simps) (auto split: option.splits sum.splits prod.splits)
  have u: "length u < length t" by (rule randomBigInt_shorter [OF d])
  from "1.prems" d have "s = 0 \<and> randomScalar_loop q u = Some (Inr x, t') \<or> s \<noteq> 0 \<and> s = x \<and> u = t'"
    by (subst (asm) randomScalar_loop.simps) (auto split: if_splits)
  with "1.IH" u randomBigInt_range [OF d] show ?case by fastforce
qed

lemma randomScalar_range:
  "randomScalar q t = Some (Inr x, t') \<Longrightarrow> 1 < q \<and> 0 < x \<and> x < q \<and> length t' < length t"
  by (auto simp: randomScalar_def result_simps split: if_splits dest: randomScalar_loop_range)

lemma randomScalar_draw:
  "1 < q \<Longrightarrow> randomBigInt q t = Some (Inr x, t') \<Longrightarrow> x \<noteq> 0 \<Longrightarrow> randomScalar q t = Some (Inr x, t')"
  by (simp add: randomScalar_def randomScalar_loop.simps)

subsection \<open>The size of a draw\<close>

lemma bitLength_bound: "n < 2 ^ bitLength n"
proof (induction n rule: bitLength.induct)
  case (1 n)
  show ?case
  proof (cases "n < 2")
    case True
    then show ?thesis by (subst bitLength.simps) simp
  next
    case False
    with 1 have "n div 2 < 2 ^ bitLength (n div 2)" by simp
    with False show ?thesis by (subst bitLength.simps) simp
  qed
qed

text \<open>The eight extra bytes are the leading ones, and \<open>mx\<close> needs none of them.\<close>

lemma max_below_draw: "mx < 256 ^ (nat (drawLength mx) - 8)"
proof -
  let ?k = "nat ((int (bitLength mx) + 7) div 8)"
  have k: "nat (drawLength mx) - 8 = ?k" by (simp add: drawLength_def)
  have "bitLength mx \<le> 8 * ?k" by linarith
  then have "(2 :: int) ^ bitLength mx \<le> 2 ^ (8 * ?k)" by (rule power_increasing) simp
  also have "\<dots> = 256 ^ ?k" by (simp add: power_mult)
  finally show ?thesis using bitLength_bound [of mx] k by simp
qed

lemma be_int_prefix_zero:
  assumes "be_int bs < 256 ^ (length bs - k)" and "k \<le> length bs"
  shows "be_int (take k bs) = 0"
proof (rule ccontr)
  assume "be_int (take k bs) \<noteq> 0"
  with be_int_nonneg [of "take k bs"] have "1 \<le> be_int (take k bs)" by linarith
  then have "1 * 256 ^ (length bs - k) \<le> be_int (take k bs) * 256 ^ (length bs - k)"
    by (intro mult_right_mono) auto
  also have "\<dots> \<le> be_int bs"
    using be_int_append [of "take k bs" "drop k bs"] assms(2) by simp
  finally show False using assms(1) by simp
qed

lemma be_int_zero_iff: "be_int bs = 0 \<longleftrightarrow> (\<forall>b \<in> set bs. b = 0)"
proof (induction bs rule: rev_induct)
  case Nil
  then show ?case by simp
next
  case (snoc b bs)
  have "256 * be_int bs + uint b = 0 \<longleftrightarrow> be_int bs = 0 \<and> uint b = 0"
    using be_int_nonneg [of bs] uint_byte_bounds [of b] by linarith
  with snoc show ?case by (auto simp: be_int_snoc uint_0_iff)
qed

subsection \<open>Properties\<close>

lemma drawLength_ge9: "9 \<le> nat (drawLength mx)"
proof -
  have "1 \<le> bitLength mx" by (subst bitLength.simps) auto
  then show ?thesis unfolding drawLength_def by linarith
qed

lemma nonzero_prefix_rejected:
  assumes "length c = nat (drawLength mx)" and "\<exists>b \<in> set (take 8 c). b \<noteq> 0"
  shows "mx \<le> be_int c"
proof (rule ccontr)
  assume "\<not> mx \<le> be_int c"
  with max_below_draw [of mx] assms(1) have "be_int c < 256 ^ (length c - 8)" by simp
  then have "be_int (take 8 c) = 0"
    using drawLength_ge9 [of mx] assms(1) by (intro be_int_prefix_zero) auto
  with assms(2) show False by (simp add: be_int_zero_iff)
qed

lemma drawn_bad_prefix:
  assumes "\<forall>c \<in> set cs. length c = n \<and> mx \<le> be_int c" and "0 < n"
  shows "\<not> drawn n mx (concat cs) x t'"
  using assms(1)
proof (induction cs)
  case Nil
  then show ?case using assms(2) by (auto simp: drawn_def)
next
  case (Cons c cs)
  show ?case
  proof
    assume "drawn n mx (concat (c # cs)) x t'"
    then obtain rs b where d: "c @ concat cs = concat rs @ b @ t'"
      "\<forall>r \<in> set rs. length r = n \<and> mx \<le> be_int r" "length b = n" "be_int b = x" "x < mx"
      by (auto simp: drawn_def)
    show False
    proof (cases rs)
      case Nil
      with d Cons.prems show False by auto
    next
      case (Cons r rs')
      with d Cons.prems have "concat cs = concat rs' @ b @ t'" by auto
      with d Cons have "drawn n mx (concat cs) x t'" unfolding drawn_def by auto
      with Cons.IH Cons.prems show False by auto
    qed
  qed
qed

lemma randomBigInt_no_error:
  assumes "0 < mx" and "drawLength mx \<le> 65536"
  shows "randomBigInt mx t \<noteq> Some (Inl e, t')"
proof -
  have "randomBigInt_loop (drawLength mx) mx t \<noteq> Some (Inl e, t')"
  proof (induction t rule: length_induct)
    case (1 t)
    let ?n = "nat (drawLength mx)"
    show ?case
    proof (cases "length t < ?n")
      case True
      then show ?thesis using assms drawLength_pos by (simp add: randomBigInt_loop_short)
    next
      case False
      then have "length (drop ?n t) < length t" using drawLength_pos [of mx] by auto
      with 1 have "randomBigInt_loop (drawLength mx) mx (drop ?n t) \<noteq> Some (Inl e, t')" by blast
      with randomBigInt_loop_step [OF drawLength_pos assms(2), of "take ?n t" mx "drop ?n t"] False
      show ?thesis by auto
    qed
  qed
  with assms show ?thesis by (simp add: randomBigInt_def)
qed

text \<open>C36: \<open>randomBigInt\<close> is uniform: every value below \<open>max\<close> is returned for exactly one
  accepted draw, so no value is more likely than another (no modulo bias).\<close>

theorem randomBigInt_uniform:
  assumes "0 < mx" and "drawLength mx \<le> 65536" and "0 \<le> x" and "x < mx"
  shows "\<exists>!b. length b = nat (drawLength mx) \<and> randomBigInt mx (b @ t) = Some (Inr x, t)"
proof
  let ?n = "nat (drawLength mx)" and ?b = "int_be (nat (drawLength mx)) x"
  have "(256 :: int) ^ (?n - 8) \<le> 256 ^ ?n" by (rule power_increasing) auto
  then have "x < 256 ^ ?n" using assms(4) max_below_draw [of mx] by linarith
  then have "be_int ?b = x" using assms(3) by (simp add: be_int_int_be mod_pos_pos_trivial)
  then have "drawn ?n mx (?b @ t) x t"
    using assms(4) unfolding drawn_def by (intro exI [of _ "[]"] exI [of _ ?b]) auto
  then show "length ?b = ?n \<and> randomBigInt mx (?b @ t) = Some (Inr x, t)"
    using drawn_randomBigInt [OF assms(1,2)] by simp
  fix b
  assume b: "length b = ?n \<and> randomBigInt mx (b @ t) = Some (Inr x, t)"
  then have "drawn ?n mx (b @ t) x t" using randomBigInt_drawn by blast
  then obtain rs c where d: "b @ t = concat rs @ c @ t" "length c = ?n" "be_int c = x"
    by (auto simp: drawn_def)
  then have "rs = [] \<or> concat rs = []" using b by (metis append.assoc append_same_eq
      append_self_conv2 length_append length_0_conv add_cancel_left_left)
  then have "b = c" using d by auto
  with d \<open>be_int ?b = x\<close> show "b = ?b" by (metis be_int_inject length_int_be)
qed

theorem randomBigInt_uniform_witness:
  "\<exists>!b. length b = nat (drawLength 7) \<and> randomBigInt 7 (b @ []) = Some (Inr 3, [])"
proof (rule randomBigInt_uniform)
  show "drawLength 7 \<le> 65536" by (simp add: drawLength_def bitLength.simps)
qed simp_all

text \<open>C12: A draw is accepted only when its first eight bytes are all zero, because the loop
  compares the whole \<open>byteLength + 8\<close>-byte integer with a bound that fits in \<open>byteLength\<close>
  bytes: on random output made of blocks each with a nonzero byte among its first eight,
  \<open>randomBigInt\<close> never returns, however many blocks it draws.\<close>

theorem randomBigInt_hangs:
  assumes "0 < mx" and "drawLength mx \<le> 65536"
    and "\<forall>c \<in> set blocks. length c = nat (drawLength mx) \<and> (\<exists>b \<in> set (take 8 c). b \<noteq> 0)"
  shows "randomBigInt mx (concat blocks) = None"
proof (cases "randomBigInt mx (concat blocks)")
  case (Some p)
  obtain r t' where p: "p = (r, t')" by force
  have bad: "\<forall>c \<in> set blocks. length c = nat (drawLength mx) \<and> mx \<le> be_int c"
    using assms(3) nonzero_prefix_rejected by blast
  show ?thesis
  proof (cases r)
    case (Inl e)
    with Some p randomBigInt_no_error [OF assms(1,2)] show ?thesis by blast
  next
    case (Inr x)
    with Some p have "drawn (nat (drawLength mx)) mx (concat blocks) x t'"
      using randomBigInt_drawn by blast
    with drawn_bad_prefix [OF bad] drawLength_pos [of mx] show ?thesis by simp
  qed
qed

theorem randomBigInt_hangs_witness:
  "randomBigInt 7 (concat (replicate 4 [0, 0, 0, 1, 0, 0, 0, 0, 5])) = None"
proof (rule randomBigInt_hangs)
  have d: "drawLength 7 = 9" by (simp add: drawLength_def bitLength.simps)
  show "drawLength 7 \<le> 65536" by (simp add: d)
  show "\<forall>c \<in> set (replicate 4 [0, 0, 0, 1, 0, 0, 0, 0, 5 :: byte]).
      length c = nat (drawLength 7) \<and> (\<exists>b \<in> set (take 8 c). b \<noteq> 0)"
    by (simp add: d)
qed simp

end
