(* ===== verification/Paillier.thy ===== *)
theory Paillier
  imports ModArith SecureRandom
begin

unbundle bit_operations_syntax

section \<open>Paillier homomorphic encryption\<close>

text \<open>
  \<^verbatim>\<open>src/lib/crypto/paillier.ts\<close>: prime search (trial division, Miller-Rabin), key generation,
  encryption, decryption and the two homomorphic operations.

  \<open>isProbablePrime\<close> calls \<open>randomBigIntRange\<close>, which the file does not import. Which function
  an identifier denotes is the parameter \<open>binding\<close>: \<open>NotImported\<close> is the module as written,
  where evaluating the identifier throws a \<open>ReferenceError\<close>; \<open>Imported\<close> is the module with the
  missing import, which is what the lemmas on the algorithm are about.
\<close>

record paillier_public =
  pk_n :: int
  pk_g :: int
  pk_nSquared :: int

record paillier_private =
  sk_lambda :: int
  sk_mu :: int
  sk_p :: int
  sk_q :: int

record paillier_keypair =
  kp_public :: paillier_public
  kp_private :: paillier_private

definition SMALL_PRIMES :: "int list" where
  "SMALL_PRIMES = [
     2, 3, 5, 7, 11, 13, 17, 19, 23, 29, 31, 37, 41, 43, 47,
     53, 59, 61, 67, 71, 73, 79, 83, 89, 97, 101, 103, 107, 109,
     113, 127, 131, 137, 139, 149, 151, 157, 163, 167, 173, 179,
     181, 191, 193, 197, 199, 211, 223, 227, 229, 233, 239, 241,
     251, 257, 263, 269, 271, 277, 281, 283, 293, 307, 311, 313,
     317, 331, 337, 347, 349, 353, 359, 367, 373, 379, 383, 389,
     397, 401, 409, 419, 421, 431, 433, 439, 443, 449, 457, 461,
     463, 467, 479, 487, 491, 499, 503, 509, 521, 523, 541]"

subsection \<open>Encryption and decryption\<close>

text \<open>The \<open>do ... while (gcd(r, n) !== 1n)\<close> loop: the counter is tested right after the draw,
  so draw number 1001 throws whatever it is.\<close>

fun encrypt_draw :: "nat \<Rightarrow> int \<Rightarrow> int rnd" where
  "encrypt_draw left n =
     rnd_bind (randomBigInt (n - 2)) (\<lambda>x.
       (case left of
          0 \<Rightarrow> rnd_throw (Error ''Failed to find valid random r for Paillier encryption'')
        | Suc left' \<Rightarrow>
            if js_gcd (x + 2) n \<noteq> 1 then encrypt_draw left' n else rnd_return (x + 2)))"

declare encrypt_draw.simps [simp del]

definition paillier_combine :: "paillier_public \<Rightarrow> int \<Rightarrow> int \<Rightarrow> int result" where
  "paillier_combine pk m r =
     rbind (modPow (pk_g pk) m (pk_nSquared pk)) (\<lambda>gm.
     rbind (modPow r (pk_n pk) (pk_nSquared pk)) (\<lambda>rn.
     Inr ((gm * rn) smod pk_nSquared pk)))"

definition encryptPaillier :: "paillier_public \<Rightarrow> int \<Rightarrow> int rnd" where
  "encryptPaillier pk m =
     (if m < 0 \<or> m \<ge> pk_n pk then rnd_throw (Error ''Plaintext must be in [0, n-1]'')
      else rnd_bind (encrypt_draw 1000 (pk_n pk)) (\<lambda>r. rnd_lift (paillier_combine pk m r)))"

definition decryptPaillier :: "paillier_private \<Rightarrow> paillier_public \<Rightarrow> int \<Rightarrow> int result" where
  "decryptPaillier sk pk c =
     (if c \<le> 0 \<or> c \<ge> pk_nSquared pk then Inl (Error ''Ciphertext must be in (0, n^2)'')
      else rbind (modPow c (sk_lambda sk) (pk_nSquared pk)) (\<lambda>cLambda.
        if pk_n pk = 0 then Inl (RangeError ''Division by zero'')
        else let l = (cLambda - 1) sdiv pk_n pk in Inr ((l * sk_mu sk) smod pk_n pk)))"

definition addEncrypted :: "paillier_public \<Rightarrow> int \<Rightarrow> int \<Rightarrow> int result" where
  "addEncrypted pk c1 c2 =
     (if pk_nSquared pk = 0 then Inl (RangeError ''Division by zero'')
      else Inr ((c1 * c2) smod pk_nSquared pk))"

definition multiplyEncryptedByScalar :: "paillier_public \<Rightarrow> int \<Rightarrow> int \<Rightarrow> int result" where
  "multiplyEncryptedByScalar pk c k = modPow c k (pk_nSquared pk)"

subsection \<open>Prime search and key generation\<close>

datatype binding = Imported | NotImported

definition paillier_randomBigIntRange :: "binding \<Rightarrow> int \<Rightarrow> int \<Rightarrow> int rnd" where
  "paillier_randomBigIntRange bd mn mx = (case bd of
      Imported \<Rightarrow> randomBigIntRange mn mx
    | NotImported \<Rightarrow> rnd_throw (ReferenceError ''randomBigIntRange is not defined''))"

text \<open>\<open>n - 1 = 2^r * d\<close>; the loop is entered with \<open>n - 1 > 0\<close>, and stops at an odd \<open>d\<close>.\<close>

function split_twos :: "nat \<Rightarrow> int \<Rightarrow> nat \<times> int" where
  "split_twos r d = (if 0 < d \<and> d smod 2 = 0 then split_twos (Suc r) (d sdiv 2) else (r, d))"
  by pat_completeness auto
termination
  by (relation "measure (\<lambda>(r, d). nat d)") (auto simp: sdiv_nonneg)

declare split_twos.simps [simp del]

text \<open>The inner loop: \<open>True\<close> when no square reached \<open>n - 1\<close>.\<close>

fun mr_squares :: "int \<Rightarrow> int \<Rightarrow> nat \<Rightarrow> bool result" where
  "mr_squares n x 0 = Inr True"
| "mr_squares n x (Suc j) =
     rbind (modPow x 2 n) (\<lambda>y. if y = n - 1 then Inr False else mr_squares n y j)"

fun mr_rounds :: "binding \<Rightarrow> int \<Rightarrow> nat \<Rightarrow> int \<Rightarrow> nat \<Rightarrow> bool rnd" where
  "mr_rounds bd n r d 0 = rnd_return True"
| "mr_rounds bd n r d (Suc k) =
     rnd_bind (paillier_randomBigIntRange bd 2 (n - 2)) (\<lambda>a.
     rnd_bind (rnd_lift (modPow a d n)) (\<lambda>x.
       if x = 1 \<or> x = n - 1 then mr_rounds bd n r d k
       else rnd_bind (rnd_lift (mr_squares n x (r - 1))) (\<lambda>composite.
         if composite then rnd_return False else mr_rounds bd n r d k)))"

definition isProbablePrime :: "binding \<Rightarrow> int \<Rightarrow> nat \<Rightarrow> bool rnd" where
  "isProbablePrime bd n k =
     (if n < 2 then rnd_return False
      else if n = 2 \<or> n = 3 then rnd_return True
      else if n smod 2 = 0 then rnd_return False
      else (case split_twos 0 (n - 1) of (r, d) \<Rightarrow> mr_rounds bd n r d k))"

text \<open>A computation that only consumes the tape.\<close>

definition consuming :: "'a rnd \<Rightarrow> bool" where
  "consuming m \<longleftrightarrow> (\<forall>t r t'. m t = Some (r, t') \<longrightarrow> length t' \<le> length t)"

lemma consuming_basic: "consuming (rnd_return x)" "consuming (rnd_throw e)" "consuming (rnd_lift r)"
  by (auto simp: consuming_def result_simps)

lemma consuming_bind: "consuming m \<Longrightarrow> (\<And>x. consuming (f x)) \<Longrightarrow> consuming (rnd_bind m f)"
  unfolding consuming_def rnd_bind_def
  by (fastforce split: option.splits sum.splits intro: order_trans)

lemma consuming_randomBigInt: "consuming (randomBigInt mx)"
  unfolding consuming_def
proof (intro allI impI)
  fix t r t' assume d: "randomBigInt mx t = Some (r, t')"
  show "length t' \<le> length t"
  proof (cases r)
    case (Inr x)
    with d show ?thesis using randomBigInt_shorter by fastforce
  next
    case (Inl e)
    with d show ?thesis
      using randomBigInt_no_error [of mx t e t'] randomBigInt_loop_bad_len [of "drawLength mx" mx t]
      by (cases "0 < mx"; cases "drawLength mx \<le> 65536") (auto simp: randomBigInt_def result_simps)
  qed
qed

lemmas consuming_intros = consuming_basic consuming_bind consuming_randomBigInt

lemma consuming_isProbablePrime: "consuming (isProbablePrime bd n k)"
proof -
  have range: "consuming (paillier_randomBigIntRange bd mn mx)" for mn mx
    by (auto simp: paillier_randomBigIntRange_def randomBigIntRange_def
        intro!: consuming_intros split: binding.splits)
  have "consuming (mr_rounds bd n r d k)" for r d
    by (induction k) (auto intro!: consuming_intros range)
  then show ?thesis
    by (auto simp: isProbablePrime_def intro!: consuming_intros split: prod.splits)
qed

function generateSecurePrime_loop :: "binding \<Rightarrow> nat \<Rightarrow> int rnd" where
  "generateSecurePrime_loop bd bits t =
     (case randomBigInt (push_bit (bits - 1) 1) t of
        None \<Rightarrow> None
      | Some (Inl e, t1) \<Rightarrow> Some (Inl e, t1)
      | Some (Inr x, t1) \<Rightarrow>
          (let candidate = x OR 1 OR push_bit (bits - 1) 1 in
           if list_ex (\<lambda>p. candidate smod p = 0) SMALL_PRIMES
           then generateSecurePrime_loop bd bits t1
           else (case isProbablePrime bd candidate 40 t1 of
                   None \<Rightarrow> None
                 | Some (Inl e, t2) \<Rightarrow> Some (Inl e, t2)
                 | Some (Inr prime, t2) \<Rightarrow>
                     if prime then Some (Inr candidate, t2)
                     else generateSecurePrime_loop bd bits t2)))"
  by pat_completeness auto
termination
proof (relation "measure (\<lambda>(bd, bits, t). length t)", goal_cases)
  case 1
  show ?case by simp
next
  case (2 bd bits t a1 r1 t1 x candidate)
  then show ?case using randomBigInt_shorter by auto
next
  case (3 bd bits t a1 r1 t1 x candidate a2 r2 t2 prime)
  then have "length t1 < length t" "length t2 \<le> length t1"
    using randomBigInt_shorter consuming_isProbablePrime unfolding consuming_def by blast+
  then show ?case by simp
qed

declare generateSecurePrime_loop.simps [simp del]

definition generateSecurePrime :: "binding \<Rightarrow> nat \<Rightarrow> int rnd" where
  "generateSecurePrime bd bits =
     (if bits < 512 then rnd_throw (Error ''Prime bits must be at least 512 for security'')
      else generateSecurePrime_loop bd bits)"

lemma generateSecurePrime_loop_cases:
  assumes "generateSecurePrime_loop bd bits t = Some (Inr c, t')"
  obtains x t1 where "randomBigInt (push_bit (bits - 1) 1) t = Some (Inr x, t1)"
    and "c = x OR 1 OR push_bit (bits - 1) 1"
    and "\<not> list_ex (\<lambda>p. c smod p = 0) SMALL_PRIMES"
    and "isProbablePrime bd c 40 t1 = Some (Inr True, t')"
  | t1 where "length t1 < length t" and "generateSecurePrime_loop bd bits t1 = Some (Inr c, t')"
proof -
  from assms obtain x t1 where d: "randomBigInt (push_bit (bits - 1) 1) t = Some (Inr x, t1)"
    by (subst (asm) generateSecurePrime_loop.simps)
      (auto split: option.splits sum.splits prod.splits)
  let ?c = "x OR 1 OR push_bit (bits - 1) 1"
  have t1: "length t1 < length t" using d by (rule randomBigInt_shorter)
  show thesis
  proof (cases "list_ex (\<lambda>p. ?c smod p = 0) SMALL_PRIMES")
    case True
    with assms d have "generateSecurePrime_loop bd bits t1 = Some (Inr c, t')"
      by (simp add: generateSecurePrime_loop.simps [of bd bits t] Let_def)
    with t1 show thesis by (rule that(2))
  next
    case False
    with assms d obtain b t2 where b: "isProbablePrime bd ?c 40 t1 = Some (Inr b, t2)"
      by (auto simp: generateSecurePrime_loop.simps [of bd bits t] Let_def
          split: option.splits sum.splits)
    then have "length t2 \<le> length t1" using consuming_isProbablePrime unfolding consuming_def by blast
    with t1 have t2: "length t2 < length t" by simp
    show thesis
    proof (cases b)
      case True
      with assms d b False have "c = ?c" "t2 = t'"
        by (auto simp: generateSecurePrime_loop.simps [of bd bits t] Let_def)
      with d False b True show thesis by (intro that(1)) auto
    next
      case nb: False
      with assms d b False have "generateSecurePrime_loop bd bits t2 = Some (Inr c, t')"
        by (simp add: generateSecurePrime_loop.simps [of bd bits t] Let_def)
      with t2 show thesis by (rule that(2))
    qed
  qed
qed

lemma generateSecurePrime_loop_shorter:
  "generateSecurePrime_loop bd bits t = Some (Inr c, t') \<Longrightarrow> length t' < length t"
proof (induction t rule: length_induct)
  case (1 t)
  from "1.prems" show ?case
  proof (cases rule: generateSecurePrime_loop_cases)
    case (1 x t1)
    then have "length t1 < length t" "length t' \<le> length t1"
      using randomBigInt_shorter consuming_isProbablePrime unfolding consuming_def by blast+
    then show ?thesis by simp
  next
    case (2 t1)
    with "1.IH" show ?thesis by fastforce
  qed
qed

lemma generateSecurePrime_shorter:
  "generateSecurePrime bd bits t = Some (Inr c, t') \<Longrightarrow> length t' < length t"
  by (auto simp: generateSecurePrime_def result_simps split: if_splits
      dest: generateSecurePrime_loop_shorter)

text \<open>\<open>do { q = ... } while (q === p || gcd(p - 1n, q - 1n) !== 2n)\<close>\<close>

function generate_q :: "binding \<Rightarrow> nat \<Rightarrow> int \<Rightarrow> int rnd" where
  "generate_q bd bits p t =
     (case generateSecurePrime bd bits t of
        None \<Rightarrow> None
      | Some (Inl e, t1) \<Rightarrow> Some (Inl e, t1)
      | Some (Inr q, t1) \<Rightarrow>
          if q = p \<or> js_gcd (p - 1) (q - 1) \<noteq> 2 then generate_q bd bits p t1
          else Some (Inr q, t1))"
  by pat_completeness auto
termination
  by (relation "measure (\<lambda>(bd, bits, p, t). length t)") (auto dest: generateSecurePrime_shorter)

declare generate_q.simps [simp del]

definition paillier_from_primes :: "int \<Rightarrow> int \<Rightarrow> paillier_keypair result" where
  "paillier_from_primes p q =
     (let n = p * q; nSquared = n * n; g = n + 1 in
      rbind (js_lcm (p - 1) (q - 1)) (\<lambda>lambda.
      rbind (modPow g lambda nSquared) (\<lambda>gLambda.
      let l = (gLambda - 1) sdiv n in
      rbind (modInverse l n) (\<lambda>mu.
      Inr \<lparr>kp_public = \<lparr>pk_n = n, pk_g = g, pk_nSquared = nSquared\<rparr>,
           kp_private = \<lparr>sk_lambda = lambda, sk_mu = mu, sk_p = p, sk_q = q\<rparr>\<rparr>))))"

definition generatePaillierKeys :: "binding \<Rightarrow> nat \<Rightarrow> paillier_keypair rnd" where
  "generatePaillierKeys bd bits =
     (if bits < 1024
      then rnd_throw (Error ''Paillier bitLength must be at least 1024 for security'')
      else (let pBits = bits div 2 in
        rnd_bind (generateSecurePrime bd pBits) (\<lambda>p.
        rnd_bind (generate_q bd pBits p) (\<lambda>q.
        rnd_lift (paillier_from_primes p q)))))"

subsection \<open>Ciphertexts\<close>

text \<open>\<open>encrypts n m c\<close>: \<open>c\<close> is an encryption of \<open>m\<close> (any integer, read modulo \<open>n\<close>) under the
  generator \<open>g = n + 1\<close> the code fixes. Decryption and the homomorphic operations are all
  statements about this relation.\<close>

definition encrypts :: "int \<Rightarrow> int \<Rightarrow> int \<Rightarrow> bool" where
  "encrypts n m c \<longleftrightarrow> (\<exists>r. coprime r n \<and> c = (1 + m * n) * r ^ nat n mod n\<^sup>2)"

definition public_ok :: "paillier_public \<Rightarrow> bool" where
  "public_ok pk \<longleftrightarrow> 1 < pk_n pk \<and> pk_g pk = pk_n pk + 1 \<and> pk_nSquared pk = pk_n pk * pk_n pk"

definition key_ok :: "paillier_keypair \<Rightarrow> bool" where
  "key_ok kp \<longleftrightarrow> (\<exists>p q. is_prime p \<and> is_prime q \<and> p \<noteq> q \<and> paillier_from_primes p q = Inr kp)"

lemma square_gt1: "1 < (n :: int) \<Longrightarrow> 1 < n\<^sup>2"
  by (simp add: one_less_power)

lemma public_ok_simps:
  "public_ok pk \<Longrightarrow> pk_nSquared pk = (pk_n pk)\<^sup>2"
  "public_ok pk \<Longrightarrow> pk_g pk = 1 + pk_n pk"
  by (auto simp: public_ok_def power2_eq_square)

lemma encrypts_cong: "m mod n = m' mod n \<Longrightarrow> encrypts n m c \<longleftrightarrow> encrypts n m' c"
proof -
  assume "m mod n = m' mod n"
  then obtain k where k: "m = m' + n * k" by (metis dvd_def mod_eq_dvd_iff diff_eq_eq add.commute)
  have "(1 + m * n) mod n\<^sup>2 = (1 + m' * n) mod n\<^sup>2"
  proof -
    have "1 + m * n = 1 + m' * n + k * n\<^sup>2" by (simp add: k power2_eq_square algebra_simps)
    then show ?thesis by (simp only: mod_mult_self1)
  qed
  then have "(1 + m * n) * x mod n\<^sup>2 = (1 + m' * n) * x mod n\<^sup>2" for x
    by (metis mod_mult_left_eq)
  then show ?thesis by (simp add: encrypts_def)
qed

lemma encrypts_range: "1 < n \<Longrightarrow> encrypts n m c \<Longrightarrow> 0 < c \<and> c < n\<^sup>2"
proof -
  assume n: "1 < n" and "encrypts n m c"
  then obtain r where r: "coprime r n" "c = (1 + m * n) * r ^ nat n mod n\<^sup>2"
    by (auto simp: encrypts_def)
  have "coprime (1 + m * n) n"
    using gcd_add_mult [of n m 1] by (simp add: coprime_iff_gcd_eq_1 gcd.commute add.commute)
  then have "coprime ((1 + m * n) * r ^ nat n) n" using r(1) by simp
  moreover have "c mod n = (1 + m * n) * r ^ nat n mod n"
    unfolding r(2) by (simp add: mod_mod_cancel power2_eq_square)
  ultimately have "coprime c n" using n by (metis coprime_iff_gcd_eq_1 gcd.commute gcd_red_int)
  then have "c \<noteq> 0" using n by auto
  moreover have "0 \<le> c" "c < n\<^sup>2" using r(2) n by auto
  ultimately show ?thesis by simp
qed

lemma combine_encrypts:
  assumes "public_ok pk" and "0 \<le> m" and "paillier_combine pk m r = Inr c"
    and "coprime r (pk_n pk)"
  shows "encrypts (pk_n pk) m c"
proof -
  let ?n = "pk_n pk"
  have n: "1 < ?n" using assms(1) by (simp add: public_ok_def)
  have n2: "1 < ?n\<^sup>2" using n by (rule square_gt1)
  have "c = ((1 + ?n) ^ nat m mod ?n\<^sup>2 * (r ^ nat ?n mod ?n\<^sup>2)) mod ?n\<^sup>2"
    using assms n n2 by (simp add: paillier_combine_def public_ok_simps modPow_eq smod_nonneg)
  also have "\<dots> = ((1 + m * ?n) mod ?n\<^sup>2) * (r ^ nat ?n mod ?n\<^sup>2) mod ?n\<^sup>2"
    using power_one_plus [of 1 ?n "nat m"] assms(2) by simp
  finally show ?thesis
    using assms(4) unfolding encrypts_def by (metis mod_mult_eq)
qed

lemma combine_returns:
  assumes "public_ok pk" and "0 \<le> m"
  shows "\<exists>c. paillier_combine pk m r = Inr c"
  using assms square_gt1 [of "pk_n pk"]
  by (simp add: paillier_combine_def public_ok_simps modPow_eq) (simp add: public_ok_def modPow_eq)

lemma encrypt_draw_coprime: "encrypt_draw k n t = Some (Inr r, t') \<Longrightarrow> coprime r n \<and> 2 \<le> r \<and> r < n"
proof (induction k arbitrary: t)
  case 0
  then show ?case by (subst (asm) encrypt_draw.simps) (auto simp: result_simps)
next
  case (Suc k)
  then show ?case
    by (subst (asm) encrypt_draw.simps)
      (auto simp: result_simps js_gcd_eq coprime_iff_gcd_eq_1 split: if_splits
        dest: randomBigInt_range)
qed

lemma encryptPaillier_encrypts:
  assumes "public_ok pk" and "encryptPaillier pk m t = Some (Inr c, t')"
  shows "encrypts (pk_n pk) m c"
  using assms encrypt_draw_coprime [of 1000 "pk_n pk" t]
  by (auto simp: encryptPaillier_def result_simps split: if_splits intro!: combine_encrypts)

subsection \<open>Homomorphic operations\<close>

lemma encrypts_add:
  assumes "encrypts n a c1" and "encrypts n b c2"
  shows "encrypts n (a + b) (c1 * c2 mod n\<^sup>2)"
proof -
  from assms obtain r s where r: "coprime r n" "c1 = (1 + a * n) * r ^ nat n mod n\<^sup>2"
    and s: "coprime s n" "c2 = (1 + b * n) * s ^ nat n mod n\<^sup>2"
    by (auto simp: encrypts_def)
  have "c1 * c2 mod n\<^sup>2 = ((1 + a * n) * (1 + b * n)) * (r * s) ^ nat n mod n\<^sup>2"
    unfolding r(2) s(2) mod_mult_eq by (simp add: power_mult_distrib ac_simps)
  also have "(1 + a * n) * (1 + b * n) = 1 + (a + b) * n + (a * b) * n\<^sup>2"
    by (simp add: algebra_simps power2_eq_square)
  also have "(1 + (a + b) * n + (a * b) * n\<^sup>2) * (r * s) ^ nat n mod n\<^sup>2
      = (1 + (a + b) * n) * (r * s) ^ nat n mod n\<^sup>2"
    by (metis mod_mult_left_eq mod_mult_self1)
  finally show ?thesis
    unfolding encrypts_def using r(1) s(1) by (intro exI [of _ "r * s"]) simp
qed

lemma encrypts_scale:
  assumes "encrypts n a c"
  shows "encrypts n (int k * a) (c ^ k mod n\<^sup>2)"
proof -
  from assms obtain r where r: "coprime r n" "c = (1 + a * n) * r ^ nat n mod n\<^sup>2"
    by (auto simp: encrypts_def)
  have "c ^ k mod n\<^sup>2 = (1 + a * n) ^ k * (r ^ k) ^ nat n mod n\<^sup>2"
    unfolding r(2) power_mod by (simp add: power_mult_distrib power_mult [symmetric] mult.commute)
  also have "\<dots> = (1 + int k * a * n) * (r ^ k) ^ nat n mod n\<^sup>2"
    by (metis mod_mult_left_eq power_one_plus)
  finally show ?thesis
    unfolding encrypts_def using r(1) by (intro exI [of _ "r ^ k"]) (simp add: mult.assoc)
qed

subsection \<open>Decryption\<close>

definition private_ok :: "paillier_keypair \<Rightarrow> bool" where
  "private_ok kp \<longleftrightarrow> (let n = pk_n (kp_public kp); lam = sk_lambda (kp_private kp) in
     0 \<le> lam \<and> 0 \<le> sk_mu (kp_private kp) \<and> (\<forall>r. coprime r n \<longrightarrow> r ^ nat lam mod n = 1)
     \<and> (lam * sk_mu (kp_private kp)) mod n = 1)"

lemma decrypt_encrypts:
  assumes "public_ok (kp_public kp)" and "private_ok kp" and "encrypts (pk_n (kp_public kp)) m c"
  shows "decryptPaillier (kp_private kp) (kp_public kp) c = Inr (m mod pk_n (kp_public kp))"
proof -
  let ?n = "pk_n (kp_public kp)" and ?lam = "sk_lambda (kp_private kp)"
    and ?mu = "sk_mu (kp_private kp)"
  have n: "1 < ?n" using assms(1) by (simp add: public_ok_def)
  have lam: "0 \<le> ?lam" and carm: "\<And>r. coprime r ?n \<Longrightarrow> r ^ nat ?lam mod ?n = 1"
    and mu: "(?lam * ?mu) mod ?n = 1" and mu0: "0 \<le> ?mu"
    using assms(2) by (auto simp: private_ok_def Let_def)
  obtain r where r: "coprime r ?n" "c = (1 + m * ?n) * r ^ nat ?n mod ?n\<^sup>2"
    using assms(3) by (auto simp: encrypts_def)
  have "(r ^ nat ?lam) ^ nat ?n mod ?n\<^sup>2 = 1 mod ?n\<^sup>2"
    using n by (intro power_n_of_one_mod_n) (simp add: carm [OF r(1)])
  then have rl: "(r ^ nat ?n) ^ nat ?lam mod ?n\<^sup>2 = 1 mod ?n\<^sup>2"
    by (simp add: power_mult [symmetric] mult.commute)
  have "c ^ nat ?lam mod ?n\<^sup>2 = (1 + m * ?n) ^ nat ?lam * ((r ^ nat ?n) ^ nat ?lam mod ?n\<^sup>2) mod ?n\<^sup>2"
    unfolding r(2) power_mod mod_mult_right_eq by (simp add: power_mult_distrib)
  also have "\<dots> = (1 + m * ?n) ^ nat ?lam mod ?n\<^sup>2"
    unfolding rl by (simp add: mod_mult_right_eq)
  also have "\<dots> = (1 + (?lam * m) * ?n) mod ?n\<^sup>2"
    using power_one_plus [of m ?n "nat ?lam"] lam by simp
  also have "\<dots> = 1 + ((?lam * m) mod ?n) * ?n"
    by (rule one_plus_mod_square [OF n])
  finally have cl: "modPow c ?lam (?n\<^sup>2) = Inr (1 + ((?lam * m) mod ?n) * ?n)"
    using lam square_gt1 [OF n] by (simp add: modPow_eq)
  have l: "(1 + ((?lam * m) mod ?n) * ?n - 1) sdiv ?n = (?lam * m) mod ?n"
    using n by (simp add: sdiv_nonneg)
  have "?lam * m mod ?n * ?mu mod ?n = m * ((?lam * ?mu) mod ?n) mod ?n"
    by (simp add: mod_mult_left_eq mod_mult_right_eq ac_simps)
  then have m: "?lam * m mod ?n * ?mu mod ?n = m mod ?n" by (simp add: mu)
  have sm: "((?lam * m) mod ?n * ?mu) smod ?n = m mod ?n"
    using n mu0 m by (simp add: smod_nonneg)
  show ?thesis
    using encrypts_range [OF n assms(3)] assms(1) l sm n
    by (auto simp: decryptPaillier_def public_ok_simps cl Let_def)
qed

lemma addEncrypted_value:
  assumes "public_ok pk" and "encrypts (pk_n pk) m1 c1" and "encrypts (pk_n pk) m2 c2"
  shows "addEncrypted pk c1 c2 = Inr (c1 * c2 mod (pk_n pk)\<^sup>2)"
proof -
  have n: "1 < pk_n pk" using assms(1) by (simp add: public_ok_def)
  have "0 \<le> c1 * c2" using encrypts_range [OF n assms(2)] encrypts_range [OF n assms(3)] by simp
  then show ?thesis using assms(1) n by (simp add: addEncrypted_def public_ok_simps smod_nonneg)
qed

lemma multiplyEncrypted_value:
  assumes "public_ok pk" and "0 \<le> k"
  shows "multiplyEncryptedByScalar pk c k = Inr (c ^ nat k mod (pk_n pk)\<^sup>2)"
  using assms(2) square_gt1 [of "pk_n pk"]
  unfolding multiplyEncryptedByScalar_def public_ok_simps(1) [OF assms(1)]
  by (simp add: modPow_eq public_ok_def [THEN iffD1, OF assms(1)])

text \<open>What key generation establishes for two distinct primes.\<close>

lemma paillier_from_primes_ok:
  assumes "is_prime p" and "is_prime q" and "p \<noteq> q" and "paillier_from_primes p q = Inr kp"
  shows "public_ok (kp_public kp)" and "private_ok kp" and "pk_n (kp_public kp) = p * q"
proof -
  let ?n = "p * q" and ?lam = "lcm (p - 1) (q - 1)"
  have p: "1 < p" and q: "1 < q" using assms(1,2) by (auto dest: is_prime_gt1)
  have n: "1 < ?n" using p q by (simp add: less_1_mult)
  have n2: "?n * ?n = ?n\<^sup>2" by (simp add: power2_eq_square)
  have lam: "0 \<le> ?lam" by simp
  have gl: "modPow (?n + 1) ?lam (?n\<^sup>2) = Inr (1 + (?lam mod ?n) * ?n)"
    using power_one_plus [of 1 ?n "nat ?lam"] one_plus_mod_square [OF n, of ?lam] square_gt1 [OF n]
    by (simp add: modPow_eq add.commute)
  have l: "(1 + (?lam mod ?n) * ?n - 1) sdiv ?n = ?lam mod ?n"
    using n p q by (simp add: sdiv_nonneg)
  from assms(4) obtain mu where mu: "modInverse (?lam mod ?n) ?n = Inr mu"
    and kp: "kp = \<lparr>kp_public = \<lparr>pk_n = ?n, pk_g = ?n + 1, pk_nSquared = ?n * ?n\<rparr>,
       kp_private = \<lparr>sk_lambda = ?lam, sk_mu = mu, sk_p = p, sk_q = q\<rparr>\<rparr>"
    using p q gl l by (auto simp: paillier_from_primes_def js_lcm_eq n2 result_simps Let_def)
  have mu0: "0 \<le> mu" and mu1: "(?lam mod ?n * mu) mod ?n = 1"
    using paillier_inv.inv_Inr [OF n mu] by auto
  have carm: "r ^ nat ?lam mod ?n = 1" if r: "coprime r ?n" for r
  proof -
    have "\<not> p dvd r" "\<not> q dvd r"
      using r p q by (metis coprime_common_divisor dvd_triv_left dvd_triv_right zdvd1_eq abs_of_pos
          less_irrefl order_less_trans zero_less_one)+
    then have "r ^ nat ?lam mod p = 1 mod p" "r ^ nat ?lam mod q = 1 mod q"
      using fermat_multiple [OF assms(1)] fermat_multiple [OF assms(2)] p q by auto
    moreover have "coprime p q"
      using is_prime_coprime [OF assms(1)] assms(2,3) p by (metis is_prime_def order_less_trans
          zero_less_one less_irrefl)
    ultimately show ?thesis using mod_eq_coprime_mult [of p q] n by simp
  qed
  show "public_ok (kp_public kp)" using n by (simp add: kp public_ok_def)
  show "private_ok kp"
    using carm lam mu0 mu1 by (simp add: kp private_ok_def Let_def mod_mult_left_eq)
  show "pk_n (kp_public kp) = p * q" by (simp add: kp)
qed

lemma key_ok_simps:
  assumes "key_ok kp"
  shows "public_ok (kp_public kp)" and "private_ok kp"
  using assms paillier_from_primes_ok unfolding key_ok_def by blast+

subsection \<open>Miller-Rabin\<close>

lemma split_twos_spec:
  "split_twos r0 d0 = (r, d) \<Longrightarrow> 0 < d0 \<Longrightarrow> r0 \<le> r \<and> 0 < d \<and> odd d \<and> d0 = d * 2 ^ (r - r0)"
proof (induction r0 d0 rule: split_twos.induct)
  case (1 r0 d0)
  show ?case
  proof (cases "d0 smod 2 = 0")
    case True
    then have ev: "even d0" using "1.prems" by (simp add: smod_nonneg even_iff_mod_2_eq_zero)
    have half: "d0 sdiv 2 = d0 div 2" using "1.prems" by (simp add: sdiv_nonneg)
    have "split_twos (Suc r0) (d0 div 2) = (r, d)"
      using "1.prems" True half by (simp add: split_twos.simps [of r0 d0])
    moreover have "0 < d0 div 2" using ev "1.prems" by presburger
    ultimately have IH: "Suc r0 \<le> r \<and> 0 < d \<and> odd d \<and> d0 div 2 = d * 2 ^ (r - Suc r0)"
      using "1.IH" True "1.prems" half by simp
    then have "r - r0 = Suc (r - Suc r0)" by arith
    with IH ev show ?thesis by auto
  next
    case False
    then have "odd d0" using "1.prems" by (simp add: smod_nonneg even_iff_mod_2_eq_zero)
    with False "1.prems" show ?thesis by (simp add: split_twos.simps [of r0 d0])
  qed
qed

lemma prime_square_root:
  assumes "is_prime n" and "x * x mod n = 1"
  shows "x mod n = 1 \<or> x mod n = n - 1"
proof -
  have n: "1 < n" by (rule is_prime_gt1 [OF assms(1)])
  have "n dvd x * x - 1" using assms(2) n by (simp add: mod_eq_dvd_iff [symmetric])
  then have "n dvd (x - 1) * (x + 1)" by (simp add: algebra_simps)
  then consider "n dvd x - 1" | "n dvd x + 1" using euclid_dvd [OF assms(1)] by blast
  then show ?thesis
  proof cases
    case 1
    then show ?thesis using n by (simp add: mod_eq_dvd_iff [symmetric])
  next
    case 2
    then have "x mod n = - 1 mod n" by (simp add: mod_eq_dvd_iff)
    then show ?thesis using n zmod_minus1 [of n] by simp
  qed
qed

lemma mr_squares_prime:
  assumes "is_prime n"
  shows "x ^ (2 ^ Suc j) mod n = 1 \<Longrightarrow> x mod n \<noteq> 1 \<Longrightarrow> x mod n \<noteq> n - 1 \<Longrightarrow>
    mr_squares n x j = Inr False"
proof (induction j arbitrary: x)
  case 0
  then show ?case using prime_square_root [OF assms, of x] by (simp add: power2_eq_square)
next
  case (Suc j)
  have n: "1 < n" by (rule is_prime_gt1 [OF assms])
  let ?y = "x ^ 2 mod n"
  have y: "modPow x 2 n = Inr ?y" using n by (simp add: modPow_eq)
  have "?y \<noteq> 1" using Suc.prems(2,3) prime_square_root [OF assms, of x] by (auto simp: power2_eq_square)
  moreover have "?y ^ (2 ^ Suc j) mod n = 1"
    using Suc.prems(1) by (simp add: power_mod power_mult [symmetric])
  ultimately have "?y \<noteq> n - 1 \<Longrightarrow> mr_squares n ?y j = Inr False" by (intro Suc.IH) auto
  then show ?case by (simp add: y)
qed

lemma mr_rounds_prime:
  assumes "is_prime n" and "n - 1 = d * 2 ^ r" and "0 < r" and "0 < d"
  shows "mr_rounds Imported n r d k t = Some (Inr b, t') \<Longrightarrow> b"
proof (induction k arbitrary: t)
  case 0
  then show ?case by (simp add: result_simps)
next
  case (Suc k)
  have n: "1 < n" by (rule is_prime_gt1 [OF assms(1)])
  from Suc.prems obtain a t1 where a: "randomBigIntRange 2 (n - 2) t = Some (Inr a, t1)"
    by (auto simp: paillier_randomBigIntRange_def result_simps)
  have ar: "2 \<le> a" "a < n - 2" using randomBigIntRange_range [OF a] by auto
  let ?x = "a ^ nat d mod n"
  have x: "modPow a d n = Inr ?x" using n assms(4) by (simp add: modPow_eq)
  have "\<not> n dvd a" using ar by (auto dest: zdvd_imp_le)
  then have "a ^ nat (n - 1) mod n = 1" by (intro fermat_little assms(1))
  moreover have "nat (n - 1) = nat d * 2 ^ r" using assms(2,4) by (simp add: nat_mult_distrib nat_power_eq)
  moreover have "Suc (r - 1) = r" using assms(3) by simp
  ultimately have "?x ^ (2 ^ Suc (r - 1)) mod n = 1" by (simp only: power_mod power_mult)
  then have sq: "?x \<noteq> 1 \<Longrightarrow> ?x \<noteq> n - 1 \<Longrightarrow> mr_squares n ?x (r - 1) = Inr False"
    by (intro mr_squares_prime [OF assms(1)]) auto
  show ?case
  proof (cases "?x = 1 \<or> ?x = n - 1")
    case True
    with Suc.prems a x have "mr_rounds Imported n r d k t1 = Some (Inr b, t')"
      by (auto simp: paillier_randomBigIntRange_def result_simps)
    then show ?thesis by (rule Suc.IH)
  next
    case False
    with Suc.prems a x sq have "mr_rounds Imported n r d k t1 = Some (Inr b, t')"
      by (auto simp: paillier_randomBigIntRange_def result_simps)
    then show ?thesis by (rule Suc.IH)
  qed
qed

subsection \<open>The candidates of the prime search\<close>

lemma candidate_bounds:
  fixes x :: int
  assumes "0 \<le> x" and "x < 2 ^ (bits - 1)" and "1 < bits"
  shows "2 ^ (bits - 1) \<le> x OR 1 OR push_bit (bits - 1) 1"
    and "x OR 1 OR push_bit (bits - 1) 1 < 2 ^ bits" and "odd (x OR 1 OR push_bit (bits - 1) 1)"
proof -
  let ?h = "push_bit (bits - 1) (1 :: int)"
  have h: "?h = 2 ^ (bits - 1)" by (simp add: push_bit_eq_mult)
  have "?h \<le> (x OR 1) OR ?h" using assms(1) by (simp add: or.commute [of "x OR 1"] or_greater_eq)
  then show "2 ^ (bits - 1) \<le> x OR 1 OR ?h" by (simp add: h or.assoc)
  have b: "(2 :: int) ^ bits = 2 * 2 ^ (bits - 1)"
    using assms(3) by (metis Suc_diff_1 order_less_trans power_Suc zero_less_one)
  then have "x < 2 ^ bits" "?h < 2 ^ bits" using assms(1,2) h by auto
  moreover have "(1 :: int) < 2 ^ bits" using assms(3) by simp
  ultimately show "x OR 1 OR ?h < 2 ^ bits" by (intro OR_upper assms(1)) auto
  show "odd (x OR 1 OR ?h)" by (simp add: even_or_iff)
qed

lemma generateSecurePrime_loop_returns:
  assumes "1 < bits"
  shows "generateSecurePrime_loop bd bits t = Some (Inr c, t') \<Longrightarrow>
    2 ^ (bits - 1) \<le> c \<and> c < 2 ^ bits \<and> odd c \<and> \<not> list_ex (\<lambda>p. c smod p = 0) SMALL_PRIMES
    \<and> (\<exists>t1. isProbablePrime bd c 40 t1 = Some (Inr True, t'))"
proof (induction t rule: length_induct)
  case (1 t)
  from "1.prems" show ?case
  proof (cases rule: generateSecurePrime_loop_cases)
    case (1 x t1)
    have "0 \<le> x" "x < 2 ^ (bits - 1)"
      using randomBigInt_range [OF 1(1)] by (auto simp: push_bit_eq_mult)
    with 1 candidate_bounds [of x bits] assms show ?thesis by blast
  next
    case (2 t1)
    with "1.IH" show ?thesis by blast
  qed
qed

lemma isProbablePrime_unbound:
  assumes "3 < c"
  shows "isProbablePrime NotImported c (Suc k) t \<noteq> Some (Inr True, t')"
  using assms
  by (auto simp: isProbablePrime_def paillier_randomBigIntRange_def result_simps
      split: prod.splits)

lemma generate_q_returns:
  "generate_q bd bits p t = Some (Inr q, t') \<Longrightarrow>
    q \<noteq> p \<and> gcd (p - 1) (q - 1) = 2 \<and> (\<exists>t1. generateSecurePrime bd bits t1 = Some (Inr q, t'))"
proof (induction t rule: length_induct)
  case (1 t)
  from "1.prems" obtain c t1 where c: "generateSecurePrime bd bits t = Some (Inr c, t1)"
    by (subst (asm) generate_q.simps) (auto split: option.splits sum.splits prod.splits)
  have t1: "length t1 < length t" by (rule generateSecurePrime_shorter [OF c])
  show ?case
  proof (cases "c = p \<or> js_gcd (p - 1) (c - 1) \<noteq> 2")
    case True
    with "1.prems" c have "generate_q bd bits p t1 = Some (Inr q, t')"
      by (simp add: generate_q.simps [of bd bits p t])
    with "1.IH" t1 show ?thesis by blast
  next
    case False
    with "1.prems" c have "c = q" "t1 = t'" by (auto simp: generate_q.simps [of bd bits p t])
    with False c show ?thesis by (auto simp: js_gcd_eq)
  qed
qed

lemma split_twos_even:
  assumes "is_prime n" and "3 < n" and "split_twos 0 (n - 1) = (r, d)"
  shows "n - 1 = d * 2 ^ r" and "0 < r" and "0 < d" and "odd n"
proof -
  have sp: "0 < d \<and> odd d \<and> n - 1 = d * 2 ^ r"
    using split_twos_spec [OF assms(3)] assms(2) by simp
  have "odd n"
  proof
    assume "even n"
    then have "0 < (2 :: int) \<and> 2 dvd n" by simp
    with assms(1) have "2 = (1 :: int) \<or> 2 = n" unfolding is_prime_def by blast
    with assms(2) show False by simp
  qed
  moreover have "0 < r"
  proof (rule gr0I)
    assume "r = 0"
    with sp have "odd (n - 1)" by simp
    with \<open>odd n\<close> show False by simp
  qed
  ultimately show "n - 1 = d * 2 ^ r" "0 < r" "0 < d" "odd n" using sp by auto
qed

text \<open>A concrete key and a concrete ciphertext: \<open>p = 5\<close>, \<open>q = 7\<close>, \<open>n = 35\<close>, \<open>lambda = 12\<close>,
  \<open>mu = 3\<close>; the plaintext 4 with \<open>r = 2\<close>.\<close>

definition small_key :: paillier_keypair where
  "small_key = \<lparr>kp_public = \<lparr>pk_n = 35, pk_g = 36, pk_nSquared = 1225\<rparr>,
     kp_private = \<lparr>sk_lambda = 12, sk_mu = 3, sk_p = 5, sk_q = 7\<rparr>\<rparr>"

lemma small_primes_prime: "is_prime 5" "is_prime 7"
  by (rule is_primeI; code_simp)+

lemma small_key_from: "paillier_from_primes 5 7 = Inr small_key"
  by code_simp

lemma small_key_ok: "key_ok small_key"
  unfolding key_ok_def using small_primes_prime small_key_from
  by (intro exI [of _ 5] exI [of _ 7]) simp

lemma small_draw: "randomBigInt 33 (replicate 9 0) = Some (Inr 0, [])"
proof (rule drawn_randomBigInt)
  have d: "drawLength 33 = 9" by (simp add: drawLength_def bitLength.simps)
  show "drawLength 33 \<le> 65536" by (simp add: d)
  show "drawn (nat (drawLength 33)) 33 (replicate 9 0) 0 []"
    unfolding drawn_def
    by (rule exI [of _ "[]"], rule exI [of _ "replicate 9 0"]) (simp add: d be_int_zero_iff)
qed simp

lemma small_encrypt:
  "encryptPaillier (kp_public small_key) 4 (replicate 9 0) = Some (Inr 88, [])"
proof -
  have "js_gcd 2 35 = 1" by code_simp
  then have d: "encrypt_draw 1000 35 (replicate 9 0) = Some (Inr 2, [])"
    by (subst encrypt_draw.simps)
      (simp add: small_draw rnd_bind_def rnd_return_def split: nat.splits)
  have "paillier_combine (kp_public small_key) 4 2 = Inr 88" by code_simp
  with d show ?thesis by (simp add: encryptPaillier_def small_key_def rnd_bind_def rnd_lift_def)
qed

lemma keygen_unbound:
  "generatePaillierKeys NotImported bits t \<noteq> Some (Inr kp, t')"
proof
  assume "generatePaillierKeys NotImported bits t = Some (Inr kp, t')"
  then obtain p t1 where "generateSecurePrime NotImported (bits div 2) t = Some (Inr p, t1)"
    by (auto simp: generatePaillierKeys_def Let_def result_simps split: if_splits)
  then have b: "512 \<le> bits div 2"
    and l: "generateSecurePrime_loop NotImported (bits div 2) t = Some (Inr p, t1)"
    by (auto simp: generateSecurePrime_def result_simps split: if_splits)
  from b have "1 < bits div 2" by simp
  from generateSecurePrime_loop_returns [OF this l] obtain u
    where p: "2 ^ (bits div 2 - 1) \<le> p" "isProbablePrime NotImported p 40 u = Some (Inr True, t1)"
    by blast
  have "(2 :: int) ^ 2 \<le> 2 ^ (bits div 2 - 1)" using b by (intro power_increasing) auto
  with p(1) have "3 < p" by simp
  with p(2) isProbablePrime_unbound [of p 39] show False by (simp add: eval_nat_numeral)
qed

subsection \<open>Properties\<close>

text \<open>C1: Paillier round trip. For every key pair built from two distinct primes, every
  plaintext in \<open>[0, n)\<close> and every outcome of the random draws, decrypting what
  \<open>encryptPaillier\<close> returned gives the plaintext back.\<close>

theorem paillier_roundtrip:
  assumes "key_ok kp" and "encryptPaillier (kp_public kp) m t = Some (Inr c, t')"
  shows "decryptPaillier (kp_private kp) (kp_public kp) c = Inr m"
proof -
  have "0 \<le> m" "m < pk_n (kp_public kp)"
    using assms(2) by (auto simp: encryptPaillier_def result_simps split: if_splits)
  with decrypt_encrypts [OF key_ok_simps [OF assms(1)]
      encryptPaillier_encrypts [OF key_ok_simps(1) [OF assms(1)] assms(2)]]
  show ?thesis by (simp add: mod_pos_pos_trivial)
qed

theorem paillier_roundtrip_witness:
  "decryptPaillier (kp_private small_key) (kp_public small_key) 88 = Inr 4"
  by (rule paillier_roundtrip [OF small_key_ok small_encrypt])

text \<open>Homomorphic addition and scalar multiplication. The sum of two ciphertexts decrypts
  to the sum of the plaintexts modulo \<open>n\<close>, and a ciphertext raised to \<open>k \<ge> 0\<close> decrypts to
  \<open>k\<close> times its plaintext modulo \<open>n\<close>.\<close>

theorem paillier_homomorphic:
  assumes "key_ok kp"
    and "encryptPaillier (kp_public kp) m1 t1 = Some (Inr c1, u1)"
    and "encryptPaillier (kp_public kp) m2 t2 = Some (Inr c2, u2)" and "0 \<le> k"
  shows "rbind (addEncrypted (kp_public kp) c1 c2)
         (decryptPaillier (kp_private kp) (kp_public kp))
       = Inr ((m1 + m2) mod pk_n (kp_public kp))
    \<and> rbind (multiplyEncryptedByScalar (kp_public kp) c1 k)
         (decryptPaillier (kp_private kp) (kp_public kp))
       = Inr ((k * m1) mod pk_n (kp_public kp))"
proof -
  note ok = key_ok_simps [OF assms(1)]
  note e1 = encryptPaillier_encrypts [OF ok(1) assms(2)]
    and e2 = encryptPaillier_encrypts [OF ok(1) assms(3)]
  from decrypt_encrypts [OF ok encrypts_add [OF e1 e2]]
    decrypt_encrypts [OF ok encrypts_scale [OF e1, of "nat k"]] assms(4)
  show ?thesis
    by (simp add: addEncrypted_value [OF ok(1) e1 e2] multiplyEncrypted_value [OF ok(1)])
qed

theorem paillier_homomorphic_witness:
  "rbind (addEncrypted (kp_public small_key) 88 88)
     (decryptPaillier (kp_private small_key) (kp_public small_key)) = Inr ((4 + 4) mod 35)
   \<and> rbind (multiplyEncryptedByScalar (kp_public small_key) 88 10)
     (decryptPaillier (kp_private small_key) (kp_public small_key)) = Inr ((10 * 4) mod 35)"
  using paillier_homomorphic [OF small_key_ok small_encrypt small_encrypt, of 10]
  by (simp add: small_key_def)

text \<open>Circuits: what can be computed from encryptions by adding ciphertexts and scaling them.\<close>

inductive computed :: "paillier_keypair \<Rightarrow> int \<Rightarrow> int \<Rightarrow> bool" for kp where
  computed_fresh: "encryptPaillier (kp_public kp) m t = Some (Inr c, t') \<Longrightarrow> computed kp m c"
| computed_sum: "computed kp a c \<Longrightarrow> computed kp b d \<Longrightarrow> addEncrypted (kp_public kp) c d = Inr e
    \<Longrightarrow> computed kp (a + b) e"
| computed_scaled: "computed kp a c \<Longrightarrow> 0 \<le> k \<Longrightarrow> multiplyEncryptedByScalar (kp_public kp) c k = Inr e
    \<Longrightarrow> computed kp (k * a) e"

lemma computed_encrypts:
  assumes "key_ok kp"
  shows "computed kp m c \<Longrightarrow> encrypts (pk_n (kp_public kp)) m c"
proof (induction rule: computed.induct)
  case (computed_fresh m t c t')
  then show ?case by (rule encryptPaillier_encrypts [OF key_ok_simps(1) [OF assms]])
next
  case (computed_sum a c b d e)
  then show ?case
    using addEncrypted_value [OF key_ok_simps(1) [OF assms] computed_sum.IH] encrypts_add [OF computed_sum.IH] by simp
next
  case (computed_scaled a c k e)
  then show ?case
    using multiplyEncrypted_value [OF key_ok_simps(1) [OF assms] computed_scaled.hyps(2)]
      encrypts_scale [OF computed_scaled.IH, of "nat k"] by simp
qed

text \<open>C17: Circuits are well typed: every ciphertext computed by encrypting, adding and scaling lies in the
  domain decryption accepts, strictly between 0 and n^2, and decrypts to the value of the circuit
  modulo n; adding any two of them does not throw and gives such a ciphertext again.\<close>

theorem ciphertexts_well_formed:
  assumes "key_ok kp" and "computed kp a c" and "computed kp b d"
  shows "0 < c \<and> c < pk_nSquared (kp_public kp)
    \<and> decryptPaillier (kp_private kp) (kp_public kp) c = Inr (a mod pk_n (kp_public kp))
    \<and> (\<exists>e. addEncrypted (kp_public kp) c d = Inr e \<and> computed kp (a + b) e)"
proof -
  note ok = key_ok_simps [OF assms(1)] and enc = computed_encrypts [OF assms(1)]
  have n: "1 < pk_n (kp_public kp)" using ok(1) by (simp add: public_ok_def)
  obtain e where e: "addEncrypted (kp_public kp) c d = Inr e"
    using addEncrypted_value [OF ok(1) enc [OF assms(2)] enc [OF assms(3)]] by blast
  show ?thesis
    using encrypts_range [OF n enc [OF assms(2)]] decrypt_encrypts [OF ok enc [OF assms(2)]]
      e computed_sum [OF assms(2,3) e] public_ok_simps(1) [OF ok(1)] by simp
qed

theorem ciphertexts_well_formed_witness:
  "\<exists>e. addEncrypted (kp_public small_key) 88 88 = Inr e
    \<and> decryptPaillier (kp_private small_key) (kp_public small_key) e = Inr 8"
proof -
  have c: "computed small_key 4 88" by (rule computed_fresh [OF small_encrypt])
  obtain e where e: "addEncrypted (kp_public small_key) 88 88 = Inr e" "computed small_key (4 + 4) e"
    using ciphertexts_well_formed [OF small_key_ok c c] by blast
  then show ?thesis using ciphertexts_well_formed [OF small_key_ok e(2) c] by (simp add: small_key_def)
qed

text \<open>Key generation as written never produces a key. Every candidate that survives trial
  division reaches \<open>isProbablePrime\<close>, whose first statement of the first round evaluates
  \<open>randomBigIntRange\<close>, an identifier the module does not import.\<close>

theorem paillier_keygen_never_returns:
  "generatePaillierKeys NotImported bits t \<noteq> Some (Inr kp, t')"
  by (rule keygen_unbound)

text \<open>C39: With the import in place, Miller-Rabin accepts every prime: whatever the random bases,
  a run of \<open>isProbablePrime\<close> on a prime that returns, returns \<open>true\<close>.\<close>

theorem miller_rabin_accepts_primes:
  assumes "is_prime n"
  shows "isProbablePrime Imported n k t \<noteq> Some (Inr False, t')"
proof (cases "n \<le> 3")
  case True
  then have "n = 2 \<or> n = 3" using is_prime_gt1 [OF assms] by linarith
  then show ?thesis by (auto simp: isProbablePrime_def result_simps)
next
  case False
  obtain r d where sp: "split_twos 0 (n - 1) = (r, d)" by force
  have n3: "3 < n" using False by simp
  note sv = split_twos_even [OF assms n3 sp]
  have "n smod 2 \<noteq> 0" using sv(4) n3 by (simp add: smod_nonneg dvd_eq_mod_eq_0)
  with n3 sp have "isProbablePrime Imported n k t = mr_rounds Imported n r d k t"
    by (simp add: isProbablePrime_def)
  with mr_rounds_prime [OF assms sv(1-3), of k t False t'] show ?thesis by auto
qed

theorem miller_rabin_accepts_primes_witness:
  "isProbablePrime Imported 7 1 (replicate 9 0) \<noteq> Some (Inr False, [])"
  by (rule miller_rabin_accepts_primes [OF small_primes_prime(2)])

end
