(* ===== verification/JsText.thy ===== *)
theory JsText
  imports Prelude "HOL-Library.Sublist"
begin

section \<open>Text: numerals and string methods\<close>

text \<open>
  The string operations the program uses: \<open>toString(radix)\<close>, \<open>BigInt(string)\<close>,
  \<open>padStart\<close>, \<open>startsWith\<close>, \<open>replace\<close> of the first occurrence, \<open>join\<close>, \<open>split\<close> on a
  character, and the ASCII case mappings. The lemmas are the round trips: a \<open>bigint\<close> printed
  in a radix parses back, and printing is injective, which the hash preimages rely on.
\<close>

subsection \<open>Numerals\<close>

definition digit_char :: "int \<Rightarrow> char" where
  "digit_char d = ''0123456789abcdefghijklmnopqrstuvwxyz'' ! nat d"

definition digit_value :: "char \<Rightarrow> int option" where
  "digit_value c =
     (let n = of_char c :: int in
      if 48 \<le> n \<and> n \<le> 57 then Some (n - 48)
      else if 97 \<le> n \<and> n \<le> 122 then Some (n - 87)
      else if 65 \<le> n \<and> n \<le> 90 then Some (n - 55)
      else None)"

function radix_digits :: "int \<Rightarrow> int \<Rightarrow> string" where
  "radix_digits b n =
     (if n < b \<or> b < 2 then [digit_char n] else radix_digits b (n div b) @ [digit_char (n mod b)])"
  by pat_completeness auto
termination
proof (relation "measure (\<lambda>(b, n). nat n)", goal_cases)
  case 1
  show ?case by simp
next
  case (2 b n)
  then have "n div b < n" by (intro int_div_less_self) auto
  with 2 show ?case by simp
qed

declare radix_digits.simps [simp del]

text \<open>\<open>n.toString(b)\<close>\<close>

definition toString_radix :: "int \<Rightarrow> int \<Rightarrow> string" where
  "toString_radix b n = (if n < 0 then CHR ''-'' # radix_digits b (- n) else radix_digits b n)"

abbreviation hex :: "int \<Rightarrow> string" where "hex n \<equiv> toString_radix 16 n"
abbreviation dec :: "int \<Rightarrow> string" where "dec n \<equiv> toString_radix 10 n"

fun parse_digits :: "int \<Rightarrow> int \<Rightarrow> string \<Rightarrow> int option" where
  "parse_digits b acc [] = Some acc"
| "parse_digits b acc (c # cs) =
     (case digit_value c of
        None \<Rightarrow> None
      | Some d \<Rightarrow> if d < b then parse_digits b (b * acc + d) cs else None)"

text \<open>Strings of at least one digit.\<close>

definition parse_radix :: "int \<Rightarrow> string \<Rightarrow> int option" where
  "parse_radix b s = (if s = [] then None else parse_digits b 0 s)"

definition js_space :: "char \<Rightarrow> bool" where
  "js_space c \<longleftrightarrow> c \<in> {CHR '' '', CHR 0x09, CHR 0x0A, CHR 0x0B, CHR 0x0C, CHR 0x0D}"

definition js_trim :: "string \<Rightarrow> string" where
  "js_trim s = rev (dropWhile js_space (rev (dropWhile js_space s)))"

definition syntax_option :: "'a option \<Rightarrow> 'a result" where
  "syntax_option x = (case x of None \<Rightarrow> Inl (SyntaxError ''Cannot convert to a BigInt'') | Some y \<Rightarrow> Inr y)"

text \<open>\<open>BigInt(s)\<close>: surrounding white space is ignored, the empty string is 0, a prefix selects
  the radix, a sign is allowed on decimal literals only.\<close>

definition parse_BigInt :: "string \<Rightarrow> int result" where
  "parse_BigInt s0 = syntax_option (case js_trim s0 of
      [] \<Rightarrow> Some 0
    | c # cs \<Rightarrow>
        (if c = CHR ''0'' \<and> take 1 cs \<in> {''x'', ''X''} then parse_radix 16 (drop 1 cs)
         else if c = CHR ''0'' \<and> take 1 cs \<in> {''o'', ''O''} then parse_radix 8 (drop 1 cs)
         else if c = CHR ''0'' \<and> take 1 cs \<in> {''b'', ''B''} then parse_radix 2 (drop 1 cs)
         else if c = CHR ''-'' then map_option uminus (parse_radix 10 cs)
         else if c = CHR ''+'' then parse_radix 10 cs
         else parse_radix 10 (c # cs)))"

text \<open>\<open>parseInt(s, 16)\<close>: leading white space, a sign and a \<open>0x\<close> prefix are skipped, then the
  longest run of hexadecimal digits is read; \<open>None\<close> is \<open>NaN\<close>.\<close>

definition hex_digit :: "char \<Rightarrow> bool" where
  "hex_digit c = (case digit_value c of None \<Rightarrow> False | Some d \<Rightarrow> d < 16)"

definition parseInt16 :: "string \<Rightarrow> int option" where
  "parseInt16 s0 =
     (let s = dropWhile js_space s0;
          neg = (take 1 s = ''-'');
          s1 = (if take 1 s \<in> {''-'', ''+''} then drop 1 s else s);
          s2 = (if take 2 s1 \<in> {''0x'', ''0X''} then drop 2 s1 else s1)
      in map_option (\<lambda>n. if neg then - n else n) (parse_radix 16 (takeWhile hex_digit s2)))"

text \<open>The loop \<open>bytes[i / 2] = parseInt(hex.slice(i, i + 2), 16)\<close> into a \<open>Uint8Array\<close> of
  \<open>hex.length / 2\<close> cells: \<open>NaN\<close> is stored as 0, values wrap modulo 256, and the write of an
  unpaired last digit falls outside the array.\<close>

fun hex_pairs :: "string \<Rightarrow> bytes" where
  "hex_pairs (c # d # cs) =
     (case parseInt16 [c, d] of None \<Rightarrow> 0 | Some n \<Rightarrow> word_of_int n) # hex_pairs cs"
| "hex_pairs _ = []"

subsection \<open>String methods\<close>

definition padStart :: "nat \<Rightarrow> char \<Rightarrow> string \<Rightarrow> string" where
  "padStart n c s = replicate (n - length s) c @ s"

definition startsWith :: "string \<Rightarrow> string \<Rightarrow> bool" where
  "startsWith s p \<longleftrightarrow> take (length p) s = p"

definition js_includes :: "string \<Rightarrow> string \<Rightarrow> bool" where
  "js_includes s sub \<longleftrightarrow> list_ex (\<lambda>i. startsWith (drop i s) sub) [0..<Suc (length s)]"

text \<open>\<open>s.replace('0x', '')\<close>: the first occurrence only.\<close>

fun strip0x :: "string \<Rightarrow> string" where
  "strip0x [] = []"
| "strip0x [c] = [c]"
| "strip0x (c # d # cs) =
     (if c = CHR ''0'' \<and> d = CHR ''x'' then cs else c # strip0x (d # cs))"

definition lower_char :: "char \<Rightarrow> char" where
  "lower_char c = (let n = of_char c :: nat in if 65 \<le> n \<and> n \<le> 90 then char_of (n + 32) else c)"

definition upper_char :: "char \<Rightarrow> char" where
  "upper_char c = (let n = of_char c :: nat in if 97 \<le> n \<and> n \<le> 122 then char_of (n - 32) else c)"

definition toLowerCase :: "string \<Rightarrow> string" where "toLowerCase s = map lower_char s"
definition toUpperCase :: "string \<Rightarrow> string" where "toUpperCase s = map upper_char s"

fun join :: "string \<Rightarrow> string list \<Rightarrow> string" where
  "join sep [] = []"
| "join sep [s] = s"
| "join sep (s # t # ss) = s @ sep @ join sep (t # ss)"

text \<open>\<open>s.split(c)\<close> on a one-character separator.\<close>

fun split_on :: "char \<Rightarrow> string \<Rightarrow> string list" where
  "split_on c [] = [[]]"
| "split_on c (x # xs) =
     (if x = c then [] # split_on c xs
      else (case split_on c xs of [] \<Rightarrow> [[x]] | y # ys \<Rightarrow> (x # y) # ys))"

subsection \<open>Round trips\<close>

lemma digit_char_table:
  "map (\<lambda>d. digit_value (digit_char d)) [0..35] = map Some [0..35]"
  by code_simp

lemma digit_value_char:
  assumes "0 \<le> d" and "d < 36"
  shows "digit_value (digit_char d) = Some d"
proof -
  have "d \<in> set [0..35]" using assms by simp
  with digit_char_table show ?thesis by (simp only: map_eq_conv)
qed

lemma parse_digits_append:
  "parse_digits b acc (s @ t) =
     (case parse_digits b acc s of None \<Rightarrow> None | Some a \<Rightarrow> parse_digits b a t)"
  by (induction s arbitrary: acc) (auto split: option.splits)

lemma parse_radix_digits:
  assumes "0 \<le> n" and "2 \<le> b" and "b \<le> 36"
  shows "parse_digits b 0 (radix_digits b n) = Some n"
  using assms
proof (induction b n rule: radix_digits.induct)
  case (1 b n)
  show ?case
  proof (cases "n < b")
    case True
    with "1.prems" show ?thesis
      by (subst radix_digits.simps) (simp add: digit_value_char)
  next
    case False
    have d: "0 \<le> n mod b" "n mod b < b" using "1.prems" by auto
    with "1.prems" have dv: "digit_value (digit_char (n mod b)) = Some (n mod b)"
      by (intro digit_value_char) linarith+
    have "parse_digits b 0 (radix_digits b (n div b)) = Some (n div b)"
      using "1.IH" "1.prems" False by (simp add: pos_imp_zdiv_nonneg_iff)
    with False "1.prems" d dv show ?thesis
      by (subst radix_digits.simps) (simp add: parse_digits_append)
  qed
qed

lemma radix_digits_nonempty [simp]: "radix_digits b n \<noteq> []"
  by (subst radix_digits.simps) simp

lemma parse_hex [simp]: "0 \<le> n \<Longrightarrow> parse_radix 16 (hex n) = Some n"
  by (simp add: parse_radix_def toString_radix_def parse_radix_digits)

lemma parse_dec [simp]: "0 \<le> n \<Longrightarrow> parse_radix 10 (dec n) = Some n"
  by (simp add: parse_radix_def toString_radix_def parse_radix_digits)

text \<open>Digits are not white space, so trimming keeps a printed number.\<close>

lemma digit_not_space:
  assumes "digit_value c = Some d"
  shows "\<not> js_space c"
proof
  assume "js_space c"
  then have "digit_value c = None"
    by (auto simp: js_space_def digit_value_def)
  with assms show False by simp
qed

lemma parse_digits_no_space: "parse_digits b acc s = Some n \<Longrightarrow> c \<in> set s \<Longrightarrow> \<not> js_space c"
  by (induction s arbitrary: acc) (auto split: option.splits if_splits dest: digit_not_space)

lemma js_trim_id: "(\<And>c. c \<in> set s \<Longrightarrow> \<not> js_space c) \<Longrightarrow> js_trim s = s"
proof -
  assume a: "\<And>c. c \<in> set s \<Longrightarrow> \<not> js_space c"
  have d: "dropWhile js_space t = t" if "\<And>c. c \<in> set t \<Longrightarrow> \<not> js_space c" for t
    using that by (cases t) auto
  show ?thesis using d [of s] d [of "rev s"] a by (simp add: js_trim_def)
qed

lemma parse_BigInt_0x_hex: "0 \<le> n \<Longrightarrow> parse_BigInt (''0x'' @ hex n) = Inr n"
proof -
  assume n: "0 \<le> n"
  have "\<not> js_space c" if "c \<in> set (''0x'' @ hex n)" for c
    using that parse_digits_no_space [of 16 0 "hex n" n c] parse_hex [OF n]
    by (auto simp: parse_radix_def js_space_def split: if_splits)
  then have "js_trim (''0x'' @ hex n) = ''0x'' @ hex n" by (rule js_trim_id)
  then show ?thesis using n by (simp add: parse_BigInt_def syntax_option_def)
qed

lemma parse_BigInt_0x_hex_Cons [simp]:
  "0 \<le> n \<Longrightarrow> parse_BigInt (CHR ''0'' # CHR ''x'' # hex n) = Inr n"
  using parse_BigInt_0x_hex [of n] by simp

lemma startsWith_append [simp]: "startsWith (p @ s) p"
  by (simp add: startsWith_def)

lemma startsWith_0x [simp]: "startsWith (CHR ''0'' # CHR ''x'' # s) ''0x''"
  by (simp add: startsWith_def)

lemma toString_radix_inject:
  assumes "2 \<le> b" and "b \<le> 36" and "0 \<le> m" and "0 \<le> n"
  shows "toString_radix b m = toString_radix b n \<longleftrightarrow> m = n"
proof
  assume "toString_radix b m = toString_radix b n"
  then have "radix_digits b m = radix_digits b n"
    using assms(3,4) by (simp add: toString_radix_def)
  then have "Some m = Some n"
    unfolding parse_radix_digits [OF assms(3,1,2), symmetric]
      parse_radix_digits [OF assms(4,1,2), symmetric] by (rule arg_cong)
  then show "m = n" by (rule option.inject [THEN iffD1])
next
  assume "m = n"
  then show "toString_radix b m = toString_radix b n" by (rule arg_cong)
qed

text \<open>Printed numbers hold digits only; the separators of the hash preimages are not digits.\<close>

lemma parse_digits_digits: "parse_digits b acc s = Some n \<Longrightarrow> c \<in> set s \<Longrightarrow> digit_value c \<noteq> None"
  by (induction s arbitrary: acc) (auto split: option.splits if_splits)

lemma hex_digits: "0 \<le> n \<Longrightarrow> c \<in> set (hex n) \<Longrightarrow> digit_value c \<noteq> None"
  using parse_digits_digits [of 16 0 "hex n" n c] parse_hex [of n]
  by (auto simp: parse_radix_def split: if_splits)

lemma dec_digits: "0 \<le> n \<Longrightarrow> c \<in> set (dec n) \<Longrightarrow> digit_value c \<noteq> None"
  using parse_digits_digits [of 10 0 "dec n" n c] parse_dec [of n]
  by (auto simp: parse_radix_def split: if_splits)

lemma append_sep_inject:
  "c \<notin> set s \<Longrightarrow> c \<notin> set s' \<Longrightarrow> s @ c # t = s' @ c # t' \<longleftrightarrow> s = s' \<and> t = t'"
proof (induction s arbitrary: s')
  case Nil
  then show ?case by (cases s') auto
next
  case (Cons a s)
  then show ?case by (cases s') auto
qed

lemma length_hex_pairs [simp]: "length (hex_pairs s) = length s div 2"
  by (induction s rule: hex_pairs.induct) auto

lemma hex_digitI: "digit_value c = Some d \<Longrightarrow> d < 16 \<Longrightarrow> hex_digit c"
  by (simp add: hex_digit_def)

lemma parseInt16_pair:
  assumes "digit_value c = Some a" and "digit_value d = Some b" and "a < 16" and "b < 16"
  shows "parseInt16 [c, d] = Some (16 * a + b)"
proof -
  have c: "\<not> js_space c" "c \<noteq> CHR ''-''" "c \<noteq> CHR ''+''"
    using digit_not_space [OF assms(1)] assms(1) by (auto simp: digit_value_def)
  have d: "d \<noteq> CHR ''x''" "d \<noteq> CHR ''X''" using assms(2,4) by (auto simp: digit_value_def)
  show ?thesis
    using c d assms hex_digitI [OF assms(1,3)] hex_digitI [OF assms(2,4)]
    by (simp add: parseInt16_def Let_def parse_radix_def)
qed

subsection \<open>Bytes in hexadecimal\<close>

text \<open>\<open>b.toString(16).padStart(2, '0')\<close>\<close>

definition byte_hex :: "byte \<Rightarrow> string" where
  "byte_hex b = padStart 2 CHR ''0'' (hex (uint b))"

lemma byte_hex_eq: "byte_hex b = [digit_char (uint b div 16), digit_char (uint b mod 16)]"
proof -
  have z: "CHR ''0'' = digit_char 0" by (simp add: digit_char_def)
  have b: "0 \<le> uint b" "uint b < 256" by (rule uint_byte_bounds)+
  show ?thesis
  proof (cases "uint b < 16")
    case True
    then have "uint b div 16 = 0" "uint b mod 16 = uint b"
      using b by (auto simp: div_pos_pos_trivial mod_pos_pos_trivial)
    then show ?thesis
      using b True by (simp add: byte_hex_def toString_radix_def padStart_def radix_digits.simps z)
  next
    case False
    have "uint b div 16 < 16" using b by linarith
    then show ?thesis
      using b False
      by (simp add: byte_hex_def toString_radix_def padStart_def radix_digits.simps [of 16 "uint b"]
          radix_digits.simps [of 16 "uint b div 16"])
  qed
qed

lemma byte_digits_range: "uint (b :: byte) div 16 < 16" "uint (b :: byte) mod 16 < 16"
  "0 \<le> uint (b :: byte) div 16" "0 \<le> uint (b :: byte) mod 16"
  "16 * (uint b div 16) + uint b mod 16 = uint b"
  using uint_byte_bounds [of b] by (auto simp: pos_imp_zdiv_nonneg_iff)

lemma digit_value_nibble: "0 \<le> d \<Longrightarrow> d < 16 \<Longrightarrow> digit_value (digit_char d) = Some d"
  by (intro digit_value_char) linarith+

lemma byte_hex_digits:
  "digit_value (digit_char (uint (b :: byte) div 16)) = Some (uint b div 16)"
  "digit_value (digit_char (uint (b :: byte) mod 16)) = Some (uint b mod 16)"
  using byte_digits_range [of b] by (auto intro: digit_value_nibble)

lemma parse_digits_byte_hex:
  "parse_digits 16 acc (byte_hex b) = Some (256 * acc + uint b)"
  using byte_digits_range [of b] by (simp add: byte_hex_eq byte_hex_digits algebra_simps)

lemma parse_digits_bytes:
  "parse_digits 16 acc (concat (map byte_hex bs)) = Some (acc * 256 ^ length bs + be_int bs)"
proof (induction bs rule: rev_induct)
  case Nil
  then show ?case by simp
next
  case (snoc b bs)
  then show ?case
    by (simp add: parse_digits_append parse_digits_byte_hex be_int_snoc algebra_simps)
qed

lemma length_hex_bytes [simp]: "length (concat (map byte_hex bs)) = 2 * length bs"
  by (induction bs) (auto simp: byte_hex_eq)

lemma hex_bytes_inject: "concat (map byte_hex a) = concat (map byte_hex b) \<longleftrightarrow> a = b"
proof
  assume eq: "concat (map byte_hex a) = concat (map byte_hex b)"
  from arg_cong [OF this, of length] have "length a = length b" by simp
  moreover have "be_int a = be_int b"
    using parse_digits_bytes [of 0 a] parse_digits_bytes [of 0 b] eq by simp
  ultimately show "a = b" by (simp add: be_int_inject)
qed simp

lemma digit_char_lower_table: "list_all (\<lambda>d. lower_char (digit_char d) = digit_char d) [0..15]"
  by code_simp

lemma digit_char_lower: "0 \<le> d \<Longrightarrow> d < 16 \<Longrightarrow> lower_char (digit_char d) = digit_char d"
  using digit_char_lower_table by (simp only: list_all_iff) (simp add: atLeastAtMost_iff)

lemma hex_bytes_chars:
  "c \<in> set (concat (map byte_hex bs)) \<Longrightarrow> \<exists>d. 0 \<le> d \<and> d < 16 \<and> c = digit_char d"
proof -
  assume "c \<in> set (concat (map byte_hex bs))"
  then obtain b where "c = digit_char (uint b div 16) \<or> c = digit_char (uint (b :: byte) mod 16)"
    by (auto simp: byte_hex_eq)
  with byte_digits_range [of b] show ?thesis by blast
qed

lemma hex_pairs_bytes: "hex_pairs (concat (map byte_hex bs)) = bs"
proof (induction bs)
  case Nil
  then show ?case by simp
next
  case (Cons b bs)
  then show ?case
    using parseInt16_pair [OF byte_hex_digits(1,2) byte_digits_range(1,2), of b] byte_digits_range(5) [of b]
    by (simp add: byte_hex_eq)
qed

end
