(* ===== verification/Noble.thy ===== *)
theory Noble
  imports JsText
begin

section \<open>Third-party primitives\<close>

text \<open>
  The functions of \<^verbatim>\<open>@noble/hashes\<close>, \<^verbatim>\<open>@noble/curves\<close> and \<^verbatim>\<open>node:crypto\<close> the program
  calls. None of their code is in the repository, so they are fields of two records that every
  definition using them takes as an argument; nothing is assumed of them here. What a property
  relies on is one of the named predicates of this theory, each a documented behaviour, and the
  witnesses instantiate the records with \<open>toy_hashes\<close> and \<open>toy_ec\<close>.
\<close>

record hashes =
  h_sha256 :: "bytes \<Rightarrow> bytes"
  h_sha512 :: "bytes \<Rightarrow> bytes"
  h_keccak_256 :: "bytes \<Rightarrow> bytes"
  h_ripemd160 :: "bytes \<Rightarrow> bytes"
  h_hmac_sha256 :: "bytes \<Rightarrow> bytes \<Rightarrow> bytes"
  h_bytesToHex :: "bytes \<Rightarrow> string"
  h_hexToBytes :: "string \<Rightarrow> bytes result"

text \<open>AES-256-GCM and PBKDF2 of Web Crypto: key, initialization vector, text; the ciphertext ends with
  the 16-byte tag.\<close>

record webcrypto =
  wc_gcm_encrypt :: "bytes \<Rightarrow> bytes \<Rightarrow> bytes \<Rightarrow> bytes"
  wc_gcm_decrypt :: "bytes \<Rightarrow> bytes \<Rightarrow> bytes \<Rightarrow> bytes result"
  wc_pbkdf2 :: "bytes \<Rightarrow> bytes \<Rightarrow> bytes"

record ed25519 =
  ed_getPublicKey :: "bytes \<Rightarrow> bytes result"
  ed_sign :: "bytes \<Rightarrow> bytes \<Rightarrow> bytes result"
  ed_verify :: "bytes \<Rightarrow> bytes \<Rightarrow> bytes \<Rightarrow> bool result"

record 'p ec =
  ec_order :: int
  ec_BASE_multiply :: "int \<Rightarrow> 'p result"
  ec_multiply :: "'p \<Rightarrow> int \<Rightarrow> 'p result"
  ec_add :: "'p \<Rightarrow> 'p \<Rightarrow> 'p"
  ec_ZERO :: "'p"
  ec_equals :: "'p \<Rightarrow> 'p \<Rightarrow> bool"
  ec_fromHex :: "string \<Rightarrow> 'p result"
  ec_x :: "'p \<Rightarrow> int"
  ec_toRawBytes :: "'p \<Rightarrow> bool \<Rightarrow> bytes result"
  ec_getPublicKey :: "bytes \<Rightarrow> bool \<Rightarrow> bytes result"
  ec_compact :: "int \<Rightarrow> int \<Rightarrow> bytes result"
  ec_sign :: "bytes \<Rightarrow> bytes \<Rightarrow> (int \<times> int \<times> int) result"
  ec_verify :: "bytes \<Rightarrow> bytes \<Rightarrow> bytes \<Rightarrow> bool result"

subsection \<open>Documented behaviour\<close>

text \<open>\<open>bytesToHex\<close> writes two lower-case hexadecimal digits per byte, \<open>hexToBytes\<close> inverts it.\<close>

definition hex_laws :: "hashes \<Rightarrow> bool" where
  "hex_laws h \<longleftrightarrow>
     (\<forall>bs. h_bytesToHex h bs = concat (map byte_hex bs))
     \<and> (\<forall>bs. h_hexToBytes h (h_bytesToHex h bs) = Inr bs)"

text \<open>Scalar multiples of the base point: defined for \<open>1 \<le> k < n\<close> (the library throws outside),
  additive, and distinct for distinct residues.\<close>

definition ec_laws :: "'p ec \<Rightarrow> (int \<Rightarrow> 'p) \<Rightarrow> bool" where
  "ec_laws E G \<longleftrightarrow> 1 < ec_order E
     \<and> (\<forall>k. 0 < k \<and> k < ec_order E \<longrightarrow> ec_BASE_multiply E k = Inr (G k))
     \<and> (\<forall>k. \<not> (0 < k \<and> k < ec_order E) \<longrightarrow> (\<exists>e. ec_BASE_multiply E k = Inl e))
     \<and> (\<forall>a b. ec_add E (G a) (G b) = G (a + b))
     \<and> ec_ZERO E = G 0
     \<and> (\<forall>a b. ec_equals E (G a) (G b) \<longleftrightarrow> a mod ec_order E = b mod ec_order E)"

lemma ec_multiply_in: "ec_laws E G \<Longrightarrow> 0 < k \<Longrightarrow> k < ec_order E \<Longrightarrow> ec_BASE_multiply E k = Inr (G k)"
  by (simp add: ec_laws_def)

lemma ec_multiply_out:
  "ec_laws E G \<Longrightarrow> \<not> (0 < k \<and> k < ec_order E) \<Longrightarrow> \<exists>e. ec_BASE_multiply E k = Inl e"
  by (simp add: ec_laws_def)

lemma ec_multiply_Inr_iff:
  "ec_laws E G \<Longrightarrow> ec_BASE_multiply E k = Inr P \<longleftrightarrow> 0 < k \<and> k < ec_order E \<and> P = G k"
  using ec_multiply_in [of E G k] ec_multiply_out [of E G k] by fastforce

lemma ec_laws_simps:
  assumes "ec_laws E G"
  shows "1 < ec_order E" and "ec_add E (G a) (G b) = G (a + b)" and "ec_ZERO E = G 0"
    and "ec_equals E (G a) (G b) \<longleftrightarrow> a mod ec_order E = b mod ec_order E"
  using assms by (auto simp: ec_laws_def)

text \<open>Documented behaviour of the point encoding: \<open>fromHex\<close> inverts \<open>bytesToHex(toRawBytes())\<close>, and
  a multiple of a multiple of the base point is one.\<close>

definition ec_point_laws :: "hashes \<Rightarrow> 'p ec \<Rightarrow> (int \<Rightarrow> 'p) \<Rightarrow> (int \<Rightarrow> bytes) \<Rightarrow> bool" where
  "ec_point_laws h E G raw \<longleftrightarrow>
     (\<forall>a. 0 < a \<longrightarrow> a < ec_order E \<longrightarrow> ec_toRawBytes E (G a) False = Inr (raw a)
        \<and> ec_fromHex E (h_bytesToHex h (raw a)) = Inr (G a))
     \<and> (\<forall>a k. 0 < k \<longrightarrow> k < ec_order E \<longrightarrow> ec_multiply E (G a) k = Inr (G (a * k)))"

text \<open>Authenticated encryption: decryption inverts encryption and accepts nothing else.\<close>

definition gcm_laws :: "webcrypto \<Rightarrow> bool" where
  "gcm_laws W \<longleftrightarrow>
     (\<forall>k iv p. wc_gcm_decrypt W k iv (wc_gcm_encrypt W k iv p) = Inr p)
     \<and> (\<forall>k iv p. length (wc_gcm_encrypt W k iv p) = length p + 16)
     \<and> (\<forall>k iv c p. wc_gcm_decrypt W k iv c = Inr p \<longrightarrow> c = wc_gcm_encrypt W k iv p)"

lemma gcm_lawsD:
  assumes "gcm_laws W"
  shows "wc_gcm_decrypt W k iv (wc_gcm_encrypt W k iv p) = Inr p"
    and "length (wc_gcm_encrypt W k iv p) = length p + 16"
    and "wc_gcm_decrypt W k iv c = Inr p \<Longrightarrow> c = wc_gcm_encrypt W k iv p"
  using assms unfolding gcm_laws_def by blast+

text \<open>EdDSA: signatures are 64 bytes, and what a key signs verifies under its public key.\<close>

definition ed_laws :: "ed25519 \<Rightarrow> bool" where
  "ed_laws D \<longleftrightarrow>
     (\<forall>m k s p. ed_sign D m k = Inr s \<longrightarrow> ed_getPublicKey D k = Inr p \<longrightarrow>
        length s = 64 \<and> ed_verify D s m p = Inr True)"

subsection \<open>Instances for the witnesses\<close>

fun unhex :: "string \<Rightarrow> bytes result" where
  "unhex [] = Inr []"
| "unhex [c] = Inl (Error ''hex string expected, got unpadded hex'')"
| "unhex (c # d # s) =
     (case (digit_value c, digit_value d) of
        (Some a, Some b) \<Rightarrow>
          if a < 16 \<and> b < 16 then rbind (unhex s) (\<lambda>bs. Inr (word_of_int (16 * a + b) # bs))
          else Inl (Error ''invalid hex'')
      | _ \<Rightarrow> Inl (Error ''invalid hex''))"

text \<open>The sum of the bytes and the length, padded to 32 bytes.\<close>

definition toy_hash :: "bytes \<Rightarrow> bytes" where
  "toy_hash bs = replicate 30 0 @ [of_nat (length bs), sum_list bs]"

definition toy_hashes :: hashes where
  "toy_hashes = \<lparr>h_sha256 = toy_hash, h_sha512 = (\<lambda>bs. toy_hash bs @ toy_hash bs),
     h_keccak_256 = toy_hash, h_ripemd160 = (\<lambda>bs. drop 12 (toy_hash bs)),
     h_hmac_sha256 = (\<lambda>k bs. toy_hash (k @ bs)),
     h_bytesToHex = (\<lambda>bs. concat (map byte_hex bs)), h_hexToBytes = unhex\<rparr>"

text \<open>The text in clear, followed by a tag that is a digest of key, vector and text.\<close>

definition toy_tag :: "bytes \<Rightarrow> bytes \<Rightarrow> bytes \<Rightarrow> bytes" where
  "toy_tag k iv p = drop 16 (toy_hash (k @ iv @ p))"

definition toy_webcrypto :: webcrypto where
  "toy_webcrypto = \<lparr>wc_gcm_encrypt = (\<lambda>k iv p. p @ toy_tag k iv p),
     wc_gcm_decrypt = (\<lambda>k iv c. let p = take (length c - 16) c in
        if 16 \<le> length c \<and> drop (length c - 16) c = toy_tag k iv p then Inr p
        else Inl (Error ''OperationError'')),
     wc_pbkdf2 = (\<lambda>s salt. toy_hash (s @ salt))\<rparr>"

definition toy_ed :: ed25519 where
  "toy_ed = \<lparr>ed_getPublicKey = (\<lambda>k. Inr (toy_hash k)),
     ed_sign = (\<lambda>m k. Inr (toy_hash k @ toy_hash m)),
     ed_verify = (\<lambda>s m p. Inr (s = p @ toy_hash m))\<rparr>"

lemma length_toy_tag [simp]: "length (toy_tag k iv p) = 16"
  by (simp add: toy_tag_def toy_hash_def)

lemma toy_gcm_laws: "gcm_laws toy_webcrypto"
proof -
  have "c = p @ toy_tag k iv p" if "wc_gcm_decrypt toy_webcrypto k iv c = Inr p" for k iv c p
  proof -
    have "drop (length c - 16) c = toy_tag k iv p" "p = take (length c - 16) c"
      using that by (auto simp: toy_webcrypto_def Let_def split: if_splits)
    then show ?thesis by (metis append_take_drop_id)
  qed
  then show ?thesis by (simp add: gcm_laws_def) (simp add: toy_webcrypto_def Let_def)
qed

lemma toy_ed_laws: "ed_laws toy_ed"
  by (simp add: ed_laws_def toy_ed_def toy_hash_def)

text \<open>The additive group of residues, with base point 1.\<close>

definition toy_ec :: "int \<Rightarrow> int ec" where
  "toy_ec q = \<lparr>ec_order = q,
     ec_BASE_multiply = (\<lambda>k. if 0 < k \<and> k < q then Inr (k mod q)
        else Inl (Error ''invalid scalar: out of range'')),
     ec_multiply = (\<lambda>p k. if 0 < k \<and> k < q then Inr (p * k mod q)
        else Inl (Error ''invalid scalar: out of range'')),
     ec_add = (\<lambda>a b. (a + b) mod q), ec_ZERO = 0, ec_equals = (=),
     ec_fromHex = (\<lambda>s. case parse_radix 16 s of
        None \<Rightarrow> Inl (Error ''Point of length was invalid'') | Some n \<Rightarrow> Inr (n mod q)),
     ec_x = (\<lambda>p. p), ec_toRawBytes = (\<lambda>p c. Inr (if c then int_be 33 p else int_be 65 p)),
     ec_getPublicKey = (\<lambda>k c. Inr (if c then int_be 33 (be_int k mod q) else int_be 65 (be_int k mod q))),
     ec_compact = (\<lambda>r s. Inr (int_be 32 r @ int_be 32 s)),
     ec_sign = (\<lambda>m k. Inr (be_int m, be_int k, 0)),
     ec_verify = (\<lambda>s m p. Inr (s = m @ p))\<rparr>"

lemma toy_ec_laws: "1 < q \<Longrightarrow> ec_laws (toy_ec q) (\<lambda>k. k mod q)"
  by (auto simp: ec_laws_def toy_ec_def mod_simps)

lemma unhex_hex: "unhex (concat (map byte_hex bs)) = Inr bs"
  using byte_digits_range by (induction bs) (auto simp: byte_hex_eq byte_hex_digits)

lemma toy_hex_laws: "hex_laws toy_hashes"
  by (simp add: hex_laws_def toy_hashes_def unhex_hex)

lemma hex_lawsD:
  assumes "hex_laws h"
  shows "h_hexToBytes h (h_bytesToHex h bs) = Inr bs"
    and "length (h_bytesToHex h bs) = 2 * length bs"
    and "c \<in> set (h_bytesToHex h bs) \<Longrightarrow> digit_value c \<noteq> None \<and> lower_char c = c"
    and "bs \<noteq> [] \<Longrightarrow> parse_radix 16 (h_bytesToHex h bs) = Some (be_int bs)"
    and "hex_pairs (h_bytesToHex h bs) = bs"
proof -
  have h: "h_bytesToHex h bs = concat (map byte_hex bs)" using assms by (simp add: hex_laws_def)
  show "h_hexToBytes h (h_bytesToHex h bs) = Inr bs" using assms unfolding hex_laws_def by blast
  show "length (h_bytesToHex h bs) = 2 * length bs" by (simp add: h)
  show "hex_pairs (h_bytesToHex h bs) = bs" by (simp only: h hex_pairs_bytes)
  show "bs \<noteq> [] \<Longrightarrow> parse_radix 16 (h_bytesToHex h bs) = Some (be_int bs)"
    using parse_digits_bytes [of 0 bs] unfolding h parse_radix_def
    by (cases bs) (auto simp: byte_hex_eq)
  show "c \<in> set (h_bytesToHex h bs) \<Longrightarrow> digit_value c \<noteq> None \<and> lower_char c = c"
    using hex_bytes_chars [of c bs] unfolding h by (auto simp: digit_char_lower digit_value_nibble)
qed

lemma bytesToHex_inject: "hex_laws h \<Longrightarrow> h_bytesToHex h a = h_bytesToHex h b \<longleftrightarrow> a = b"
  by (simp add: hex_laws_def hex_bytes_inject)

lemma toy_point_laws:
  assumes "q \<le> 256"
  shows "ec_point_laws toy_hashes (toy_ec q) (\<lambda>k. k mod q) (int_be 65)"
proof -
  have p: "parse_radix 16 (h_bytesToHex toy_hashes (int_be 65 a)) = Some a" if "0 < a" "a < q" for a
  proof -
    have "int_be 65 a \<noteq> []" using length_int_be [of 65 a] by fastforce
    then have "parse_radix 16 (h_bytesToHex toy_hashes (int_be 65 a)) = Some (a mod 256 ^ 65)"
      using hex_lawsD(4) [OF toy_hex_laws, of "int_be 65 a"] unfolding be_int_int_be by blast
    then show ?thesis using that assms by simp
  qed
  show ?thesis by (simp add: ec_point_laws_def toy_ec_def p mod_mult_left_eq)
qed

end
