(* ===== verification/Mta.thy ===== *)
theory Mta
  imports Paillier Noble
begin

section \<open>Multiplication to addition\<close>

text \<open>
  \<^verbatim>\<open>src/lib/crypto/mta_zkp.ts\<close>: two parties holding \<open>x\<close> and \<open>y\<close> obtain additive shares of
  \<open>x * y\<close> through a Paillier ciphertext, with a Fiat-Shamir "range proof" on each message, and
  an audit that names the first node whose messages do not check. The curve is the parameter
  \<open>E\<close> (its order replaces \<open>CURVE_ORDER\<close>), the hashes are \<open>h\<close>; a \<open>Map\<close> that is only looked
  up is a partial function.
\<close>

record MtAProof =
  mp_commitment :: string
  mp_z :: string
  mp_w :: string
  mp_challenge :: string
  mp_isValid :: bool

record AbortReport =
  ar_aborted :: bool
  ar_faultyNodeId :: "string option"
  ar_reason :: "string option"
  ar_evidence :: "string option"

subsection \<open>The range proof\<close>

definition generateChallenge :: "hashes \<Rightarrow> int \<Rightarrow> paillier_public \<Rightarrow> int \<Rightarrow> string \<Rightarrow> int" where
  "generateChallenge h q pk c extraData =
     be_int (h_sha256 h (utf8 (hex (pk_n pk) @ '':'' @ hex (pk_g pk) @ '':'' @ hex c @ '':'' @ extraData)))
     smod q"

definition generateMtARangeProof ::
  "hashes \<Rightarrow> int \<Rightarrow> paillier_public \<Rightarrow> int \<Rightarrow> string \<Rightarrow> MtAProof rnd" where
  "generateMtARangeProof h q pk secretShare extraData =
     rnd_bind (randomScalar q) (\<lambda>alpha.
     rnd_bind (encryptPaillier pk alpha) (\<lambda>ciphertextAlpha.
     let e = generateChallenge h q pk ciphertextAlpha extraData;
         z = modN q (alpha + e * secretShare)
     in rnd_return \<lparr>mp_commitment = ''0x'' @ hex ciphertextAlpha, mp_z = ''0x'' @ hex z,
          mp_w = ''0x'' @ h_bytesToHex h (h_sha256 h (utf8 (dec alpha))),
          mp_challenge = ''0x'' @ hex e, mp_isValid = True\<rparr>))"

definition verifyMtARangeProof ::
  "hashes \<Rightarrow> int \<Rightarrow> paillier_public \<Rightarrow> MtAProof \<Rightarrow> string \<Rightarrow> bool" where
  "verifyMtARangeProof h q pk proof extraData =
     (if \<not> startsWith (mp_commitment proof) ''0x'' \<or> \<not> startsWith (mp_z proof) ''0x'' then False
      else case rbind (parse_BigInt (mp_z proof)) (\<lambda>z.
             rbind (parse_BigInt (mp_commitment proof)) (\<lambda>commitment.
             if z < 0 \<or> z \<ge> q then Inr False
             else if commitment \<le> 0 \<or> commitment \<ge> pk_nSquared pk then Inr False
             else let expected = generateChallenge h q pk commitment extraData in
               if mp_challenge proof = [] then Inr True
               else rbind (parse_BigInt (mp_challenge proof)) (\<lambda>c. Inr (c = expected))))
           of Inl e \<Rightarrow> False | Inr b \<Rightarrow> b)"

subsection \<open>The rounds\<close>

definition executeMtARound1 ::
  "hashes \<Rightarrow> int \<Rightarrow> paillier_public \<Rightarrow> int \<Rightarrow> (int \<times> MtAProof) rnd" where
  "executeMtARound1 h q pk secretX =
     rnd_bind (encryptPaillier pk secretX) (\<lambda>ciphertext.
     rnd_bind (generateMtARangeProof h q pk secretX ''round1'') (\<lambda>proof.
     rnd_return (ciphertext, proof)))"

definition executeMtARound2 ::
  "hashes \<Rightarrow> int \<Rightarrow> paillier_public \<Rightarrow> int \<Rightarrow> int \<Rightarrow> (int \<times> MtAProof \<times> int) rnd" where
  "executeMtARound2 h q pkA ciphertextX secretY =
     (let n = pk_n pkA in
      rnd_bind (randomScalar q) (\<lambda>beta.
      rnd_bind (rnd_lift (modPow ciphertextX secretY (pk_nSquared pkA))) (\<lambda>c_x_y.
      if n = 0 then rnd_throw (RangeError ''Division by zero'')
      else let negBeta = (n - (beta smod n)) smod n in
      rnd_bind (encryptPaillier pkA negBeta) (\<lambda>c_neg_beta.
      let ciphertextK = (c_x_y * c_neg_beta) smod pk_nSquared pkA in
      rnd_bind (generateMtARangeProof h q pkA secretY ''round2'') (\<lambda>proofB.
      rnd_return (ciphertextK, proofB, beta))))))"

definition executeMtADecrypt ::
  "int \<Rightarrow> paillier_private \<Rightarrow> paillier_public \<Rightarrow> int \<Rightarrow> int result" where
  "executeMtADecrypt q skA pkA ciphertextK =
     rbind (decryptPaillier skA pkA ciphertextK) (\<lambda>decrypted.
     Inr ((decrypted smod q + q) smod q))"

definition executeMtARound3 ::
  "'p ec \<Rightarrow> string \<Rightarrow> string \<Rightarrow> int \<Rightarrow> int \<Rightarrow> int \<Rightarrow> bool" where
  "executeMtARound3 E publicKeyX publicKeyY alpha beta nonceCommitment =
     (case rbind (ec_fromHex E (strip0x publicKeyX)) (\<lambda>X.
           rbind (ec_fromHex E (strip0x publicKeyY)) (\<lambda>Y.
           rbind (ec_BASE_multiply E alpha) (\<lambda>alphaG.
           rbind (ec_BASE_multiply E beta) (\<lambda>betaG.
           let sum = ec_add E alphaG betaG in
           rbind (ec_BASE_multiply E nonceCommitment) (\<lambda>expected.
           Inr (ec_equals E sum expected))))))
      of Inl e \<Rightarrow> False | Inr b \<Rightarrow> b)"

definition abort_report :: "string \<Rightarrow> string \<Rightarrow> string \<Rightarrow> AbortReport" where
  "abort_report nodeId reason evidence =
     \<lparr>ar_aborted = True, ar_faultyNodeId = Some nodeId, ar_reason = Some reason,
      ar_evidence = Some evidence\<rparr>"

fun auditIdentifiableAbort ::
  "hashes \<Rightarrow> int \<Rightarrow> string list \<Rightarrow> (string \<Rightarrow> string option) \<Rightarrow> (string \<Rightarrow> MtAProof option)
   \<Rightarrow> (string \<Rightarrow> paillier_public option) \<Rightarrow> AbortReport" where
  "auditIdentifiableAbort h q [] commitments mtaProofs pks =
     \<lparr>ar_aborted = False, ar_faultyNodeId = None, ar_reason = None, ar_evidence = None\<rparr>"
| "auditIdentifiableAbort h q (nodeId # nodes) commitments mtaProofs pks =
     (if commitments nodeId = None
      then abort_report nodeId
             (''Node '' @ nodeId @ '' failed to supply round 1 presignature commitment'')
             ''MISSING_COMMITMENT''
      else case mtaProofs nodeId of
        None \<Rightarrow> abort_report nodeId (''Node '' @ nodeId @ '' provided no MtA proof'') ''MISSING_PROOF''
      | Some proof \<Rightarrow>
          (if (case pks nodeId of None \<Rightarrow> False
               | Some pk \<Rightarrow> \<not> verifyMtARangeProof h q pk proof [])
           then abort_report nodeId
                  (''Node '' @ nodeId @ '' provided invalid MtA Paillier range proof'')
                  (''INVALID_PROOF: commitment='' @ mp_commitment proof)
           else auditIdentifiableAbort h q nodes commitments mtaProofs pks))"

subsection \<open>Lemmas\<close>

lemma generateChallenge_range:
  "0 < q \<Longrightarrow> 0 \<le> generateChallenge h q pk c s \<and> generateChallenge h q pk c s < q"
  by (simp add: generateChallenge_def smod_nonneg)

text \<open>The verifier, without the error monad.\<close>

lemma verify_hex_proof:
  assumes "0 \<le> z" and "0 \<le> c" and "0 < q"
  shows "verifyMtARangeProof h q pk
      \<lparr>mp_commitment = ''0x'' @ hex c, mp_z = ''0x'' @ hex z, mp_w = w, mp_challenge = ''0x'' @ hex e,
       mp_isValid = v\<rparr> s
    \<longleftrightarrow> z < q \<and> 0 < c \<and> c < pk_nSquared pk
        \<and> parse_BigInt (''0x'' @ hex e) = Inr (generateChallenge h q pk c s)"
proof -
  note pz = parse_BigInt_0x_hex [OF assms(1)] parse_BigInt_0x_hex [OF assms(2)]
  show ?thesis
    unfolding verifyMtARangeProof_def MtAProof.simps pz rbind.simps Let_def
    using assms(1) by (cases "parse_BigInt (''0x'' @ hex e)") auto
qed

lemma encryptPaillier_range:
  assumes "public_ok pk" and "encryptPaillier pk m t = Some (Inr c, t')"
  shows "0 < c" and "c < pk_nSquared pk"
  using encrypts_range [OF _ encryptPaillier_encrypts [OF assms]] assms(1)
  by (auto simp: public_ok_def power2_eq_square)

lemma generateMtARangeProof_cases:
  assumes "generateMtARangeProof h q pk x s t = Some (Inr p, t')"
  obtains alpha c u where "randomScalar q t = Some (Inr alpha, u)"
    and "encryptPaillier pk alpha u = Some (Inr c, t')"
    and "p = \<lparr>mp_commitment = ''0x'' @ hex c,
          mp_z = ''0x'' @ hex (modN q (alpha + generateChallenge h q pk c s * x)),
          mp_w = ''0x'' @ h_bytesToHex h (h_sha256 h (utf8 (dec alpha))),
          mp_challenge = ''0x'' @ hex (generateChallenge h q pk c s), mp_isValid = True\<rparr>"
  using assms by (auto simp: generateMtARangeProof_def Let_def result_simps)

text \<open>The share party A decrypts, for any outcome of the draws.\<close>

lemma mta_decrypted_share:
  assumes "key_ok kp" and "1 < q"
    and "encryptPaillier (kp_public kp) x t = Some (Inr cx, t1)"
    and "executeMtARound2 h q (kp_public kp) cx y u = Some (Inr (cK, proofB, beta), u1)"
  shows "executeMtADecrypt q (kp_private kp) (kp_public kp) cK
      = Inr (((x * y - beta) mod pk_n (kp_public kp)) mod q)"
    and "0 < beta" and "beta < q" and "0 \<le> y"
proof -
  let ?n = "pk_n (kp_public kp)"
  note ok = key_ok_simps [OF assms(1)]
  have n: "1 < ?n" using ok(1) by (simp add: public_ok_def)
  have n2: "pk_nSquared (kp_public kp) = ?n\<^sup>2" "1 < ?n\<^sup>2"
    using public_ok_simps(1) [OF ok(1)] square_gt1 [OF n] by auto
  from assms(4) n obtain v1 v2 c1 c2 v3 where b: "randomScalar q u = Some (Inr beta, v1)"
    and c1: "Inr c1 = modPow cx y (?n\<^sup>2)"
    and c2: "encryptPaillier (kp_public kp) ((?n - (beta smod ?n)) smod ?n) v2 = Some (Inr c2, v3)"
    and cK: "cK = (c1 * c2) smod ?n\<^sup>2"
    by (auto simp: executeMtARound2_def Let_def result_simps n2 split: if_splits)
  show beta: "0 < beta" "beta < q" using randomScalar_range [OF b] by auto
  show y: "0 \<le> y" using c1 n2(2) by (auto simp: modPow_def split: if_splits)
  have e1: "encrypts ?n (int (nat y) * x) c1"
    using encrypts_scale [OF encryptPaillier_encrypts [OF ok(1) assms(3)], of "nat y"] c1 y n2(2)
    by (simp add: modPow_eq)
  have e2: "encrypts ?n ((?n - (beta smod ?n)) smod ?n) c2"
    by (rule encryptPaillier_encrypts [OF ok(1) c2])
  have r: "0 \<le> c1 * c2" using encrypts_range [OF n e1] encrypts_range [OF n e2] by simp
  have neg: "(?n - (beta smod ?n)) smod ?n = (- beta) mod ?n"
    using beta n by (simp add: smod_nonneg pos_mod_bound [THEN order_less_imp_le] mod_simps)
  have "cK = c1 * c2 mod ?n\<^sup>2" unfolding cK by (rule smod_nonneg [OF r]) (use n2(2) in linarith)
  with encrypts_add [OF e1 e2 [unfolded neg]]
  have "encrypts ?n (int (nat y) * x + (- beta) mod ?n) cK" by (simp only:)
  then have "decryptPaillier (kp_private kp) (kp_public kp) cK = Inr ((x * y - beta) mod ?n)"
    using decrypt_encrypts [OF ok] y by (simp add: mod_simps mult.commute)
  moreover have "(((x * y - beta) mod ?n) smod q + q) smod q = ((x * y - beta) mod ?n) mod q"
    using assms(2) by (simp add: smod_plus_smod)
  ultimately show "executeMtADecrypt q (kp_private kp) (kp_public kp) cK
      = Inr (((x * y - beta) mod ?n) mod q)"
    by (simp add: executeMtADecrypt_def)
qed

text \<open>When the residue modulo \<open>n\<close> wraps, the shares are off by \<open>n\<close>.\<close>

lemma share_sum:
  fixes x beta n q :: int
  assumes "0 \<le> x" and "x < n" and "0 < beta" and "beta < n" and "0 < q" and "\<not> q dvd n"
  shows "((x - beta) mod n mod q + beta) mod q = x mod q \<longleftrightarrow> beta \<le> x"
proof (cases "beta \<le> x")
  case True
  then have "(x - beta) mod n = x - beta" using assms by (simp add: mod_pos_pos_trivial)
  with True show ?thesis by (simp add: mod_simps)
next
  case False
  have "(x - beta) mod n = (x - beta + n) mod n" by simp
  also have "\<dots> = x - beta + n"
    by (rule mod_pos_pos_trivial) (use False assms in linarith)+
  finally have "((x - beta) mod n mod q + beta) mod q = (x + n) mod q" by (simp add: mod_simps)
  moreover have "(x + n) mod q \<noteq> x mod q" using assms(6) by (simp add: mod_eq_dvd_iff)
  ultimately show ?thesis using False by simp
qed

subsection \<open>Properties\<close>

text \<open>C19: MtA shares. Running round 1 for \<open>x\<close>, round 2 for \<open>y\<close> and the decryption, party A always
  obtains a share \<open>alpha\<close> in \<open>[0, q)\<close>, and the shares sum to \<open>x * y\<close> modulo the curve order
  exactly when party B's random \<open>beta\<close> is at most \<open>x * y\<close>: party B encrypts \<open>-beta\<close> modulo
  \<open>n\<close> without adding a multiple of \<open>q\<close>, so a smaller product wraps modulo \<open>n\<close> and the shares
  are off by \<open>n mod q\<close>.\<close>

theorem mta_shares_correct_iff:
  assumes "key_ok kp" and "1 < q" and "\<not> q dvd pk_n (kp_public kp)" and "q \<le> pk_n (kp_public kp)"
    and "x * y < pk_n (kp_public kp)"
    and "executeMtARound1 h q (kp_public kp) x t = Some (Inr (cx, proofA), t1)"
    and "executeMtARound2 h q (kp_public kp) cx y u = Some (Inr (cK, proofB, beta), u1)"
  shows "\<exists>alpha. executeMtADecrypt q (kp_private kp) (kp_public kp) cK = Inr alpha
    \<and> 0 \<le> alpha \<and> alpha < q \<and> ((alpha + beta) mod q = (x * y) mod q \<longleftrightarrow> beta \<le> x * y)"
proof -
  let ?n = "pk_n (kp_public kp)"
  from assms(6) obtain t2 where cx: "encryptPaillier (kp_public kp) x t = Some (Inr cx, t2)"
    by (auto simp: executeMtARound1_def result_simps)
  note share = mta_decrypted_share [OF assms(1,2) cx assms(7)]
  have "0 \<le> x" using cx by (auto simp: encryptPaillier_def result_simps split: if_splits)
  then have "0 \<le> x * y" using share(4) by simp
  then have "((x * y - beta) mod ?n mod q + beta) mod q = (x * y) mod q \<longleftrightarrow> beta \<le> x * y"
    using assms share by (intro share_sum) auto
  with share(1) assms(2) show ?thesis by simp
qed

text \<open>The run of the witness: \<open>p = 5\<close>, \<open>q = 7\<close>, \<open>n = 35\<close>, curve order 3, \<open>x = 4\<close>, \<open>y = 2\<close>,
  every random byte 0 but the scalars', which are 1.\<close>

lemma small_range_draw:
  assumes "drawLength mx = 9" and "0 \<le> v" and "v < mx" and "v < 256"
  shows "randomBigInt mx (replicate 8 0 @ word_of_int v # t) = Some (Inr v, t)"
proof (rule drawn_randomBigInt)
  have u: "uint (word_of_int v :: byte) = v" using assms by (simp add: uint_word_of_int)
  have "be_int (replicate 8 0 @ [word_of_int v]) = v"
    unfolding be_int_snoc u by (simp add: be_int_zero_iff)
  then show "drawn (nat (drawLength mx)) mx (replicate 8 0 @ word_of_int v # t) v t"
    unfolding drawn_def assms(1)
    by (intro exI [of _ "[]"] exI [of _ "replicate 8 0 @ [word_of_int v]"]) (simp add: assms)
qed (use assms in auto)

definition draw_of :: "int \<Rightarrow> bytes" where
  "draw_of v = replicate 8 0 @ [word_of_int v]"

lemma draw_of_value:
  assumes "drawLength mx = 9" and "0 \<le> v" and "v < mx" and "v < 256"
  shows "randomBigInt mx (draw_of v @ t) = Some (Inr v, t)"
  using small_range_draw [OF assms, of t] by (simp add: draw_of_def)

lemma small_scalar: "randomScalar 3 (draw_of 1 @ t) = Some (Inr 1, t)"
proof (rule randomScalar_draw)
  have "drawLength 3 = 9" by (simp add: drawLength_def bitLength.simps)
  then show "randomBigInt 3 (draw_of 1 @ t) = Some (Inr 1, t)" by (rule draw_of_value) auto
qed simp_all

lemma small_encrypt_any:
  assumes "0 \<le> m" and "m < 35"
  shows "encryptPaillier (kp_public small_key) m (draw_of 0 @ t)
      = Some (paillier_combine (kp_public small_key) m 2, t)"
proof -
  have "drawLength 33 = 9" by (simp add: drawLength_def bitLength.simps)
  then have r: "randomBigInt 33 (draw_of 0 @ t) = Some (Inr 0, t)" by (rule draw_of_value) auto
  have "js_gcd 2 35 = 1" by code_simp
  then have "encrypt_draw 1000 35 (draw_of 0 @ t) = Some (Inr 2, t)"
    by (subst encrypt_draw.simps) (simp add: rnd_bind_def r rnd_return_def split: nat.splits)
  moreover have "pk_n (kp_public small_key) = 35" by (simp add: small_key_def)
  ultimately show ?thesis
    using assms by (simp add: encryptPaillier_def rnd_bind_def rnd_lift_def)
qed

lemma small_range_proof:
  "\<exists>p. generateMtARangeProof toy_hashes 3 (kp_public small_key) x s (draw_of 1 @ draw_of 0 @ t)
      = Some (Inr p, t) \<and> mp_commitment p = ''0x'' @ hex 648"
proof -
  have "paillier_combine (kp_public small_key) 1 2 = Inr 648" by code_simp
  then show ?thesis
    by (simp add: generateMtARangeProof_def rnd_bind_def small_scalar small_encrypt_any
        Let_def rnd_return_def)
qed

theorem mta_shares_correct_iff_witness:
  "\<exists>alpha. executeMtADecrypt 3 (kp_private small_key) (kp_public small_key) 197 = Inr alpha
    \<and> 0 \<le> alpha \<and> alpha < 3 \<and> ((alpha + 1) mod 3 = (4 * 2) mod 3 \<longleftrightarrow> (1 :: int) \<le> 4 * 2)"
proof -
  let ?pk = "kp_public small_key" and ?p = "draw_of 1 @ draw_of 0 @ []"
  have n: "pk_n ?pk = 35" "pk_nSquared ?pk = 1225" by (simp_all add: small_key_def)
  have e4: "paillier_combine ?pk 4 2 = Inr 88" and e34: "paillier_combine ?pk 34 2 = Inr 613"
    and pw: "modPow 88 2 1225 = Inr 394" and k: "(394 * 613) smod 1225 = (197 :: int)"
    and nb: "(35 - 1 smod 35) smod 35 = (34 :: int)"
    by code_simp+
  obtain p1 p2 where p: "generateMtARangeProof toy_hashes 3 ?pk 4 ''round1'' ?p = Some (Inr p1, [])"
      "generateMtARangeProof toy_hashes 3 ?pk 2 ''round2'' ?p = Some (Inr p2, [])"
    using small_range_proof by blast
  have r1: "executeMtARound1 toy_hashes 3 ?pk 4 (draw_of 0 @ ?p) = Some (Inr (88, p1), [])"
    using p(1) by (simp add: executeMtARound1_def rnd_bind_def small_encrypt_any e4 rnd_return_def)
  have r2: "executeMtARound2 toy_hashes 3 ?pk 88 2 (draw_of 1 @ draw_of 0 @ ?p) = Some (Inr (197, p2, 1), [])"
    using p(2)
    by (simp add: executeMtARound2_def n Let_def small_scalar rnd_bind_def small_encrypt_any
        rnd_lift_def pw nb e34 k rnd_return_def)
  show ?thesis
    using mta_shares_correct_iff [OF small_key_ok _ _ _ _ r1 r2] n by simp
qed

text \<open>Completeness of the range proof: every proof \<open>generateMtARangeProof\<close> returns verifies
  under the same key and the same extra data.\<close>

theorem range_proof_complete:
  assumes "public_ok pk" and "1 < q" and "generateMtARangeProof h q pk x s t = Some (Inr p, t')"
  shows "verifyMtARangeProof h q pk p s"
proof -
  obtain alpha c u where c: "encryptPaillier pk alpha u = Some (Inr c, t')"
    and p: "p = \<lparr>mp_commitment = ''0x'' @ hex c,
          mp_z = ''0x'' @ hex (modN q (alpha + generateChallenge h q pk c s * x)),
          mp_w = ''0x'' @ h_bytesToHex h (h_sha256 h (utf8 (dec alpha))),
          mp_challenge = ''0x'' @ hex (generateChallenge h q pk c s), mp_isValid = True\<rparr>"
    using assms(3) by (rule generateMtARangeProof_cases)
  have z: "0 \<le> modN q (alpha + generateChallenge h q pk c s * x)"
    "modN q (alpha + generateChallenge h q pk c s * x) < q"
    using modN_bounds [of q] assms(2) by auto
  have e: "0 \<le> generateChallenge h q pk c s" using generateChallenge_range [of q] assms(2) by simp
  note r = encryptPaillier_range [OF assms(1) c]
  show ?thesis unfolding p
    by (subst verify_hex_proof) (use z r assms(2) parse_BigInt_0x_hex [OF e] in auto)
qed

theorem range_proof_complete_witness:
  "\<exists>p. generateMtARangeProof toy_hashes 3 (kp_public small_key) 2 ''round1'' (draw_of 1 @ draw_of 0 @ [])
      = Some (Inr p, []) \<and> verifyMtARangeProof toy_hashes 3 (kp_public small_key) p ''round1''"
proof -
  obtain p where p: "generateMtARangeProof toy_hashes 3 (kp_public small_key) 2 ''round1''
      (draw_of 1 @ draw_of 0 @ []) = Some (Inr p, [])"
    using small_range_proof by blast
  with range_proof_complete [OF key_ok_simps(1) [OF small_key_ok] _ p] show ?thesis by auto
qed

text \<open>C29: The range proof proves nothing: any \<open>z\<close> in \<open>[0, q)\<close> and any commitment in
  \<open>(0, n\<^sup>2)\<close>, with the challenge anyone computes from public data (or with an empty one),
  verify; neither the secret nor its ciphertext enters the check.\<close>

theorem range_proof_forgeable:
  assumes "0 < q" and "0 < c" and "c < pk_nSquared pk" and "0 \<le> z" and "z < q"
  shows "verifyMtARangeProof h q pk
      \<lparr>mp_commitment = ''0x'' @ hex c, mp_z = ''0x'' @ hex z, mp_w = w,
       mp_challenge = ''0x'' @ hex (generateChallenge h q pk c s), mp_isValid = v\<rparr> s
    \<and> verifyMtARangeProof h q pk
      \<lparr>mp_commitment = ''0x'' @ hex c, mp_z = ''0x'' @ hex z, mp_w = w, mp_challenge = [],
       mp_isValid = v\<rparr> s"
proof -
  have e: "0 \<le> generateChallenge h q pk c s" using generateChallenge_range [of q] assms(1) by simp
  have "0 \<le> c" using assms(2) by simp
  note pz = parse_BigInt_0x_hex [OF assms(4)] parse_BigInt_0x_hex [OF this]
  have "verifyMtARangeProof h q pk
      \<lparr>mp_commitment = ''0x'' @ hex c, mp_z = ''0x'' @ hex z, mp_w = w, mp_challenge = [],
       mp_isValid = v\<rparr> s"
    unfolding verifyMtARangeProof_def MtAProof.simps pz rbind.simps Let_def using assms by simp
  moreover have "verifyMtARangeProof h q pk
      \<lparr>mp_commitment = ''0x'' @ hex c, mp_z = ''0x'' @ hex z, mp_w = w,
       mp_challenge = ''0x'' @ hex (generateChallenge h q pk c s), mp_isValid = v\<rparr> s"
    by (subst verify_hex_proof) (use assms parse_BigInt_0x_hex [OF e] in auto)
  ultimately show ?thesis by simp
qed

theorem range_proof_forgeable_witness:
  "verifyMtARangeProof toy_hashes 3 (kp_public small_key)
      \<lparr>mp_commitment = ''0x'' @ hex 7, mp_z = ''0x'' @ hex 0, mp_w = [], mp_challenge = [],
       mp_isValid = False\<rparr> ''round1''"
  using range_proof_forgeable [of 3 7 "kp_public small_key" 0] by (simp add: small_key_def)

subsection \<open>The audit\<close>

text \<open>A node passes when its commitment and its proof are present, and the proof verifies when a
  key is known for the node.\<close>

definition node_passes ::
  "hashes \<Rightarrow> int \<Rightarrow> (string \<Rightarrow> string option) \<Rightarrow> (string \<Rightarrow> MtAProof option)
   \<Rightarrow> (string \<Rightarrow> paillier_public option) \<Rightarrow> string \<Rightarrow> bool" where
  "node_passes h q commitments mtaProofs pks v \<longleftrightarrow>
     commitments v \<noteq> None \<and> mtaProofs v \<noteq> None
     \<and> (\<forall>pk. pks v = Some pk \<longrightarrow> verifyMtARangeProof h q pk (the (mtaProofs v)) [])"

text \<open>Identifiable abort. The audit aborts exactly when some participating node fails, and it
  then names the first failing node in the order of participation.\<close>

theorem audit_names_first_faulty:
  "case find (\<lambda>v. \<not> node_passes h q cs ps pks v) nodes of
     None \<Rightarrow> \<not> ar_aborted (auditIdentifiableAbort h q nodes cs ps pks)
   | Some v \<Rightarrow> ar_aborted (auditIdentifiableAbort h q nodes cs ps pks)
       \<and> ar_faultyNodeId (auditIdentifiableAbort h q nodes cs ps pks) = Some v"
proof (induction nodes)
  case Nil
  then show ?case by simp
next
  case (Cons v nodes)
  show ?case
  proof (cases "node_passes h q cs ps pks v")
    case True
    with Cons show ?thesis by (auto simp: node_passes_def split: option.splits)
  next
    case False
    then show ?thesis
      by (auto simp: node_passes_def abort_report_def split: option.splits)
  qed
qed

text \<open>The audit blames honest nodes. Round 1 binds its proof to the string \<open>round1\<close>, the audit
  verifies it with the empty string: a node that followed round 1 is reported as faulty
  whenever the two challenges differ.\<close>

theorem audit_blames_honest_node:
  assumes "public_ok pk" and "1 < q"
    and "executeMtARound1 h q pk x t = Some (Inr (c, p), t')"
    and "parse_BigInt (mp_commitment p) = Inr a"
    and "generateChallenge h q pk a ''round1'' \<noteq> generateChallenge h q pk a []"
  shows "auditIdentifiableAbort h q (v # vs) (cs(v \<mapsto> com)) (ps(v \<mapsto> p)) (pks(v \<mapsto> pk))
    = abort_report v (''Node '' @ v @ '' provided invalid MtA Paillier range proof'')
        (''INVALID_PROOF: commitment='' @ mp_commitment p)"
proof -
  from assms(3) obtain t1 where "generateMtARangeProof h q pk x ''round1'' t1 = Some (Inr p, t')"
    by (auto simp: executeMtARound1_def result_simps)
  then obtain alpha c' u where c: "encryptPaillier pk alpha u = Some (Inr c', t')"
    and p: "p = \<lparr>mp_commitment = ''0x'' @ hex c',
          mp_z = ''0x'' @ hex (modN q (alpha + generateChallenge h q pk c' ''round1'' * x)),
          mp_w = ''0x'' @ h_bytesToHex h (h_sha256 h (utf8 (dec alpha))),
          mp_challenge = ''0x'' @ hex (generateChallenge h q pk c' ''round1''), mp_isValid = True\<rparr>"
    by (rule generateMtARangeProof_cases)
  have c0: "0 \<le> c'" using encryptPaillier_range [OF assms(1) c] by simp
  have "a = c'" using assms(4) parse_BigInt_0x_hex [OF c0] by (simp add: p)
  have e: "0 \<le> generateChallenge h q pk c' ''round1''"
    using generateChallenge_range [of q] assms(2) by simp
  have z: "0 \<le> modN q (alpha + generateChallenge h q pk c' ''round1'' * x)"
    using modN_bounds [of q] assms(2) by auto
  have "\<not> verifyMtARangeProof h q pk p []"
    unfolding p
    by (subst verify_hex_proof)
      (use z c0 assms(2,5) \<open>a = c'\<close> parse_BigInt_0x_hex [OF e] in auto)
  then show ?thesis by simp
qed

theorem audit_blames_honest_node_witness:
  "\<exists>p t'. executeMtARound1 toy_hashes 3 (kp_public small_key) 4 (draw_of 0 @ draw_of 1 @ draw_of 0 @ [])
       = Some (Inr (88, p), t')
     \<and> ar_faultyNodeId (auditIdentifiableAbort toy_hashes 3 [''node-1''] [''node-1'' \<mapsto> ''c'']
          [''node-1'' \<mapsto> p] [''node-1'' \<mapsto> kp_public small_key]) = Some ''node-1''"
proof -
  let ?pk = "kp_public small_key"
  have e4: "paillier_combine ?pk 4 2 = Inr 88" by code_simp
  obtain p where p: "generateMtARangeProof toy_hashes 3 ?pk 4 ''round1'' (draw_of 1 @ draw_of 0 @ [])
      = Some (Inr p, [])" "mp_commitment p = ''0x'' @ hex 648"
    using small_range_proof by blast
  have r1: "executeMtARound1 toy_hashes 3 ?pk 4 (draw_of 0 @ draw_of 1 @ draw_of 0 @ []) = Some (Inr (88, p), [])"
    using p(1) by (simp add: executeMtARound1_def rnd_bind_def small_encrypt_any e4 rnd_return_def)
  have c: "parse_BigInt (mp_commitment p) = Inr 648"
    unfolding p(2) by (rule parse_BigInt_0x_hex) simp
  have d: "generateChallenge toy_hashes 3 ?pk 648 ''round1'' \<noteq> generateChallenge toy_hashes 3 ?pk 648 []"
    by code_simp
  show ?thesis
    using audit_blames_honest_node [OF key_ok_simps(1) [OF small_key_ok] _ r1 c d] r1
    by (auto simp: abort_report_def)
qed

text \<open>Round 3 compares \<open>(alpha + beta) * G\<close> with the multiple of \<open>G\<close> its caller names; the
  public keys of the parties only have to parse.\<close>

theorem mta_round3_check:
  assumes "ec_laws E G" and "ec_fromHex E (strip0x X) = Inr PX" and "ec_fromHex E (strip0x Y) = Inr PY"
  shows "executeMtARound3 E X Y alpha beta k \<longleftrightarrow>
    {alpha, beta, k} \<subseteq> {1 ..< ec_order E} \<and> (alpha + beta) mod ec_order E = k mod ec_order E"
proof -
  have "executeMtARound3 E X Y alpha beta k \<longleftrightarrow>
    (\<exists>A B K. ec_BASE_multiply E alpha = Inr A \<and> ec_BASE_multiply E beta = Inr B
       \<and> ec_BASE_multiply E k = Inr K \<and> ec_equals E (ec_add E A B) K)"
    using assms(2,3)
    by (auto simp: executeMtARound3_def Let_def result_simps split: sum.splits)
  then show ?thesis
    by (auto simp: ec_multiply_Inr_iff [OF assms(1)] ec_laws_simps [OF assms(1)])
qed

theorem mta_round3_check_witness:
  "executeMtARound3 (toy_ec 11) ''0x2'' ''0x3'' 4 9 2 \<and> \<not> executeMtARound3 (toy_ec 11) ''0x2'' ''0x3'' 4 9 6"
proof -
  have p: "ec_fromHex (toy_ec 11) (strip0x ''0x2'') = Inr 2" "ec_fromHex (toy_ec 11) (strip0x ''0x3'') = Inr 3"
    by code_simp+
  show ?thesis
    using mta_round3_check [OF toy_ec_laws p, of 4 9 2] mta_round3_check [OF toy_ec_laws p, of 4 9 6]
    by (simp add: toy_ec_def)
qed

end
