(* ===== verification/SecureMemory.thy ===== *)
theory SecureMemory
  imports JsText
begin

unbundle bit_operations_syntax

section \<open>Constant-time comparison and zeroizing buffers\<close>

text \<open>
  \<^verbatim>\<open>src/lib/security/constant_time.ts\<close> and \<^verbatim>\<open>src/lib/security/secure_buffer.ts\<close>. A buffer is a
  record with the class's three fields; a method that changes it returns the changed record.
  The memory a released buffer pointed to is not observable afterwards, so zeroization is the
  loss of the contents. Timing itself is not modelled.
\<close>

subsection \<open>Constant-time operations\<close>

definition constantTimeEqual :: "bytes \<Rightarrow> bytes \<Rightarrow> bool" where
  "constantTimeEqual a b =
     (if length a \<noteq> length b then False
      else foldl (\<lambda>result (x, y). result OR (x XOR y)) 0 (zip a b) = 0)"

definition clean_hex :: "string \<Rightarrow> string" where
  "clean_hex s = (if startsWith s ''0x'' then drop 2 s else s)"

definition constantTimeCompareHex :: "string \<Rightarrow> string \<Rightarrow> bool" where
  "constantTimeCompareHex a b =
     (let cleanA = clean_hex a; cleanB = clean_hex b in
      if length cleanA \<noteq> length cleanB then False
      else constantTimeEqual (utf8 (toLowerCase cleanA)) (utf8 (toLowerCase cleanB)))"

definition constantTimeSelect :: "bool \<Rightarrow> int \<Rightarrow> int \<Rightarrow> int" where
  "constantTimeSelect condition a b =
     (let mask = (if condition then - 1 else 0) in (a AND mask) OR (b AND NOT mask))"

lemma or_zero_iff: "(x :: byte) OR y = 0 \<longleftrightarrow> x = 0 \<and> y = 0"
  by (auto simp: bit_eq_iff bit_or_iff)

lemma xor_zero_iff: "(x :: byte) XOR y = 0 \<longleftrightarrow> x = y"
  by (auto simp: bit_eq_iff bit_xor_iff)

lemma foldl_or_zero:
  "foldl (\<lambda>result (x, y). result OR (x XOR y)) acc ps = 0
     \<longleftrightarrow> acc = (0 :: byte) \<and> (\<forall>(x, y) \<in> set ps. x = y)"
  by (induction ps arbitrary: acc) (auto simp: or_zero_iff xor_zero_iff)

lemma constantTimeEqual_iff: "constantTimeEqual a b \<longleftrightarrow> a = b"
proof -
  have "length a = length b \<Longrightarrow> (\<forall>(x, y) \<in> set (zip a b). x = y) \<longleftrightarrow> a = b"
    by (induction a b rule: list_induct2) auto
  then show ?thesis by (auto simp: constantTimeEqual_def foldl_or_zero)
qed

subsection \<open>Buffers\<close>

record SecureBuffer =
  sb_data :: "bytes option"
  sb_released :: bool
  sb_length :: nat

definition sb_new :: "nat \<Rightarrow> SecureBuffer" where
  "sb_new n = \<lparr>sb_data = Some (replicate n 0), sb_released = False, sb_length = n\<rparr>"

definition sb_from :: "bytes \<Rightarrow> SecureBuffer" where
  "sb_from data = (sb_new (length data))\<lparr>sb_data := Some data\<rparr>"

definition sb_fromHex :: "string \<Rightarrow> SecureBuffer" where
  "sb_fromHex s = sb_from (hex_pairs (clean_hex s))"

definition sb_bytes :: "SecureBuffer \<Rightarrow> bytes result" where
  "sb_bytes sb =
     (if sb_released sb then Inl (Error ''SecureBuffer: Attempted access after release'')
      else case sb_data sb of
        None \<Rightarrow> Inl (Error ''SecureBuffer: Attempted access after release'')
      | Some d \<Rightarrow> Inr d)"

definition sb_asBigInt :: "SecureBuffer \<Rightarrow> int result" where
  "sb_asBigInt sb = rbind (sb_bytes sb) (\<lambda>b. Inr (be_int b))"

definition sb_equals :: "SecureBuffer \<Rightarrow> SecureBuffer \<Rightarrow> bool" where
  "sb_equals sb other =
     (if sb_released sb \<or> sb_released other then False
      else case (sb_data sb, sb_data other) of
        (Some a, Some b) \<Rightarrow> if length a \<noteq> length b then False else constantTimeEqual a b
      | _ \<Rightarrow> False)"

definition sb_release :: "SecureBuffer \<Rightarrow> SecureBuffer" where
  "sb_release sb =
     (if sb_released sb \<or> sb_data sb = None then sb
      else sb\<lparr>sb_data := None, sb_released := True\<rparr>)"

text \<open>\<open>try { return fn(sb.bytes) } finally { sb.release() }\<close>\<close>

definition sb_use :: "SecureBuffer \<Rightarrow> (bytes \<Rightarrow> 'a result) \<Rightarrow> 'a result \<times> SecureBuffer" where
  "sb_use sb fn = (rbind (sb_bytes sb) fn, sb_release sb)"

record SecureBigInt =
  sbi_value :: "int option"
  sbi_released :: bool

definition sbi_new :: "int \<Rightarrow> SecureBigInt" where
  "sbi_new v = \<lparr>sbi_value = Some v, sbi_released = False\<rparr>"

definition sbi_get :: "SecureBigInt \<Rightarrow> int result" where
  "sbi_get x =
     (if sbi_released x then Inl (Error ''SecureBigInt: Attempted access after release'')
      else case sbi_value x of
        None \<Rightarrow> Inl (Error ''SecureBigInt: Attempted access after release'')
      | Some v \<Rightarrow> Inr v)"

definition sbi_release :: "SecureBigInt \<Rightarrow> SecureBigInt" where
  "sbi_release x = x\<lparr>sbi_value := None, sbi_released := True\<rparr>"

definition sbi_toSecureBuffer :: "SecureBigInt \<Rightarrow> nat \<Rightarrow> SecureBuffer result" where
  "sbi_toSecureBuffer x byteLength =
     rbind (sbi_get x) (\<lambda>val. Inr (sb_fromHex (padStart (byteLength * 2) CHR ''0'' (hex val))))"

definition sbi_fromSecureBuffer :: "SecureBuffer \<Rightarrow> SecureBigInt result" where
  "sbi_fromSecureBuffer sb = rbind (sb_asBigInt sb) (\<lambda>v. Inr (sbi_new v))"

text \<open>What every buffer the class builds satisfies, and what every method keeps.\<close>

definition sb_inv :: "SecureBuffer \<Rightarrow> bool" where
  "sb_inv sb \<longleftrightarrow> (case sb_data sb of
      None \<Rightarrow> sb_released sb
    | Some d \<Rightarrow> \<not> sb_released sb \<and> length d = sb_length sb)"

named_theorems buffer_simps \<open>the methods of the two classes\<close>

lemmas [buffer_simps] = sb_new_def sb_from_def sb_bytes_def sb_asBigInt_def sb_release_def
  sb_use_def sbi_new_def sbi_get_def sbi_release_def

lemma sb_inv_new: "sb_inv (sb_new n)" "sb_inv (sb_from d)" "sb_inv (sb_fromHex s)"
  by (simp_all add: sb_inv_def sb_fromHex_def buffer_simps)

lemma sb_inv_release: "sb_inv sb \<Longrightarrow> sb_inv (sb_release sb) \<and> sb_released (sb_release sb)"
  by (auto simp: sb_inv_def buffer_simps split: option.splits)

lemma sb_from_bytes: "sb_bytes (sb_from d) = Inr d"
  by (simp add: buffer_simps)

lemma sb_release_idem: "sb_release (sb_release sb) = sb_release sb"
  by (auto simp: buffer_simps)

subsection \<open>The interface of a zeroizing holder\<close>

text \<open>What the users of both classes rely on: a fresh holder is read back, a released one never
  again, however often it is released.\<close>

locale zeroizing =
  fixes hold :: "'v \<Rightarrow> 'o" and read :: "'o \<Rightarrow> 'v result" and release :: "'o \<Rightarrow> 'o" and gone :: js_error
  assumes read_hold: "read (hold v) = Inr v"
    and read_release: "read (release x) = Inl gone"
    and release_idem: "release (release x) = release x"
begin

lemma release_again: "(release ^^ Suc n) x = release x"
  by (induction n) (simp_all add: release_idem)

lemma read_gone: "read ((release ^^ Suc n) x) = Inl gone"
  by (simp only: release_again read_release)

lemma released_not_held: "release x \<noteq> hold v"
  using read_hold [of v] read_release [of x] by fastforce

lemma bind_gone: "rbind (read (release x)) f = Inl gone"
  by (simp add: read_release)

end

interpretation buffer: zeroizing sb_from sb_bytes sb_release
  "Error ''SecureBuffer: Attempted access after release''"
  by unfold_locales (auto simp: buffer_simps split: option.splits)

interpretation scalar: zeroizing sbi_new sbi_get sbi_release
  "Error ''SecureBigInt: Attempted access after release''"
  by unfold_locales (auto simp: buffer_simps)

subsection \<open>Hexadecimal round trip\<close>

lemma parse_digits_pairs:
  assumes "even (length s)"
  shows "parse_digits 16 acc s = Some v \<Longrightarrow> 0 \<le> acc \<Longrightarrow>
    v = acc * 256 ^ (length s div 2) + be_int (hex_pairs s)"
  using assms
proof (induction s arbitrary: acc v rule: hex_pairs.induct)
  case (1 c d cs)
  from "1.prems"(1) obtain a b where ab: "digit_value c = Some a" "digit_value d = Some b"
    "a < 16" "b < 16" and p: "parse_digits 16 (16 * (16 * acc + a) + b) cs = Some v"
    by (auto split: option.splits if_splits)
  have r: "0 \<le> a" "0 \<le> b"
    using ab by (auto simp: digit_value_def Let_def split: if_splits)
  have u: "uint (word_of_int (16 * a + b) :: byte) = 16 * a + b"
    unfolding uint_word_of_int using r ab by (simp add: mod_pos_pos_trivial)
  have hp: "hex_pairs (c # d # cs) = word_of_int (16 * a + b) # hex_pairs cs"
    by (simp add: parseInt16_pair [OF ab])
  have "v = (16 * (16 * acc + a) + b) * 256 ^ (length cs div 2) + be_int (hex_pairs cs)"
    using "1.prems" r by (intro "1.IH" [OF p]) auto
  then show ?case
    unfolding hp be_int_Cons u by (simp add: algebra_simps)
qed (auto split: option.splits if_splits)

lemma parse_digits_zeros: "parse_digits b 0 (replicate k CHR ''0'' @ s) = parse_digits b 0 s" if "0 < b"
  using that by (induction k) (auto simp: digit_value_def Let_def)

lemma length_hex_bound:
  assumes "0 \<le> v" and "v < 16 ^ Suc n"
  shows "length (hex v) \<le> Suc n"
proof -
  have "length (radix_digits 16 v) \<le> Suc n"
    using assms
  proof (induction n arbitrary: v)
    case 0
    then show ?case by (subst radix_digits.simps) simp
  next
    case (Suc n)
    show ?case
    proof (cases "v < 16")
      case True
      then show ?thesis by (subst radix_digits.simps) simp
    next
      case False
      have "v div 16 < 16 ^ Suc n" using Suc.prems by (simp add: div_less_iff_less_mult)
      then have "length (radix_digits 16 (v div 16)) \<le> Suc n"
        using Suc.prems(1) by (intro Suc.IH) (auto simp: pos_imp_zdiv_nonneg_iff)
      then show ?thesis using False by (subst radix_digits.simps) simp
    qed
  qed
  then show ?thesis using assms(1) by (simp add: toString_radix_def)
qed

lemma hex_pairs_padded:
  assumes "0 \<le> v" and "v < 256 ^ n" and "0 < n"
  shows "be_int (hex_pairs (padStart (n * 2) CHR ''0'' (hex v))) = v"
    and "length (padStart (n * 2) CHR ''0'' (hex v)) = n * 2"
proof -
  have "(256 :: int) ^ n = 16 ^ (2 * n)" by (simp add: power_mult)
  then have "v < 16 ^ Suc (2 * n - 1)" using assms(2,3) by simp
  with assms(1) length_hex_bound [of v "2 * n - 1"] have l: "length (hex v) \<le> n * 2"
    using assms(3) by simp
  then show len: "length (padStart (n * 2) CHR ''0'' (hex v)) = n * 2" by (simp add: padStart_def)
  have "parse_digits 16 0 (hex v) = Some v"
    using parse_hex [OF assms(1)] by (simp add: parse_radix_def split: if_splits)
  then have "parse_digits 16 0 (padStart (n * 2) CHR ''0'' (hex v)) = Some v"
    by (simp add: padStart_def parse_digits_zeros)
  from parse_digits_pairs [OF _ this] len
  show "be_int (hex_pairs (padStart (n * 2) CHR ''0'' (hex v))) = v" by simp
qed

lemma digits_no_x: "parse_digits 16 0 s = Some v \<Longrightarrow> \<not> startsWith s ''0x''"
proof
  assume p: "parse_digits 16 0 s = Some v" and "startsWith s ''0x''"
  then obtain t where "s = ''0x'' @ t" by (metis append_take_drop_id startsWith_def)
  with p show False by (simp add: digit_value_def Let_def)
qed

subsection \<open>Properties\<close>

text \<open>Constant-time comparison decides equality: accumulating the XOR of the bytes gives zero
  exactly for equal arrays; the hexadecimal variant decides equality up to the \<open>0x\<close> prefix and
  letter case; and the masked select returns the operand the condition names.\<close>

theorem constant_time_correct:
  "(constantTimeEqual a b \<longleftrightarrow> a = b)
   \<and> (constantTimeCompareHex s t \<longleftrightarrow> toLowerCase (clean_hex s) = toLowerCase (clean_hex t))
   \<and> constantTimeSelect c x y = (if c then x else y)"
proof (intro conjI)
  have "length (toLowerCase u) = length u" for u by (simp add: toLowerCase_def)
  then show "constantTimeCompareHex s t \<longleftrightarrow> toLowerCase (clean_hex s) = toLowerCase (clean_hex t)"
    unfolding constantTimeCompareHex_def constantTimeEqual_iff Let_def by (metis utf8_inj)
  show "constantTimeSelect c x y = (if c then x else y)" by (simp add: constantTimeSelect_def)
qed (rule constantTimeEqual_iff)

text \<open>A scalar survives the trip through a buffer: for \<open>0 \<le> v < 256\<^sup>n\<close>, exporting a live
  \<open>SecureBigInt\<close> to \<open>n\<close> bytes and reading it back gives \<open>v\<close>, in a buffer of exactly \<open>n\<close>
  bytes.\<close>

theorem secure_bigint_roundtrip:
  assumes "0 \<le> v" and "v < 256 ^ n" and "0 < n"
  shows "\<exists>sb. sbi_toSecureBuffer (sbi_new v) n = Inr sb \<and> sb_inv sb \<and> sb_length sb = n
    \<and> sbi_fromSecureBuffer sb = Inr (sbi_new v)"
proof -
  let ?s = "padStart (n * 2) CHR ''0'' (hex v)"
  have "parse_digits 16 0 (hex v) = Some v"
    using parse_hex [OF assms(1)] by (simp add: parse_radix_def split: if_splits)
  then have "parse_digits 16 0 ?s = Some v" by (simp add: padStart_def parse_digits_zeros)
  from digits_no_x [OF this] have c: "clean_hex ?s = ?s" by (simp add: clean_hex_def)
  have "sbi_toSecureBuffer (sbi_new v) n = Inr (sb_from (hex_pairs ?s))"
    by (simp add: sbi_toSecureBuffer_def buffer_simps sb_fromHex_def c)
  moreover have "sb_length (sb_from (hex_pairs ?s)) = n"
    using hex_pairs_padded(2) [OF assms] by (simp add: buffer_simps)
  moreover have "sbi_fromSecureBuffer (sb_from (hex_pairs ?s)) = Inr (sbi_new v)"
    using hex_pairs_padded(1) [OF assms]
    by (simp add: sbi_fromSecureBuffer_def sb_asBigInt_def sb_from_bytes)
  ultimately show ?thesis using sb_inv_new(2) by blast
qed

theorem secure_bigint_roundtrip_witness:
  "\<exists>sb. sbi_toSecureBuffer (sbi_new 3735928559) 32 = Inr sb \<and> sb_inv sb \<and> sb_length sb = 32
    \<and> sbi_fromSecureBuffer sb = Inr (sbi_new 3735928559)"
  by (rule secure_bigint_roundtrip) auto

text \<open>Use after release is impossible. \<open>SecureBuffer.use\<close> on any buffer satisfying the class
  invariant runs the callback on the contents (or throws if there are none), and leaves a
  buffer that is released, compares equal to nothing and throws on every read; releasing again
  changes nothing.\<close>

theorem secure_buffer_use_releases:
  assumes "sb_inv sb" and "sb_use sb fn = (r, sb')"
  shows "r = rbind (sb_bytes sb) fn \<and> sb_inv sb' \<and> sb_released sb' \<and> sb_data sb' = None
    \<and> sb_length sb' = sb_length sb
    \<and> (\<exists>e. sb_bytes sb' = Inl e) \<and> (\<exists>e. sb_asBigInt sb' = Inl e)
    \<and> \<not> sb_equals sb' other \<and> \<not> sb_equals other sb' \<and> sb_release sb' = sb'"
  using assms
  by (auto simp: sb_inv_def sb_equals_def buffer_simps split: option.splits)

theorem secure_buffer_use_releases_witness:
  "\<exists>sb'. sb_use (sb_from [1, 2, 3]) (\<lambda>d. Inr (length d)) = (Inr 3, sb') \<and> sb_released sb'"
proof -
  obtain r sb' where u: "sb_use (sb_from [1, 2, 3]) (\<lambda>d. Inr (length d)) = (r, sb')" by force
  from secure_buffer_use_releases [OF sb_inv_new(2) u] u show ?thesis by (simp add: sb_from_bytes)
qed

end
