(* ===== verification/AuditChain.thy ===== *)
theory AuditChain
  imports Noble
begin

section \<open>The audit chain\<close>

text \<open>
  \<^verbatim>\<open>src/lib/audit/audit_chain.ts\<close>: the hash chain, its verification, the Merkle root, and the
  SQLite mirror of it. The module state (\<open>memoryChain\<close>, \<open>nextIndex\<close>, \<open>db\<close>) is the record
  \<open>audit_state\<close>. The database is third-party: \<open>sqlite\<close> has the two statements the module runs
  as fields, and \<open>sqlite_laws\<close> states what SQL says of them. Clock readings and random bytes are
  arguments. A row read back from the database has the column \<open>previous_hash\<close> and no property
  \<open>previousHash\<close>; that field is therefore optional.
\<close>

record AuditEntry =
  ae_id :: string
  ae_idx :: int
  ae_timestamp :: string
  ae_action :: string
  ae_actor :: string
  ae_actorIp :: "string option"
  ae_details :: string
  ae_hash :: string
  ae_previousHash :: "string option"
  ae_signature :: string
  ae_merkleRoot :: "string option"

record AuditLogItem =
  li_id :: string
  li_index :: int
  li_timestamp :: string
  li_action :: string
  li_actor :: string
  li_actorIp :: "string option"
  li_details :: string
  li_previousHash :: "string option"
  li_currentHash :: string
  li_signature :: string
  li_merkleRoot :: "string option"

text \<open>A row of \<open>audit_entries\<close> as the \<open>INSERT\<close> binds it.\<close>

record audit_row =
  row_id :: string
  row_idx :: int
  row_timestamp :: string
  row_action :: string
  row_actor :: string
  row_actor_ip :: "string option"
  row_details :: string
  row_hash :: string
  row_previous_hash :: "string option"
  row_signature :: string

record 'd sqlite =
  sq_insert_or_ignore :: "audit_row \<Rightarrow> 'd \<Rightarrow> 'd"
  sq_select_all :: "'d \<Rightarrow> audit_row list"

text \<open>\<open>id\<close> is the primary key and \<open>idx\<close> is unique, so \<open>INSERT OR IGNORE\<close> skips a row that clashes
  on either; \<open>previous_hash\<close> is \<open>NOT NULL\<close>; \<open>SELECT ... ORDER BY idx\<close> returns the table sorted.\<close>

definition sqlite_laws :: "'d sqlite \<Rightarrow> bool" where
  "sqlite_laws S \<longleftrightarrow>
     (\<forall>r d. sq_select_all S (sq_insert_or_ignore S r d) =
        (if row_previous_hash r = None
            \<or> (\<exists>x \<in> set (sq_select_all S d). row_id x = row_id r \<or> row_idx x = row_idx r)
         then sq_select_all S d
         else insort_key row_idx r (sq_select_all S d)))"

record 'd audit_state =
  au_chain :: "AuditEntry list"
  au_nextIndex :: int
  au_db :: "'d option"

subsection \<open>Operations\<close>

definition undefined_text :: "string option \<Rightarrow> string" where
  "undefined_text s = (case s of None \<Rightarrow> ''undefined'' | Some t \<Rightarrow> t)"

definition audit_preimage :: "int \<Rightarrow> string \<Rightarrow> string \<Rightarrow> string \<Rightarrow> string \<Rightarrow> string option \<Rightarrow> string" where
  "audit_preimage idx timestamp action actor details previousHash =
     dec idx @ ''-'' @ timestamp @ ''-'' @ action @ ''-'' @ actor @ ''-'' @ details @ ''-''
       @ undefined_text previousHash"

definition calculateHash ::
  "hashes \<Rightarrow> int \<Rightarrow> string \<Rightarrow> string \<Rightarrow> string \<Rightarrow> string \<Rightarrow> string option \<Rightarrow> string" where
  "calculateHash h idx timestamp action actor details previousHash =
     ''0x'' @ h_bytesToHex h
       (h_sha256 h (utf8 (audit_preimage idx timestamp action actor details previousHash)))"

definition entry_row :: "AuditEntry \<Rightarrow> audit_row" where
  "entry_row e = \<lparr>row_id = ae_id e, row_idx = ae_idx e, row_timestamp = ae_timestamp e,
     row_action = ae_action e, row_actor = ae_actor e,
     row_actor_ip = (if ae_actorIp e = Some [] then None else ae_actorIp e),
     row_details = ae_details e, row_hash = ae_hash e, row_previous_hash = ae_previousHash e,
     row_signature = ae_signature e\<rparr>"

definition persistEntry :: "'d sqlite \<Rightarrow> AuditEntry \<Rightarrow> 'd audit_state \<Rightarrow> 'd audit_state" where
  "persistEntry S entry st =
     (case au_db st of
        None \<Rightarrow> st
      | Some d \<Rightarrow> st\<lparr>au_db := Some (sq_insert_or_ignore S (entry_row entry) d)\<rparr>)"

definition row_entry :: "audit_row \<Rightarrow> AuditEntry" where
  "row_entry r = \<lparr>ae_id = row_id r, ae_idx = row_idx r, ae_timestamp = row_timestamp r,
     ae_action = row_action r, ae_actor = row_actor r, ae_actorIp = None,
     ae_details = row_details r, ae_hash = row_hash r, ae_previousHash = None,
     ae_signature = row_signature r, ae_merkleRoot = None\<rparr>"

definition loadFromDB :: "'d sqlite \<Rightarrow> 'd option \<Rightarrow> AuditEntry list" where
  "loadFromDB S db = (case db of None \<Rightarrow> [] | Some d \<Rightarrow> map row_entry (sq_select_all S d))"

text \<open>\<open>t1\<close> and \<open>t2\<close> are the two clock readings, \<open>sig\<close> the 32 random bytes.\<close>

definition genesis_entry :: "hashes \<Rightarrow> string \<Rightarrow> string \<Rightarrow> bytes \<Rightarrow> AuditEntry" where
  "genesis_entry h t1 t2 sig = \<lparr>ae_id = ''genesis-000'', ae_idx = 0, ae_timestamp = t1,
     ae_action = ''GENESIS_BLOCK'', ae_actor = ''System Core'', ae_actorIp = None,
     ae_details = ''BioFire-MPC v6.0 Immutable Audit Ledger Initialized'',
     ae_hash = calculateHash h 0 t2 ''GENESIS_BLOCK'' ''System Core'' [] (Some ''0x0000000000000000''),
     ae_previousHash = Some ''0x0000000000000000'', ae_signature = ''0x'' @ h_bytesToHex h sig,
     ae_merkleRoot = None\<rparr>"

definition appendGenesis ::
  "hashes \<Rightarrow> 'd sqlite \<Rightarrow> string \<Rightarrow> string \<Rightarrow> bytes \<Rightarrow> 'd audit_state \<Rightarrow> 'd audit_state" where
  "appendGenesis h S t1 t2 sig st =
     (let entry = genesis_entry h t1 t2 sig
      in persistEntry S entry (st\<lparr>au_chain := au_chain st @ [entry]\<rparr>))"

text \<open>Module start: \<open>memoryChain = []\<close>, \<open>nextIndex = 0\<close>, then \<open>initChain()\<close>.\<close>

definition initChain ::
  "hashes \<Rightarrow> 'd sqlite \<Rightarrow> 'd option \<Rightarrow> string \<Rightarrow> string \<Rightarrow> bytes \<Rightarrow> 'd audit_state" where
  "initChain h S db t1 t2 sig =
     (let entries = loadFromDB S db in
      if entries \<noteq> []
      then \<lparr>au_chain = entries, au_nextIndex = ae_idx (last entries) + 1, au_db = db\<rparr>
      else appendGenesis h S t1 t2 sig \<lparr>au_chain = [], au_nextIndex = 0, au_db = db\<rparr>)"

definition new_entry ::
  "hashes \<Rightarrow> string \<Rightarrow> string \<Rightarrow> string \<Rightarrow> string \<Rightarrow> string option \<Rightarrow> 'd audit_state \<Rightarrow> AuditEntry" where
  "new_entry h timestamp action actor details actorIp st =
     (let previousHash = (if au_chain st \<noteq> [] then ae_hash (last (au_chain st))
                          else ''0x0000000000000000'');
          hash = calculateHash h (au_nextIndex st) timestamp action actor details (Some previousHash)
      in \<lparr>ae_id = ''entry-'' @ padStart 8 CHR ''0'' (dec (au_nextIndex st)), ae_idx = au_nextIndex st,
          ae_timestamp = timestamp, ae_action = action, ae_actor = actor, ae_actorIp = actorIp,
          ae_details = details, ae_hash = hash, ae_previousHash = Some previousHash,
          ae_signature = ''0x'' @ h_bytesToHex h (h_sha256 h (utf8 (hash @ actor))),
          ae_merkleRoot = None\<rparr>)"

definition appendLog ::
  "hashes \<Rightarrow> 'd sqlite \<Rightarrow> string \<Rightarrow> string \<Rightarrow> string \<Rightarrow> string \<Rightarrow> string option
   \<Rightarrow> 'd audit_state \<Rightarrow> AuditLogItem \<times> 'd audit_state" where
  "appendLog h S timestamp action actor details actorIp st =
     (let entry = new_entry h timestamp action actor details actorIp st;
          st1 = persistEntry S entry (st\<lparr>au_chain := au_chain st @ [entry]\<rparr>);
          st2 = st1\<lparr>au_nextIndex := au_nextIndex st1 + 1\<rparr>
      in (\<lparr>li_id = ae_id entry, li_index = ae_idx entry, li_timestamp = timestamp, li_action = action,
           li_actor = actor, li_actorIp = None, li_details = details,
           li_previousHash = ae_previousHash entry, li_currentHash = ae_hash entry,
           li_signature = ae_signature entry, li_merkleRoot = None\<rparr>, st2))"

definition toAuditLogItem :: "AuditEntry \<Rightarrow> AuditLogItem" where
  "toAuditLogItem e = \<lparr>li_id = ae_id e, li_index = ae_idx e, li_timestamp = ae_timestamp e,
     li_action = ae_action e, li_actor = ae_actor e, li_actorIp = ae_actorIp e,
     li_details = ae_details e, li_previousHash = ae_previousHash e, li_currentHash = ae_hash e,
     li_signature = ae_signature e, li_merkleRoot = ae_merkleRoot e\<rparr>"

text \<open>\<open>slice(-limit)\<close>: the last \<open>limit\<close> entries; a negative limit drops entries from the front,
  and 0 is falsy.\<close>

definition getLogs :: "int option \<Rightarrow> 'd audit_state \<Rightarrow> AuditLogItem list" where
  "getLogs limit st =
     (case limit of
        None \<Rightarrow> map toAuditLogItem (au_chain st)
      | Some l \<Rightarrow>
          if l = 0 then map toAuditLogItem (au_chain st)
          else if 0 < l then map toAuditLogItem (drop (length (au_chain st) - nat l) (au_chain st))
          else map toAuditLogItem (drop (nat (- l)) (au_chain st)))"

record integrity =
  ci_isValid :: bool
  ci_brokenAtStep :: "nat option"
  ci_hash :: string
  ci_totalBlocks :: nat

text \<open>Whether entry \<open>current\<close> may follow \<open>previous\<close>, the two tests of the loop body.\<close>

definition link_ok :: "hashes \<Rightarrow> AuditEntry \<Rightarrow> AuditEntry \<Rightarrow> bool" where
  "link_ok h previous current =
     (if ae_previousHash current \<noteq> Some (ae_hash previous) then False
      else calculateHash h (ae_idx current) (ae_timestamp current) (ae_action current)
             (ae_actor current) (ae_details current) (ae_previousHash current) = ae_hash current)"

fun verify_from :: "hashes \<Rightarrow> nat \<Rightarrow> nat \<Rightarrow> AuditEntry list \<Rightarrow> integrity" where
  "verify_from h n i (previous # current # es) =
     (if link_ok h previous current then verify_from h n (Suc i) (current # es)
      else \<lparr>ci_isValid = False, ci_brokenAtStep = Some i, ci_hash = ae_hash current,
            ci_totalBlocks = n\<rparr>)"
| "verify_from h n i [e] =
     \<lparr>ci_isValid = True, ci_brokenAtStep = None, ci_hash = ae_hash e, ci_totalBlocks = n\<rparr>"
| "verify_from h n i [] =
     \<lparr>ci_isValid = True, ci_brokenAtStep = None, ci_hash = ''0x0'', ci_totalBlocks = n\<rparr>"

definition verifyChainIntegrity :: "hashes \<Rightarrow> 'd audit_state \<Rightarrow> integrity" where
  "verifyChainIntegrity h st = verify_from h (length (au_chain st)) 1 (au_chain st)"

fun merkle_level :: "hashes \<Rightarrow> bytes list \<Rightarrow> bytes list" where
  "merkle_level h [] = []"
| "merkle_level h [l] = [h_sha256 h (l @ l)]"
| "merkle_level h (l # r # rest) = h_sha256 h (l @ r) # merkle_level h rest"

lemma length_merkle_level [simp]: "length (merkle_level h hs) = (length hs + 1) div 2"
  by (induction h hs rule: merkle_level.induct) auto

function merkle_up :: "hashes \<Rightarrow> bytes list \<Rightarrow> bytes list" where
  "merkle_up h hs = (if 1 < length hs then merkle_up h (merkle_level h hs) else hs)"
  by pat_completeness auto
termination
  by (relation "measure (\<lambda>(h, hs). length hs)") auto

declare merkle_up.simps [simp del]

definition getMerkleRoot :: "hashes \<Rightarrow> 'd audit_state \<Rightarrow> string" where
  "getMerkleRoot h st =
     (if au_chain st = [] then ''0x0''
      else ''0x'' @ h_bytesToHex h
        (hd (merkle_up h (map (\<lambda>e. hex_pairs (strip0x (ae_hash e))) (au_chain st)))))"

record engine_report =
  er_isChainValid :: bool
  er_totalBlocksChecked :: nat
  er_corruptedBlockIndex :: "nat option"
  er_details :: string
  er_merkleRoot :: string

definition engine_verifyChainIntegrity :: "hashes \<Rightarrow> 'd audit_state \<Rightarrow> engine_report" where
  "engine_verifyChainIntegrity h st =
     (let res = verifyChainIntegrity h st in
      \<lparr>er_isChainValid = ci_isValid res, er_totalBlocksChecked = ci_totalBlocks res,
       er_corruptedBlockIndex = ci_brokenAtStep res,
       er_details = (if ci_isValid res
         then ''All '' @ dec (int (ci_totalBlocks res)) @ '' audit chain blocks verified. Merkle root: ''
              @ getMerkleRoot h st
         else ''Broken link at block '' @ (case ci_brokenAtStep res of
                None \<Rightarrow> ''undefined'' | Some i \<Rightarrow> dec (int i))),
       er_merkleRoot = getMerkleRoot h st\<rparr>)"

subsection \<open>Linked chains\<close>

fun linked :: "hashes \<Rightarrow> AuditEntry list \<Rightarrow> bool" where
  "linked h (previous # current # es) \<longleftrightarrow> link_ok h previous current \<and> linked h (current # es)"
| "linked h _ \<longleftrightarrow> True"

text \<open>Chains a fresh process can hold: \<open>initChain\<close> on an empty (or no) database, then any
  sequence of \<open>appendLog\<close> calls.\<close>

inductive audit_reach :: "hashes \<Rightarrow> 'd sqlite \<Rightarrow> 'd audit_state \<Rightarrow> bool" for h S where
  reach_init: "loadFromDB S db = [] \<Longrightarrow> audit_reach h S (initChain h S db t1 t2 sig)"
| reach_append: "audit_reach h S st \<Longrightarrow> appendLog h S t a b c ip st = (item, st') \<Longrightarrow> audit_reach h S st'"

inductive_cases audit_reachE: "audit_reach h S st"

lemma verify_from_linked:
  "es \<noteq> [] \<Longrightarrow> linked h es \<Longrightarrow> verify_from h n i es =
     \<lparr>ci_isValid = True, ci_brokenAtStep = None, ci_hash = ae_hash (last es), ci_totalBlocks = n\<rparr>"
  by (induction h n i es rule: verify_from.induct) auto

lemma verify_from_valid_iff: "ci_isValid (verify_from h n i es) \<longleftrightarrow> linked h es"
  by (induction h n i es rule: verify_from.induct) auto

lemma verify_from_total: "ci_totalBlocks (verify_from h n i es) = n"
  by (induction h n i es rule: verify_from.induct) auto

lemma linked_append:
  "es \<noteq> [] \<Longrightarrow> linked h (es @ [e]) \<longleftrightarrow> linked h es \<and> link_ok h (last es) e"
  by (induction h es rule: linked.induct) auto

lemma linked_Cons: "es \<noteq> [] \<Longrightarrow> linked h (e # es) \<longleftrightarrow> link_ok h e (hd es) \<and> linked h es"
  by (cases es) auto

lemma linked_append_iff:
  "xs \<noteq> [] \<Longrightarrow> ys \<noteq> [] \<Longrightarrow>
     linked h (xs @ ys) \<longleftrightarrow> linked h xs \<and> link_ok h (last xs) (hd ys) \<and> linked h ys"
  by (induction h xs rule: linked.induct) (auto simp: linked_Cons)

lemma persist_chain [simp]:
  "au_chain (persistEntry S e st) = au_chain st" "au_nextIndex (persistEntry S e st) = au_nextIndex st"
  by (auto simp: persistEntry_def split: option.splits)

lemma appendLog_chain:
  "appendLog h S t a b c ip st = (item, st') \<Longrightarrow>
     au_chain st' = au_chain st @ [new_entry h t a b c ip st]
     \<and> au_nextIndex st' = au_nextIndex st + 1
     \<and> au_db st' = map_option (sq_insert_or_ignore S (entry_row (new_entry h t a b c ip st))) (au_db st)"
  by (auto simp: appendLog_def Let_def persistEntry_def split: option.splits)

lemma init_chain_fresh:
  "loadFromDB S db = [] \<Longrightarrow> au_chain (initChain h S db t1 t2 sig) = [genesis_entry h t1 t2 sig]
     \<and> au_nextIndex (initChain h S db t1 t2 sig) = 0"
  by (simp add: initChain_def appendGenesis_def Let_def)

lemma new_entry_link: "au_chain st \<noteq> [] \<Longrightarrow> link_ok h (last (au_chain st)) (new_entry h t a b c ip st)"
  by (simp add: link_ok_def new_entry_def Let_def)

lemma audit_reach_linked: "audit_reach h S st \<Longrightarrow> au_chain st \<noteq> [] \<and> linked h (au_chain st)"
proof (induction rule: audit_reach.induct)
  case (reach_init db t1 t2 sig)
  then show ?case using init_chain_fresh [of S db] by simp
next
  case (reach_append st t a b c ip item st')
  then show ?case using appendLog_chain [OF reach_append.hyps(2)] new_entry_link [of st]
    by (simp add: linked_append)
qed

text \<open>What a process starts with, whatever the database holds: a genesis block, or the stored rows, which
  carry no \<open>previousHash\<close> and link only when there is just one.\<close>

lemma linked_rows: "linked h (map row_entry rows) \<longleftrightarrow> length rows \<le> 1"
  by (induction rows rule: induct_list012) (simp_all add: link_ok_def row_entry_def)

lemma init_linked:
  "au_chain (initChain h S db t1 t2 sig) \<noteq> []
   \<and> (linked h (au_chain (initChain h S db t1 t2 sig)) \<longleftrightarrow> length (loadFromDB S db) \<le> 1)"
proof (cases "loadFromDB S db = []")
  case True
  then show ?thesis using init_chain_fresh [of S db h t1 t2 sig] by simp
next
  case False
  then obtain d where "db = Some d" by (cases db) (auto simp: loadFromDB_def)
  then show ?thesis using False linked_rows [of h "sq_select_all S d"]
    by (simp add: initChain_def Let_def loadFromDB_def)
qed

text \<open>The bytes whose digest is the hash of an entry.\<close>

definition entry_preimage :: "AuditEntry \<Rightarrow> bytes" where
  "entry_preimage e = utf8 (audit_preimage (ae_idx e) (ae_timestamp e) (ae_action e) (ae_actor e)
     (ae_details e) (ae_previousHash e))"

lemma link_ok_iff:
  "link_ok h p c \<longleftrightarrow> ae_previousHash c = Some (ae_hash p)
     \<and> ae_hash c = ''0x'' @ h_bytesToHex h (h_sha256 h (entry_preimage c))"
  by (auto simp: link_ok_def calculateHash_def entry_preimage_def)

text \<open>Equal preimages name equal previous hashes, when these hold no separator.\<close>

lemma preimage_same_hash:
  assumes "hex_laws h" and "link_ok h p c" and "link_ok h p' c'" and "ae_hash c = ae_hash c'"
    and "inj_on (h_sha256 h) A" and "entry_preimage c \<in> A" and "entry_preimage c' \<in> A"
  shows "entry_preimage c = entry_preimage c'"
  using assms by (auto simp: link_ok_iff bytesToHex_inject dest: inj_onD)

text \<open>The previous hash is the last segment of the preimage: \<open>0x\<close> and hexadecimal digits.\<close>

definition hash_shaped :: "string \<Rightarrow> bool" where
  "hash_shaped s \<longleftrightarrow> CHR ''-'' \<notin> set s"

lemma last_segment:
  "CHR ''-'' \<notin> set s \<Longrightarrow> CHR ''-'' \<notin> set s' \<Longrightarrow> t @ CHR ''-'' # s = t' @ CHR ''-'' # s' \<Longrightarrow> s = s'"
proof -
  assume s: "CHR ''-'' \<notin> set s" "CHR ''-'' \<notin> set s'" and eq: "t @ CHR ''-'' # s = t' @ CHR ''-'' # s'"
  from arg_cong [OF eq, of rev] have "rev s @ CHR ''-'' # rev t = rev s' @ CHR ''-'' # rev t'" by simp
  then show "s = s'" using s append_sep_inject [of "CHR ''-''" "rev s" "rev s'"] by simp
qed

lemma preimage_prev:
  assumes "entry_preimage c = entry_preimage c'"
    and "ae_previousHash c = Some s" and "ae_previousHash c' = Some s'"
    and "hash_shaped s" and "hash_shaped s'"
  shows "s = s'"
proof -
  let ?pre = "\<lambda>e. dec (ae_idx e) @ ''-'' @ ae_timestamp e @ ''-'' @ ae_action e @ ''-''
     @ ae_actor e @ ''-'' @ ae_details e"
  have "?pre c @ CHR ''-'' # s = ?pre c' @ CHR ''-'' # s'"
    using assms(1-3)
    by (simp add: entry_preimage_def audit_preimage_def undefined_text_def del: utf8_append)
  with assms(4,5) show ?thesis unfolding hash_shaped_def by (rule last_segment)
qed

lemma hash_shaped_digest: "hex_laws h \<Longrightarrow> hash_shaped (''0x'' @ h_bytesToHex h b)"
  using hex_lawsD(3) [of h "CHR ''-''" b] by (auto simp: hash_shaped_def digit_value_def)

lemma linked_same_hash:
  assumes "hex_laws h" and "inj_on (h_sha256 h) A"
  shows "linked h es \<Longrightarrow> linked h es' \<Longrightarrow> length es = length es' \<Longrightarrow> es \<noteq> [] \<Longrightarrow>
    ae_hash (last es) = ae_hash (last es') \<Longrightarrow>
    hash_shaped (ae_hash (hd es)) \<Longrightarrow> hash_shaped (ae_hash (hd es')) \<Longrightarrow>
    entry_preimage ` (set (tl es) \<union> set (tl es')) \<subseteq> A \<Longrightarrow>
    map ae_hash es = map ae_hash es' \<and> map entry_preimage (tl es) = map entry_preimage (tl es')"
proof (induction es arbitrary: es' rule: rev_induct)
  case Nil
  then show ?case by simp
next
  case (snoc e es)
  then obtain e' xs where es': "es' = xs @ [e']"
    by (metis length_0_conv rev_exhaust snoc_eq_iff_butlast)
  show ?case
  proof (cases "es = []")
    case True
    then show ?thesis using snoc.prems es' by auto
  next
    case False
    then have xs: "xs \<noteq> []" "length es = length xs" using snoc.prems(3) es' by auto
    from snoc.prems(1,2) False xs es' have l: "linked h es" "linked h xs"
      "link_ok h (last es) e" "link_ok h (last xs) e'"
      by (auto simp: linked_append)
    have tl: "tl (es @ [e]) = tl es @ [e]" "tl es' = tl xs @ [e']" using False xs es' by auto
    have same: "entry_preimage e = entry_preimage e'"
      by (rule preimage_same_hash [OF assms(1) l(3,4) _ assms(2)])
        (use snoc.prems es' tl in auto)
    have shaped: "hash_shaped (ae_hash (last ys))" if "linked h ys" "ys \<noteq> []" "hash_shaped (ae_hash (hd ys))" for ys
    proof (cases "length ys = 1")
      case True
      then show ?thesis using that by (cases ys) auto
    next
      case False
      with that(2) obtain zs z where ys: "ys = zs @ [z]" "zs \<noteq> []" by (cases ys rule: rev_cases) auto
      with that(1) have "link_ok h (last zs) z" by (simp add: linked_append)
      then show ?thesis using hash_shaped_digest [OF assms(1)] ys by (simp add: link_ok_iff)
    qed
    have "ae_hash (last es) = ae_hash (last xs)"
      by (rule preimage_prev [OF same]) (use l shaped snoc.prems False xs es' in \<open>auto simp: link_ok_iff\<close>)
    then have "map ae_hash es = map ae_hash xs \<and> map entry_preimage (tl es) = map entry_preimage (tl xs)"
      using snoc.prems False xs es' tl by (intro snoc.IH l) auto
    then show ?thesis using snoc.prems(5) es' same tl by simp
  qed
qed

subsection \<open>Merkle trees\<close>

text \<open>The strings one level hashes, and all levels together.\<close>

fun level_inputs :: "bytes list \<Rightarrow> bytes list" where
  "level_inputs [] = []"
| "level_inputs [l] = [l @ l]"
| "level_inputs (l # r # rest) = (l @ r) # level_inputs rest"

lemma merkle_level_inputs: "merkle_level h hs = map (h_sha256 h) (level_inputs hs)"
  by (induction hs rule: level_inputs.induct) auto

function merkle_inputs :: "hashes \<Rightarrow> bytes list \<Rightarrow> bytes set" where
  "merkle_inputs h hs =
     (if 1 < length hs then set (level_inputs hs) \<union> merkle_inputs h (merkle_level h hs) else {})"
  by pat_completeness auto
termination
  by (relation "measure (\<lambda>(h, hs). length hs)") auto

declare merkle_inputs.simps [simp del]

lemma level_inputs_inject:
  assumes "\<forall>x \<in> set hs \<union> set hs'. length x = n" and "length hs = length hs'"
    and "level_inputs hs = level_inputs hs'"
  shows "hs = hs'"
  using assms
proof (induction hs arbitrary: hs' rule: level_inputs.induct)
  case 1
  then show ?case by simp
next
  case (2 l)
  then obtain l' where "hs' = [l']" by (metis length_0_conv length_Suc_conv list.size(3))
  with 2 show ?case by simp
next
  case (3 l r rest)
  then obtain l' r' rest' where hs': "hs' = l' # r' # rest'"
    by (metis length_Suc_conv)
  with 3 have "rest = rest'" by (intro "3.IH") auto
  with 3 hs' show ?case by simp
qed

lemma merkle_up_inject:
  assumes "\<And>x. length (h_sha256 h x) = n"
  shows "\<forall>x \<in> set hs \<union> set hs'. length x = n \<Longrightarrow> length hs = length hs' \<Longrightarrow>
    inj_on (h_sha256 h) (merkle_inputs h hs \<union> merkle_inputs h hs') \<Longrightarrow>
    merkle_up h hs = merkle_up h hs' \<Longrightarrow> hs = hs'"
proof (induction "length hs" arbitrary: hs hs' rule: less_induct)
  case less
  show ?case
  proof (cases "1 < length hs")
    case False
    with less.prems show ?thesis by (simp add: merkle_up.simps)
  next
    case True
    then have m: "merkle_inputs h hs = set (level_inputs hs) \<union> merkle_inputs h (merkle_level h hs)"
      "merkle_inputs h hs' = set (level_inputs hs') \<union> merkle_inputs h (merkle_level h hs')"
      using less.prems(2) by (simp_all add: merkle_inputs.simps)
    have "merkle_level h hs = merkle_level h hs'"
    proof (rule less.hyps)
      show "length (merkle_level h hs) < length hs" using True by simp
      show "\<forall>x \<in> set (merkle_level h hs) \<union> set (merkle_level h hs'). length x = n"
        using assms less.prems by (auto simp: merkle_level_inputs)
      show "length (merkle_level h hs) = length (merkle_level h hs')" using less.prems(2) by simp
      show "inj_on (h_sha256 h) (merkle_inputs h (merkle_level h hs) \<union> merkle_inputs h (merkle_level h hs'))"
        by (rule inj_on_subset [OF less.prems(3)]) (auto simp: m)
      show "merkle_up h (merkle_level h hs) = merkle_up h (merkle_level h hs')"
        using less.prems(2,4) True by (simp add: merkle_up.simps [of h hs] merkle_up.simps [of h hs'])
    qed
    then have "level_inputs hs = level_inputs hs'"
      unfolding merkle_level_inputs
      by (rule map_inj_on) (rule inj_on_subset [OF less.prems(3)], auto simp: m)
    with less.prems(1,2) show ?thesis by (rule level_inputs_inject)
  qed
qed

lemma merkle_up_single: "hs \<noteq> [] \<Longrightarrow> \<exists>x. merkle_up h hs = [x]"
proof (induction h hs rule: merkle_up.induct)
  case (1 h hs)
  show ?case
  proof (cases "1 < length hs")
    case True
    then have "0 < length (merkle_level h hs)" by simp
    then have "merkle_level h hs \<noteq> []" by (rule length_greater_0_conv [THEN iffD1])
    with 1 True show ?thesis by (simp add: merkle_up.simps [of h hs])
  next
    case False
    with "1.prems" show ?thesis by (subst merkle_up.simps) (cases hs, auto)
  qed
qed

lemma merkle_level_last: "odd (length hs) \<Longrightarrow> merkle_level h (hs @ [last hs]) = merkle_level h hs"
  by (induction h hs rule: merkle_level.induct) auto

subsection \<open>What verification looks at\<close>

text \<open>Two entries the loop body cannot tell apart as the current entry.\<close>

definition same_link :: "AuditEntry \<Rightarrow> AuditEntry \<Rightarrow> bool" where
  "same_link e e' \<longleftrightarrow> ae_hash e = ae_hash e' \<and> ae_previousHash e = ae_previousHash e'
     \<and> entry_preimage e = entry_preimage e'"

lemma link_ok_same: "ae_hash p = ae_hash p' \<Longrightarrow> same_link c c' \<Longrightarrow> link_ok h p c = link_ok h p' c'"
  by (simp add: link_ok_iff same_link_def)

lemma verify_from_same:
  "list_all2 same_link es es' \<Longrightarrow> ae_hash g = ae_hash g' \<Longrightarrow>
     verify_from h n i (g # es) = verify_from h n i (g' # es')"
proof (induction es es' arbitrary: g g' i rule: list_all2_induct)
  case Nil
  then show ?case by simp
next
  case (Cons e es e' es')
  then have "ae_hash e = ae_hash e'" by (simp add: same_link_def)
  with Cons show ?case using link_ok_same [of g g' e e' h] by simp
qed

lemma same_link_refl [simp]: "same_link e e"
  by (simp add: same_link_def)

lemma list_all2_same: "list_all2 same_link xs xs"
  by (rule list_all2_refl) simp

text \<open>A list of rows as the database, for the witnesses.\<close>

definition toy_sqlite :: "audit_row list sqlite" where
  "toy_sqlite = \<lparr>sq_insert_or_ignore = (\<lambda>r d.
       if row_previous_hash r = None \<or> (\<exists>x \<in> set d. row_id x = row_id r \<or> row_idx x = row_idx r)
       then d else insort_key row_idx r d),
     sq_select_all = (\<lambda>d. d)\<rparr>"

lemma toy_sqlite_laws: "sqlite_laws toy_sqlite"
  by (simp add: sqlite_laws_def toy_sqlite_def)

subsection \<open>Properties\<close>

text \<open>C7: A process started on an empty (or no) database keeps a chain that verifies after any
  sequence of \<open>appendLog\<close> calls, with every entry counted and the last entry's hash reported.\<close>

theorem audit_chain_verifies:
  assumes "audit_reach h S st"
  shows "verifyChainIntegrity h st =
      \<lparr>ci_isValid = True, ci_brokenAtStep = None, ci_hash = ae_hash (last (au_chain st)),
       ci_totalBlocks = length (au_chain st)\<rparr>
    \<and> er_isChainValid (engine_verifyChainIntegrity h st)"
  using audit_reach_linked [OF assms]
  by (simp add: engine_verifyChainIntegrity_def verifyChainIntegrity_def Let_def verify_from_linked)

theorem audit_chain_verifies_witness:
  "er_isChainValid (engine_verifyChainIntegrity toy_hashes
     (snd (appendLog toy_hashes toy_sqlite ''t1'' ''LOGIN'' ''alice'' ''ok'' None
        (initChain toy_hashes toy_sqlite (Some []) ''t0'' ''t0'' [7]))))"
proof -
  let ?st = "initChain toy_hashes toy_sqlite (Some []) ''t0'' ''t0'' [7]"
  obtain i st' where a: "appendLog toy_hashes toy_sqlite ''t1'' ''LOGIN'' ''alice'' ''ok'' None ?st = (i, st')"
    by force
  have "audit_reach toy_hashes toy_sqlite ?st"
    by (rule reach_init) (simp add: loadFromDB_def toy_sqlite_def)
  from reach_append [OF this a] a show ?thesis using audit_chain_verifies by (metis snd_conv)
qed



text \<open>What verification does not see. The hashed text joins the fields with \<open>-\<close>, so moving text
  containing a \<open>-\<close> from the actor to the action leaves it unchanged; and the loop starts at
  entry 1, so every field of entry 0 but its hash can be rewritten. Neither change alters the
  outcome of \<open>verifyChainIntegrity\<close> on any chain.\<close>

theorem audit_blind_spots:
  assumes "au_chain st = g # xs @ e # ys" and "ae_actor e = b @ ''-'' @ c"
    and "ae_hash g' = ae_hash g"
  shows "verifyChainIntegrity h
      (st\<lparr>au_chain := g' # xs @ e\<lparr>ae_action := ae_action e @ ''-'' @ b, ae_actor := c\<rparr> # ys\<rparr>)
    = verifyChainIntegrity h st"
proof -
  let ?e = "e\<lparr>ae_action := ae_action e @ ''-'' @ b, ae_actor := c\<rparr>"
  have "same_link ?e e"
    using assms(2) by (simp add: same_link_def entry_preimage_def audit_preimage_def)
  then have "list_all2 same_link (xs @ ?e # ys) (xs @ e # ys)"
    by (intro list_all2_appendI list_all2_same list.rel_intros)
  from verify_from_same [OF this assms(3)] show ?thesis
    by (simp add: verifyChainIntegrity_def assms(1))
qed

theorem audit_blind_spots_witness:
  "\<exists>g e :: AuditEntry. ae_actor e = ''ops-alice'' \<and> verifyChainIntegrity toy_hashes
      \<lparr>au_chain = [g\<lparr>ae_details := ''rewritten''\<rparr>, e\<lparr>ae_action := ''LOGIN-ops'', ae_actor := ''alice''\<rparr>],
       au_nextIndex = 1, au_db = None :: unit option\<rparr>
    = verifyChainIntegrity toy_hashes \<lparr>au_chain = [g, e], au_nextIndex = 1, au_db = None :: unit option\<rparr>"
proof -
  let ?g = "genesis_entry toy_hashes ''t0'' ''t0'' [7]"
  let ?e = "?g\<lparr>ae_action := ''LOGIN'', ae_actor := ''ops-alice''\<rparr>"
  let ?st = "\<lparr>au_chain = [?g, ?e], au_nextIndex = 1, au_db = None :: unit option\<rparr>"
  show ?thesis
    using audit_blind_spots [of ?st ?g "[]" ?e "[]" "''ops''" "''alice''" "?g\<lparr>ae_details := ''rewritten''\<rparr>" toy_hashes]
    by (intro exI [of _ ?g] exI [of _ ?e]) (simp add: genesis_entry_def)
qed

text \<open>C34: The chain does not survive a restart. With SQLite, \<open>nextIndex\<close> is still 0 after the
  genesis block, so the first appended entry clashes with it on the unique \<open>idx\<close> and
  \<open>INSERT OR IGNORE\<close> drops it; and the rows read back carry \<open>previous_hash\<close> where the
  verifier reads \<open>previousHash\<close>. After two appends and a restart the database holds two of the
  three entries and verification fails at step 1.\<close>

theorem audit_restart_fails:
  assumes "sqlite_laws S" and "sq_select_all S d = []"
    and "appendLog h S t1 a1 b1 c1 ip1 (initChain h S (Some d) u v sig) = (i1, st1)"
    and "appendLog h S t2 a2 b2 c2 ip2 st1 = (i2, st2)" and "au_db st2 = Some d2"
  shows "length (au_chain st2) = 3
    \<and> map row_id (sq_select_all S d2) = [''genesis-000'', ''entry-00000001'']
    \<and> \<not> ci_isValid (verifyChainIntegrity h (initChain h S (Some d2) u' v' sig'))
    \<and> ci_brokenAtStep (verifyChainIntegrity h (initChain h S (Some d2) u' v' sig')) = Some 1"
proof -
  let ?g = "genesis_entry h u v sig" and ?st0 = "initChain h S (Some d) u v sig"
  have e: "loadFromDB S (Some d) = []" using assms(2) by (simp add: loadFromDB_def)
  note ins = assms(1) [unfolded sqlite_laws_def, rule_format]
  define d0 where "d0 = sq_insert_or_ignore S (entry_row ?g) d"
  have db0: "au_db ?st0 = Some d0"
    using e by (simp add: initChain_def appendGenesis_def Let_def persistEntry_def d0_def)
  have r0: "sq_select_all S d0 = [entry_row ?g]"
    using assms(2) by (simp add: d0_def ins) (simp add: entry_row_def genesis_entry_def)
  define e1 where "e1 = new_entry h t1 a1 b1 c1 ip1 ?st0"
  note s0 = init_chain_fresh [OF e, of h u v sig]
  note s1 = appendLog_chain [OF assms(3), folded e1_def]
  define d1 where "d1 = sq_insert_or_ignore S (entry_row e1) d0"
  have "ae_idx e1 = 0" using s0 by (simp add: e1_def new_entry_def Let_def)
  then have r1: "sq_select_all S d1 = [entry_row ?g]"
    by (simp add: d1_def ins r0) (simp add: entry_row_def genesis_entry_def)
  have db1: "au_db st1 = Some d1" using s1 db0 by (simp add: d1_def)
  define e2 where "e2 = new_entry h t2 a2 b2 c2 ip2 st1"
  note s2 = appendLog_chain [OF assms(4), folded e2_def]
  have n1: "au_nextIndex st1 = 1" using s1 s0 by simp
  have id2: "ae_id e2 = ''entry-00000001''" "ae_idx e2 = 1" "ae_previousHash e2 \<noteq> None"
    unfolding e2_def new_entry_def Let_def AuditEntry.simps n1 by (code_simp, simp_all)
  have "d2 = sq_insert_or_ignore S (entry_row e2) d1" using s2 db1 assms(5) by simp
  then have r2: "sq_select_all S d2 = [entry_row ?g, entry_row e2]"
    using id2 by (simp add: ins r1) (simp add: entry_row_def genesis_entry_def)
  then have ids: "map row_id (sq_select_all S d2) = [''genesis-000'', ''entry-00000001'']"
    using id2(1) by (simp add: entry_row_def genesis_entry_def)
  have "au_chain (initChain h S (Some d2) u' v' sig') = [row_entry (entry_row ?g), row_entry (entry_row e2)]"
    by (simp add: initChain_def loadFromDB_def r2 Let_def)
  moreover have "\<not> link_ok h (row_entry (entry_row ?g)) (row_entry (entry_row e2))"
    by (simp add: link_ok_def row_entry_def)
  ultimately show ?thesis
    using ids s0 s1 s2 by (simp add: verifyChainIntegrity_def)
qed

theorem audit_restart_fails_witness:
  "\<exists>d2. \<not> ci_isValid (verifyChainIntegrity toy_hashes (initChain toy_hashes toy_sqlite (Some d2) ''r'' ''r'' []))"
proof -
  let ?i = "initChain toy_hashes toy_sqlite (Some []) ''t0'' ''t0'' [7]"
  obtain i1 st1 where a: "appendLog toy_hashes toy_sqlite ''t1'' ''LOGIN'' ''alice'' ''ok'' None ?i = (i1, st1)"
    by force
  obtain i2 st2 where b: "appendLog toy_hashes toy_sqlite ''t2'' ''SIGN'' ''alice'' ''ok'' None st1 = (i2, st2)"
    by force
  have "au_db ?i \<noteq> None"
    by (simp add: initChain_def loadFromDB_def toy_sqlite_def appendGenesis_def Let_def persistEntry_def)
  then obtain d2 where d: "au_db st2 = Some d2"
    using appendLog_chain [OF a] appendLog_chain [OF b] by auto
  have "sq_select_all toy_sqlite [] = []" by (simp add: toy_sqlite_def)
  from audit_restart_fails [OF toy_sqlite_laws this a b d] show ?thesis by blast
qed

text \<open>The Merkle root commits to the chain: two chains of the same length, whose hashes are
  32-byte digests, with the same root hold the same hashes, unless SHA-256 (with its 32-byte
  output) collides on a node of the two trees.\<close>

theorem merkle_root_binding:
  assumes "hex_laws h" and "\<And>x. length (h_sha256 h x) = 32"
    and "getMerkleRoot h st = getMerkleRoot h st'"
    and "length (au_chain st) = length (au_chain st')" and "au_chain st \<noteq> []"
    and "\<forall>e \<in> set (au_chain st) \<union> set (au_chain st'). length (strip0x (ae_hash e)) = 64"
    and "inj_on (h_sha256 h)
      (merkle_inputs h (map (\<lambda>e. hex_pairs (strip0x (ae_hash e))) (au_chain st))
       \<union> merkle_inputs h (map (\<lambda>e. hex_pairs (strip0x (ae_hash e))) (au_chain st')))"
  shows "map (\<lambda>e. hex_pairs (strip0x (ae_hash e))) (au_chain st)
    = map (\<lambda>e. hex_pairs (strip0x (ae_hash e))) (au_chain st')"
proof (rule merkle_up_inject [OF assms(2) _ _ assms(7)])
  let ?l = "\<lambda>st. map (\<lambda>e. hex_pairs (strip0x (ae_hash e))) (au_chain st)"
  show "\<forall>x \<in> set (?l st) \<union> set (?l st'). length x = 32" using assms(6) by auto
  show len: "length (?l st) = length (?l st')" using assms(4) by simp
  have "au_chain st' \<noteq> []" using assms(4,5) by auto
  with assms(3,5) have "hd (merkle_up h (?l st)) = hd (merkle_up h (?l st'))"
    by (simp add: getMerkleRoot_def bytesToHex_inject [OF assms(1)])
  then show "merkle_up h (?l st) = merkle_up h (?l st')"
    using merkle_up_single [of "?l st" h] merkle_up_single [of "?l st'" h] assms(5) \<open>au_chain st' \<noteq> []\<close>
    by auto
qed

theorem merkle_root_binding_witness:
  "let e = (genesis_entry toy_hashes ''t0'' ''t0'' [7])\<lparr>ae_hash := ''0x'' @ replicate 64 CHR ''7''\<rparr>;
       f = (\<lambda>e. hex_pairs (strip0x (ae_hash e)))
   in map f [e, e] = map f [e\<lparr>ae_id := ''a''\<rparr>, e\<lparr>ae_actor := ''b''\<rparr>]"
proof -
  let ?e = "(genesis_entry toy_hashes ''t0'' ''t0'' [7])\<lparr>ae_hash := ''0x'' @ replicate 64 CHR ''7''\<rparr>"
  let ?st = "\<lparr>au_chain = [?e, ?e], au_nextIndex = 1, au_db = None :: unit option\<rparr>"
  let ?st' = "\<lparr>au_chain = [?e\<lparr>ae_id := ''a''\<rparr>, ?e\<lparr>ae_actor := ''b''\<rparr>], au_nextIndex = 1, au_db = None :: unit option\<rparr>"
  have s: "strip0x (''0x'' @ t) = t" for t by simp
  have l: "length (h_sha256 toy_hashes x) = 32" for x by (simp add: toy_hashes_def toy_hash_def)
  show ?thesis
    using merkle_root_binding [OF toy_hex_laws l, of ?st ?st']
    by (simp add: s [simplified] getMerkleRoot_def merkle_inputs.simps Let_def)
qed

text \<open>The root does not commit to the length: an odd level repeats its last node, so a chain of
  odd length greater than one and the chain with its last entry appended again have the same
  Merkle root.\<close>

theorem merkle_root_duplicate:
  assumes "odd (length (au_chain st))" and "1 < length (au_chain st)"
  shows "getMerkleRoot h (st\<lparr>au_chain := au_chain st @ [last (au_chain st)]\<rparr>) = getMerkleRoot h st"
proof -
  let ?f = "\<lambda>e. hex_pairs (strip0x (ae_hash e))"
  let ?hs = "map ?f (au_chain st)"
  have ne: "au_chain st \<noteq> []" using assms(2) by auto
  have "merkle_level h (?hs @ [last ?hs]) = merkle_level h ?hs"
    using assms(1) by (intro merkle_level_last) simp
  then have "merkle_up h (?hs @ [last ?hs]) = merkle_up h ?hs"
    using assms(2) ne
    by (simp add: merkle_up.simps [of h "?hs @ [last ?hs]"] merkle_up.simps [of h ?hs])
  then show ?thesis using ne by (simp add: getMerkleRoot_def last_map)
qed

theorem merkle_root_duplicate_witness:
  "\<forall>a b c :: AuditEntry. getMerkleRoot toy_hashes \<lparr>au_chain = [a, b, c, c], au_nextIndex = 0, au_db = None :: unit option\<rparr>
    = getMerkleRoot toy_hashes \<lparr>au_chain = [a, b, c], au_nextIndex = 0, au_db = None :: unit option\<rparr>"
proof (intro allI)
  fix a b c :: AuditEntry
  show "getMerkleRoot toy_hashes \<lparr>au_chain = [a, b, c, c], au_nextIndex = 0, au_db = None :: unit option\<rparr>
    = getMerkleRoot toy_hashes \<lparr>au_chain = [a, b, c], au_nextIndex = 0, au_db = None :: unit option\<rparr>"
    using merkle_root_duplicate [of "\<lparr>au_chain = [a, b, c], au_nextIndex = 0, au_db = None :: unit option\<rparr>" toy_hashes]
    by simp
qed

end
