(* ===== verification/JsMap.thy ===== *)
theory JsMap
  imports Prelude
begin

section \<open>Insertion-ordered maps\<close>

text \<open>
  \<open>Map\<close> as an association list with distinct keys, in insertion order: \<open>set\<close> on a present key
  keeps its position, a new key goes to the end. The interface \<open>keyed_store\<close> states what the
  components that keep their state in a \<open>Map\<close> (velocity tracker, sessions, connections, quotas)
  rely on, with the lemmas on sequences of writes and on sweeps that delete as they go.
\<close>

type_synonym ('k, 'v) js_map = "('k \<times> 'v) list"

definition jm_get :: "('k, 'v) js_map \<Rightarrow> 'k \<Rightarrow> 'v option" where
  "jm_get m k = map_of m k"

definition jm_set :: "('k, 'v) js_map \<Rightarrow> 'k \<Rightarrow> 'v \<Rightarrow> ('k, 'v) js_map" where
  "jm_set m k v = AList.update k v m"

definition jm_delete :: "('k, 'v) js_map \<Rightarrow> 'k \<Rightarrow> ('k, 'v) js_map" where
  "jm_delete m k = AList.delete k m"

definition jm_has :: "('k, 'v) js_map \<Rightarrow> 'k \<Rightarrow> bool" where
  "jm_has m k \<longleftrightarrow> jm_get m k \<noteq> None"

definition jm_keys :: "('k, 'v) js_map \<Rightarrow> 'k list" where
  "jm_keys m = map fst m"

definition jm_inv :: "('k, 'v) js_map \<Rightarrow> bool" where
  "jm_inv m \<longleftrightarrow> distinct (map fst m)"

subsection \<open>The interface\<close>

locale keyed_store =
  fixes get :: "'m \<Rightarrow> 'k \<Rightarrow> 'v option"
    and put :: "'m \<Rightarrow> 'k \<Rightarrow> 'v \<Rightarrow> 'm"
    and del :: "'m \<Rightarrow> 'k \<Rightarrow> 'm"
    and keys :: "'m \<Rightarrow> 'k list"
    and inv :: "'m \<Rightarrow> bool"
    and emp :: "'m"
  assumes inv_emp: "inv emp" and get_emp: "get emp k = None"
    and inv_put: "inv m \<Longrightarrow> inv (put m k v)" and inv_del: "inv m \<Longrightarrow> inv (del m k)"
    and get_put: "get (put m k v) k' = (if k' = k then Some v else get m k')"
    and get_del: "get (del m k) k' = (if k' = k then None else get m k')"
    and keys_iff: "k \<in> set (keys m) \<longleftrightarrow> get m k \<noteq> None"
    and keys_distinct: "inv m \<Longrightarrow> distinct (keys m)"
begin

lemma get_put_same: "get (put m k v) k = Some v"
  by (simp add: get_put)

lemma put_overrides: "get (put (put m k v) k w) k' = get (put m k w) k'"
  by (simp add: get_put)

lemma del_put: "get (del (put m k v) k) k' = get (del m k) k'"
  by (simp add: get_put get_del)

text \<open>Writing a list of pairs: the last write to a key wins.\<close>

lemma get_fold_put:
  "get (fold (\<lambda>(k, v) m. put m k v) kvs m) k =
     (case map_of (rev kvs) k of None \<Rightarrow> get m k | Some v \<Rightarrow> Some v)"
proof (induction kvs arbitrary: m)
  case Nil
  then show ?case by simp
next
  case (Cons kv kvs)
  obtain k0 v0 where kv: "kv = (k0, v0)" by force
  show ?case
    using Cons [of "put m k0 v0"] kv by (auto simp: map_add_def get_put split: option.splits)
qed

text \<open>Sweeping the store by its own keys, deleting the entries a predicate selects.\<close>

definition sweep :: "('k \<Rightarrow> 'v \<Rightarrow> bool) \<Rightarrow> 'm \<Rightarrow> 'm" where
  "sweep P m = fold (\<lambda>k m'. case get m k of Some v \<Rightarrow> if P k v then del m' k else m' | None \<Rightarrow> m')
     (keys m) m"

lemma get_fold_del:
  "get (fold (\<lambda>k m'. if Q k then del m' k else m') ks m) k
    = (if k \<in> set ks \<and> Q k then None else get m k)"
  by (induction ks arbitrary: m) (auto simp: get_del)

lemma get_sweep:
  "get (sweep P m) k = (case get m k of None \<Rightarrow> None | Some v \<Rightarrow> if P k v then None else Some v)"
proof -
  let ?Q = "\<lambda>k. case get m k of None \<Rightarrow> False | Some v \<Rightarrow> P k v"
  have f: "(\<lambda>k m'. case get m k of Some v \<Rightarrow> if P k v then del m' k else m' | None \<Rightarrow> m')
      = (\<lambda>k m'. if ?Q k then del m' k else m')"
    by (intro ext) (auto split: option.splits)
  show ?thesis
    unfolding sweep_def f get_fold_del using keys_iff [of k m] by (auto split: option.splits)
qed

lemma inv_fold_del: "inv m \<Longrightarrow> inv (fold (\<lambda>k m'. if Q k then del m' k else m') ks m)"
  by (induction ks arbitrary: m) (auto simp: inv_del)

lemma sweep_keeps: "get m k = Some v \<Longrightarrow> \<not> P k v \<Longrightarrow> get (sweep P m) k = Some v"
  by (simp add: get_sweep)

end

interpretation js_map: keyed_store jm_get jm_set jm_delete jm_keys jm_inv "[]"
proof unfold_locales
  fix m :: "('k, 'v) js_map" and k k' v
  show "jm_get (jm_set m k v) k' = (if k' = k then Some v else jm_get m k')"
    by (simp add: jm_get_def jm_set_def update_conv')
  show "jm_get (jm_delete m k) k' = (if k' = k then None else jm_get m k')"
    by (simp add: jm_get_def jm_delete_def delete_conv')
  show "k \<in> set (jm_keys m) \<longleftrightarrow> jm_get m k \<noteq> None"
    by (auto simp: jm_keys_def jm_get_def map_of_eq_None_iff)
  show "jm_inv m \<Longrightarrow> jm_inv (jm_set m k v)" by (simp add: jm_inv_def jm_set_def distinct_update)
  show "jm_inv m \<Longrightarrow> jm_inv (jm_delete m k)" by (simp add: jm_inv_def jm_delete_def distinct_delete)
qed (auto simp: jm_inv_def jm_get_def jm_keys_def)

lemmas js_map_simps [simp] = js_map.get_put js_map.get_del js_map.get_emp

lemma jm_has_iff: "jm_has m k \<longleftrightarrow> k \<in> set (jm_keys m)"
  by (simp add: jm_has_def js_map.keys_iff)

lemma jm_has_set [simp]: "jm_has (jm_set m k v) k' \<longleftrightarrow> k' = k \<or> jm_has m k'"
  by (simp add: jm_has_def)

lemma jm_has_delete [simp]: "jm_has (jm_delete m k) k' \<longleftrightarrow> k' \<noteq> k \<and> jm_has m k'"
  by (simp add: jm_has_def)

text \<open>The number of entries, \<open>map.size\<close>.\<close>

lemma length_jm_set:
  "length (jm_set m k v) = (if jm_has m k then length m else Suc (length m))"
  unfolding jm_set_def jm_has_def jm_get_def by (induction m) auto

lemma length_jm_delete_le: "length (jm_delete m k) \<le> length m"
  by (simp add: jm_delete_def length_delete_le)

end
