(* ===== verification/Sanitize.thy ===== *)
theory Sanitize
  imports Complex_Main Noble Paillier
begin

section \<open>Input sanitization and validation\<close>

text \<open>
  \<^verbatim>\<open>src/lib/security/input_sanitization.ts\<close>. The regular expressions are anchored character
  classes with a length range, written as such. \<open>validateEIP55Checksum\<close> loads keccak with
  \<open>require\<close>, which an ES module does not have under plain Node (the package has
  \<open>"type": "module"\<close>) and some loaders provide; the parameter \<open>rq\<close> of type \<open>binding\<close> says
  whether the identifier is defined. Lengths count characters, for ASCII input.
\<close>

definition in_range :: "char \<Rightarrow> char \<Rightarrow> char \<Rightarrow> bool" where
  "in_range a b c \<longleftrightarrow> (of_char a :: nat) \<le> of_char c \<and> (of_char c :: nat) \<le> of_char b"

definition is_digit :: "char \<Rightarrow> bool" where
  "is_digit = in_range CHR ''0'' CHR ''9''"

definition is_hex :: "char \<Rightarrow> bool" where
  "is_hex c \<longleftrightarrow> in_range CHR ''a'' CHR ''f'' c \<or> in_range CHR ''A'' CHR ''F'' c \<or> is_digit c"

definition is_alnum :: "char \<Rightarrow> bool" where
  "is_alnum c \<longleftrightarrow> in_range CHR ''a'' CHR ''z'' c \<or> in_range CHR ''A'' CHR ''Z'' c \<or> is_digit c"

text \<open>\<open>[a-km-zA-HJ-NP-Z1-9]\<close>\<close>

definition is_base58 :: "char \<Rightarrow> bool" where
  "is_base58 c \<longleftrightarrow> in_range CHR ''a'' CHR ''k'' c \<or> in_range CHR ''m'' CHR ''z'' c
     \<or> in_range CHR ''A'' CHR ''H'' c \<or> in_range CHR ''J'' CHR ''N'' c
     \<or> in_range CHR ''P'' CHR ''Z'' c \<or> in_range CHR ''1'' CHR ''9'' c"

definition matches :: "(char \<Rightarrow> bool) \<Rightarrow> nat \<Rightarrow> nat \<Rightarrow> string \<Rightarrow> bool" where
  "matches P lo hi s \<longleftrightarrow> lo \<le> length s \<and> length s \<le> hi \<and> list_all P s"

definition evm_format :: "string \<Rightarrow> bool" where
  "evm_format s \<longleftrightarrow> startsWith s ''0x'' \<and> matches is_hex 40 40 (drop 2 s)"

definition bech32_format :: "string \<Rightarrow> bool" where
  "bech32_format s \<longleftrightarrow> (startsWith s ''bc1'' \<or> startsWith s ''tb1'') \<and> matches is_alnum 38 59 (drop 3 s)"

definition base58_btc_format :: "string \<Rightarrow> bool" where
  "base58_btc_format s \<longleftrightarrow> take 1 s \<in> {''1'', ''3'', ''m''} \<and> matches is_base58 25 34 (drop 1 s)"

definition solana_format :: "string \<Rightarrow> bool" where
  "solana_format s \<longleftrightarrow> matches is_base58 32 44 s"

definition polkadot_format :: "string \<Rightarrow> bool" where
  "polkadot_format s \<longleftrightarrow> matches is_base58 47 48 s"

subsection \<open>Operations\<close>

definition sanitizeInput :: "string \<Rightarrow> nat \<Rightarrow> string" where
  "sanitizeInput input maxLength =
     take maxLength (js_trim (filter (\<lambda>c. c \<notin> {CHR ''<'', CHR ''>'', CHR 0x22, CHR 0x27, CHR ''&''}) input))"

text \<open>One turn of the checksum loop: \<open>ch\<close> is the address character, \<open>n\<close> the digit of the hash.\<close>

definition eip55_char_ok :: "char \<Rightarrow> char \<Rightarrow> bool" where
  "eip55_char_ok ch n =
     (case parseInt16 [n] of
        None \<Rightarrow> True
      | Some hashNibble \<Rightarrow>
          (if in_range CHR ''A'' CHR ''F'' ch \<and> hashNibble < 8 then False
           else if in_range CHR ''a'' CHR ''f'' ch \<and> hashNibble \<ge> 8 then False
           else True))"

definition validateEIP55Checksum :: "hashes \<Rightarrow> binding \<Rightarrow> string \<Rightarrow> bool result" where
  "validateEIP55Checksum h rq address =
     (case rq of
        NotImported \<Rightarrow> Inl (ReferenceError ''require is not defined'')
      | Imported \<Rightarrow>
          let addr = strip0x (toLowerCase address);
              hashHex = concat (map byte_hex (h_keccak_256 h (utf8 addr)))
          in Inr (list_all (\<lambda>i. eip55_char_ok (address ! (i + 2)) (hashHex ! i)) [0..<40]))"

definition validateAddress :: "hashes \<Rightarrow> binding \<Rightarrow> string \<Rightarrow> bool result" where
  "validateAddress h rq address =
     (if address = [] then Inr False
      else let cleanAddr = js_trim address in
        if 128 < length cleanAddr \<or> length cleanAddr < 20 then Inr False
        else if evm_format cleanAddr then validateEIP55Checksum h rq cleanAddr
        else if bech32_format cleanAddr then Inr True
        else if base58_btc_format cleanAddr then Inr True
        else if solana_format cleanAddr then Inr True
        else if polkadot_format cleanAddr then Inr True
        else Inr False)"

text \<open>\<open>/^\d+(\.\d+)?$/\<close>\<close>

definition amount_format :: "string \<Rightarrow> bool" where
  "amount_format s \<longleftrightarrow>
     (let a = takeWhile is_digit s; b = dropWhile is_digit s in
      a \<noteq> [] \<and> (b = [] \<or> (hd b = CHR ''.'' \<and> tl b \<noteq> [] \<and> list_all is_digit (tl b))))"

record amount_result =
  am_valid :: bool
  am_value :: "string option"
  am_error :: "string option"

definition validateAmount :: "string \<Rightarrow> amount_result" where
  "validateAmount amount =
     (let invalid = (\<lambda>e. \<lparr>am_valid = False, am_value = None, am_error = Some e\<rparr>) in
      if amount = [] then invalid ''Amount must be a string''
      else let trimmed = js_trim amount in
        if \<not> amount_format trimmed then invalid ''Amount must be a positive decimal number''
        else let parts = split_on CHR ''.'' trimmed in
          if 1 < length parts \<and> 18 < length (parts ! 1)
          then invalid ''Amount precision exceeds 18 decimal places''
          else \<lparr>am_valid = True, am_value = Some trimmed, am_error = None\<rparr>)"

definition validateChainId :: "string \<Rightarrow> bool" where
  "validateChainId chainId \<longleftrightarrow> toLowerCase chainId \<in>
     {''ethereum'', ''bitcoin'', ''solana'', ''polygon'', ''polkadot'', ''avalanche''}"

record mpc_params_result =
  mpr_valid :: bool
  mpr_error :: "string option"

text \<open>The arguments are numbers, integral or not.\<close>

definition js_isInteger :: "rat \<Rightarrow> bool" where
  "js_isInteger x \<longleftrightarrow> of_int \<lfloor>x\<rfloor> = x"

definition validateMPCParams :: "rat \<Rightarrow> rat \<Rightarrow> mpc_params_result" where
  "validateMPCParams threshold totalParties =
     (if \<not> js_isInteger threshold \<or> threshold < 2 \<or> 20 < threshold
      then \<lparr>mpr_valid = False, mpr_error = Some ''threshold must be an integer between 2 and 20''\<rparr>
      else if \<not> js_isInteger totalParties \<or> totalParties < 2 \<or> 50 < totalParties
      then \<lparr>mpr_valid = False, mpr_error = Some ''totalParties must be an integer between 2 and 50''\<rparr>
      else if totalParties < threshold
      then \<lparr>mpr_valid = False, mpr_error = Some ''threshold cannot exceed totalParties''\<rparr>
      else \<lparr>mpr_valid = True, mpr_error = None\<rparr>)"

subsection \<open>Lemmas\<close>

lemma split_on_none: "c \<notin> set s \<Longrightarrow> split_on c s = [s]"
  by (induction s) auto

lemma split_on_first: "c \<notin> set a \<Longrightarrow> split_on c (a @ c # b) = a # split_on c b"
  by (induction a) auto

lemma digit_not_dot: "is_digit c \<Longrightarrow> c \<noteq> CHR ''.''"
  by (auto simp: is_digit_def in_range_def)

lemma takeWhile_digits: "list_all is_digit a \<Longrightarrow> takeWhile is_digit a = a" "list_all is_digit a \<Longrightarrow> dropWhile is_digit a = []"
  by (auto simp: list_all_iff)

text \<open>The accepted amounts: digits, or digits, a dot and digits.\<close>

lemma amount_format_iff:
  "amount_format s \<longleftrightarrow> (\<exists>a. a \<noteq> [] \<and> list_all is_digit a \<and>
     (s = a \<or> (\<exists>b. b \<noteq> [] \<and> list_all is_digit b \<and> s = a @ CHR ''.'' # b)))"
proof
  assume f: "amount_format s"
  define a b where ab: "a = takeWhile is_digit s" "b = dropWhile is_digit s"
  have a: "list_all is_digit a" unfolding ab by (auto simp: list_all_iff dest: set_takeWhileD)
  have s: "s = a @ b" unfolding ab by simp
  from f have f': "a \<noteq> []" "b = [] \<or> (hd b = CHR ''.'' \<and> tl b \<noteq> [] \<and> list_all is_digit (tl b))"
    unfolding ab by (auto simp: amount_format_def Let_def)
  show "\<exists>a. a \<noteq> [] \<and> list_all is_digit a \<and>
     (s = a \<or> (\<exists>b. b \<noteq> [] \<and> list_all is_digit b \<and> s = a @ CHR ''.'' # b))"
  proof (cases b)
    case Nil
    with f'(1) a s show ?thesis by (intro exI [of _ a]) simp
  next
    case (Cons c b')
    with f' have "c = CHR ''.''" "b' \<noteq> []" "list_all is_digit b'" by auto
    with f'(1) a s Cons show ?thesis by (intro exI [of _ a]) simp
  qed
next
  assume "\<exists>a. a \<noteq> [] \<and> list_all is_digit a \<and>
     (s = a \<or> (\<exists>b. b \<noteq> [] \<and> list_all is_digit b \<and> s = a @ CHR ''.'' # b))"
  then obtain a where a: "a \<noteq> []" "list_all is_digit a"
    "s = a \<or> (\<exists>b. b \<noteq> [] \<and> list_all is_digit b \<and> s = a @ CHR ''.'' # b)" by blast
  have d: "\<not> is_digit CHR ''.''" using digit_not_dot by blast
  from a(3) show "amount_format s"
  proof (elim disjE exE conjE)
    assume "s = a"
    with a show ?thesis by (simp add: amount_format_def takeWhile_digits Let_def)
  next
    fix b assume b: "b \<noteq> []" "list_all is_digit b" "s = a @ CHR ''.'' # b"
    have "takeWhile is_digit s = a" "dropWhile is_digit s = CHR ''.'' # b"
      using a(2) d b(3) by (auto simp: list_all_iff takeWhile_append dropWhile_append)
    with a b show ?thesis by (simp add: amount_format_def Let_def)
  qed
qed

subsection \<open>Properties\<close>

text \<open>\<open>validateAmount\<close> accepts exactly the trimmed texts of the form digits, or digits, a dot
  and at most 18 digits, and returns the trimmed text; everything else carries an error and no
  value.\<close>

theorem validateAmount_iff:
  "(am_valid (validateAmount s) \<longleftrightarrow> (\<exists>a. a \<noteq> [] \<and> list_all is_digit a \<and>
     (js_trim s = a \<or> (\<exists>b. b \<noteq> [] \<and> list_all is_digit b \<and> length b \<le> 18
        \<and> js_trim s = a @ CHR ''.'' # b))))
   \<and> am_value (validateAmount s) = (if am_valid (validateAmount s) then Some (js_trim s) else None)
   \<and> (am_error (validateAmount s) = None \<longleftrightarrow> am_valid (validateAmount s))"
proof -
  have nodot: "list_all is_digit a \<Longrightarrow> CHR ''.'' \<notin> set a" for a
    using digit_not_dot by (auto simp: list_all_iff)
  have sp: "list_all is_digit a \<Longrightarrow> split_on CHR ''.'' a = [a]"
    "list_all is_digit a \<Longrightarrow> list_all is_digit b \<Longrightarrow> split_on CHR ''.'' (a @ CHR ''.'' # b) = [a, b]" for a b
    using nodot by (simp_all add: split_on_none split_on_first)
  have ne: "s = [] \<Longrightarrow> js_trim s = []" by (simp add: js_trim_def)
  have "am_valid (validateAmount s) \<longleftrightarrow> s \<noteq> [] \<and> amount_format (js_trim s) \<and>
      \<not> (1 < length (split_on CHR ''.'' (js_trim s)) \<and> 18 < length (split_on CHR ''.'' (js_trim s) ! 1))"
    by (simp add: validateAmount_def Let_def)
  also have "\<dots> \<longleftrightarrow> (\<exists>a. a \<noteq> [] \<and> list_all is_digit a \<and>
     (js_trim s = a \<or> (\<exists>b. b \<noteq> [] \<and> list_all is_digit b \<and> length b \<le> 18
        \<and> js_trim s = a @ CHR ''.'' # b)))" (is "_ \<longleftrightarrow> ?R")
  proof
    assume l: "s \<noteq> [] \<and> amount_format (js_trim s) \<and>
      \<not> (1 < length (split_on CHR ''.'' (js_trim s)) \<and> 18 < length (split_on CHR ''.'' (js_trim s) ! 1))"
    then obtain a where a: "a \<noteq> []" "list_all is_digit a" "js_trim s = a \<or>
        (\<exists>b. b \<noteq> [] \<and> list_all is_digit b \<and> js_trim s = a @ CHR ''.'' # b)"
      unfolding amount_format_iff by blast
    with l show ?R by (intro exI [of _ a]) (auto simp: sp not_less)
  next
    assume ?R
    then obtain a where a: "a \<noteq> []" "list_all is_digit a" "js_trim s = a \<or>
        (\<exists>b. b \<noteq> [] \<and> list_all is_digit b \<and> length b \<le> 18 \<and> js_trim s = a @ CHR ''.'' # b)"
      by blast
    then have "amount_format (js_trim s)" unfolding amount_format_iff by blast
    moreover have "s \<noteq> []" using a ne by auto
    ultimately show "s \<noteq> [] \<and> amount_format (js_trim s) \<and>
      \<not> (1 < length (split_on CHR ''.'' (js_trim s)) \<and> 18 < length (split_on CHR ''.'' (js_trim s) ! 1))"
      using a by (auto simp: sp)
  qed
  finally show ?thesis by (auto simp: validateAmount_def Let_def)
qed

end
