(* ===== verification/Curves.thy ===== *)
theory Curves
  imports Sanitize
begin

section \<open>secp256k1 and Ed25519\<close>

text \<open>
  \<^verbatim>\<open>src/lib/crypto/secp256k1.ts\<close> (but \<open>modN\<close> and \<open>modInverseOrder\<close>, which are in
  \<open>ModArith\<close>) and \<^verbatim>\<open>src/lib/crypto/ed25519.ts\<close>: key pairs, signatures, the threshold
  signing equation and the Ethereum address of a public key. The key drawn by the library is an
  argument.
\<close>

record Secp256k1KeyPair =
  sk_privateKey :: string
  sk_publicKey :: string
  sk_publicKeyCompressed :: string

record Secp256k1Signature =
  sg_r :: string
  sg_s :: string
  sg_v :: int
  sg_rawSigHex :: string

record Ed25519KeyPair =
  ek_privateKey :: string
  ek_publicKey :: string

record Ed25519Signature =
  es_rawSigHex :: string
  es_rHex :: string
  es_sHex :: string

definition generateKeyPairSecp256k1 :: "hashes \<Rightarrow> 'p ec \<Rightarrow> bytes \<Rightarrow> Secp256k1KeyPair result" where
  "generateKeyPairSecp256k1 h E priv =
     rbind (ec_getPublicKey E priv False) (\<lambda>pub.
     rbind (ec_getPublicKey E priv True) (\<lambda>pubCompressed.
     Inr \<lparr>sk_privateKey = ''0x'' @ h_bytesToHex h priv, sk_publicKey = ''0x'' @ h_bytesToHex h pub,
          sk_publicKeyCompressed = ''0x'' @ h_bytesToHex h pubCompressed\<rparr>))"

text \<open>\<open>BigInt('0x' + hex of the bytes)\<close>; on no bytes \<open>'0x'\<close> does not parse.\<close>

definition bytesToBigInt :: "bytes \<Rightarrow> int result" where
  "bytesToBigInt bs = parse_BigInt (''0x'' @ concat (map byte_hex bs))"

definition generatePartialSignature ::
  "'p ec \<Rightarrow> int \<Rightarrow> bytes \<Rightarrow> int \<Rightarrow> (int \<times> int \<times> bytes) result" where
  "generatePartialSignature E privateShare messageHash nonce =
     (let q = ec_order E in
      rbind (ec_BASE_multiply E nonce) (\<lambda>R.
      rbind (ec_toRawBytes E R False) (\<lambda>Rbytes.
      let r = modN q (ec_x E R) in
      rbind (bytesToBigInt messageHash) (\<lambda>z.
      rbind (modInverseOrder q nonce) (\<lambda>kInv.
      let rx = modN q (r * privateShare);
          z_plus_rx = modN q (z + rx);
          s = modN q (kInv * z_plus_rx)
      in Inr (r, s, Rbytes))))))"

definition hex64 :: "int \<Rightarrow> string" where
  "hex64 n = padStart 64 CHR ''0'' (hex n)"

definition signMessageSecp256k1 :: "hashes \<Rightarrow> 'p ec \<Rightarrow> string \<Rightarrow> bytes \<Rightarrow> Secp256k1Signature result" where
  "signMessageSecp256k1 h E privateKeyHex message =
     rbind (h_hexToBytes h (strip0x privateKeyHex)) (\<lambda>priv.
     rbind (ec_sign E message priv) (\<lambda>(r, s, recovery).
     Inr \<lparr>sg_r = ''0x'' @ hex64 r, sg_s = ''0x'' @ hex64 s, sg_v = recovery,
          sg_rawSigHex = ''0x'' @ hex64 r @ hex64 s @ hex (recovery + 27)\<rparr>))"

definition verifySignatureSecp256k1 :: "hashes \<Rightarrow> 'p ec \<Rightarrow> string \<Rightarrow> bytes \<Rightarrow> int \<Rightarrow> int \<Rightarrow> bool" where
  "verifySignatureSecp256k1 h E publicKeyHex message r s =
     (case rbind (h_hexToBytes h (strip0x publicKeyHex)) (\<lambda>pub.
           rbind (ec_compact E r s) (\<lambda>sig. ec_verify E sig message pub))
      of Inl e \<Rightarrow> False | Inr b \<Rightarrow> b)"

text \<open>The mixed-case checksum: a letter is upper case when the digit of the hash at its position
  is at least 8. A character that is not a digit reads as \<open>NaN\<close>, and \<open>NaN >= 8\<close> is false.\<close>

definition eip55_mix :: "string \<Rightarrow> string \<Rightarrow> string" where
  "eip55_mix rawAddr hashOfAddr =
     map (\<lambda>i. case parseInt16 [hashOfAddr ! i] of
                Some d \<Rightarrow> if d \<ge> 8 then upper_char (rawAddr ! i) else lower_char (rawAddr ! i)
              | None \<Rightarrow> lower_char (rawAddr ! i)) [0..<40]"

text \<open>\<open>slice(-20)\<close>\<close>

definition take_last :: "nat \<Rightarrow> 'a list \<Rightarrow> 'a list" where
  "take_last n xs = drop (length xs - n) xs"

definition deriveEthereumAddress :: "hashes \<Rightarrow> string \<Rightarrow> string result" where
  "deriveEthereumAddress h publicKeyHex =
     rbind (h_hexToBytes h (strip0x publicKeyHex)) (\<lambda>pub.
     let pubNoPrefix = (if length pub = 65 then drop 1 pub else pub);
         rawAddr = h_bytesToHex h (take_last 20 (h_keccak_256 h pubNoPrefix));
         hashOfAddr = h_bytesToHex h (h_keccak_256 h (utf8 rawAddr))
     in Inr (''0x'' @ eip55_mix rawAddr hashOfAddr))"

definition isValidEthereumAddress :: "string \<Rightarrow> bool" where
  "isValidEthereumAddress address = evm_format address"

definition isValidBitcoinAddress :: "string \<Rightarrow> bool \<times> string option" where
  "isValidBitcoinAddress address =
     (if bech32_format address then (True, Some ''Bech32'')
      else if base58_btc_format address
        then (True, Some (if startsWith address ''3'' then ''P2SH'' else ''Legacy P2PKH''))
      else (False, None))"

definition generateKeyPairEd25519 :: "hashes \<Rightarrow> ed25519 \<Rightarrow> bytes \<Rightarrow> Ed25519KeyPair result" where
  "generateKeyPairEd25519 h D priv =
     rbind (ed_getPublicKey D priv) (\<lambda>pub.
     Inr \<lparr>ek_privateKey = ''0x'' @ h_bytesToHex h priv, ek_publicKey = ''0x'' @ h_bytesToHex h pub\<rparr>)"

definition signMessageEd25519 :: "hashes \<Rightarrow> ed25519 \<Rightarrow> string \<Rightarrow> bytes \<Rightarrow> Ed25519Signature result" where
  "signMessageEd25519 h D privateKeyHex message =
     rbind (h_hexToBytes h (strip0x privateKeyHex)) (\<lambda>priv.
     rbind (ed_sign D message priv) (\<lambda>sig.
     let hx = h_bytesToHex h sig in
     Inr \<lparr>es_rawSigHex = ''0x'' @ hx, es_rHex = ''0x'' @ take 64 hx,
          es_sHex = ''0x'' @ take 64 (drop 64 hx)\<rparr>))"

definition verifySignatureEd25519 :: "hashes \<Rightarrow> ed25519 \<Rightarrow> string \<Rightarrow> bytes \<Rightarrow> string \<Rightarrow> bool" where
  "verifySignatureEd25519 h D publicKeyHex message signatureHex =
     (case rbind (h_hexToBytes h (strip0x publicKeyHex)) (\<lambda>pub.
           rbind (h_hexToBytes h (strip0x signatureHex)) (\<lambda>sig. ed_verify D sig message pub))
      of Inl e \<Rightarrow> False | Inr b \<Rightarrow> b)"

definition isValidSolanaAddress :: "string \<Rightarrow> bool" where
  "isValidSolanaAddress address = solana_format address"

definition isValidPolkadotAddress :: "string \<Rightarrow> bool" where
  "isValidPolkadotAddress address = polkadot_format address"

subsection \<open>Lemmas\<close>

lemma strip0x_prefix [simp]: "strip0x (CHR ''0'' # CHR ''x'' # s) = s"
  by simp

lemma parse_leading_zeros: "parse_digits b 0 (replicate k CHR ''0'' @ s) = parse_digits b 0 s" if "0 < b"
proof -
  have "digit_value CHR ''0'' = Some 0" by code_simp
  then show ?thesis using that by (induction k) simp_all
qed

lemma parse_BigInt_0x_hex64:
  assumes "0 \<le> n"
  shows "parse_BigInt (CHR ''0'' # CHR ''x'' # hex64 n) = Inr n"
proof -
  have p: "parse_radix 16 (hex64 n) = Some n"
    using parse_hex [OF assms] parse_leading_zeros [of 16 "64 - length (hex n)" "hex n"]
    by (auto simp: hex64_def padStart_def parse_radix_def split: if_splits)
  have "\<not> js_space c" if "c \<in> set (CHR ''0'' # CHR ''x'' # hex64 n)" for c
    using that parse_digits_no_space [of 16 0 "hex64 n" n c] p
    by (auto simp: parse_radix_def js_space_def split: if_splits)
  then have "js_trim (CHR ''0'' # CHR ''x'' # hex64 n) = CHR ''0'' # CHR ''x'' # hex64 n" by (rule js_trim_id)
  then show ?thesis using p by (simp add: parse_BigInt_def syntax_option_def)
qed

lemma bytesToBigInt_be: "bs \<noteq> [] \<Longrightarrow> bytesToBigInt bs = Inr (be_int bs)"
proof -
  assume ne: "bs \<noteq> []"
  have p: "parse_digits 16 0 (concat (map byte_hex bs)) = Some (be_int bs)"
    using parse_digits_bytes [of 0 bs] by simp
  have n: "concat (map byte_hex bs) \<noteq> []" using ne by (cases bs) (auto simp: byte_hex_eq)
  have "\<not> js_space c" if "c \<in> set (''0x'' @ concat (map byte_hex bs))" for c
    using that parse_digits_no_space [OF p, of c] by (auto simp: js_space_def)
  then have "js_trim (''0x'' @ concat (map byte_hex bs)) = ''0x'' @ concat (map byte_hex bs)"
    by (rule js_trim_id)
  then show ?thesis using p n by (simp add: bytesToBigInt_def parse_BigInt_def syntax_option_def parse_radix_def)
qed

subsection \<open>Properties\<close>

text \<open>The threshold signing equation. With a nonce the curve accepts and \<open>q\<close> prime,
  \<open>generatePartialSignature\<close> returns \<open>s\<close> in \<open>[0, q)\<close> with
  \<open>k * s = z + r * share\<close> modulo \<open>q\<close>, where \<open>r\<close> is the abscissa of \<open>k * G\<close> reduced modulo \<open>q\<close>
  and \<open>z\<close> the message hash read as a big-endian integer.\<close>

theorem partial_signature_equation:
  assumes "ec_laws E G" and "is_prime (ec_order E)" and "m \<noteq> []"
    and "generatePartialSignature E share m k = Inr (r, s, Rb)"
  shows "0 < k \<and> k < ec_order E \<and> r = ec_x E (G k) mod ec_order E
    \<and> 0 \<le> s \<and> s < ec_order E
    \<and> (k * s) mod ec_order E = (be_int m + r * share) mod ec_order E"
proof -
  let ?q = "ec_order E"
  have q: "1 < ?q" by (rule is_prime_gt1 [OF assms(2)])
  from assms(4) obtain R kInv where R: "ec_BASE_multiply E k = Inr R"
    and r: "r = modN ?q (ec_x E R)" and i: "modInverseOrder ?q k = Inr kInv"
    and s: "s = modN ?q (kInv * modN ?q (be_int m + modN ?q (r * share)))"
    by (auto simp: generatePartialSignature_def Let_def result_simps bytesToBigInt_be [OF assms(3)])
  have k: "0 < k" "k < ?q" "R = G k" using R ec_multiply_Inr_iff [OF assms(1)] by auto
  have s': "s = (kInv * (be_int m + r * share)) mod ?q"
    using q by (simp add: s modN_eq mod_simps)
  have "(k * s) mod ?q = (k * (kInv * (be_int m + r * share))) mod ?q" by (simp add: s' mod_simps)
  also have "\<dots> = (be_int m + r * share) mod ?q" by (rule ord_inv.inv_mult_cancel [OF q i])
  finally show ?thesis using k q r s' by (simp add: modN_eq)
qed

theorem partial_signature_equation_witness:
  "(2 * 9) mod 11 = (be_int [7] + 2 * 11) mod (11 :: int)"
proof -
  have p: "is_prime 11" by (rule is_primeI; code_simp)
  then have p': "is_prime (ec_order (toy_ec 11))" by (simp add: toy_ec_def)
  have i: "modInverseOrder 11 2 = Inr 6" by code_simp
  have b: "bytesToBigInt [7] = Inr 7" by (simp add: bytesToBigInt_be be_int_Cons)
  have g: "generatePartialSignature (toy_ec 11) 11 [7] 2 = Inr (2, 9, int_be 65 2)"
    by (simp add: generatePartialSignature_def toy_ec_def i b modN_eq)
  show ?thesis
    using partial_signature_equation [OF toy_ec_laws p' _ g] by (simp add: toy_ec_def)
qed

text \<open>Ed25519 signatures round-trip through their hexadecimal forms: what \<open>signMessageEd25519\<close>
  returns for a key pair of \<open>generateKeyPairEd25519\<close> verifies under its public key, and its two
  halves concatenate to the raw signature.\<close>

theorem ed25519_sign_verify:
  assumes "hex_laws h" and "ed_laws D" and "generateKeyPairEd25519 h D priv = Inr kp"
    and "signMessageEd25519 h D (ek_privateKey kp) m = Inr sig"
  shows "verifySignatureEd25519 h D (ek_publicKey kp) m (es_rawSigHex sig)
    \<and> es_rawSigHex sig = es_rHex sig @ drop 2 (es_sHex sig)"
proof -
  from assms(3) obtain pub where pub: "ed_getPublicKey D priv = Inr pub"
    and kp: "kp = \<lparr>ek_privateKey = ''0x'' @ h_bytesToHex h priv, ek_publicKey = ''0x'' @ h_bytesToHex h pub\<rparr>"
    by (auto simp: generateKeyPairEd25519_def result_simps)
  from assms(4) obtain sg where sg: "ed_sign D m priv = Inr sg"
    and sig: "sig = \<lparr>es_rawSigHex = ''0x'' @ h_bytesToHex h sg, es_rHex = ''0x'' @ take 64 (h_bytesToHex h sg),
          es_sHex = ''0x'' @ take 64 (drop 64 (h_bytesToHex h sg))\<rparr>"
    by (auto simp: signMessageEd25519_def Let_def result_simps kp hex_lawsD(1) [OF assms(1)])
  have v: "length sg = 64" "ed_verify D sg m pub = Inr True"
    using assms(2) sg pub unfolding ed_laws_def by blast+
  then have "length (h_bytesToHex h sg) = 128" using hex_lawsD(2) [OF assms(1)] by simp
  then have "take 64 (h_bytesToHex h sg) @ take 64 (drop 64 (h_bytesToHex h sg)) = h_bytesToHex h sg"
    by (metis append_take_drop_id length_drop numeral_Bit0_eq_double take_all order_refl
        diff_add_inverse mult_2 numeral_Bit0)
  with v show ?thesis
    by (simp add: verifySignatureEd25519_def kp sig hex_lawsD(1) [OF assms(1)])
qed

theorem ed25519_sign_verify_witness:
  "\<exists>kp sig. generateKeyPairEd25519 toy_hashes toy_ed [3] = Inr kp
    \<and> signMessageEd25519 toy_hashes toy_ed (ek_privateKey kp) [1, 2] = Inr sig
    \<and> verifySignatureEd25519 toy_hashes toy_ed (ek_publicKey kp) [1, 2] (es_rawSigHex sig)"
proof -
  obtain kp where kp: "generateKeyPairEd25519 toy_hashes toy_ed [3] = Inr kp"
    by (simp add: generateKeyPairEd25519_def toy_ed_def)
  then have "ek_privateKey kp = ''0x'' @ h_bytesToHex toy_hashes [3]"
    by (auto simp: generateKeyPairEd25519_def result_simps)
  then obtain sig where s: "signMessageEd25519 toy_hashes toy_ed (ek_privateKey kp) [1, 2] = Inr sig"
    using hex_lawsD(1) [OF toy_hex_laws] by (simp add: signMessageEd25519_def toy_ed_def Let_def)
  from ed25519_sign_verify [OF toy_hex_laws toy_ed_laws kp s] kp s show ?thesis by blast
qed

end
