(* ===== verification/Address.thy ===== *)
theory Address
  imports Curves
begin

unbundle bit_operations_syntax

section \<open>Address derivation\<close>

text \<open>
  \<^verbatim>\<open>src/lib/crypto/address_derivation.ts\<close>: Base58, Bech32 with its BCH checksum, the EVM,
  Bitcoin, Solana and Polkadot addresses of a public key, and the additive child derivation.
  The bitwise operations of \<open>bech32Polymod\<close> and \<open>convertBits\<close> act on signed 32-bit integers:
  they are 32-bit words with the arithmetic shift.
\<close>

definition BASE58_ALPHABET :: string where
  "BASE58_ALPHABET = ''123456789ABCDEFGHJKLMNPQRSTUVWXYZabcdefghijkmnopqrstuvwxyz''"

subsection \<open>Base58\<close>

text \<open>One input byte: multiply the little-endian digits by 256 and add the carry, then push what
  remains of the carry. All values stay below \<open>2^15\<close>, so \<open>| 0\<close> only truncates.\<close>

function b58_push :: "nat \<Rightarrow> nat list" where
  "b58_push carry = (if 0 < carry then carry mod 58 # b58_push (carry div 58) else [])"
  by pat_completeness auto
termination
  by (relation "measure (\<lambda>c. c)") auto

declare b58_push.simps [simp del]

fun b58_step :: "nat \<Rightarrow> nat list \<Rightarrow> nat list" where
  "b58_step carry [] = b58_push carry"
| "b58_step carry (d # ds) =
     (let c = carry + push_bit 8 d in c mod 58 # b58_step (c div 58) ds)"

definition encodeBase58 :: "bytes \<Rightarrow> string" where
  "encodeBase58 bs =
     (let zeros = length (takeWhile (\<lambda>b. b = 0) bs);
          digits = foldl (\<lambda>ds b. b58_step (unat b) ds) [0] (drop zeros bs)
      in replicate zeros CHR ''1'' @ map (\<lambda>d. BASE58_ALPHABET ! d) (rev digits))"

subsection \<open>Bech32\<close>

fun emit_groups :: "nat \<Rightarrow> 32 word \<Rightarrow> nat \<Rightarrow> nat \<times> nat list" where
  "emit_groups toBits acc bits =
     (if toBits \<le> bits \<and> 0 < toBits
      then (case emit_groups toBits acc (bits - toBits) of
              (b, out) \<Rightarrow> (b, unat (signed_drop_bit (bits - toBits) acc AND mask toBits) # out))
      else (bits, []))"

declare emit_groups.simps [simp del]

fun convert_loop :: "nat \<Rightarrow> nat \<Rightarrow> 32 word \<Rightarrow> nat \<Rightarrow> nat list \<Rightarrow> (32 word \<times> nat \<times> nat list) option" where
  "convert_loop fromBits toBits acc bits [] = Some (acc, bits, [])"
| "convert_loop fromBits toBits acc bits (value # rest) =
     (if drop_bit fromBits value \<noteq> 0 then None
      else let acc1 = push_bit fromBits acc OR of_nat value in
        case emit_groups toBits acc1 (bits + fromBits) of (bits1, out) \<Rightarrow>
        (case convert_loop fromBits toBits acc1 bits1 rest of
           None \<Rightarrow> None
         | Some (acc2, bits2, out2) \<Rightarrow> Some (acc2, bits2, out @ out2)))"

definition convertBits :: "nat list \<Rightarrow> nat \<Rightarrow> nat \<Rightarrow> bool \<Rightarrow> nat list" where
  "convertBits data fromBits toBits pad =
     (case convert_loop fromBits toBits 0 0 data of
        None \<Rightarrow> []
      | Some (acc, bits, result) \<Rightarrow>
          if pad \<and> 0 < bits then result @ [unat (push_bit (toBits - bits) acc AND mask toBits)]
          else result)"

definition BECH32_CHARSET :: string where
  "BECH32_CHARSET = ''qpzry9x8gf2tvdw0s3jn54khce6mua7l''"

definition BECH32_GEN :: "32 word list" where
  "BECH32_GEN = [0x3b6a57b2, 0x26508e6d, 0x1ea119fa, 0x3d4233dd, 0x2a1462b3]"

definition polymod_gen :: "32 word \<Rightarrow> 32 word" where
  "polymod_gen b = foldl (\<lambda>chk i. if bit b i then chk XOR BECH32_GEN ! i else chk) 0 [0..<5]"

text \<open>One value. The inner loop XORs the generators selected by \<open>(b >> i) & 1\<close>; XOR commutes, so
  they are collected in \<open>polymod_gen b\<close>.\<close>

definition polymod_step :: "32 word \<Rightarrow> nat \<Rightarrow> 32 word" where
  "polymod_step chk p =
     (let b = signed_drop_bit 25 chk
      in (push_bit 5 (chk AND 0x1ffffff) XOR of_nat p) XOR polymod_gen b)"

definition bech32Polymod :: "nat list \<Rightarrow> 32 word" where
  "bech32Polymod values = foldl polymod_step 1 values"

definition hrpExpand :: "string \<Rightarrow> nat list" where
  "hrpExpand hrp = map (\<lambda>c. drop_bit 5 (of_char c)) hrp @ [0] @ map (\<lambda>c. of_char c AND 31) hrp"

definition bech32_checksum :: "string \<Rightarrow> nat list \<Rightarrow> nat list" where
  "bech32_checksum hrp combined =
     (let md = bech32Polymod (hrpExpand hrp @ combined @ [0, 0, 0, 0, 0, 0]) XOR 1
      in map (\<lambda>p. unat (signed_drop_bit (5 * (5 - p)) md AND 31)) [0..<6])"

definition encodeBech32 :: "string \<Rightarrow> nat \<Rightarrow> bytes \<Rightarrow> string" where
  "encodeBech32 hrp witnessVersion witnessProgram =
     (let data5bit = convertBits (map unat witnessProgram) 8 5 True;
          combined = witnessVersion # data5bit;
          checksum = bech32_checksum hrp combined
      in hrp @ ''1'' @ map (\<lambda>p. BECH32_CHARSET ! p) (combined @ checksum))"

subsection \<open>Addresses\<close>

definition strip0x_start :: "string \<Rightarrow> string" where
  "strip0x_start s = (if startsWith s ''0x'' then drop 2 s else s)"

definition deriveEVMAddress :: "hashes \<Rightarrow> 'p ec \<Rightarrow> string \<Rightarrow> string result" where
  "deriveEVMAddress h E pubKeyHex =
     (let cleanHex = strip0x_start pubKeyHex in
      rbind (if length cleanHex = 128 then h_hexToBytes h cleanHex
             else if length cleanHex = 130 \<and> startsWith cleanHex ''04'' then h_hexToBytes h (drop 2 cleanHex)
             else rbind (ec_fromHex E cleanHex) (\<lambda>point.
                  rbind (ec_toRawBytes E point False) (\<lambda>raw. Inr (drop 1 raw)))) (\<lambda>pubBytes.
      let hash = h_keccak_256 h pubBytes;
          rawAddrHex = h_bytesToHex h (take 20 (drop 12 hash));
          hashOfAddr = h_bytesToHex h (h_keccak_256 h (utf8 rawAddrHex))
      in Inr (''0x'' @ eip55_mix rawAddrHex hashOfAddr)))"

definition deriveBitcoinAddress :: "hashes \<Rightarrow> 'p ec \<Rightarrow> string \<Rightarrow> string result" where
  "deriveBitcoinAddress h E pubKeyHex =
     (let cleanHex = strip0x_start pubKeyHex in
      rbind (if length cleanHex = 66 \<and> (startsWith cleanHex ''02'' \<or> startsWith cleanHex ''03'')
             then h_hexToBytes h cleanHex
             else rbind (ec_fromHex E cleanHex) (\<lambda>point. ec_toRawBytes E point True)) (\<lambda>compressedBytes.
      Inr (encodeBech32 ''bc'' 0 (h_ripemd160 h (h_sha256 h compressedBytes)))))"

definition deriveSolanaAddress :: "hashes \<Rightarrow> string \<Rightarrow> string result" where
  "deriveSolanaAddress h pubKeyHex =
     rbind (h_hexToBytes h (strip0x_start pubKeyHex)) (\<lambda>bs.
     Inr (encodeBase58 (if 32 \<le> length bs then take 32 bs else bs)))"

definition derivePolkadotAddress :: "hashes \<Rightarrow> string \<Rightarrow> string result" where
  "derivePolkadotAddress h pubKeyHex =
     rbind (h_hexToBytes h (strip0x_start pubKeyHex)) (\<lambda>bs.
     let payload = 0 # take 32 bs;
         checkInput = utf8 ''SS58PRE'' @ payload;
         checksum = take 2 (h_sha256 h (h_sha256 h checkInput))
     in Inr (encodeBase58 (payload @ checksum)))"

text \<open>The 36-byte HMAC input: 32 zero bytes and the index, whose \<open>>>\<close> and \<open>& 0xff\<close> see its low 32
  bits.\<close>

definition child_tweak :: "hashes \<Rightarrow> int \<Rightarrow> bytes \<Rightarrow> int \<Rightarrow> int" where
  "child_tweak h q chainCode index =
     be_int (take 32 (h_hmac_sha256 h chainCode (replicate 32 0 @ int_be 4 index))) smod q"

definition deriveChildKeyShare :: "hashes \<Rightarrow> int \<Rightarrow> int \<Rightarrow> bytes \<Rightarrow> int \<Rightarrow> int \<times> int" where
  "deriveChildKeyShare h q parentShare chainCode index =
     (let tweak = child_tweak h q chainCode index in ((parentShare + tweak) smod q, tweak))"

definition deriveChildPublicKey :: "hashes \<Rightarrow> 'p ec \<Rightarrow> string \<Rightarrow> bytes \<Rightarrow> int \<Rightarrow> string result" where
  "deriveChildPublicKey h E parentPubKeyHex chainCode index =
     rbind (ec_fromHex E (strip0x_start parentPubKeyHex)) (\<lambda>parentPoint.
     rbind (ec_BASE_multiply E (child_tweak h (ec_order E) chainCode index)) (\<lambda>tweakPoint.
     rbind (ec_toRawBytes E (ec_add E parentPoint tweakPoint) False) (\<lambda>raw.
     Inr (''0x'' @ h_bytesToHex h raw))))"

subsection \<open>Base58 values\<close>

fun b58_value :: "nat list \<Rightarrow> nat" where
  "b58_value [] = 0"
| "b58_value (d # ds) = d + 58 * b58_value ds"

lemma b58_push_value: "b58_value (b58_push c) = c \<and> (\<forall>d \<in> set (b58_push c). d < 58)"
proof (induction c rule: b58_push.induct)
  case (1 c)
  show ?case
  proof (cases "0 < c")
    case True
    with 1 show ?thesis by (subst (1 2) b58_push.simps) auto
  next
    case False
    then show ?thesis by (subst (1 2) b58_push.simps) auto
  qed
qed

lemma b58_step_value:
  "b58_value (b58_step c ds) = c + 256 * b58_value ds \<and> (\<forall>d \<in> set (b58_step c ds). d < 58)"
proof (induction ds arbitrary: c)
  case Nil
  then show ?case using b58_push_value [of c] by simp
next
  case (Cons d ds)
  let ?c = "c + push_bit 8 d"
  have p: "push_bit 8 d = 256 * d" by (simp add: push_bit_eq_mult)
  have "b58_value (b58_step c (d # ds)) = ?c mod 58 + 58 * (?c div 58 + 256 * b58_value ds)"
    using Cons [of "?c div 58"] by (simp add: Let_def)
  also have "\<dots> = ?c + 58 * 256 * b58_value ds"
    using mult_div_mod_eq [of 58 ?c] by (simp add: algebra_simps)
  finally show ?case using Cons [of "?c div 58"] p by (simp add: Let_def)
qed

lemma uint_unat_byte: "int (unat (b :: byte)) = uint b"
  by simp

lemma b58_fold_value:
  "int (b58_value (foldl (\<lambda>ds b. b58_step (unat b) ds) ds bs))
     = int (b58_value ds) * 256 ^ length bs + be_int bs
   \<and> ((\<forall>d \<in> set ds. d < 58) \<longrightarrow> (\<forall>d \<in> set (foldl (\<lambda>ds b. b58_step (unat b) ds) ds bs). d < 58))"
proof (induction bs arbitrary: ds)
  case Nil
  then show ?case by simp
next
  case (Cons b bs)
  have "int (b58_value (b58_step (unat b) ds)) = uint b + 256 * int (b58_value ds)"
    using b58_step_value [of "unat b" ds] by simp
  then show ?case
    using Cons [of "b58_step (unat b) ds"] b58_step_value [of "unat b" ds]
    by (simp add: be_int_Cons algebra_simps)
qed

text \<open>Reading a Base58 text: the index of a character in the alphabet, most significant first.\<close>

definition b58_index :: "char \<Rightarrow> nat" where
  "b58_index c = length (takeWhile (\<lambda>x. x \<noteq> c) BASE58_ALPHABET)"

definition b58_read :: "string \<Rightarrow> nat" where
  "b58_read s = b58_value (rev (map b58_index s))"

lemma b58_index_table: "map (\<lambda>d. b58_index (BASE58_ALPHABET ! d)) [0..<58] = [0..<58]"
  by code_simp

lemma b58_index_alphabet: "d < 58 \<Longrightarrow> b58_index (BASE58_ALPHABET ! d) = d"
proof -
  assume "d < 58"
  with arg_cong [OF b58_index_table, of "\<lambda>xs. xs ! d"] show ?thesis by simp
qed

lemma b58_value_append_zeros: "b58_value (ds @ replicate n 0) = b58_value ds"
  by (induction ds) (auto, induction n, auto)

lemma be_int_leading_zeros: "be_int bs = be_int (drop (length (takeWhile (\<lambda>b. b = 0) bs)) bs)"
proof -
  let ?z = "takeWhile (\<lambda>b. b = 0) bs"
  have "be_int ?z = 0" by (auto simp: be_int_zero_iff dest: set_takeWhileD)
  then show ?thesis
    using be_int_append [of ?z "dropWhile (\<lambda>b. b = 0) bs"] by (simp flip: dropWhile_eq_drop)
qed

lemma read_encodeBase58: "int (b58_read (encodeBase58 bs)) = be_int bs"
proof -
  let ?z = "length (takeWhile (\<lambda>b. b = 0) bs)"
  let ?ds = "foldl (\<lambda>ds b. b58_step (unat b) ds) [0] (drop ?z bs)"
  have d: "\<forall>d \<in> set ?ds. d < 58" using b58_fold_value [of "[0]" "drop ?z bs"] by simp
  have one: "b58_index CHR ''1'' = 0" by code_simp
  have "map (\<lambda>x. b58_index (BASE58_ALPHABET ! x)) (rev ?ds) = rev ?ds"
    by (rule map_idI) (use d in \<open>auto simp: b58_index_alphabet\<close>)
  then have "map b58_index (encodeBase58 bs) = replicate ?z 0 @ rev ?ds"
    by (simp add: encodeBase58_def Let_def one map_replicate_const comp_def)
  then have "b58_read (encodeBase58 bs) = b58_value ?ds"
    by (simp add: b58_read_def b58_value_append_zeros)
  then show ?thesis
    using b58_fold_value [of "[0]" "drop ?z bs"] be_int_leading_zeros [of bs] by simp
qed

subsection \<open>The Bech32 checksum\<close>

text \<open>\<open>polymod\<close> keeps 30 bits, and a difference below \<open>2^25\<close> in the state is only shifted.\<close>

definition below :: "nat \<Rightarrow> 32 word \<Rightarrow> bool" where
  "below n w \<longleftrightarrow> (\<forall>i. n \<le> i \<longrightarrow> \<not> bit w i)"

lemma below_xor: "below n a \<Longrightarrow> below n b \<Longrightarrow> below n (a XOR b)"
  by (simp add: below_def bit_xor_iff)

lemma below_mono: "below m a \<Longrightarrow> m \<le> n \<Longrightarrow> below n a"
  by (auto simp: below_def)

lemma below_push: "below n a \<Longrightarrow> below (n + 5) (push_bit 5 a)"
  by (auto simp: below_def bit_push_bit_iff)

lemma below_and_mask: "below 25 (a AND 0x1ffffff)"
proof -
  have m: "(0x1ffffff :: 32 word) = mask 25" by (simp add: mask_eq_exp_minus_1)
  show ?thesis unfolding m by (auto simp: below_def bit_and_iff bit_mask_iff simp del: mask_numeral)
qed

lemma below_of_nat: "p < 32 \<Longrightarrow> below 5 (of_nat p)"
proof -
  assume "p < 32"
  then have "(of_nat p :: 32 word) = take_bit 5 (of_nat p)"
    by (simp add: of_nat_take_bit [symmetric] take_bit_nat_eq_self)
  then show ?thesis unfolding below_def by (metis bit_take_bit_iff not_less)
qed

lemma below_gen: "below 30 (polymod_gen b)"
proof -
  have g: "\<forall>g \<in> set BECH32_GEN. below 30 g"
  proof -
    have "\<forall>g \<in> set BECH32_GEN. g AND mask 30 = g" by (simp add: BECH32_GEN_def mask_eq_exp_minus_1)
    then show ?thesis unfolding below_def by (metis bit_and_iff bit_mask_iff not_less)
  qed
  have "below 30 (foldl (\<lambda>chk i. if bit b i then chk XOR BECH32_GEN ! i else chk) c is)"
    if "below 30 c" "set is \<subseteq> {..<5}" for c "is"
    using that
  proof (induction "is" arbitrary: c)
    case Nil
    then show ?case by simp
  next
    case (Cons i "is")
    then have "BECH32_GEN ! i \<in> set BECH32_GEN" by (intro nth_mem) (simp add: BECH32_GEN_def)
    with g Cons.prems have "below 30 (if bit b i then c XOR BECH32_GEN ! i else c)"
      by (auto intro: below_xor)
    with Cons show ?case by simp
  qed
  moreover have "below 30 0" "set [0..<5] \<subseteq> {..<5 :: nat}" by (auto simp: below_def)
  ultimately show ?thesis unfolding polymod_gen_def by blast
qed

lemma polymod_step_below:
  assumes "p < 32"
  shows "below 30 (polymod_step chk p)"
  unfolding polymod_step_def Let_def
  by (intro below_xor below_gen) (use below_push [OF below_and_mask, of chk]
      below_mono [OF below_of_nat [OF assms]] in auto)

lemma polymod_below: "list_all (\<lambda>p. p < 32) vs \<Longrightarrow> below 30 chk \<Longrightarrow> below 30 (foldl polymod_step chk vs)"
  by (induction vs arbitrary: chk) (auto intro: polymod_step_below)

lemma signed_drop_xor:
  assumes "below 25 d"
  shows "signed_drop_bit 25 (a XOR d) = signed_drop_bit 25 (a :: 32 word)"
  using assms by (intro bit_word_eqI) (auto simp: bit_signed_drop_bit_iff bit_xor_iff below_def)

lemma and_mask_xor:
  assumes "below 25 d"
  shows "push_bit 5 ((a XOR d) AND 0x1ffffff) = push_bit 5 (a AND 0x1ffffff) XOR push_bit 5 (d :: 32 word)"
proof -
  have m: "(0x1ffffff :: 32 word) = mask 25" by (simp add: mask_eq_exp_minus_1)
  have d: "bit d i \<Longrightarrow> i < 25" for i using assms by (auto simp: below_def not_le [symmetric])
  show ?thesis
    unfolding m by (intro bit_word_eqI) (auto simp: bit_push_bit_iff bit_and_iff bit_xor_iff bit_mask_iff
        simp del: mask_numeral dest: d)
qed

lemma polymod_step_xor:
  assumes "below 25 d"
  shows "polymod_step (a XOR d) p = polymod_step a 0 XOR (push_bit 5 d XOR of_nat p)"
  unfolding polymod_step_def Let_def signed_drop_xor [OF assms] and_mask_xor [OF assms]
  by (simp add: ac_simps)

text \<open>Six values in a row.\<close>

fun pack5 :: "32 word \<Rightarrow> nat list \<Rightarrow> 32 word" where
  "pack5 d [] = d"
| "pack5 d (c # cs) = pack5 (push_bit 5 d XOR of_nat c) cs"

lemma polymod_zeros:
  assumes "list_all (\<lambda>p. p < 32) cs"
  shows "below n d \<Longrightarrow> n + 5 * length cs \<le> 30 \<Longrightarrow>
    foldl polymod_step (a XOR d) cs = foldl polymod_step a (replicate (length cs) 0) XOR pack5 d cs"
  using assms
proof (induction cs arbitrary: a d n)
  case Nil
  then show ?case by simp
next
  case (Cons c cs)
  then have d: "below 25 d" by (auto intro: below_mono)
  let ?d = "push_bit 5 d XOR of_nat c"
  have "below (n + 5) ?d"
    using Cons.prems by (intro below_xor below_push below_mono [OF below_of_nat, of c]) auto
  from Cons.IH [OF this, of "polymod_step a 0"] Cons.prems show ?case
    by (simp add: polymod_step_xor [OF d, of a c] ac_simps)
qed

lemma signed_drop_below: "below 31 a \<Longrightarrow> signed_drop_bit n a = drop_bit n a"
  by (intro bit_word_eqI) (auto simp: bit_signed_drop_bit_iff bit_drop_bit_eq below_def)

lemma regroup: "push_bit 5 (drop_bit (m + 5) a) XOR (drop_bit m a AND mask 5) = drop_bit m (a :: 32 word)"
  by (intro bit_word_eqI)
    (auto simp: bit_push_bit_iff bit_and_iff bit_xor_iff bit_mask_iff bit_drop_bit_eq
      simp del: mask_numeral dest: bit_imp_le_length)

lemma pack5_groups:
  assumes "below 30 a"
  shows "pack5 0 (map (\<lambda>p. unat (signed_drop_bit (5 * (5 - p)) a AND 31)) [0..<6]) = a"
proof -
  have s: "signed_drop_bit n a = drop_bit n a" for n
    by (rule signed_drop_below [OF below_mono [OF assms]]) simp
  have m: "(31 :: 32 word) = mask 5" by (simp add: mask_eq_exp_minus_1)
  have l: "[0..<6] = [0, 1, 2, 3, 4, 5 :: nat]" by (simp add: upt_rec)
  define g where "g n = drop_bit n a AND mask 5" for n
  have e: "map (\<lambda>p. unat (signed_drop_bit (5 * (5 - p)) a AND 31)) [0..<6]
      = [unat (g 25), unat (g 20), unat (g 15), unat (g 10), unat (g 5), unat (g 0)]"
    by (simp add: l s m g_def del: mask_numeral)
  have p: "pack5 d (unat w # ws) = pack5 (push_bit 5 d XOR w) ws" for d w ws by simp
  have r: "push_bit 5 (drop_bit n' a) XOR g n = drop_bit n a" if "n' = n + 5" for n n'
    unfolding g_def that by (rule regroup)
  have z: "0 = drop_bit 30 a"
    using assms by (intro bit_word_eqI) (auto simp: bit_drop_bit_eq below_def)
  have "pack5 (drop_bit 30 a) [unat (g 25), unat (g 20), unat (g 15), unat (g 10), unat (g 5), unat (g 0)]
      = drop_bit 0 a"
    by (simp only: p r [of 30 25, simplified] r [of 25 20, simplified] r [of 20 15, simplified]
        r [of 15 10, simplified] r [of 10 5, simplified] r [of 5 0, simplified] pack5.simps(1)) simp
  then show ?thesis unfolding e z [symmetric] by simp
qed

text \<open>Bytes in groups of five bits stay below 32.\<close>

lemma mask5_less: "unat (w AND mask 5 :: 32 word) < 32"
proof -
  have "w AND mask 5 < 2 ^ 5" by (rule and_mask_less_size) (simp add: word_size)
  then show ?thesis by (simp add: word_less_nat_alt)
qed

lemma emit_groups_less: "emit_groups 5 acc bits = (b, out) \<Longrightarrow> list_all (\<lambda>p. p < 32) out"
proof (induction bits arbitrary: b out rule: less_induct)
  case (less bits)
  show ?case
  proof (cases "5 \<le> bits")
    case True
    obtain b' out' where e: "emit_groups 5 acc (bits - 5) = (b', out')" by force
    with less.prems True have "out = unat (signed_drop_bit (bits - 5) acc AND mask 5) # out'"
      by (simp add: emit_groups.simps [of 5 acc bits] del: mask_numeral)
    with less.IH [OF _ e] True mask5_less show ?thesis by simp
  next
    case False
    with less.prems show ?thesis by (simp add: emit_groups.simps [of 5 acc bits])
  qed
qed

lemma convert_loop_less:
  "convert_loop 8 5 acc bits vs = Some (acc', bits', out) \<Longrightarrow> list_all (\<lambda>p. p < 32) out"
  by (induction vs arbitrary: acc bits out)
    (auto simp: Let_def list_all_append split: if_splits prod.splits option.splits dest: emit_groups_less)

lemma convertBits_less: "list_all (\<lambda>p. p < 32) (convertBits vs 8 5 True)"
  using mask5_less by (auto simp: convertBits_def list_all_append split: option.splits
      dest: convert_loop_less simp del: mask_numeral)

lemma emit_groups_count:
  "emit_groups 5 acc bits = (b, out) \<Longrightarrow> b = bits mod 5 \<and> length out = bits div 5"
proof (induction bits arbitrary: b out rule: less_induct)
  case (less bits)
  show ?case
  proof (cases "5 \<le> bits")
    case True
    obtain b' out' where e: "emit_groups 5 acc (bits - 5) = (b', out')" by force
    with less.prems True have "b = b'" "length out = Suc (length out')"
      by (simp_all add: emit_groups.simps [of 5 acc bits] del: mask_numeral) auto
    with less.IH [OF _ e] True show ?thesis by (simp add: le_mod_geq le_div_geq)
  next
    case False
    with less.prems show ?thesis by (simp add: emit_groups.simps [of 5 acc bits])
  qed
qed

lemma div_split5: "x div 5 + (x mod 5 + y) div 5 = (x + y) div (5 :: nat)"
proof -
  have "x + y = 5 * (x div 5) + (x mod 5 + y)" by simp
  then show ?thesis by (metis div_mult_self4 zero_neq_numeral add.commute)
qed

lemma ceil5: "x div 5 + (if 0 < x mod 5 then 1 else 0) = (x + 4) div (5 :: nat)"
  by presburger

lemma convert_loop_count:
  "bits < 5 \<Longrightarrow> list_all (\<lambda>v. v < 256) vs \<Longrightarrow> \<exists>acc' bits' out. convert_loop 8 5 acc bits vs = Some (acc', bits', out)
     \<and> bits' = (bits + 8 * length vs) mod 5 \<and> length out = (bits + 8 * length vs) div 5"
proof (induction vs arbitrary: acc bits)
  case Nil
  then show ?case by simp
next
  case (Cons v vs)
  let ?acc = "push_bit 8 acc OR of_nat v"
  obtain b out where e: "emit_groups 5 ?acc (bits + 8) = (b, out)" by force
  note c = emit_groups_count [OF e]
  have "b < 5" "list_all (\<lambda>v. v < 256) vs" using c Cons.prems by auto
  then obtain acc' bits' out' where l: "convert_loop 8 5 ?acc b vs = Some (acc', bits', out')"
    "bits' = (b + 8 * length vs) mod 5" "length out' = (b + 8 * length vs) div 5"
    using Cons.IH by blast
  have "drop_bit 8 v = 0" using Cons.prems by (simp add: drop_bit_eq_div)
  moreover have "(b + 8 * length vs) mod 5 = (bits + 8 * Suc (length vs)) mod 5"
    "(bits + 8) div 5 + (b + 8 * length vs) div 5 = (bits + 8 * Suc (length vs)) div 5"
    using c div_split5 [of "bits + 8" "8 * length vs"] by (simp_all add: mod_simps add.assoc)
  ultimately show ?case using e l c by (simp add: Let_def)
qed

lemma convertBits_length: "length (convertBits (map unat (bs :: bytes)) 8 5 True) = (8 * length bs + 4) div 5"
proof -
  have "list_all (\<lambda>v. v < 256) (map unat bs)"
    using unsigned_less [where 'a = nat and 'b = 8] by (auto simp: list_all_iff)
  from convert_loop_count [OF _ this, of 0 0] obtain acc bits out
    where "convert_loop 8 5 0 0 (map unat bs) = Some (acc, bits, out)"
      "bits = (8 * length bs) mod 5" "length out = (8 * length bs) div 5" by auto
  then have "length (convertBits (map unat bs) 8 5 True)
      = 8 * length bs div 5 + (if 0 < (8 * length bs) mod 5 then 1 else 0)"
    by (simp add: convertBits_def del: mask_numeral)
  then show ?thesis unfolding ceil5 .
qed

subsection \<open>Properties\<close>

text \<open>Base58 is faithful: reading an encoded text back in the alphabet gives the big-endian value
  of the bytes, so byte strings of one length have distinct encodings.\<close>

theorem encodeBase58_injective:
  "int (b58_read (encodeBase58 bs)) = be_int bs
   \<and> (length bs = length cs \<longrightarrow> (encodeBase58 bs = encodeBase58 cs \<longleftrightarrow> bs = cs))"
  using read_encodeBase58 [of bs] read_encodeBase58 [of cs] be_int_inject [of bs cs] by auto

theorem encodeBase58_injective_witness:
  "int (b58_read (encodeBase58 [0, 1, 2])) = be_int [0, 1, 2] \<and> encodeBase58 [0, 1, 2] \<noteq> encodeBase58 [0, 2, 1]"
  using encodeBase58_injective [of "[0, 1, 2]" "[0, 2, 1]"] by simp

text \<open>Every Bech32 address carries a valid checksum: for any human-readable part and any data of
  five-bit groups, the polymod of the expanded prefix, the data and the appended checksum is 1.\<close>

theorem bech32_checksum_valid:
  assumes "list_all (\<lambda>p. p < 32) combined"
  shows "bech32Polymod (hrpExpand hrp @ combined @ bech32_checksum hrp combined) = 1
    \<and> list_all (\<lambda>p. p < 32) (bech32_checksum hrp combined)"
proof -
  let ?v = "hrpExpand hrp @ combined"
  let ?m = "bech32Polymod (?v @ [0, 0, 0, 0, 0, 0]) XOR 1"
  define a where "a = foldl polymod_step 1 ?v"
  have z: "replicate 6 0 = [0, 0, 0, 0, 0, 0 :: nat]" by (simp add: numeral_eq_Suc)
  have hrp: "list_all (\<lambda>p. p < 32) (hrpExpand hrp)"
  proof -
    have "(of_char c AND 31 :: nat) < 32" for c
    proof -
      have "(31 :: nat) = mask 5" by (simp add: mask_eq_exp_minus_1)
      then have "(of_char c AND 31 :: nat) = take_bit 5 (of_char c)" by (simp only: take_bit_eq_mask)
      then show ?thesis using take_bit_nat_less_exp [of 5 "of_char c"] by simp
    qed
    moreover have "drop_bit 5 (of_char c :: nat) < 32" for c
      using nat_of_char_less_256 [of c] unfolding drop_bit_eq_div
      by (simp add: div_less_iff_less_mult del: nat_of_char_less_256)
    ultimately show ?thesis by (auto simp: hrpExpand_def list_all_iff)
  qed
  have b1: "below 30 1" by (auto simp: below_def bit_1_iff)
  have "below 30 (bech32Polymod (?v @ replicate 6 0))"
    unfolding bech32Polymod_def using hrp assms b1 by (intro polymod_below) (auto simp: list_all_iff)
  then have m: "below 30 ?m" unfolding z using b1 by (intro below_xor) auto
  let ?cs = "bech32_checksum hrp combined"
  have cs: "?cs = map (\<lambda>p. unat (signed_drop_bit (5 * (5 - p)) ?m AND 31)) [0..<6]"
    by (simp add: bech32_checksum_def Let_def)
  have len: "length ?cs = 6" by (simp add: cs)
  have less: "list_all (\<lambda>p. p < 32) ?cs"
  proof -
    have "(31 :: 32 word) = mask 5" by (simp add: mask_eq_exp_minus_1)
    then show ?thesis using mask5_less by (simp add: cs list_all_iff del: mask_numeral)
  qed
  have "foldl polymod_step (a XOR 0) ?cs = foldl polymod_step a (replicate (length ?cs) 0) XOR pack5 0 ?cs"
    by (rule polymod_zeros [OF less, of 0]) (simp_all add: below_def cs)
  also have "pack5 0 ?cs = ?m" unfolding cs by (rule pack5_groups [OF m])
  also have "replicate (length ?cs) 0 = [0, 0, 0, 0, 0, 0 :: nat]" unfolding len z ..
  finally have "bech32Polymod (?v @ ?cs) = 1"
    by (simp add: bech32Polymod_def a_def)
  with less show ?thesis by simp
qed

theorem bech32_checksum_valid_witness:
  "bech32Polymod (hrpExpand ''bc'' @ [0, 14, 20] @ bech32_checksum ''bc'' [0, 14, 20]) = 1"
  using bech32_checksum_valid [of "[0, 14, 20]" "''bc''"] by simp

text \<open>The characters of the two encodings.\<close>

lemma charset_alnum: "p < 32 \<Longrightarrow> is_alnum (BECH32_CHARSET ! p)"
proof -
  have "list_all is_alnum BECH32_CHARSET" "length BECH32_CHARSET = 32" by code_simp+
  then show "p < 32 \<Longrightarrow> is_alnum (BECH32_CHARSET ! p)" by (simp add: list_all_length)
qed

lemma js_trim_alnum: "list_all is_alnum s \<Longrightarrow> js_trim s = s"
  by (intro js_trim_id) (auto simp: list_all_iff js_space_def is_alnum_def in_range_def is_digit_def)

lemma encodeBech32_shape:
  assumes "length prog = 20"
  shows "\<exists>t. encodeBech32 ''bc'' 0 prog = ''bc1'' @ t \<and> length t = 39 \<and> list_all is_alnum t"
proof -
  let ?d = "convertBits (map unat prog) 8 5 True"
  have l: "length ?d = 32" using convertBits_length [of prog] assms by simp
  let ?c = "0 # ?d" and ?cs = "bech32_checksum ''bc'' (0 # ?d)"
  have d: "list_all (\<lambda>p. p < 32) ?c" using convertBits_less by simp
  have cs: "list_all (\<lambda>p. p < 32) ?cs" "length ?cs = 6"
  proof -
    have "(31 :: 32 word) = mask 5" by (simp add: mask_eq_exp_minus_1)
    then show "list_all (\<lambda>p. p < 32) ?cs"
      using mask5_less by (simp add: bech32_checksum_def Let_def list_all_iff del: mask_numeral)
    show "length ?cs = 6" by (simp add: bech32_checksum_def Let_def)
  qed
  have "list_all is_alnum (map (\<lambda>p. BECH32_CHARSET ! p) (?c @ ?cs))"
    using d cs charset_alnum by (auto simp: list_all_iff)
  with l cs show ?thesis by (simp add: encodeBech32_def Let_def)
qed

text \<open>The mixed-case form of 40 hexadecimal digits lowers to the digits and passes the checksum.\<close>

lemma nibble_char_table:
  "list_all (\<lambda>d. is_hex (digit_char d) \<and> is_hex (upper_char (digit_char d))
      \<and> lower_char (upper_char (digit_char d)) = digit_char d
      \<and> \<not> in_range CHR ''A'' CHR ''F'' (digit_char d)
      \<and> \<not> in_range CHR ''a'' CHR ''f'' (upper_char (digit_char d))
      \<and> parseInt16 [digit_char d] = Some d) [0..15]"
  by code_simp

lemma nibble_char:
  assumes "0 \<le> d" and "d < 16"
  shows "is_hex (digit_char d)" and "is_hex (upper_char (digit_char d))"
    and "lower_char (upper_char (digit_char d)) = digit_char d"
    and "\<not> in_range CHR ''A'' CHR ''F'' (digit_char d)"
    and "\<not> in_range CHR ''a'' CHR ''f'' (upper_char (digit_char d))"
    and "parseInt16 [digit_char d] = Some d"
proof -
  have "d \<in> set [0..15]" using assms by simp
  with nibble_char_table have "is_hex (digit_char d) \<and> is_hex (upper_char (digit_char d))
      \<and> lower_char (upper_char (digit_char d)) = digit_char d
      \<and> \<not> in_range CHR ''A'' CHR ''F'' (digit_char d)
      \<and> \<not> in_range CHR ''a'' CHR ''f'' (upper_char (digit_char d))
      \<and> parseInt16 [digit_char d] = Some d"
    unfolding list_all_iff by (rule bspec)
  then show "is_hex (digit_char d)" and "is_hex (upper_char (digit_char d))"
    and "lower_char (upper_char (digit_char d)) = digit_char d"
    and "\<not> in_range CHR ''A'' CHR ''F'' (digit_char d)"
    and "\<not> in_range CHR ''a'' CHR ''f'' (upper_char (digit_char d))"
    and "parseInt16 [digit_char d] = Some d"
    by auto
qed

definition nibbles :: "string \<Rightarrow> bool" where
  "nibbles s \<longleftrightarrow> (\<forall>i < length s. \<exists>d. 0 \<le> d \<and> d < 16 \<and> s ! i = digit_char d)"

lemma nibbles_hex: "nibbles (concat (map byte_hex bs))"
  unfolding nibbles_def using hex_bytes_chars nth_mem by metis

lemma eip55_mix_props:
  assumes "nibbles raw" and "length raw = 40" and "nibbles hs" and "40 \<le> length hs"
  shows "length (eip55_mix raw hs) = 40" and "list_all is_hex (eip55_mix raw hs)"
    and "toLowerCase (eip55_mix raw hs) = raw"
    and "i < 40 \<Longrightarrow> eip55_char_ok (eip55_mix raw hs ! i) (hs ! i)"
proof -
  show l: "length (eip55_mix raw hs) = 40" by (simp add: eip55_mix_def)
  have at: "\<exists>d e. 0 \<le> d \<and> d < 16 \<and> 0 \<le> e \<and> e < 16 \<and> raw ! i = digit_char d \<and> hs ! i = digit_char e
      \<and> eip55_mix raw hs ! i = (if 8 \<le> e then upper_char (digit_char d) else digit_char d)"
    if i: "i < 40" for i
  proof -
    obtain d e where de: "0 \<le> d" "d < 16" "raw ! i = digit_char d" "0 \<le> e" "e < 16" "hs ! i = digit_char e"
      using assms(1,3) [unfolded nibbles_def, rule_format, of i] i assms(2,4) by auto
    moreover have "lower_char (digit_char d) = digit_char d" using de(1,2) by (rule digit_char_lower)
    ultimately show ?thesis
      using i nibble_char(6) [OF de(4,5)]
      by (intro exI [of _ d] exI [of _ e]) (simp add: eip55_mix_def)
  qed
  show "list_all is_hex (eip55_mix raw hs)"
    unfolding list_all_length l using at nibble_char(1,2) by metis
  show "toLowerCase (eip55_mix raw hs) = raw"
  proof (rule nth_equalityI)
    fix i assume "i < length (toLowerCase (eip55_mix raw hs))"
    then have i: "i < 40" by (simp add: toLowerCase_def l)
    from at [OF i] show "toLowerCase (eip55_mix raw hs) ! i = raw ! i"
      using i l nibble_char(3) digit_char_lower by (auto simp: toLowerCase_def)
  qed (simp add: toLowerCase_def l assms(2))
  show "eip55_char_ok (eip55_mix raw hs ! i) (hs ! i)" if i: "i < 40"
  proof -
    obtain d e where de: "0 \<le> d" "d < 16" "0 \<le> e" "e < 16" "hs ! i = digit_char e"
      "eip55_mix raw hs ! i = (if 8 \<le> e then upper_char (digit_char d) else digit_char d)"
      using at [OF i] by blast
    then show ?thesis
      using nibble_char(4,5) [OF de(1,2)] nibble_char(6) [OF de(3,4)] by (auto simp: eip55_char_ok_def)
  qed
qed

text \<open>C32: An EVM address the program derives is well formed and carries the checksum its own validation
  looks for, whatever the key, with a 32-byte keccak. \<open>validateAddress\<close> accepts it where \<open>require\<close> exists.
  In the ES module the package is, \<open>require\<close> does not exist, and the validation throws a
  \<open>ReferenceError\<close> on every derived address.\<close>

theorem derived_evm_address_valid:
  assumes "hex_laws h" and "\<And>x. length (h_keccak_256 h x) = 32"
    and "deriveEVMAddress h E key = Inr a"
  shows "validateAddress h Imported a = Inr True
    \<and> validateAddress h NotImported a = Inl (ReferenceError ''require is not defined'')
    \<and> isValidEthereumAddress a"
proof -
  from assms(3) obtain pub where a: "a = ''0x'' @ eip55_mix
      (h_bytesToHex h (take 20 (drop 12 (h_keccak_256 h pub))))
      (h_bytesToHex h (h_keccak_256 h (utf8 (h_bytesToHex h (take 20 (drop 12 (h_keccak_256 h pub)))))))"
    by (auto simp: deriveEVMAddress_def Let_def result_simps)
  define raw where "raw = h_bytesToHex h (take 20 (drop 12 (h_keccak_256 h pub)))"
  define hs where "hs = h_bytesToHex h (h_keccak_256 h (utf8 raw))"
  define m where "m = eip55_mix raw hs"
  have hx: "h_bytesToHex h b = concat (map byte_hex b)" for b using assms(1) by (simp add: hex_laws_def)
  have raw: "nibbles raw" "length raw = 40" "nibbles hs" "40 \<le> length hs"
    using assms(2) by (simp_all only: raw_def hs_def hx nibbles_hex length_hex_bytes) simp_all
  note mp = eip55_mix_props [OF raw, folded m_def]
  have a': "a = ''0x'' @ m" by (simp add: a raw_def hs_def m_def)
  have an: "is_hex c \<Longrightarrow> is_alnum c" for c
    by (auto simp: is_hex_def is_alnum_def in_range_def)
  have "list_all is_alnum a" using mp(2) an by (auto simp: a' list_all_iff is_alnum_def is_digit_def in_range_def)
  then have t: "js_trim a = a" by (rule js_trim_alnum)
  have f: "evm_format a" using mp(1,2) by (simp add: a' evm_format_def matches_def)
  have low: "strip0x (toLowerCase a) = raw"
    using mp(3) by (simp add: a' toLowerCase_def) (simp add: lower_char_def)
  have "validateEIP55Checksum h Imported a = Inr True"
    unfolding validateEIP55Checksum_def binding.case low Let_def hx [symmetric] hs_def [symmetric]
    using mp(4) by (simp add: list_all_iff a')
  moreover have "validateEIP55Checksum h NotImported a = Inl (ReferenceError ''require is not defined'')"
    by (simp add: validateEIP55Checksum_def)
  ultimately show ?thesis using f t mp(1) by (simp add: validateAddress_def Let_def a' isValidEthereumAddress_def)
qed

theorem derived_evm_address_valid_witness:
  "\<exists>a. deriveEVMAddress toy_hashes (toy_ec 11) (''0x'' @ h_bytesToHex toy_hashes (replicate 64 7)) = Inr a
    \<and> validateAddress toy_hashes Imported a = Inr True
    \<and> validateAddress toy_hashes NotImported a = Inl (ReferenceError ''require is not defined'')"
proof -
  have l: "length (h_keccak_256 toy_hashes x) = 32" for x by (simp add: toy_hashes_def toy_hash_def)
  obtain a where a: "deriveEVMAddress toy_hashes (toy_ec 11) (''0x'' @ h_bytesToHex toy_hashes (replicate 64 7)) = Inr a"
    using hex_lawsD(1,2) [OF toy_hex_laws]
    by (simp add: deriveEVMAddress_def strip0x_start_def Let_def)
  from derived_evm_address_valid [OF toy_hex_laws l a] a show ?thesis by blast
qed

text \<open>Every Bitcoin address the program derives passes its own validation: with a 20-byte
  RIPEMD-160, \<open>deriveBitcoinAddress\<close> returns \<open>bc1\<close> and 39 alphanumeric characters, which
  \<open>validateAddress\<close> accepts as Bech32.\<close>

theorem derived_bitcoin_address_valid:
  assumes "\<And>x. length (h_ripemd160 h x) = 20" and "deriveBitcoinAddress h E key = Inr a"
  shows "validateAddress h rq a = Inr True \<and> isValidBitcoinAddress a = (True, Some ''Bech32'')
    \<and> length a = 42"
proof -
  from assms(2) obtain c where "a = encodeBech32 ''bc'' 0 (h_ripemd160 h (h_sha256 h c))"
    by (auto simp: deriveBitcoinAddress_def Let_def result_simps)
  with encodeBech32_shape assms(1) obtain t where t: "a = ''bc1'' @ t" "length t = 39" "list_all is_alnum t"
    by metis
  have "list_all is_alnum a" using t by (simp add: is_alnum_def is_digit_def in_range_def)
  then have tr: "js_trim a = a" by (rule js_trim_alnum)
  have b: "bech32_format a" using t by (simp add: bech32_format_def matches_def startsWith_def)
  have "\<not> evm_format a" using t by (simp add: evm_format_def startsWith_def)
  with b tr t show ?thesis by (simp add: validateAddress_def isValidBitcoinAddress_def Let_def)
qed

theorem derived_bitcoin_address_valid_witness:
  "\<exists>a. deriveBitcoinAddress toy_hashes (toy_ec 11) ''0x07'' = Inr a \<and> validateAddress toy_hashes NotImported a = Inr True"
proof -
  have l: "length (h_ripemd160 toy_hashes x) = 20" for x by (simp add: toy_hashes_def toy_hash_def)
  obtain a where a: "deriveBitcoinAddress toy_hashes (toy_ec 11) ''0x07'' = Inr a"
    by (simp add: deriveBitcoinAddress_def strip0x_start_def toy_ec_def Let_def startsWith_def parse_radix_def digit_value_def)
  from derived_bitcoin_address_valid [OF l a] a show ?thesis by blast
qed

lemma child_tweak_range:
  assumes "1 < q"
  shows "0 \<le> child_tweak h q chainCode index \<and> child_tweak h q chainCode index < q"
proof -
  have "child_tweak h q chainCode index
      = be_int (take 32 (h_hmac_sha256 h chainCode (replicate 32 0 @ int_be 4 index))) mod q"
    unfolding child_tweak_def by (rule smod_nonneg) (use assms in auto)
  then show ?thesis using assms by simp
qed

text \<open>C31: Child derivation commutes with taking public keys: if the parent text parses to the point of
  the parent share and the tweak is not zero, \<open>deriveChildPublicKey\<close> is the encoding of the point
  of the child share \<open>deriveChildKeyShare\<close> computes.\<close>

theorem child_derivation_commutes:
  assumes "ec_laws E G" and "0 \<le> share" and "ec_fromHex E (strip0x_start parent) = Inr (G share)"
    and "\<And>a b. a mod ec_order E = b mod ec_order E \<Longrightarrow> G a = G b"
    and "child_tweak h (ec_order E) chainCode index \<noteq> 0"
  shows "deriveChildPublicKey h E parent chainCode index =
    rbind (ec_toRawBytes E (G (fst (deriveChildKeyShare h (ec_order E) share chainCode index))) False)
      (\<lambda>raw. Inr (''0x'' @ h_bytesToHex h raw))"
proof -
  let ?q = "ec_order E" and ?t = "child_tweak h (ec_order E) chainCode index"
  have q: "1 < ?q" using assms(1) by (simp add: ec_laws_def)
  have t: "0 < ?t" "?t < ?q"
    using child_tweak_range [OF q, of h chainCode index] assms(5) by auto
  have "(share + ?t) smod ?q = (share + ?t) mod ?q" using assms(2) t q by (simp add: smod_nonneg)
  then have "G ((share + ?t) smod ?q) = G (share + ?t)" by (intro assms(4)) simp
  then show ?thesis
    using assms(3) t by (simp add: deriveChildPublicKey_def deriveChildKeyShare_def Let_def
        ec_multiply_in [OF assms(1)] ec_laws_simps [OF assms(1)])
qed

theorem child_derivation_commutes_witness:
  "deriveChildPublicKey toy_hashes (toy_ec 11) ''0x05'' [] 1 = Inr (''0x'' @ h_bytesToHex toy_hashes (int_be 65 4))"
proof -
  have t: "child_tweak toy_hashes 11 [] 1 = 10" by code_simp
  have q: "ec_order (toy_ec 11) = 11" by (simp add: toy_ec_def)
  have p: "ec_fromHex (toy_ec 11) (strip0x_start ''0x05'') = Inr (5 mod 11)" by code_simp
  have "fst (deriveChildKeyShare toy_hashes 11 5 [] 1) = 4"
    by (simp add: deriveChildKeyShare_def t)
  then show ?thesis
    using child_derivation_commutes [OF toy_ec_laws _ p, of toy_hashes "[]" 1] t q
    by (simp add: toy_ec_def)
qed

end
