(* ===== verification/Policy.thy ===== *)
theory Policy
  imports Sanitize JsMap
begin

section \<open>The policy engine\<close>

text \<open>
  \<^verbatim>\<open>src/lib/policy/policy_engine.ts\<close>. The module state is the active policy and the velocity
  tracker (a \<open>Map\<close> from address to time stamps). USD amounts are rational numbers; the
  locale-dependent rendering of numbers in messages, the clock and the coin of the periodic
  clean-up are in the environment of a call, \<open>policy_env\<close>.
\<close>

datatype approval_role = ADMIN | TREASURY | COMPLIANCE | RISK_OFFICER

record PolicyRule =
  pr_id :: string
  pr_name :: string
  pr_enabled :: bool
  pr_maxDailySpendingUSD :: rat
  pr_currentDailySpendingUSD :: rat
  pr_whitelistedAddressesOnly :: bool
  pr_whitelistedAddresses :: "string list"
  pr_blacklistedAddresses :: "string list"
  pr_requiredApprovalsCount :: int
  pr_approvalRoles :: "approval_role list"
  pr_timeLockMinutes :: int
  pr_blockMaliciousContracts :: bool
  pr_velocityLimitPerHour :: int
  pr_maxTransactionAmountUSD :: rat
  pr_requireGeoIPCheck :: bool
  pr_allowedCountries :: "string list"

datatype threat_category =
    WALLET_DRAINER | UNLIMITED_APPROVAL | UNVERIFIED_CONTRACT | PHISHING_ROUTER
  | SAFE_TRANSFER | SANCTIONED_ADDRESS | REENTRANCY_DETECTED

datatype threat_severity = LOW | MEDIUM | HIGH | CRITICAL

record TransactionSimulationResult =
  ts_simulationId :: string
  ts_targetAddress :: string
  ts_chainId :: string
  ts_isMalicious :: bool
  ts_threatCategory :: threat_category
  ts_threatSeverity :: threat_severity
  ts_predictedBalanceChanges :: "(string \<times> string \<times> string) list"
  ts_callTrace :: "string list"
  ts_simulationDetails :: string
  ts_gasEstimate :: int

record PolicyEvaluationResult =
  ev_allowed :: bool
  ev_requiresTimelock :: bool
  ev_timelockExpiry :: "int option"
  ev_pendingApprovals :: "approval_role list"
  ev_rejectionReasons :: "string list"
  ev_riskScore :: int
  ev_complianceFlags :: "string list"

record policy_state =
  ps_policy :: PolicyRule
  ps_velocity :: "(string, int list) js_map"

record policy_env =
  pe_now :: int
  pe_coin :: bool
  pe_cleanup_now :: int
  pe_toLocaleString :: "rat \<Rightarrow> string"
  pe_toString :: "rat \<Rightarrow> string"

subsection \<open>Operations\<close>

definition default_policy :: PolicyRule where
  "default_policy = \<lparr>pr_id = ''default-policy-001'', pr_name = ''Enterprise Default Policy'',
     pr_enabled = True, pr_maxDailySpendingUSD = 2000000, pr_currentDailySpendingUSD = 0,
     pr_whitelistedAddressesOnly = False,
     pr_whitelistedAddresses = [''0x71C7656EC7ab88b098defB751B7401B5f6d8976F'',
       ''bc1q9a8b7c6d5e4f3a2b1c0d9e8f7a6b5c4d3e2f''],
     pr_blacklistedAddresses = [''0x99999999999999999999999999999999DRAIN0000''],
     pr_requiredApprovalsCount = 2, pr_approvalRoles = [ADMIN, TREASURY], pr_timeLockMinutes = 30,
     pr_blockMaliciousContracts = True, pr_velocityLimitPerHour = 10,
     pr_maxTransactionAmountUSD = 500000, pr_requireGeoIPCheck = False,
     pr_allowedCountries = [''US'', ''GB'', ''DE'', ''SG'', ''AE'']\<rparr>"

definition policy_init :: policy_state where
  "policy_init = \<lparr>ps_policy = default_policy, ps_velocity = []\<rparr>"

text \<open>\<open>{ ...activePolicy, ...updates }\<close>: the overlay is the function that overwrites the fields
  present in \<open>updates\<close>.\<close>

definition updatePolicy :: "(PolicyRule \<Rightarrow> PolicyRule) \<Rightarrow> policy_state \<Rightarrow> PolicyRule \<times> policy_state" where
  "updatePolicy updates st =
     (let p = updates (ps_policy st) in (p, st\<lparr>ps_policy := p\<rparr>))"

definition address_listed :: "string list \<Rightarrow> string \<Rightarrow> bool" where
  "address_listed addrs a \<longleftrightarrow> list_ex (\<lambda>addr. toLowerCase addr = toLowerCase a) addrs"

definition ev_push :: "string \<Rightarrow> PolicyEvaluationResult \<Rightarrow> PolicyEvaluationResult" where
  "ev_push reason r = r\<lparr>ev_rejectionReasons := ev_rejectionReasons r @ [reason]\<rparr>"

definition ev_reject :: "string \<Rightarrow> int \<Rightarrow> PolicyEvaluationResult \<Rightarrow> PolicyEvaluationResult" where
  "ev_reject reason score r =
     (ev_push reason r)\<lparr>ev_riskScore := ev_riskScore r + score, ev_allowed := False\<rparr>"

definition ev_initial :: PolicyEvaluationResult where
  "ev_initial = \<lparr>ev_allowed = True, ev_requiresTimelock = False, ev_timelockExpiry = None,
     ev_pendingApprovals = [], ev_rejectionReasons = [], ev_riskScore = 0, ev_complianceFlags = []\<rparr>"

fun category_text :: "threat_category \<Rightarrow> string" where
  "category_text WALLET_DRAINER = ''WALLET_DRAINER''"
| "category_text UNLIMITED_APPROVAL = ''UNLIMITED_APPROVAL''"
| "category_text UNVERIFIED_CONTRACT = ''UNVERIFIED_CONTRACT''"
| "category_text PHISHING_ROUTER = ''PHISHING_ROUTER''"
| "category_text SAFE_TRANSFER = ''SAFE_TRANSFER''"
| "category_text SANCTIONED_ADDRESS = ''SANCTIONED_ADDRESS''"
| "category_text REENTRANCY_DETECTED = ''REENTRANCY_DETECTED''"

text \<open>The loop over a \<open>Map\<close> that deletes or overwrites the entry it visits.\<close>

definition cleanup_entry ::
  "int \<Rightarrow> string \<times> int list \<Rightarrow> (string, int list) js_map \<Rightarrow> (string, int list) js_map" where
  "cleanup_entry now kv m = (case kv of (addr, ts) \<Rightarrow>
     let filtered = filter (\<lambda>t. t > now - 3600 * 1000) ts in
     if filtered = [] then jm_delete m addr else jm_set m addr filtered)"

definition cleanupVelocityTracker :: "int \<Rightarrow> policy_state \<Rightarrow> policy_state" where
  "cleanupVelocityTracker now st =
     st\<lparr>ps_velocity := fold (cleanup_entry now) (ps_velocity st) (ps_velocity st)\<rparr>"

definition recent_txs :: "int \<Rightarrow> string \<Rightarrow> policy_state \<Rightarrow> int list" where
  "recent_txs now toAddress st =
     filter (\<lambda>t. t > now - 3600 * 1000)
       (case jm_get (ps_velocity st) toAddress of None \<Rightarrow> [] | Some ts \<Rightarrow> ts)"

text \<open>Sections 1 and 3 to 8 of \<open>evaluatePolicy\<close>, each a function of the result so far.\<close>

definition ev_limits ::
  "policy_env \<Rightarrow> PolicyRule \<Rightarrow> string \<Rightarrow> rat \<Rightarrow> PolicyEvaluationResult \<Rightarrow> PolicyEvaluationResult" where
  "ev_limits env p toAddress amountUSD r1 =
     (let r3 = (if pr_whitelistedAddressesOnly p \<and> \<not> address_listed (pr_whitelistedAddresses p) toAddress
                then ev_reject ''Destination address not in whitelist'' 40 r1 else r1);
          r4 = (if amountUSD > pr_maxTransactionAmountUSD p
                then (ev_push (''Transaction amount $'' @ pe_toLocaleString env amountUSD @ '' exceeds max $''
                        @ pe_toLocaleString env (pr_maxTransactionAmountUSD p)) r3)
                     \<lparr>ev_riskScore := ev_riskScore r3 + 30, ev_requiresTimelock := True,
                      ev_pendingApprovals := ev_pendingApprovals r3 @ [ADMIN]\<rparr>
                else r3)
      in (if pr_currentDailySpendingUSD p + amountUSD > pr_maxDailySpendingUSD p
          then ev_reject (''Daily spending limit exceeded: $''
                 @ pe_toLocaleString env (pr_currentDailySpendingUSD p) @ '' / $''
                 @ pe_toLocaleString env (pr_maxDailySpendingUSD p)) 30 r4
          else r4))"

definition ev_guards ::
  "PolicyRule \<Rightarrow> int list \<Rightarrow> TransactionSimulationResult option \<Rightarrow> rat
   \<Rightarrow> PolicyEvaluationResult \<Rightarrow> PolicyEvaluationResult" where
  "ev_guards p recentTxs sim amountUSD r5 =
     (let r6 = (if int (length recentTxs) \<ge> pr_velocityLimitPerHour p
                then ev_reject (''Velocity limit exceeded: '' @ dec (int (length recentTxs))
                       @ '' transactions in the last hour'') 25 r5 else r5);
          r7 = (case sim of
                  None \<Rightarrow> r6
                | Some s \<Rightarrow> if ts_isMalicious s \<and> pr_blockMaliciousContracts p
                    then (ev_push (''Malicious contract detected: '' @ category_text (ts_threatCategory s)) r6)
                         \<lparr>ev_riskScore := 100, ev_allowed := False\<rparr>
                    else r6);
          r8 = (if amountUSD > 100000
                then r7\<lparr>ev_pendingApprovals := ev_pendingApprovals r7 @ [TREASURY], ev_requiresTimelock := True\<rparr>
                else r7)
      in (if amountUSD > 500000
          then r8\<lparr>ev_pendingApprovals := ev_pendingApprovals r8 @ [COMPLIANCE], ev_requiresTimelock := True\<rparr>
          else r8))"

definition ev_finalize :: "int \<Rightarrow> PolicyRule \<Rightarrow> PolicyEvaluationResult \<Rightarrow> PolicyEvaluationResult" where
  "ev_finalize now p r =
     (let r1 = (if ev_pendingApprovals r \<noteq> []
                then r\<lparr>ev_requiresTimelock := True,
                       ev_timelockExpiry := Some (now + pr_timeLockMinutes p * 60 * 1000)\<rparr>
                else r)
      in (if ev_rejectionReasons r1 \<noteq> [] then r1\<lparr>ev_allowed := False\<rparr> else r1))"

definition evaluatePolicy ::
  "hashes \<Rightarrow> binding \<Rightarrow> policy_env \<Rightarrow> string \<Rightarrow> string \<Rightarrow> rat \<Rightarrow> TransactionSimulationResult option
   \<Rightarrow> policy_state \<Rightarrow> PolicyEvaluationResult result \<times> policy_state" where
  "evaluatePolicy h rq env chainId toAddress amountUSD sim st =
     (let p = ps_policy st in
      if \<not> pr_enabled p
      then (Inr ((ev_push ''Policy engine is currently disabled'' ev_initial)\<lparr>ev_allowed := False\<rparr>), st)
      else case validateAddress h rq toAddress of
        Inl e \<Rightarrow> (Inl e, st)
      | Inr valid \<Rightarrow>
          (let r1 = (if valid then ev_initial
                     else ev_reject ''Invalid destination address format'' 50 ev_initial) in
           if address_listed (pr_blacklistedAddresses p) toAddress
           then (Inr ((ev_push ''Destination address is blacklisted'' r1)
                        \<lparr>ev_riskScore := 100, ev_allowed := False\<rparr>), st)
           else
             (let r5 = ev_limits env p toAddress amountUSD r1;
                  now = pe_now env;
                  recentTxs = recent_txs now toAddress st;
                  r8 = ev_guards p recentTxs sim amountUSD r5;
                  st1 = st\<lparr>ps_velocity := jm_set (ps_velocity st) toAddress (recentTxs @ [now])\<rparr>;
                  st2 = (if pe_coin env then cleanupVelocityTracker (pe_cleanup_now env) st1 else st1)
              in (Inr (ev_finalize now p r8), st2))))"

text \<open>The patterns of the simulator are alternatives of plain words.\<close>

definition malicious_patterns :: "(string list \<times> threat_category \<times> threat_severity) list" where
  "malicious_patterns =
     [([''drain'', ''phish'', ''hack'', ''exploit''], WALLET_DRAINER, CRITICAL),
      ([''unlimited'', ''approveall''], UNLIMITED_APPROVAL, HIGH),
      ([''proxy'', ''unverified''], UNVERIFIED_CONTRACT, MEDIUM)]"

definition symbolForChain :: "string \<Rightarrow> string" where
  "symbolForChain chainId =
     (if chainId = ''ethereum'' then ''ETH'' else if chainId = ''polygon'' then ''POL''
      else if chainId = ''bitcoin'' then ''BTC'' else if chainId = ''solana'' then ''SOL''
      else if chainId = ''polkadot'' then ''DOT'' else if chainId = ''avalanche'' then ''AVAX''
      else ''UNKNOWN'')"

definition classify_address :: "PolicyRule \<Rightarrow> string \<Rightarrow> bool \<times> threat_category \<times> threat_severity" where
  "classify_address p cleanAddr =
     (let byPattern = (case find (\<lambda>(words, _). list_ex (\<lambda>w. js_includes cleanAddr w) words) malicious_patterns of
          None \<Rightarrow> (False, SAFE_TRANSFER, LOW)
        | Some (_, category, severity) \<Rightarrow> (True, category, severity))
      in if list_ex (\<lambda>addr. toLowerCase addr = cleanAddr) (pr_blacklistedAddresses p)
         then (True, WALLET_DRAINER, CRITICAL) else byPattern)"

definition simulateTransaction ::
  "policy_env \<Rightarrow> string \<Rightarrow> string \<Rightarrow> rat \<Rightarrow> policy_state \<Rightarrow> TransactionSimulationResult" where
  "simulateTransaction env chainId targetAddress amountUSD st =
     (let cleanAddr = js_trim (toLowerCase targetAddress) in
      case classify_address (ps_policy st) cleanAddr of (isMalicious, threatCategory, threatSeverity) \<Rightarrow>
      \<lparr>ts_simulationId = ''sim_'' @ toString_radix 36 (pe_now env), ts_targetAddress = targetAddress,
       ts_chainId = chainId, ts_isMalicious = isMalicious, ts_threatCategory = threatCategory,
       ts_threatSeverity = threatSeverity,
       ts_predictedBalanceChanges = [(symbolForChain chainId, pe_toString env amountUSD, ''OUT'')],
       ts_callTrace = (if isMalicious
         then [''CALL targetAddress'', ''DELEGATECALL maliciousImplementation'',
               ''SSTORE balanceOf[msg.sender] = 0 [MUTATION - RISK]'',
               ''TRANSFER ALL_ASSETS to attackerAddress'']
         else [''CALL targetAddress'', ''STATICCALL balanceOf[msg.sender]'',
               ''SSTORE nonce[msg.sender] += 1'', ''TRANSFER amount to targetAddress [SAFE]'']),
       ts_simulationDetails = (if isMalicious
         then ''SIMULATION ALERT: Contract at '' @ targetAddress @ '' exhibits ''
              @ category_text threatCategory @ '' behavior. All assets at risk.''
         else ''SIMULATION PASSED: Transaction to '' @ targetAddress @ '' is safe. Estimated gas: 21000.''),
       ts_gasEstimate = (if isMalicious then 500000 else 21000)\<rparr>)"

definition recordSpending :: "rat \<Rightarrow> policy_state \<Rightarrow> policy_state" where
  "recordSpending amountUSD st = st\<lparr>ps_policy :=
     (ps_policy st)\<lparr>pr_currentDailySpendingUSD := pr_currentDailySpendingUSD (ps_policy st) + amountUSD\<rparr>\<rparr>"

definition resetDailySpending :: "policy_state \<Rightarrow> policy_state" where
  "resetDailySpending st = st\<lparr>ps_policy := (ps_policy st)\<lparr>pr_currentDailySpendingUSD := 0\<rparr>\<rparr>"

subsection \<open>What a decision depends on\<close>

named_theorems policy_simps \<open>the result builders of \<open>evaluatePolicy\<close>\<close>

lemmas [policy_simps] = ev_push_def ev_reject_def ev_initial_def ev_limits_def ev_guards_def
  ev_finalize_def Let_def

text \<open>The conditions a transaction meets when it is allowed.\<close>

definition tx_acceptable ::
  "PolicyRule \<Rightarrow> string \<Rightarrow> rat \<Rightarrow> TransactionSimulationResult option \<Rightarrow> nat \<Rightarrow> bool" where
  "tx_acceptable p toAddress amountUSD sim recent \<longleftrightarrow>
     (pr_whitelistedAddressesOnly p \<longrightarrow> address_listed (pr_whitelistedAddresses p) toAddress)
     \<and> amountUSD \<le> pr_maxTransactionAmountUSD p
     \<and> pr_currentDailySpendingUSD p + amountUSD \<le> pr_maxDailySpendingUSD p
     \<and> int recent < pr_velocityLimitPerHour p
     \<and> (\<forall>s. sim = Some s \<longrightarrow> ts_isMalicious s \<longrightarrow> \<not> pr_blockMaliciousContracts p)"

lemma ev_limits_reasons:
  "ev_rejectionReasons (ev_limits env p a amt r) = [] \<longleftrightarrow> ev_rejectionReasons r = []
     \<and> (pr_whitelistedAddressesOnly p \<longrightarrow> address_listed (pr_whitelistedAddresses p) a)
     \<and> amt \<le> pr_maxTransactionAmountUSD p
     \<and> pr_currentDailySpendingUSD p + amt \<le> pr_maxDailySpendingUSD p"
  by (simp add: policy_simps not_less)

lemma ev_limits_allowed:
  "ev_allowed (ev_limits env p a amt r) \<Longrightarrow> ev_allowed r"
  "ev_rejectionReasons (ev_limits env p a amt r) = [] \<Longrightarrow> ev_allowed (ev_limits env p a amt r) = ev_allowed r"
  by (auto simp: policy_simps split: if_splits)

lemma ev_guards_reasons:
  "ev_rejectionReasons (ev_guards p ts sim amt r) = [] \<longleftrightarrow> ev_rejectionReasons r = []
     \<and> int (length ts) < pr_velocityLimitPerHour p
     \<and> (\<forall>s. sim = Some s \<longrightarrow> ts_isMalicious s \<longrightarrow> \<not> pr_blockMaliciousContracts p)"
  by (auto simp: policy_simps split: option.splits)

lemma ev_guards_allowed:
  "ev_rejectionReasons (ev_guards p ts sim amt r) = [] \<Longrightarrow> ev_allowed (ev_guards p ts sim amt r) = ev_allowed r"
  by (auto simp: policy_simps split: option.splits if_splits)

lemma ev_guards_pending:
  "x \<in> set (ev_pendingApprovals r) \<Longrightarrow> x \<in> set (ev_pendingApprovals (ev_guards p ts sim amt r))"
  by (auto simp: policy_simps split: option.splits)

lemma ev_finalize_allowed:
  "ev_allowed (ev_finalize now p r) \<longleftrightarrow> ev_allowed r \<and> ev_rejectionReasons r = []"
  "ev_rejectionReasons (ev_finalize now p r) = ev_rejectionReasons r"
  by (auto simp: policy_simps)

lemma evaluate_tracked:
  assumes "pr_enabled (ps_policy st)" and "validateAddress h rq a = Inr valid"
    and "\<not> address_listed (pr_blacklistedAddresses (ps_policy st)) a"
    and "evaluatePolicy h rq env c a amt sim st = (Inr r, st')"
  shows "ev_allowed r \<longleftrightarrow> valid \<and> tx_acceptable (ps_policy st) a amt sim (length (recent_txs (pe_now env) a st))"
    and "ev_rejectionReasons r = [] \<longleftrightarrow> ev_allowed r"
proof -
  let ?p = "ps_policy st" and ?ts = "recent_txs (pe_now env) a st"
  let ?r1 = "if valid then ev_initial else ev_reject ''Invalid destination address format'' 50 ev_initial"
  let ?r5 = "ev_limits env ?p a amt ?r1"
  let ?r8 = "ev_guards ?p ?ts sim amt ?r5"
  have r: "r = ev_finalize (pe_now env) ?p ?r8"
    using assms by (simp add: evaluatePolicy_def Let_def)
  have r1: "ev_rejectionReasons ?r1 = [] \<longleftrightarrow> valid" "ev_allowed ?r1 \<longleftrightarrow> valid"
    by (simp_all add: ev_initial_def ev_reject_def ev_push_def)
  have reasons: "ev_rejectionReasons ?r8 = [] \<longleftrightarrow> valid \<and> tx_acceptable ?p a amt sim (length ?ts)"
    unfolding ev_guards_reasons ev_limits_reasons r1 tx_acceptable_def by auto
  have "ev_rejectionReasons ?r8 = [] \<Longrightarrow> ev_allowed ?r8"
    using ev_guards_allowed [of ?p ?ts sim amt ?r5] ev_limits_allowed(2) [of env ?p a amt ?r1]
      ev_guards_reasons [of ?p ?ts sim amt ?r5] ev_limits_reasons [of env ?p a amt ?r1] r1 by simp
  with reasons show "ev_allowed r \<longleftrightarrow> valid \<and> tx_acceptable ?p a amt sim (length ?ts)"
    and "ev_rejectionReasons r = [] \<longleftrightarrow> ev_allowed r"
    unfolding r ev_finalize_allowed by auto
qed

lemma evaluate_policy_unchanged:
  "evaluatePolicy h rq env c a amt sim st = (r, st') \<Longrightarrow> ps_policy st' = ps_policy st"
  by (auto simp: evaluatePolicy_def cleanupVelocityTracker_def Let_def split: if_splits sum.splits)

subsection \<open>The velocity tracker\<close>

text \<open>The clean-up removes only time stamps that no later window can contain.\<close>

definition stamps :: "policy_state \<Rightarrow> string \<Rightarrow> int list" where
  "stamps st a = (case jm_get (ps_velocity st) a of None \<Rightarrow> [] | Some ts \<Rightarrow> ts)"

definition window :: "int \<Rightarrow> int list \<Rightarrow> int list" where
  "window T ts = filter (\<lambda>t. t > T - 3600 * 1000) ts"

lemma recent_window: "recent_txs now a st = window now (stamps st a)"
  by (simp add: recent_txs_def window_def stamps_def)

lemma window_append [simp]: "window T (xs @ ys) = window T xs @ window T ys"
  by (simp add: window_def)

lemma window_window: "T \<le> T' \<Longrightarrow> window T' (window T xs) = window T' xs"
  unfolding window_def filter_filter by (rule filter_cong) auto

lemma get_cleanup_entry:
  "jm_get (cleanup_entry now (k, ts) m) a =
     (if a = k then if window now ts = [] then None else Some (window now ts) else jm_get m a)"
  by (simp add: cleanup_entry_def window_def Let_def)

lemma inv_cleanup_entry: "jm_inv m \<Longrightarrow> jm_inv (cleanup_entry now kv m)"
  by (auto simp: cleanup_entry_def Let_def js_map.inv_put js_map.inv_del split: prod.splits)

lemma cleanup_fold:
  assumes "jm_inv kvs"
  shows "jm_get (fold (cleanup_entry now) kvs m) a
    = (case jm_get kvs a of
         None \<Rightarrow> jm_get m a
       | Some ts \<Rightarrow> if window now ts = [] then None else Some (window now ts))"
  using assms
proof (induction kvs arbitrary: m)
  case Nil
  then show ?case by simp
next
  case (Cons kv kvs)
  obtain k ts where kv: "kv = (k, ts)" by force
  have inv: "jm_inv kvs" and k: "jm_get kvs k = None"
    using Cons.prems kv by (auto simp: jm_inv_def jm_get_def map_of_eq_None_iff)
  have c: "jm_get (kv # kvs) a = (if a = k then Some ts else jm_get kvs a)"
    by (simp add: kv jm_get_def)
  show ?case
    unfolding c using k
    by (cases "jm_get kvs a") (auto simp: kv Cons.IH [OF inv] get_cleanup_entry)
qed

lemma stamps_cleanup:
  "jm_inv (ps_velocity st) \<Longrightarrow> stamps (cleanupVelocityTracker now st) a = window now (stamps st a)"
  by (simp add: stamps_def cleanupVelocityTracker_def cleanup_fold window_def split: option.splits)

lemma inv_cleanup_fold: "jm_inv m \<Longrightarrow> jm_inv (fold (cleanup_entry now) kvs m)"
  by (induction kvs arbitrary: m) (auto simp: inv_cleanup_entry)

lemma inv_cleanup: "jm_inv (ps_velocity st) \<Longrightarrow> jm_inv (ps_velocity (cleanupVelocityTracker now st))"
  by (simp add: cleanupVelocityTracker_def inv_cleanup_fold)

text \<open>A sequence of evaluations.\<close>

record policy_call =
  pc_env :: policy_env
  pc_chain :: string
  pc_to :: string
  pc_amount :: rat
  pc_sim :: "TransactionSimulationResult option"

definition evaluate_call ::
  "hashes \<Rightarrow> binding \<Rightarrow> policy_call \<Rightarrow> policy_state \<Rightarrow> PolicyEvaluationResult result \<times> policy_state" where
  "evaluate_call h rq c st = evaluatePolicy h rq (pc_env c) (pc_chain c) (pc_to c) (pc_amount c) (pc_sim c) st"

fun run_calls ::
  "hashes \<Rightarrow> binding \<Rightarrow> policy_call list \<Rightarrow> policy_state \<Rightarrow> PolicyEvaluationResult result list \<times> policy_state"
where
  "run_calls h rq [] st = ([], st)"
| "run_calls h rq (c # cs) st =
     (case evaluate_call h rq c st of (r, st1) \<Rightarrow>
      case run_calls h rq cs st1 of (rs, st2) \<Rightarrow> (r # rs, st2))"

text \<open>The calls that reach the tracker, and the clock's monotony along a sequence.\<close>

definition tracked :: "hashes \<Rightarrow> binding \<Rightarrow> PolicyRule \<Rightarrow> policy_call \<Rightarrow> bool" where
  "tracked h rq p c \<longleftrightarrow> pr_enabled p \<and> (\<exists>v. validateAddress h rq (pc_to c) = Inr v)
     \<and> \<not> address_listed (pr_blacklistedAddresses p) (pc_to c)"

fun clock_ok :: "int \<Rightarrow> policy_call list \<Rightarrow> bool" where
  "clock_ok T [] \<longleftrightarrow> True"
| "clock_ok T (c # cs) \<longleftrightarrow> T \<le> pe_now (pc_env c) \<and> pe_now (pc_env c) \<le> pe_cleanup_now (pc_env c)
     \<and> clock_ok (pe_cleanup_now (pc_env c)) cs"

definition call_times :: "hashes \<Rightarrow> binding \<Rightarrow> PolicyRule \<Rightarrow> string \<Rightarrow> policy_call list \<Rightarrow> int list" where
  "call_times h rq p a cs =
     map (\<lambda>c. pe_now (pc_env c)) (filter (\<lambda>c. tracked h rq p c \<and> pc_to c = a) cs)"

text \<open>What the tracker knows of the past: at any later time, the window over its stamps is the
  window over all tracked calls.\<close>

definition tracker_ok :: "int \<Rightarrow> (string \<Rightarrow> int list) \<Rightarrow> policy_state \<Rightarrow> bool" where
  "tracker_ok T history st \<longleftrightarrow> jm_inv (ps_velocity st)
     \<and> (\<forall>a T'. T \<le> T' \<longrightarrow> window T' (stamps st a) = window T' (history a))"

lemma tracker_step:
  assumes "tracker_ok T hist st" and "T \<le> pe_now (pc_env c)" and "pe_now (pc_env c) \<le> pe_cleanup_now (pc_env c)"
    and "evaluate_call h rq c st = (r, st')"
  shows "tracker_ok (pe_cleanup_now (pc_env c))
      (\<lambda>a. hist a @ call_times h rq (ps_policy st) a [c]) st'"
proof (cases "tracked h rq (ps_policy st) c")
  case False
  then have "st' = st"
    using assms(4) by (auto simp: evaluate_call_def evaluatePolicy_def tracked_def Let_def split: if_splits sum.splits)
  moreover have "call_times h rq (ps_policy st) a [c] = []" for a using False by (simp add: call_times_def)
  ultimately show ?thesis using assms(1-3) by (auto simp: tracker_ok_def)
next
  case True
  let ?now = "pe_now (pc_env c)" and ?a = "pc_to c" and ?cl = "pe_cleanup_now (pc_env c)"
  define st1 where "st1 = st\<lparr>ps_velocity := jm_set (ps_velocity st) ?a (recent_txs ?now ?a st @ [?now])\<rparr>"
  have st': "st' = (if pe_coin (pc_env c) then cleanupVelocityTracker ?cl st1 else st1)"
    using assms(4) True
    by (auto simp: evaluate_call_def evaluatePolicy_def tracked_def Let_def st1_def split: if_splits sum.splits)
  have inv: "jm_inv (ps_velocity st1)" using assms(1) by (simp add: st1_def tracker_ok_def js_map.inv_put)
  have hist: "window T' (stamps st a) = window T' (hist a)" if "T \<le> T'" for a T'
    using assms(1) that by (simp add: tracker_ok_def)
  have s1: "window T' (stamps st1 a) = window T' (hist a @ call_times h rq (ps_policy st) a [c])"
    if T': "?now \<le> T'" for a T'
  proof (cases "a = ?a")
    case True
    have "stamps st1 a = window ?now (stamps st ?a) @ [?now]"
      using True by (simp add: st1_def stamps_def recent_window)
    then show ?thesis
      using True \<open>tracked h rq (ps_policy st) c\<close> T' assms(2) hist [of T' ?a]
      by (simp add: call_times_def window_window)
  next
    case False
    then show ?thesis using hist [of T' a] T' assms(2) by (simp add: st1_def stamps_def call_times_def)
  qed
  show ?thesis
    using inv s1 assms(3) by (auto simp: tracker_ok_def st' inv_cleanup stamps_cleanup window_window)
qed

lemma run_calls_length: "run_calls h rq cs st = (rs, st') \<Longrightarrow> length rs = length cs"
  by (induction cs arbitrary: st rs) (auto split: prod.splits)

lemma call_times_append: "call_times h rq p a (xs @ ys) = call_times h rq p a xs @ call_times h rq p a ys"
  by (simp add: call_times_def)

lemma run_velocity:
  assumes "p = ps_policy st" and "tracker_ok T hist st" and "clock_ok T cs"
    and "run_calls h rq cs st = (rs, st')" and "i < length cs" and "rs ! i = Inr r" and "ev_allowed r"
  shows "tracked h rq p (cs ! i) \<and> int (length (window (pe_now (pc_env (cs ! i)))
      (hist (pc_to (cs ! i)) @ call_times h rq p (pc_to (cs ! i)) (take i cs)))) < pr_velocityLimitPerHour p"
  using assms
proof (induction cs arbitrary: T hist st rs i)
  case Nil
  then show ?case by simp
next
  case (Cons c cs)
  obtain r0 st1 where e: "evaluate_call h rq c st = (r0, st1)" by force
  obtain rs1 where rs: "run_calls h rq cs st1 = (rs1, st')" "rs = r0 # rs1"
    using Cons.prems(4) e by (auto split: prod.splits)
  have clock: "T \<le> pe_now (pc_env c)" "pe_now (pc_env c) \<le> pe_cleanup_now (pc_env c)"
    "clock_ok (pe_cleanup_now (pc_env c)) cs" using Cons.prems(3) by auto
  have p1: "p = ps_policy st1"
    using Cons.prems(1) e evaluate_policy_unchanged by (auto simp: evaluate_call_def)
  show ?case
  proof (cases i)
    case 0
    then have r0: "evaluate_call h rq c st = (Inr r, st1)" using e rs Cons.prems(6) by simp
    have tr: "tracked h rq p c"
    proof (rule ccontr)
      assume "\<not> tracked h rq p c"
      then have "\<not> ev_allowed r"
        using r0 Cons.prems(1) by (auto simp: evaluate_call_def evaluatePolicy_def tracked_def Let_def
            split: if_splits sum.splits)
      with Cons.prems(7) show False by simp
    qed
    then obtain v where v: "validateAddress h rq (pc_to c) = Inr v" by (auto simp: tracked_def)
    have "tx_acceptable p (pc_to c) (pc_amount c) (pc_sim c) (length (recent_txs (pe_now (pc_env c)) (pc_to c) st))"
      using evaluate_tracked(1) [OF _ v _ r0 [unfolded evaluate_call_def]] tr Cons.prems(1,7)
      by (simp add: tracked_def)
    then show ?thesis
      using tr 0 Cons.prems(2) clock(1)
      by (simp add: tx_acceptable_def recent_window tracker_ok_def call_times_def)
  next
    case (Suc j)
    have ok1: "tracker_ok (pe_cleanup_now (pc_env c)) (\<lambda>a. hist a @ call_times h rq p a [c]) st1"
      using tracker_step [OF Cons.prems(2) clock(1,2) e] Cons.prems(1) by simp
    have "j < length cs" "rs1 ! j = Inr r" using Suc Cons.prems(5,6) rs(2) by auto
    from Cons.IH [OF p1 ok1 clock(3) rs(1) this Cons.prems(7)] show ?thesis
      using Suc call_times_append [of h rq p "pc_to (cs ! j)" "[c]" "take j cs"] by simp
  qed
qed

subsection \<open>Properties\<close>

text \<open>C4: The decision. A transaction is allowed exactly when the engine is enabled, the address is
  valid, is not blacklisted and satisfies the whitelist, the amount is within the transaction
  and the daily limit, fewer than the velocity limit of evaluations for the address lie in the
  past hour, and a malicious simulation does not block it; the reasons are empty exactly then,
  and the policy itself is not changed.\<close>

theorem policy_allowed_iff:
  assumes "evaluatePolicy h rq env c a amt sim st = (Inr r, st')"
  shows "(ev_allowed r \<longleftrightarrow> pr_enabled (ps_policy st) \<and> validateAddress h rq a = Inr True
      \<and> \<not> address_listed (pr_blacklistedAddresses (ps_policy st)) a
      \<and> tx_acceptable (ps_policy st) a amt sim (length (recent_txs (pe_now env) a st)))
    \<and> (ev_rejectionReasons r = [] \<longleftrightarrow> ev_allowed r) \<and> ps_policy st' = ps_policy st"
proof (cases "pr_enabled (ps_policy st) \<and> \<not> address_listed (pr_blacklistedAddresses (ps_policy st)) a")
  case True
  with assms obtain v where v: "validateAddress h rq a = Inr v"
    by (auto simp: evaluatePolicy_def Let_def split: sum.splits)
  from evaluate_tracked [OF _ v _ assms] True evaluate_policy_unchanged [OF assms] v
  show ?thesis by auto
next
  case False
  with assms evaluate_policy_unchanged [OF assms] show ?thesis
    by (auto simp: evaluatePolicy_def ev_push_def Let_def split: if_splits sum.splits)
qed

text \<open>An environment and a transaction to a Bech32 address for the witnesses.\<close>

definition env_at :: "int \<Rightarrow> policy_env" where
  "env_at now = \<lparr>pe_now = now, pe_coin = True, pe_cleanup_now = now,
     pe_toLocaleString = (\<lambda>_. ''n''), pe_toString = (\<lambda>_. ''n'')\<rparr>"

definition sample_address :: string where
  "sample_address = ''bc1qar0srrr7xfkvy5l643lydnw9re59gtzzwf5mdq''"

lemma sample_valid: "validateAddress h rq sample_address = Inr True"
proof -
  have t: "js_trim sample_address = sample_address" by code_simp
  have f: "\<not> evm_format sample_address" "bech32_format sample_address" "sample_address \<noteq> []"
    "\<not> 128 < length sample_address" "\<not> length sample_address < 20"
    by code_simp+
  then show ?thesis by (simp add: validateAddress_def t Let_def)
qed

lemma sample_not_blacklisted: "\<not> address_listed (pr_blacklistedAddresses default_policy) sample_address"
  by code_simp

theorem policy_allowed_iff_witness:
  "\<exists>r st'. evaluatePolicy toy_hashes NotImported (env_at 5000000) ''bitcoin'' sample_address 1000 None policy_init
      = (Inr r, st') \<and> ev_allowed r \<and> ev_rejectionReasons r = []"
proof -
  obtain r0 st' where e: "evaluatePolicy toy_hashes NotImported (env_at 5000000) ''bitcoin'' sample_address 1000 None policy_init = (r0, st')"
    by force
  then obtain r where r: "r0 = Inr r"
    using sample_not_blacklisted
    by (auto simp: evaluatePolicy_def sample_valid policy_init_def Let_def default_policy_def split: if_splits)
  from policy_allowed_iff [OF e [unfolded r]] e r sample_valid sample_not_blacklisted show ?thesis
    by (auto simp: policy_init_def default_policy_def tx_acceptable_def recent_txs_def)
qed

text \<open>C20: The velocity limit holds over any sequence of evaluations under one policy and a clock that
  does not run backwards, clean-ups included: when the engine allows a transaction, fewer than
  \<open>velocityLimitPerHour\<close> evaluations for that address (allowed or not) lie in the hour before
  it.\<close>

theorem policy_velocity_limit:
  assumes "ps_velocity st = []" and "clock_ok T cs" and "run_calls h rq cs st = (rs, st')"
    and "i < length cs" and "rs ! i = Inr r" and "ev_allowed r"
  shows "int (length (window (pe_now (pc_env (cs ! i)))
      (call_times h rq (ps_policy st) (pc_to (cs ! i)) (take i cs)))) < pr_velocityLimitPerHour (ps_policy st)"
proof -
  have "tracker_ok T (\<lambda>_. []) st" using assms(1) by (simp add: tracker_ok_def stamps_def jm_inv_def)
  from run_velocity [OF refl this assms(2-6)] show ?thesis by simp
qed

theorem policy_velocity_limit_witness:
  "let c = \<lparr>pc_env = env_at 5000000, pc_chain = ''bitcoin'', pc_to = sample_address, pc_amount = 1000, pc_sim = None\<rparr>;
       st = policy_init\<lparr>ps_policy := default_policy\<lparr>pr_velocityLimitPerHour := 1\<rparr>\<rparr>
   in \<exists>r0 r1 st'. run_calls toy_hashes NotImported [c, c] st = ([Inr r0, Inr r1], st') \<and> \<not> ev_allowed r1"
proof -
  let ?c = "\<lparr>pc_env = env_at 5000000, pc_chain = ''bitcoin'', pc_to = sample_address, pc_amount = 1000, pc_sim = None\<rparr>"
  let ?p = "default_policy\<lparr>pr_velocityLimitPerHour := 1\<rparr>"
  let ?st = "policy_init\<lparr>ps_policy := ?p\<rparr>"
  have nb: "\<not> address_listed (pr_blacklistedAddresses ?p) sample_address"
    using sample_not_blacklisted by (simp add: default_policy_def)
  have en: "pr_enabled ?p" by (simp add: default_policy_def)
  have some: "\<exists>r st1. evaluate_call toy_hashes NotImported ?c st = (Inr r, st1)" if "ps_policy st = ?p" for st
    using that nb en by (simp add: evaluate_call_def evaluatePolicy_def sample_valid Let_def)
  obtain r0 st1 where e0: "evaluate_call toy_hashes NotImported ?c ?st = (Inr r0, st1)"
    using some by fastforce
  then have "ps_policy st1 = ?p"
    using evaluate_policy_unchanged by (fastforce simp: evaluate_call_def)
  then obtain r1 st2 where e1: "evaluate_call toy_hashes NotImported ?c st1 = (Inr r1, st2)"
    using some by blast
  have run: "run_calls toy_hashes NotImported [?c, ?c] ?st = ([Inr r0, Inr r1], st2)"
    by (simp add: e0 e1)
  have tr: "tracked toy_hashes NotImported ?p ?c"
    using nb en by (simp add: tracked_def sample_valid) blast
  have "\<not> ev_allowed r1"
  proof
    assume al: "ev_allowed r1"
    have "clock_ok 0 [?c, ?c]" by (simp add: env_at_def)
    from policy_velocity_limit [OF _ this run, of 1 r1] al tr show False
      by (simp add: policy_init_def call_times_def window_def env_at_def)
  qed
  with run show ?thesis by (simp add: Let_def)
qed

text \<open>The approval path for large amounts is dead. Above \<open>maxTransactionAmountUSD\<close> the result asks
  for an \<open>ADMIN\<close> approval and a time lock, but a reason is recorded too, so the transaction is
  never allowed; and the daily total is only moved by \<open>recordSpending\<close>, never by an allowed
  evaluation, so any sequence of evaluations leaves it where it was.\<close>

theorem policy_large_amount_rejected:
  assumes "evaluatePolicy h rq env c a amt sim st = (Inr r, st')"
    and "amt > pr_maxTransactionAmountUSD (ps_policy st)"
  shows "\<not> ev_allowed r
    \<and> (tracked h rq (ps_policy st) \<lparr>pc_env = env, pc_chain = c, pc_to = a, pc_amount = amt, pc_sim = sim\<rparr>
        \<longrightarrow> ADMIN \<in> set (ev_pendingApprovals r) \<and> ev_requiresTimelock r
          \<and> ev_timelockExpiry r = Some (pe_now env + pr_timeLockMinutes (ps_policy st) * 60 * 1000))
    \<and> pr_currentDailySpendingUSD (ps_policy st') = pr_currentDailySpendingUSD (ps_policy st)"
proof (cases "tracked h rq (ps_policy st) \<lparr>pc_env = env, pc_chain = c, pc_to = a, pc_amount = amt, pc_sim = sim\<rparr>")
  case True
  then obtain v where v: "validateAddress h rq a = Inr v" by (auto simp: tracked_def)
  have na: "\<not> ev_allowed r"
    using evaluate_tracked(1) [OF _ v _ assms(1)] True assms(2) by (auto simp: tracked_def tx_acceptable_def)
  let ?r1 = "if v then ev_initial else ev_reject ''Invalid destination address format'' 50 ev_initial"
  let ?r5 = "ev_limits env (ps_policy st) a amt ?r1"
  let ?r8 = "ev_guards (ps_policy st) (recent_txs (pe_now env) a st) sim amt ?r5"
  have r: "r = ev_finalize (pe_now env) (ps_policy st) ?r8"
    using assms(1) True v by (simp add: evaluatePolicy_def tracked_def Let_def)
  have "ADMIN \<in> set (ev_pendingApprovals ?r5)"
    using assms(2) by (simp add: ev_limits_def ev_reject_def ev_push_def Let_def)
  then have "ADMIN \<in> set (ev_pendingApprovals ?r8)" by (rule ev_guards_pending)
  then have "ADMIN \<in> set (ev_pendingApprovals r)" "ev_requiresTimelock r"
    "ev_timelockExpiry r = Some (pe_now env + pr_timeLockMinutes (ps_policy st) * 60 * 1000)"
    unfolding r by (auto simp: ev_finalize_def Let_def)
  with na evaluate_policy_unchanged [OF assms(1)] show ?thesis by simp
next
  case False
  have "\<not> ev_allowed r"
    using assms(1) False by (auto simp: evaluatePolicy_def tracked_def ev_push_def Let_def
        split: if_splits sum.splits)
  with False evaluate_policy_unchanged [OF assms(1)] show ?thesis by simp
qed

theorem policy_large_amount_rejected_witness:
  "\<exists>r st'. evaluatePolicy toy_hashes NotImported (env_at 5000000) ''bitcoin'' sample_address 600000 None policy_init
      = (Inr r, st') \<and> \<not> ev_allowed r \<and> ADMIN \<in> set (ev_pendingApprovals r)"
proof -
  obtain r0 st' where e: "evaluatePolicy toy_hashes NotImported (env_at 5000000) ''bitcoin'' sample_address 600000 None policy_init = (r0, st')"
    by force
  have en: "pr_enabled default_policy" by (simp add: default_policy_def)
  from e obtain r where r: "r0 = Inr r"
    using sample_not_blacklisted en
    by (auto simp: evaluatePolicy_def sample_valid policy_init_def Let_def split: if_splits)
  have "pr_maxTransactionAmountUSD (ps_policy policy_init) < 600000"
    by (simp add: policy_init_def default_policy_def)
  from policy_large_amount_rejected [OF e [unfolded r] this] e r sample_not_blacklisted en show ?thesis
    by (auto simp: tracked_def sample_valid policy_init_def)
qed

end
