(* ===== verification/SessionGuard.thy ===== *)
theory SessionGuard
  imports Noble JsMap SecureRandom
begin

section \<open>Session-bound key shares\<close>

text \<open>
  \<^verbatim>\<open>src/lib/security/session_guard.ts\<close>: sessions with two random tokens and an expiry, key shares
  encrypted under a key derived from the tokens, and the checks that precede decryption. The
  table of active sessions is the state; Web Crypto is the parameter \<open>W\<close>, the clock an argument,
  random bytes come from the tape.
\<close>

record SessionBindingTokens =
  st_jwtToken :: string
  st_cookieFingerprint :: string
  st_sessionId :: string
  st_expiresAt :: int

record EncryptedBoundShare =
  bs_shareId :: string
  bs_wrappedDataHex :: string
  bs_ivHex :: string
  bs_saltHex :: string
  bs_authTagHex :: string
  bs_sessionBindingHash :: string
  bs_algorithm :: string

type_synonym sessions = "(string, SessionBindingTokens) js_map"

definition SESSION_TTL_MS :: int where
  "SESSION_TTL_MS = 3600 * 1000"

subsection \<open>Operations\<close>

definition createSessionBinding ::
  "hashes \<Rightarrow> int \<Rightarrow> string \<Rightarrow> sessions \<Rightarrow> (SessionBindingTokens \<times> sessions) rnd" where
  "createSessionBinding h now sessionId active =
     rnd_bind (secureRandomBytes 32) (\<lambda>jwt.
     rnd_bind (secureRandomBytes 32) (\<lambda>cookie.
     let binding = \<lparr>st_jwtToken = ''bf_jwt_'' @ h_bytesToHex h jwt,
           st_cookieFingerprint = ''bf_cookie_'' @ h_bytesToHex h cookie,
           st_sessionId = sessionId, st_expiresAt = now + SESSION_TTL_MS\<rparr>
     in rnd_return (binding, jm_set active sessionId binding)))"

definition session_deriveKey :: "hashes \<Rightarrow> string \<Rightarrow> string \<Rightarrow> bytes \<Rightarrow> bytes" where
  "session_deriveKey h jwtToken cookieFingerprint salt =
     h_hmac_sha256 h salt (utf8 (jwtToken @ '':'' @ cookieFingerprint))"

definition binding_hash :: "hashes \<Rightarrow> string \<Rightarrow> string \<Rightarrow> string \<Rightarrow> string" where
  "binding_hash h sessionId jwtToken cookieFingerprint =
     ''0x'' @ h_bytesToHex h (h_sha256 h (utf8 (sessionId @ '':'' @ jwtToken @ '':'' @ cookieFingerprint)))"

definition wrapShareWithSessionTokens ::
  "hashes \<Rightarrow> webcrypto \<Rightarrow> string \<Rightarrow> bytes \<Rightarrow> SessionBindingTokens \<Rightarrow> EncryptedBoundShare rnd" where
  "wrapShareWithSessionTokens h W shareId rawShareBytes tokens =
     rnd_bind (secureRandomBytes 32) (\<lambda>salt.
     rnd_bind (secureRandomBytes 16) (\<lambda>iv.
     let key = session_deriveKey h (st_jwtToken tokens) (st_cookieFingerprint tokens) salt;
         combined = wc_gcm_encrypt W key iv rawShareBytes;
         authTag = drop (length combined - 16) combined;
         encryptedData = take (length combined - 16) combined
     in rnd_return \<lparr>bs_shareId = shareId,
          bs_wrappedDataHex = ''0x'' @ h_bytesToHex h encryptedData,
          bs_ivHex = ''0x'' @ h_bytesToHex h iv, bs_saltHex = ''0x'' @ h_bytesToHex h salt,
          bs_authTagHex = ''0x'' @ h_bytesToHex h authTag,
          bs_sessionBindingHash = binding_hash h (st_sessionId tokens) (st_jwtToken tokens)
            (st_cookieFingerprint tokens),
          bs_algorithm = ''AES-256-GCM''\<rparr>))"

definition strip_0x :: "string \<Rightarrow> string" where
  "strip_0x s = (if startsWith s ''0x'' then drop 2 s else s)"

definition session_active :: "int \<Rightarrow> sessions \<Rightarrow> string \<Rightarrow> SessionBindingTokens option" where
  "session_active now active sessionId =
     (case jm_get active sessionId of
        None \<Rightarrow> None
      | Some s \<Rightarrow> if st_expiresAt s < now then None else Some s)"

definition unwrapShareWithSessionTokens ::
  "hashes \<Rightarrow> webcrypto \<Rightarrow> int \<Rightarrow> sessions \<Rightarrow> EncryptedBoundShare \<Rightarrow> string \<Rightarrow> string \<Rightarrow> string
   \<Rightarrow> bytes result" where
  "unwrapShareWithSessionTokens h W now active boundShare jwtToken cookieFingerprint sessionId =
     (case session_active now active sessionId of
        None \<Rightarrow> Inl (Error ''UNAUTHORIZED_SESSION_EXPIRED'')
      | Some s \<Rightarrow>
          if st_jwtToken s \<noteq> jwtToken \<or> st_cookieFingerprint s \<noteq> cookieFingerprint
          then Inl (Error ''UNAUTHORIZED_SESSION_MISMATCH'')
          else if binding_hash h sessionId jwtToken cookieFingerprint \<noteq> bs_sessionBindingHash boundShare
          then Inl (Error ''UNAUTHORIZED_SESSION_TAMPERED'')
          else
            rbind (h_hexToBytes h (strip_0x (bs_saltHex boundShare))) (\<lambda>salt.
            rbind (h_hexToBytes h (strip_0x (bs_ivHex boundShare))) (\<lambda>iv.
            rbind (h_hexToBytes h (strip_0x (bs_wrappedDataHex boundShare))) (\<lambda>encryptedData.
            rbind (h_hexToBytes h (strip_0x (bs_authTagHex boundShare))) (\<lambda>authTag.
            let key = session_deriveKey h jwtToken cookieFingerprint salt in
            case wc_gcm_decrypt W key iv (encryptedData @ authTag) of
              Inl e \<Rightarrow> Inl (Error ''UNAUTHORIZED_DECRYPTION_FAILED'')
            | Inr plaintext \<Rightarrow> Inr plaintext)))))"

definition revokeSession :: "string \<Rightarrow> sessions \<Rightarrow> bool \<times> sessions" where
  "revokeSession sessionId active = (jm_has active sessionId, jm_delete active sessionId)"

text \<open>\<open>cookieHeader.match(/biofire_session_auth=([^;]+)/)\<close>: the first occurrence followed by a
  character other than \<open>;\<close>, and the run of such characters.\<close>

definition cookie_key :: string where
  "cookie_key = ''biofire_session_auth=''"

fun cookie_match :: "string \<Rightarrow> string option" where
  "cookie_match [] = None"
| "cookie_match (c # cs) =
     (let rest = drop (length cookie_key) (c # cs) in
      if startsWith (c # cs) cookie_key \<and> rest \<noteq> [] \<and> hd rest \<noteq> CHR '';''
      then Some (takeWhile (\<lambda>x. x \<noteq> CHR '';'') rest)
      else cookie_match cs)"

record auth_result =
  ax_isValid :: bool
  ax_jwtToken :: "string option"
  ax_cookieFingerprint :: "string option"
  ax_reason :: "string option"

definition auth_refused :: "string \<Rightarrow> auth_result" where
  "auth_refused reason =
     \<lparr>ax_isValid = False, ax_jwtToken = None, ax_cookieFingerprint = None, ax_reason = Some reason\<rparr>"

text \<open>A missing argument and an empty string are both falsy.\<close>

definition validateRequestAuthTokens ::
  "int \<Rightarrow> sessions \<Rightarrow> string option \<Rightarrow> string option \<Rightarrow> string option \<Rightarrow> auth_result" where
  "validateRequestAuthTokens now active authHeader cookieHeader sessionId =
     (let auth = (case authHeader of None \<Rightarrow> [] | Some a \<Rightarrow> a);
          cookie = (case cookieHeader of None \<Rightarrow> [] | Some c \<Rightarrow> c);
          sid = (case sessionId of None \<Rightarrow> [] | Some s \<Rightarrow> s) in
      if auth = [] \<or> \<not> startsWith auth ''Bearer ''
      then auth_refused ''Missing or malformed Authorization Bearer token header''
      else if cookie = [] \<or> \<not> js_includes cookie cookie_key
      then auth_refused ''Missing or invalid httpOnly biofire_session_auth cookie''
      else
        let jwtToken = js_trim (drop 7 auth);
            cookieFingerprint = (case cookie_match cookie of None \<Rightarrow> [] | Some m \<Rightarrow> js_trim m);
            ok = \<lparr>ax_isValid = True, ax_jwtToken = Some jwtToken,
                  ax_cookieFingerprint = Some cookieFingerprint, ax_reason = None\<rparr> in
        if sid = [] then ok
        else case jm_get active sid of
            None \<Rightarrow> auth_refused ''Session token or cookie fingerprint mismatch''
          | Some s \<Rightarrow>
              if st_jwtToken s \<noteq> jwtToken \<or> st_cookieFingerprint s \<noteq> cookieFingerprint
              then auth_refused ''Session token or cookie fingerprint mismatch''
              else if st_expiresAt s < now then auth_refused ''Session expired'' else ok)"

definition cleanup_session :: "int \<Rightarrow> string \<times> SessionBindingTokens \<Rightarrow> nat \<times> sessions \<Rightarrow> nat \<times> sessions" where
  "cleanup_session now kv acc = (case kv of (sid, s) \<Rightarrow> case acc of (removed, m) \<Rightarrow>
     if st_expiresAt s < now then (Suc removed, jm_delete m sid) else (removed, m))"

definition cleanupExpiredSessions :: "int \<Rightarrow> sessions \<Rightarrow> nat \<times> sessions" where
  "cleanupExpiredSessions now active = fold (cleanup_session now) active (0, active)"

subsection \<open>Lemmas\<close>

lemma strip_0x_prefix [simp]: "strip_0x (CHR ''0'' # CHR ''x'' # s) = s"
  by (simp add: strip_0x_def)

lemma cleanup_session_eq:
  "cleanup_session now (sid, s) acc
    = (if st_expiresAt s < now then (Suc (fst acc), jm_delete (snd acc) sid) else acc)"
  by (cases acc) (simp add: cleanup_session_def)

lemma cleanup_fold_get:
  assumes "jm_inv kvs"
  shows "jm_get (snd (fold (cleanup_session now) kvs acc)) k
    = (case jm_get kvs k of None \<Rightarrow> jm_get (snd acc) k
       | Some s \<Rightarrow> if st_expiresAt s < now then None else jm_get (snd acc) k)"
  using assms
proof (induction kvs arbitrary: acc)
  case Nil
  then show ?case by simp
next
  case (Cons kv kvs)
  obtain sid s where kv: "kv = (sid, s)" by force
  have inv: "jm_inv kvs" and none: "jm_get kvs sid = None"
    using Cons.prems kv by (auto simp: jm_inv_def jm_get_def map_of_eq_None_iff)
  have c: "jm_get (kv # kvs) k = (if k = sid then Some s else jm_get kvs k)"
    by (simp add: kv jm_get_def)
  show ?case
    unfolding c using none
    by (cases "jm_get kvs k") (auto simp: kv cleanup_session_eq Cons.IH [OF inv])
qed

lemma cleanup_fold_count:
  "fst (fold (cleanup_session now) kvs (n, m)) = n + length (filter (\<lambda>(k, s). st_expiresAt s < now) kvs)"
  by (induction kvs arbitrary: n m) (auto simp: cleanup_session_def split: prod.splits)

lemma cleanup_get:
  "jm_inv active \<Longrightarrow> jm_get (snd (cleanupExpiredSessions now active)) k = session_active now active k"
  by (simp add: cleanupExpiredSessions_def cleanup_fold_get session_active_def split: option.splits)

lemma unwrap_Inr:
  "unwrapShareWithSessionTokens h W now active b jwt cookie sid = Inr p \<longleftrightarrow>
     (\<exists>s salt iv data tag. jm_get active sid = Some s \<and> now \<le> st_expiresAt s \<and> st_jwtToken s = jwt
       \<and> st_cookieFingerprint s = cookie \<and> bs_sessionBindingHash b = binding_hash h sid jwt cookie
       \<and> h_hexToBytes h (strip_0x (bs_saltHex b)) = Inr salt \<and> h_hexToBytes h (strip_0x (bs_ivHex b)) = Inr iv
       \<and> h_hexToBytes h (strip_0x (bs_wrappedDataHex b)) = Inr data
       \<and> h_hexToBytes h (strip_0x (bs_authTagHex b)) = Inr tag
       \<and> wc_gcm_decrypt W (session_deriveKey h jwt cookie salt) iv (data @ tag) = Inr p)"
  by (auto simp: unwrapShareWithSessionTokens_def session_active_def result_simps Let_def not_less
      split: option.splits if_splits sum.splits)

lemma gcm_decrypt_iff: "gcm_laws W \<Longrightarrow> wc_gcm_decrypt W k iv c = Inr p \<longleftrightarrow> c = wc_gcm_encrypt W k iv p"
  using gcm_lawsD(1,3) by metis

subsection \<open>Properties\<close>

text \<open>C9: A share wrapped for a session unwraps to itself: with the tokens the session was created
  with, at any time up to the expiry one hour after creation, and until the session is revoked.\<close>

theorem session_share_roundtrip:
  assumes "hex_laws h" and "gcm_laws W"
    and "createSessionBinding h t0 sid active t = Some (Inr (tokens, active'), t')"
    and "wrapShareWithSessionTokens h W shareId share tokens u = Some (Inr bound, u')"
    and "now \<le> t0 + 3600000"
  shows "unwrapShareWithSessionTokens h W now active' bound (st_jwtToken tokens)
      (st_cookieFingerprint tokens) sid = Inr share"
proof -
  from assms(3) have tok: "st_sessionId tokens = sid" "st_expiresAt tokens = t0 + SESSION_TTL_MS"
    "active' = jm_set active sid tokens"
    by (auto simp: createSessionBinding_def Let_def result_simps)
  have act: "session_active now active' sid = Some tokens"
    using assms(5) by (simp add: session_active_def tok SESSION_TTL_MS_def)
  from assms(4) obtain salt iv where b: "bound = (let key = session_deriveKey h (st_jwtToken tokens) (st_cookieFingerprint tokens) salt;
         combined = wc_gcm_encrypt W key iv share
     in \<lparr>bs_shareId = shareId,
          bs_wrappedDataHex = ''0x'' @ h_bytesToHex h (take (length combined - 16) combined),
          bs_ivHex = ''0x'' @ h_bytesToHex h iv, bs_saltHex = ''0x'' @ h_bytesToHex h salt,
          bs_authTagHex = ''0x'' @ h_bytesToHex h (drop (length combined - 16) combined),
          bs_sessionBindingHash = binding_hash h sid (st_jwtToken tokens) (st_cookieFingerprint tokens),
          bs_algorithm = ''AES-256-GCM''\<rparr>)"
    by (auto simp: wrapShareWithSessionTokens_def Let_def result_simps tok)
  show ?thesis
    by (simp add: unwrapShareWithSessionTokens_def act b Let_def hex_lawsD(1) [OF assms(1)]
        gcm_lawsD(1) [OF assms(2)])
qed

text \<open>C13: Unwrapping is authenticated: whatever bound share, tokens and table are presented, a text is
  returned exactly for an unexpired session of the table with these tokens and this binding hash, and
  when the presented data and tag, read from their hexadecimal forms, are together the encryption of
  that text under the presented initialization vector and the key derived from these tokens and the
  presented salt. A revoked or expired session returns nothing.\<close>

theorem session_unwrap_authentic:
  assumes "gcm_laws W"
  shows "(unwrapShareWithSessionTokens h W now active b jwt cookie sid = Inr p \<longleftrightarrow>
      (\<exists>s salt iv data tag. jm_get active sid = Some s \<and> now \<le> st_expiresAt s \<and> st_jwtToken s = jwt
        \<and> st_cookieFingerprint s = cookie \<and> bs_sessionBindingHash b = binding_hash h sid jwt cookie
        \<and> h_hexToBytes h (strip_0x (bs_saltHex b)) = Inr salt \<and> h_hexToBytes h (strip_0x (bs_ivHex b)) = Inr iv
        \<and> h_hexToBytes h (strip_0x (bs_wrappedDataHex b)) = Inr data
        \<and> h_hexToBytes h (strip_0x (bs_authTagHex b)) = Inr tag
        \<and> data @ tag = wc_gcm_encrypt W (session_deriveKey h jwt cookie salt) iv p))
    \<and> unwrapShareWithSessionTokens h W now (snd (revokeSession sid active)) b jwt cookie sid
      = Inl (Error ''UNAUTHORIZED_SESSION_EXPIRED'')
    \<and> (\<forall>s. jm_get active sid = Some s \<and> st_expiresAt s < now \<longrightarrow>
        unwrapShareWithSessionTokens h W now active b jwt cookie sid
          = Inl (Error ''UNAUTHORIZED_SESSION_EXPIRED''))"
proof (rule conjI)
  show "unwrapShareWithSessionTokens h W now active b jwt cookie sid = Inr p \<longleftrightarrow>
      (\<exists>s salt iv data tag. jm_get active sid = Some s \<and> now \<le> st_expiresAt s \<and> st_jwtToken s = jwt
        \<and> st_cookieFingerprint s = cookie \<and> bs_sessionBindingHash b = binding_hash h sid jwt cookie
        \<and> h_hexToBytes h (strip_0x (bs_saltHex b)) = Inr salt \<and> h_hexToBytes h (strip_0x (bs_ivHex b)) = Inr iv
        \<and> h_hexToBytes h (strip_0x (bs_wrappedDataHex b)) = Inr data
        \<and> h_hexToBytes h (strip_0x (bs_authTagHex b)) = Inr tag
        \<and> data @ tag = wc_gcm_encrypt W (session_deriveKey h jwt cookie salt) iv p)"
    by (simp only: unwrap_Inr gcm_decrypt_iff [OF assms])
qed (auto simp: unwrapShareWithSessionTokens_def session_active_def revokeSession_def)

text \<open>A concrete session: created at time 0 from a tape of zeros, and a share wrapped for it.\<close>

definition toy_session :: "SessionBindingTokens \<times> sessions" where
  "toy_session = (case createSessionBinding toy_hashes 0 ''s1'' [] (replicate 64 0) of
     Some (Inr p, t) \<Rightarrow> p | _ \<Rightarrow> undefined)"

definition toy_bound :: EncryptedBoundShare where
  "toy_bound = (case wrapShareWithSessionTokens toy_hashes toy_webcrypto ''sh'' [1, 2, 3] (fst toy_session)
     (replicate 48 0) of Some (Inr b, t) \<Rightarrow> b | _ \<Rightarrow> undefined)"

lemma toy_session_created:
  "createSessionBinding toy_hashes 0 ''s1'' [] (replicate 64 0) = Some (Inr toy_session, [])"
  unfolding toy_session_def
  by (simp add: createSessionBinding_def secureRandomBytes_def rnd_bind_def rnd_return_def Let_def)

lemma toy_bound_wrapped:
  "wrapShareWithSessionTokens toy_hashes toy_webcrypto ''sh'' [1, 2, 3] (fst toy_session)
     (replicate 48 0) = Some (Inr toy_bound, [])"
  unfolding toy_bound_def
  by (simp add: wrapShareWithSessionTokens_def secureRandomBytes_def rnd_bind_def rnd_return_def Let_def)

theorem session_share_roundtrip_witness:
  "unwrapShareWithSessionTokens toy_hashes toy_webcrypto 3600000 (snd toy_session) toy_bound
     (st_jwtToken (fst toy_session)) (st_cookieFingerprint (fst toy_session)) ''s1'' = Inr [1, 2, 3]"
proof (rule session_share_roundtrip [OF toy_hex_laws toy_gcm_laws _ toy_bound_wrapped])
  show "createSessionBinding toy_hashes 0 ''s1'' [] (replicate 64 0)
      = Some (Inr (fst toy_session, snd toy_session), [])"
    using toy_session_created by simp
qed simp

theorem session_unwrap_authentic_witness:
  "(\<exists>salt iv data tag. h_hexToBytes toy_hashes (strip_0x (bs_saltHex toy_bound)) = Inr salt
      \<and> h_hexToBytes toy_hashes (strip_0x (bs_ivHex toy_bound)) = Inr iv
      \<and> h_hexToBytes toy_hashes (strip_0x (bs_wrappedDataHex toy_bound)) = Inr data
      \<and> h_hexToBytes toy_hashes (strip_0x (bs_authTagHex toy_bound)) = Inr tag
      \<and> data @ tag = wc_gcm_encrypt toy_webcrypto (session_deriveKey toy_hashes (st_jwtToken (fst toy_session))
          (st_cookieFingerprint (fst toy_session)) salt) iv [1, 2, 3])
   \<and> unwrapShareWithSessionTokens toy_hashes toy_webcrypto 3600000
       (snd (revokeSession ''s1'' (snd toy_session))) toy_bound
       (st_jwtToken (fst toy_session)) (st_cookieFingerprint (fst toy_session)) ''s1''
     = Inl (Error ''UNAUTHORIZED_SESSION_EXPIRED'')"
proof -
  let ?u = "unwrapShareWithSessionTokens toy_hashes toy_webcrypto 3600000 (snd toy_session) toy_bound
      (st_jwtToken (fst toy_session)) (st_cookieFingerprint (fst toy_session)) ''s1''"
  have "case ?u of Inl e \<Rightarrow> False | Inr p \<Rightarrow> p = [1, 2, 3]" by code_simp
  then have "?u = Inr [1, 2, 3]" by (auto split: sum.splits)
  then show ?thesis using session_unwrap_authentic [OF toy_gcm_laws] by blast
qed

text \<open>The clean-up removes exactly the expired sessions, reports their number, and no check can
  tell a table from its cleaned-up version.\<close>

theorem session_cleanup_exact:
  assumes "jm_inv active" and "cleanupExpiredSessions now active = (removed, active')"
  shows "(\<forall>sid. jm_get active' sid = session_active now active sid)
    \<and> removed = length (filter (\<lambda>(k, s). st_expiresAt s < now) active)
    \<and> unwrapShareWithSessionTokens h W now active' b jwt cookie sid
        = unwrapShareWithSessionTokens h W now active b jwt cookie sid"
proof -
  have g: "jm_get active' sid = session_active now active sid" for sid
    using cleanup_get [OF assms(1), of now sid] assms(2) by simp
  then have "session_active now active' sid = session_active now active sid"
    by (auto simp: session_active_def split: option.splits if_splits)
  with g show ?thesis
    using cleanup_fold_count [of now active 0 active] assms(2)
    by (auto simp: cleanupExpiredSessions_def unwrapShareWithSessionTokens_def)
qed

theorem session_cleanup_exact_witness:
  "let a = \<lparr>st_jwtToken = ''j'', st_cookieFingerprint = ''c'', st_sessionId = ''a'', st_expiresAt = 5\<rparr>;
       active = [(''a'', a), (''b'', a\<lparr>st_expiresAt := 9\<rparr>)]
   in cleanupExpiredSessions 7 active = (1, [(''b'', a\<lparr>st_expiresAt := 9\<rparr>)])
     \<and> jm_get (snd (cleanupExpiredSessions 7 active)) ''a'' = session_active 7 active ''a''"
proof -
  let ?a = "\<lparr>st_jwtToken = ''j'', st_cookieFingerprint = ''c'', st_sessionId = ''a'', st_expiresAt = 5\<rparr>"
  let ?m = "[(''a'', ?a), (''b'', ?a\<lparr>st_expiresAt := 9\<rparr>)]"
  have c: "cleanupExpiredSessions 7 ?m = (1, [(''b'', ?a\<lparr>st_expiresAt := 9\<rparr>)])"
    by (simp add: cleanupExpiredSessions_def cleanup_session_def jm_delete_def)
  have i: "jm_inv ?m" by (simp add: jm_inv_def)
  show ?thesis using session_cleanup_exact [OF i c] c by (simp add: Let_def)
qed

end
