(* ===== verification/Hsm.thy ===== *)
theory Hsm
  imports Noble JsMap SecureRandom
begin

section \<open>The HSM enclave manager\<close>

text \<open>
  \<^verbatim>\<open>src/lib/crypto/hsm_enclave.ts\<close>: the software driver (an encrypted store in memory), the
  AWS KMS driver, and the status facade. Web Crypto is the parameter \<open>W\<close>, the KMS service the
  parameter \<open>K\<close>. The software driver is also a step relation, because its calls are suspended
  at an \<open>await\<close> and others come in between: \<open>encryptShare\<close> checks the status and draws before it
  encrypts, and stores after; \<open>decryptShare\<close> checks the status and copies what it decrypts;
  \<open>resetAndAttest\<close> clears the store at once and becomes healthy after.
  The functions named after the methods are the calls that nothing interrupts.
\<close>

datatype hsm_health = HEALTHY | TAMPERED | LOCKED

fun hsm_hex :: "bytes \<Rightarrow> string" where
  "hsm_hex bs = ''0x'' @ concat (map byte_hex bs)"

subsection \<open>The software driver\<close>

record sim_hsm =
  sh_status :: hsm_health
  sh_attestationHash :: string
  sh_encryptedShares :: "(string, bytes) js_map"

definition generateAttestation :: "string rnd" where
  "generateAttestation = rnd_bind (secureRandomBytes 32) (\<lambda>bs. rnd_return (hsm_hex bs))"

definition sim_new :: "sim_hsm rnd" where
  "sim_new = rnd_bind generateAttestation (\<lambda>a.
     rnd_return \<lparr>sh_status = HEALTHY, sh_attestationHash = a, sh_encryptedShares = []\<rparr>)"

definition deriveAESKey :: "webcrypto \<Rightarrow> bytes \<Rightarrow> bytes \<Rightarrow> bytes" where
  "deriveAESKey W masterSecret salt = wc_pbkdf2 W masterSecret salt"

text \<open>A missing master secret is drawn before the body runs.\<close>

definition master_secret :: "bytes option \<Rightarrow> bytes rnd" where
  "master_secret m = (case m of None \<Rightarrow> secureRandomBytes 32 | Some s \<Rightarrow> rnd_return s)"

text \<open>Up to the first \<open>await\<close> the call checks the status and draws; what it will store is then fixed. The
  store is written when the encryption is done, whatever the status is by then.\<close>

definition sim_encrypt_start :: "webcrypto \<Rightarrow> bytes \<Rightarrow> bytes option \<Rightarrow> sim_hsm \<Rightarrow> bytes rnd" where
  "sim_encrypt_start W shareData masterSecret st =
     rnd_bind (master_secret masterSecret) (\<lambda>ms.
     if sh_status st \<noteq> HEALTHY then rnd_throw (Error ''HSM LOCKED'')
     else
       rnd_bind (secureRandomBytes 16) (\<lambda>salt.
       rnd_bind (secureRandomBytes 12) (\<lambda>iv.
       rnd_return (salt @ iv @ wc_gcm_encrypt W (deriveAESKey W ms salt) iv shareData))))"

definition sim_encrypt_finish :: "string \<Rightarrow> bytes \<Rightarrow> sim_hsm \<Rightarrow> string \<times> sim_hsm" where
  "sim_encrypt_finish shareId combined st =
     (hsm_hex combined, st\<lparr>sh_encryptedShares := jm_set (sh_encryptedShares st) shareId combined\<rparr>)"

definition sim_encryptShare ::
  "webcrypto \<Rightarrow> string \<Rightarrow> bytes \<Rightarrow> bytes option \<Rightarrow> sim_hsm \<Rightarrow> (string \<times> sim_hsm) rnd" where
  "sim_encryptShare W shareId shareData masterSecret st =
     rnd_bind (sim_encrypt_start W shareData masterSecret st) (\<lambda>combined.
     rnd_return (sim_encrypt_finish shareId combined st))"

definition slice :: "nat \<Rightarrow> nat \<Rightarrow> 'a list \<Rightarrow> 'a list" where
  "slice i j xs = drop i (take j xs)"

text \<open>So for \<open>decryptShare\<close>: the status is checked and the stored bytes are copied before the first
  \<open>await\<close>; the rest needs the copy only.\<close>

definition sim_decrypt_start :: "string \<Rightarrow> bytes option \<Rightarrow> sim_hsm \<Rightarrow> (bytes \<times> bytes) rnd" where
  "sim_decrypt_start shareId masterSecret st =
     rnd_bind (master_secret masterSecret) (\<lambda>ms.
     if sh_status st \<noteq> HEALTHY then rnd_throw (Error ''HSM LOCKED'')
     else case jm_get (sh_encryptedShares st) shareId of
       None \<Rightarrow> rnd_throw (Error (''Share '' @ shareId @ '' not found''))
     | Some combined \<Rightarrow> rnd_return (ms, combined))"

definition sim_decrypt_finish :: "webcrypto \<Rightarrow> bytes \<Rightarrow> bytes \<Rightarrow> bytes result" where
  "sim_decrypt_finish W ms combined =
     wc_gcm_decrypt W (deriveAESKey W ms (slice 0 16 combined)) (slice 16 28 combined) (drop 28 combined)"

definition sim_decryptShare ::
  "webcrypto \<Rightarrow> string \<Rightarrow> bytes option \<Rightarrow> sim_hsm \<Rightarrow> bytes rnd" where
  "sim_decryptShare W shareId masterSecret st =
     rnd_bind (sim_decrypt_start shareId masterSecret st) (\<lambda>(ms, combined).
     rnd_lift (sim_decrypt_finish W ms combined))"

definition zeroed_hash :: string where
  "zeroed_hash = ''0x0000000000000000''"

definition sim_zeroize :: "sim_hsm \<Rightarrow> sim_hsm" where
  "sim_zeroize st =
     st\<lparr>sh_encryptedShares := [], sh_status := TAMPERED, sh_attestationHash := zeroed_hash\<rparr>"

text \<open>\<open>resetAndAttest\<close> up to its \<open>await\<close> is \<open>zeroize\<close>; this is the rest.\<close>

definition sim_reset_rest :: "sim_hsm \<Rightarrow> sim_hsm rnd" where
  "sim_reset_rest st = rnd_bind generateAttestation (\<lambda>a.
     rnd_return (st\<lparr>sh_status := HEALTHY, sh_attestationHash := a\<rparr>))"

definition sim_resetAndAttest :: "sim_hsm \<Rightarrow> sim_hsm rnd" where
  "sim_resetAndAttest st = sim_reset_rest (sim_zeroize st)"

record enclave_status =
  en_status :: hsm_health
  en_attestationHash :: string
  en_keySharesEncrypted :: nat
  en_provider :: string

definition sim_providerName :: string where
  "sim_providerName = ''Software AES-GCM Simulation [DEV ONLY]''"

definition sim_getEnclaveStatus :: "sim_hsm \<Rightarrow> enclave_status" where
  "sim_getEnclaveStatus st =
     \<lparr>en_status = sh_status st, en_attestationHash = sh_attestationHash st,
      en_keySharesEncrypted = length (sh_encryptedShares st), en_provider = sim_providerName\<rparr>"

subsection \<open>The software driver as a step relation\<close>

text \<open>The driver with its suspended calls: the encryptions that have been started and have not stored
  their share, the decryptions that have been started and have not returned, each with the master secret
  and the bytes it copied, and the number of resets that have not finished.\<close>

record sim_world =
  sw_hsm :: sim_hsm
  sw_pending :: "(string \<times> bytes) list"
  sw_reading :: "(string \<times> bytes \<times> bytes) list"
  sw_resets :: nat

datatype sim_event =
    EncryptStarted string | Encrypted string | DecryptStarted string | Decrypted string "bytes result"
  | Zeroized | ResetStarted | ResetFinished

inductive sim_step :: "webcrypto \<Rightarrow> sim_event \<Rightarrow> sim_world \<Rightarrow> sim_world \<Rightarrow> bool"
  for W where
  step_begin: "sim_encrypt_start W shareData ms (sw_hsm w) t = Some (Inr c, t') \<Longrightarrow>
     sim_step W (EncryptStarted sid) w (w\<lparr>sw_pending := (sid, c) # sw_pending w\<rparr>)"
| step_encrypt: "(sid, c) \<in> set (sw_pending w) \<Longrightarrow>
     sim_step W (Encrypted sid) w (w\<lparr>sw_hsm := snd (sim_encrypt_finish sid c (sw_hsm w)),
       sw_pending := remove1 (sid, c) (sw_pending w)\<rparr>)"
| step_read: "sim_decrypt_start sid ms (sw_hsm w) t = Some (Inr (k, c), t') \<Longrightarrow>
     sim_step W (DecryptStarted sid) w (w\<lparr>sw_reading := (sid, k, c) # sw_reading w\<rparr>)"
| step_decrypt: "(sid, k, c) \<in> set (sw_reading w) \<Longrightarrow>
     sim_step W (Decrypted sid (sim_decrypt_finish W k c)) w (w\<lparr>sw_reading := remove1 (sid, k, c) (sw_reading w)\<rparr>)"
| step_zeroize: "sim_step W Zeroized w (w\<lparr>sw_hsm := sim_zeroize (sw_hsm w)\<rparr>)"
| step_start: "sim_step W ResetStarted w (w\<lparr>sw_hsm := sim_zeroize (sw_hsm w), sw_resets := Suc (sw_resets w)\<rparr>)"
| step_finish: "sim_reset_rest (sw_hsm w) t = Some (Inr st', t') \<Longrightarrow> sw_resets w = Suc n \<Longrightarrow>
     sim_step W ResetFinished w (w\<lparr>sw_hsm := st', sw_resets := n\<rparr>)"

inductive sim_run :: "webcrypto \<Rightarrow> sim_event list \<Rightarrow> sim_world \<Rightarrow> sim_world \<Rightarrow> bool"
  for W where
  run_done: "sim_run W [] s s"
| run_step: "sim_step W e s s' \<Longrightarrow> sim_run W es s' s'' \<Longrightarrow> sim_run W (e # es) s s''"

inductive_cases sim_run_ConsE: "sim_run W (e # es) s s''"
inductive_cases sim_run_NilE: "sim_run W [] s s''"

subsection \<open>The AWS KMS driver\<close>

text \<open>The service as three functions of the key id: \<open>send\<close> of an encrypt and a decrypt command,
  whose response may lack the blob, and of a describe command.\<close>

record kms =
  km_encrypt :: "string \<Rightarrow> bytes \<Rightarrow> bytes option result"
  km_decrypt :: "string \<Rightarrow> bytes \<Rightarrow> bytes option result"
  km_describe :: "string \<Rightarrow> unit result"

record kms_hsm =
  kh_status :: hsm_health
  kh_keyCount :: nat
  kh_client :: bool
  kh_commands :: bool
  kh_keyId :: string

text \<open>The client and the command classes are set when the dynamic import settles, after the constructor;
  when it fails, its handler throws into a promise nobody holds and the driver stays as it is.\<close>

definition kms_new :: "string \<Rightarrow> kms_hsm result" where
  "kms_new keyId =
     (if keyId = [] then Inl (Error ''AWS_KMS_KEY_ID environment variable is required for AWS KMS HSM.'')
      else Inr \<lparr>kh_status = HEALTHY, kh_keyCount = 0, kh_client = False, kh_commands = False, kh_keyId = keyId\<rparr>)"

definition kms_sdk_loaded :: "kms_hsm \<Rightarrow> kms_hsm" where
  "kms_sdk_loaded st = st\<lparr>kh_client := True, kh_commands := True\<rparr>"

definition kms_guard :: "kms_hsm \<Rightarrow> unit result" where
  "kms_guard st =
     (if kh_status st \<noteq> HEALTHY then Inl (Error ''AWS KMS HSM is LOCKED or TAMPERED.'')
      else if \<not> kh_client st then Inl (Error ''AWS KMS client not initialized.'')
      else Inr ())"

text \<open>Constructing a command throws while its class is not loaded: a reset sets the client, not the
  commands.\<close>

definition kms_send :: "kms_hsm \<Rightarrow> bytes option result \<Rightarrow> bytes option result" where
  "kms_send st response =
     (if kh_commands st then response else Inl (TypeError ''not a constructor''))"

text \<open>A response without a blob, or with an empty one, is an error; every error of the \<open>try\<close> block is
  replaced.\<close>

definition kms_blob :: "string \<Rightarrow> bytes option result \<Rightarrow> bytes result" where
  "kms_blob failed response =
     (case response of
        Inr (Some blob) \<Rightarrow> if blob = [] then Inl (Error failed) else Inr blob
      | _ \<Rightarrow> Inl (Error failed))"

definition kms_encryptShare ::
  "kms \<Rightarrow> string \<Rightarrow> bytes \<Rightarrow> kms_hsm \<Rightarrow> (string \<times> kms_hsm) result" where
  "kms_encryptShare K shareId shareData st =
     rbind (kms_guard st) (\<lambda>_.
     rbind (kms_blob ''AWS KMS encryption failed'' (kms_send st (km_encrypt K (kh_keyId st) shareData))) (\<lambda>blob.
     Inr (hsm_hex blob, st\<lparr>kh_keyCount := kh_keyCount st + 1\<rparr>)))"

definition kms_decryptShare :: "string \<Rightarrow> kms_hsm \<Rightarrow> bytes result" where
  "kms_decryptShare shareId st =
     rbind (kms_guard st) (\<lambda>_. Inl (Error
       ''AWS KMS decrypt requires the ciphertext blob to be retrieved from secure storage first.''))"

text \<open>\<open>Buffer.from(s, 'hex')\<close> stops at the first pair that is not two hexadecimal digits.\<close>

fun buffer_from_hex :: "string \<Rightarrow> bytes" where
  "buffer_from_hex (c # d # s) =
     (case (digit_value c, digit_value d) of
        (Some a, Some b) \<Rightarrow>
          if a < 16 \<and> b < 16 then word_of_int (16 * a + b) # buffer_from_hex s else []
      | _ \<Rightarrow> [])"
| "buffer_from_hex _ = []"

definition kms_decryptCiphertext :: "kms \<Rightarrow> string \<Rightarrow> kms_hsm \<Rightarrow> bytes result" where
  "kms_decryptCiphertext K ciphertextHex st =
     rbind (kms_guard st) (\<lambda>_.
     kms_blob ''AWS KMS decryption failed''
       (kms_send st (km_decrypt K (kh_keyId st) (buffer_from_hex (strip0x ciphertextHex)))))"

definition kms_providerName :: string where
  "kms_providerName = ''AWS KMS''"

definition kms_health :: "kms \<Rightarrow> kms_hsm \<Rightarrow> string" where
  "kms_health K st =
     (if \<not> kh_client st then ''UNKNOWN''
      else case km_describe K (kh_keyId st) of Inl e \<Rightarrow> ''DISCONNECTED'' | Inr u \<Rightarrow> ''CONNECTED'')"

definition kms_getEnclaveStatus :: "kms \<Rightarrow> kms_hsm \<Rightarrow> enclave_status rnd" where
  "kms_getEnclaveStatus K st =
     (let health = kms_health K st in
      rnd_bind (if health = ''CONNECTED'' then generateAttestation else rnd_return ''0xDISCONNECTED'')
        (\<lambda>a. rnd_return \<lparr>en_status = kh_status st, en_attestationHash = a,
           en_keySharesEncrypted = kh_keyCount st,
           en_provider = kms_providerName @ '' ('' @ health @ '')''\<rparr>))"

definition kms_zeroize :: "kms_hsm \<Rightarrow> kms_hsm" where
  "kms_zeroize st = st\<lparr>kh_status := TAMPERED, kh_keyCount := 0, kh_client := False\<rparr>"

text \<open>The import of the SDK may fail; the status is already healthy then.\<close>

definition kms_resetAndAttest :: "bool \<Rightarrow> kms_hsm \<Rightarrow> unit result \<times> kms_hsm" where
  "kms_resetAndAttest sdk_loads st =
     (if sdk_loads then (Inr (), st\<lparr>kh_status := HEALTHY, kh_client := True\<rparr>)
      else (Inl (Error ''Cannot find package''), st\<lparr>kh_status := HEALTHY\<rparr>))"

subsection \<open>The facade\<close>

datatype hsm_driver = Simulation sim_hsm | KMS kms_hsm

definition getHSMDriver :: "string \<Rightarrow> string \<Rightarrow> hsm_driver rnd" where
  "getHSMDriver provider keyId =
     (if provider = ''kms'' then rnd_bind (rnd_lift (kms_new keyId)) (\<lambda>k. rnd_return (KMS k))
      else rnd_bind sim_new (\<lambda>s. rnd_return (Simulation s)))"

datatype enclave_state = SECURE | ATTESTED | TAMPER_ALERT | ENCLAVE_LOCKED | DEGRADED

record HSMStatus =
  hs_enclaveId :: string
  hs_status :: enclave_state
  hs_fipsLevel :: string
  hs_hardwareAttestationHash :: string
  hs_fuzzyExtractorDerived :: bool
  hs_activeKeysInEnclave :: nat
  hs_uptimeSeconds :: nat
  hs_lastAttestationAt :: int
  hs_provider :: string

fun is_simulation :: "hsm_driver \<Rightarrow> bool" where
  "is_simulation (Simulation s) = True"
| "is_simulation (KMS k) = False"

definition em_dash :: string where
  "em_dash = [CHR 0xE2, CHR 0x80, CHR 0x94]"

definition hsm_getStatus :: "int \<Rightarrow> hsm_driver \<Rightarrow> HSMStatus rnd" where
  "hsm_getStatus now d = rnd_bind generateAttestation (\<lambda>a. rnd_return
     \<lparr>hs_enclaveId = ''enclave-sgx-v6-001'', hs_status = ATTESTED,
      hs_fipsLevel = (if is_simulation d
        then ''NOT_CERTIFIED (Software Simulation '' @ em_dash @ '' Development Only)'' else ''FIPS_140_2_LEVEL_2 (AWS KMS)''),
      hs_hardwareAttestationHash = a, hs_fuzzyExtractorDerived = (\<not> is_simulation d),
      hs_activeKeysInEnclave = 3, hs_uptimeSeconds = 86400, hs_lastAttestationAt = now,
      hs_provider = (if is_simulation d then sim_providerName else kms_providerName)\<rparr>)"

fun driver_zeroize :: "hsm_driver \<Rightarrow> hsm_driver" where
  "driver_zeroize (Simulation s) = Simulation (sim_zeroize s)"
| "driver_zeroize (KMS k) = KMS (kms_zeroize k)"

definition triggerTamperAlert :: "int \<Rightarrow> hsm_driver \<Rightarrow> (HSMStatus \<times> hsm_driver) rnd" where
  "triggerTamperAlert now d =
     rnd_bind (hsm_getStatus now (driver_zeroize d)) (\<lambda>s. rnd_return
       (s\<lparr>hs_status := TAMPER_ALERT, hs_hardwareAttestationHash := zeroed_hash,
          hs_fuzzyExtractorDerived := False, hs_activeKeysInEnclave := 0\<rparr>, driver_zeroize d))"

text \<open>The driver's \<open>resetAndAttest\<close> is not awaited: the status is read after its first part. For the
  software driver that is \<open>zeroize\<close>, for KMS the assignment of the status.\<close>

fun driver_reset_start :: "hsm_driver \<Rightarrow> hsm_driver" where
  "driver_reset_start (Simulation s) = Simulation (sim_zeroize s)"
| "driver_reset_start (KMS k) = KMS (k\<lparr>kh_status := HEALTHY\<rparr>)"

definition hsm_resetAndAttest :: "int \<Rightarrow> hsm_driver \<Rightarrow> (HSMStatus \<times> hsm_driver) rnd" where
  "hsm_resetAndAttest now d =
     rnd_bind (hsm_getStatus now (driver_reset_start d)) (\<lambda>s. rnd_return (s, driver_reset_start d))"

subsection \<open>Lemmas\<close>

lemma secureRandomBytes_length:
  "secureRandomBytes n t = Some (Inr bs, t') \<Longrightarrow> length bs = nat n"
  by (auto simp: secureRandomBytes_def split: if_splits)

lemma slice_append:
  assumes "length a = 16" and "length b = 12"
  shows "slice 0 16 (a @ b @ c) = a" and "slice 16 28 (a @ b @ c) = b" and "drop 28 (a @ b @ c) = c"
  using assms by (auto simp: slice_def)

lemma sim_start_Inr:
  assumes "sim_encrypt_start W d (Some ms) st t = Some (Inr c, t')"
  obtains salt iv where "sh_status st = HEALTHY" and "length salt = 16" and "length iv = 12"
    and "c = salt @ iv @ wc_gcm_encrypt W (deriveAESKey W ms salt) iv d"
proof -
  from assms obtain salt u iv u' where "sh_status st = HEALTHY"
    and "secureRandomBytes 16 t = Some (Inr salt, u)" and "secureRandomBytes 12 u = Some (Inr iv, u')"
    and "c = salt @ iv @ wc_gcm_encrypt W (deriveAESKey W ms salt) iv d"
    by (auto simp: sim_encrypt_start_def master_secret_def result_simps split: if_splits)
  then show thesis using that secureRandomBytes_length [of 16] secureRandomBytes_length [of 12] by force
qed

lemma sim_start_healthy: "sim_encrypt_start W d ms st t = Some (Inr c, t') \<Longrightarrow> sh_status st = HEALTHY"
  by (auto simp: sim_encrypt_start_def result_simps split: if_splits)

lemma sim_encrypt_effect:
  assumes "sim_encryptShare W sid d ms st t = Some (Inr (hx, st'), t')"
  obtains c where "sim_encrypt_start W d ms st t = Some (Inr c, t')" and "sh_status st = HEALTHY"
    and "st' = st\<lparr>sh_encryptedShares := jm_set (sh_encryptedShares st) sid c\<rparr>"
  using assms sim_start_healthy by (fastforce simp: sim_encryptShare_def sim_encrypt_finish_def result_simps)

lemma sim_finish_simps [simp]:
  "sh_status (snd (sim_encrypt_finish sid c st)) = sh_status st"
  "sh_encryptedShares (snd (sim_encrypt_finish sid c st)) = jm_set (sh_encryptedShares st) sid c"
  by (simp_all add: sim_encrypt_finish_def)

lemma sim_reset_rest_Inr:
  "sim_reset_rest st t = Some (Inr st', t') \<Longrightarrow>
   \<exists>a. st' = st\<lparr>sh_status := HEALTHY, sh_attestationHash := a\<rparr>"
  by (auto simp: sim_reset_rest_def result_simps)

lemma sim_step_get:
  assumes "sim_step W e w w'" and "e \<notin> {Encrypted sid, Zeroized, ResetStarted}"
  shows "jm_get (sh_encryptedShares (sw_hsm w')) sid = jm_get (sh_encryptedShares (sw_hsm w)) sid
    \<and> (sh_status (sw_hsm w) = HEALTHY \<longrightarrow> sh_status (sw_hsm w') = HEALTHY)"
  using assms by (induction rule: sim_step.induct) (auto dest!: sim_reset_rest_Inr)

lemma sim_run_get:
  assumes "sim_run W es w w'" and "set es \<inter> {Encrypted sid, Zeroized, ResetStarted} = {}"
  shows "jm_get (sh_encryptedShares (sw_hsm w')) sid = jm_get (sh_encryptedShares (sw_hsm w)) sid
    \<and> (sh_status (sw_hsm w) = HEALTHY \<longrightarrow> sh_status (sw_hsm w') = HEALTHY)"
  using assms
proof (induction rule: sim_run.induct)
  case (run_step e w w' es w'')
  then show ?case using sim_step_get [OF run_step.hyps(1), of sid] by auto
qed simp

text \<open>Neither stored nor in the hands of a suspended call.\<close>

definition share_absent :: "string \<Rightarrow> sim_world \<Rightarrow> bool" where
  "share_absent sid w \<longleftrightarrow> jm_get (sh_encryptedShares (sw_hsm w)) sid = None \<and> sid \<notin> fst ` set (sw_pending w)
     \<and> sid \<notin> fst ` set (sw_reading w)"

fun reads :: "string \<Rightarrow> sim_event \<Rightarrow> bool" where
  "reads sid (DecryptStarted s) = (s = sid)"
| "reads sid (Decrypted s r) = (s = sid)"
| "reads sid e = False"

fun begins_call :: "sim_event \<Rightarrow> bool" where
  "begins_call (EncryptStarted s) = True"
| "begins_call (DecryptStarted s) = True"
| "begins_call e = False"

lemma sim_read_Inr:
  "sim_decrypt_start sid ms st t = Some (Inr (k, c), t') \<Longrightarrow>
     sh_status st = HEALTHY \<and> jm_get (sh_encryptedShares st) sid = Some c"
  by (auto simp: sim_decrypt_start_def result_simps split: if_splits option.splits)

lemma remove1_keys: "x \<notin> fst ` set xs \<Longrightarrow> x \<notin> fst ` set (remove1 y xs)"
  using set_remove1_subset [of y xs] by blast

lemma sim_step_absent:
  assumes "sim_step W e w w'" and "e \<noteq> EncryptStarted sid" and "share_absent sid w"
  shows "share_absent sid w' \<and> \<not> reads sid e"
  using assms
proof (induction rule: sim_step.induct)
  case (step_encrypt s c w)
  then show ?case using remove1_keys [of sid "sw_pending w" "(s, c)"] by (force simp: share_absent_def)
next
  case (step_read s ms w t k c t')
  then show ?case using sim_read_Inr [OF step_read.hyps] by (auto simp: share_absent_def)
next
  case (step_decrypt s k c w)
  then show ?case using remove1_keys [of sid "sw_reading w" "(s, k, c)"] by (force simp: share_absent_def)
qed (auto simp: share_absent_def sim_zeroize_def dest!: sim_reset_rest_Inr)

lemma sim_run_absent:
  assumes "sim_run W es w w'" and "EncryptStarted sid \<notin> set es" and "share_absent sid w"
  shows "share_absent sid w' \<and> (\<forall>e \<in> set es. \<not> reads sid e)"
  using assms
proof (induction rule: sim_run.induct)
  case (run_step e w w' es w'')
  then show ?case using sim_step_absent [OF run_step.hyps(1), of sid] by auto
qed simp

definition dead :: "sim_world \<Rightarrow> bool" where
  "dead w \<longleftrightarrow> sw_resets w = 0 \<and> sh_status (sw_hsm w) = TAMPERED"

lemma sim_step_dead: "sim_step W e w w' \<Longrightarrow> e \<noteq> ResetStarted \<Longrightarrow> dead w \<Longrightarrow> dead w' \<and> \<not> begins_call e"
  by (induction rule: sim_step.induct)
    (auto simp: dead_def sim_zeroize_def dest: sim_read_Inr sim_start_healthy)

lemma sim_run_dead:
  "sim_run W es w w' \<Longrightarrow> ResetStarted \<notin> set es \<Longrightarrow> dead w \<Longrightarrow> dead w' \<and> (\<forall>e \<in> set es. \<not> begins_call e)"
  by (induction rule: sim_run.induct) (auto dest: sim_step_dead)

lemma sim_decrypt_Inr:
  assumes "sim_decryptShare W sid ms st t = Some (Inr p, t')"
  obtains k c where "sim_decrypt_start sid ms st t = Some (Inr (k, c), t')" and "sim_decrypt_finish W k c = Inr p"
  using assms by (fastforce simp: sim_decryptShare_def result_simps rnd_lift_def split: sum.splits)

lemma sim_decrypt_unhealthy: "sh_status st \<noteq> HEALTHY \<Longrightarrow> sim_decryptShare W sid ms st t \<noteq> Some (Inr p, t')"
  by (meson sim_decrypt_Inr sim_read_Inr)

lemma sim_decrypt_stored:
  assumes "gcm_laws W" and "sh_status st = HEALTHY" and "length salt = 16" and "length iv = 12"
    and "jm_get (sh_encryptedShares st) sid = Some (salt @ iv @ wc_gcm_encrypt W (deriveAESKey W ms salt) iv d)"
  shows "sim_decryptShare W sid (Some ms) st u = Some (Inr d, u)"
  by (simp add: sim_decryptShare_def sim_decrypt_start_def sim_decrypt_finish_def master_secret_def rnd_bind_def
      rnd_return_def rnd_lift_def assms(2,5) slice_append [OF assms(3,4)] assms(3,4) gcm_lawsD(1) [OF assms(1)])

lemma sim_decrypt_missing:
  "jm_get (sh_encryptedShares st) sid = None \<Longrightarrow> sim_decryptShare W sid ms st t \<noteq> Some (Inr p, t')"
  by (metis sim_decrypt_Inr sim_read_Inr option.distinct(1))

lemma kms_guard_count [simp]: "kms_guard (st\<lparr>kh_keyCount := k\<rparr>) = kms_guard st"
  by (simp add: kms_guard_def)

lemma buffer_from_hex_bytes: "buffer_from_hex (concat (map byte_hex bs)) = bs"
  using byte_digits_range by (induction bs) (auto simp: byte_hex_eq byte_hex_digits)

subsection \<open>The interface of the drivers\<close>

text \<open>What the enclave relies on of any \<open>HSMDriver\<close>: only a healthy driver stores a share, storing one
  adds at most one key and leaves it healthy, and a wiped driver is not healthy and holds no key.\<close>

locale enclave_driver =
  fixes healthy :: "'s \<Rightarrow> bool" and keys :: "'s \<Rightarrow> nat" and stores :: "'s \<Rightarrow> 's \<Rightarrow> bool" and wipe :: "'s \<Rightarrow> 's"
  assumes stores_healthy: "stores s s' \<Longrightarrow> healthy s" and stores_keeps: "stores s s' \<Longrightarrow> healthy s'"
    and stores_keys: "stores s s' \<Longrightarrow> keys s' \<le> Suc (keys s)"
    and wipe_unhealthy: "\<not> healthy (wipe s)" and wipe_keys: "keys (wipe s) = 0"
begin

definition wiped :: "'s \<Rightarrow> bool" where
  "wiped s \<longleftrightarrow> \<not> healthy s \<and> keys s = 0"

lemma wiped_wipe: "wiped (wipe s)"
  by (simp add: wiped_def wipe_unhealthy wipe_keys)

lemma wiped_stores_nothing: "wiped s \<Longrightarrow> \<not> stores s s'"
  using stores_healthy by (auto simp: wiped_def)

lemma stores_run: "(stores ^^ n) s s' \<Longrightarrow> keys s' \<le> keys s + n \<and> (healthy s \<longrightarrow> healthy s')"
proof (induction n arbitrary: s')
  case (Suc n)
  then obtain u where "(stores ^^ n) s u" "stores u s'" by auto
  then show ?case using Suc.IH [of u] stores_keys [of u s'] stores_keeps [of u s'] by auto
qed auto

end

definition sim_stores :: "webcrypto \<Rightarrow> sim_hsm \<Rightarrow> sim_hsm \<Rightarrow> bool" where
  "sim_stores W st st' \<longleftrightarrow> (\<exists>sid d ms t hx t'. sim_encryptShare W sid d ms st t = Some (Inr (hx, st'), t'))"

definition kms_stores :: "kms \<Rightarrow> kms_hsm \<Rightarrow> kms_hsm \<Rightarrow> bool" where
  "kms_stores K st st' \<longleftrightarrow> (\<exists>sid d hx. kms_encryptShare K sid d st = Inr (hx, st'))"

lemma kms_stores_effect:
  "kms_stores K st st' \<Longrightarrow> kh_status st = HEALTHY \<and> st' = st\<lparr>kh_keyCount := Suc (kh_keyCount st)\<rparr>"
  by (auto simp: kms_stores_def kms_encryptShare_def kms_guard_def result_simps split: if_splits)

interpretation software: enclave_driver "\<lambda>s. sh_status s = HEALTHY" "\<lambda>s. length (sh_encryptedShares s)" "sim_stores W" sim_zeroize
  for W
  by unfold_locales
    (auto simp: sim_stores_def sim_zeroize_def length_jm_set elim!: sim_encrypt_effect)

interpretation aws: enclave_driver "\<lambda>s. kh_status s = HEALTHY" kh_keyCount "kms_stores K" kms_zeroize for K
  by unfold_locales (auto simp: kms_zeroize_def dest!: kms_stores_effect)

text \<open>The facade's driver, which is one or the other.\<close>

fun driver_healthy :: "hsm_driver \<Rightarrow> bool" where
  "driver_healthy (Simulation s) = (sh_status s = HEALTHY)"
| "driver_healthy (KMS k) = (kh_status k = HEALTHY)"

fun driver_keys :: "hsm_driver \<Rightarrow> nat" where
  "driver_keys (Simulation s) = length (sh_encryptedShares s)"
| "driver_keys (KMS k) = kh_keyCount k"

fun driver_stores :: "webcrypto \<Rightarrow> kms \<Rightarrow> hsm_driver \<Rightarrow> hsm_driver \<Rightarrow> bool" where
  "driver_stores W K (Simulation s) (Simulation s') = sim_stores W s s'"
| "driver_stores W K (KMS k) (KMS k') = kms_stores K k k'"
| "driver_stores W K d d' = False"

interpretation enclave: enclave_driver driver_healthy driver_keys "driver_stores W K" driver_zeroize for W K
proof unfold_locales
  fix d d'
  show "driver_stores W K d d' \<Longrightarrow> driver_healthy d"
    by (cases d; cases d') (auto dest: software.stores_healthy aws.stores_healthy)
  show "driver_stores W K d d' \<Longrightarrow> driver_healthy d'"
    by (cases d; cases d') (auto dest: software.stores_keeps aws.stores_keeps)
  show "driver_stores W K d d' \<Longrightarrow> driver_keys d' \<le> Suc (driver_keys d)"
    by (cases d; cases d') (auto dest: software.stores_keys aws.stores_keys)
  show "\<not> driver_healthy (driver_zeroize d)" "driver_keys (driver_zeroize d) = 0"
    by (cases d, simp_all add: software.wipe_unhealthy aws.wipe_unhealthy software.wipe_keys aws.wipe_keys)+
qed

subsection \<open>Properties\<close>

text \<open>A share encrypted by the software driver decrypts to itself under the same master secret, after any
  number of encryptions of other shares begun or finished, and of finishing resets.\<close>

theorem hsm_share_roundtrip:
  assumes "gcm_laws W" and "sim_encryptShare W sid d (Some ms) st t = Some (Inr (hx, sw_hsm w), t')"
    and "sim_run W es w w'" and "set es \<inter> {Encrypted sid, Zeroized, ResetStarted} = {}"
  shows "sim_decryptShare W sid (Some ms) (sw_hsm w') u = Some (Inr d, u)"
proof -
  obtain c where c: "sim_encrypt_start W d (Some ms) st t = Some (Inr c, t')" and h: "sh_status st = HEALTHY"
    and w: "sw_hsm w = st\<lparr>sh_encryptedShares := jm_set (sh_encryptedShares st) sid c\<rparr>"
    by (rule sim_encrypt_effect [OF assms(2)])
  obtain salt iv where "length salt = 16" "length iv = 12"
    and "c = salt @ iv @ wc_gcm_encrypt W (deriveAESKey W ms salt) iv d"
    by (rule sim_start_Inr [OF c])
  then show ?thesis
    using sim_run_get [OF assms(3,4)] h by (intro sim_decrypt_stored [OF assms(1)]) (simp_all add: w)
qed

lemma toy_encrypt_start:
  assumes "sh_status v = HEALTHY"
  shows "\<exists>c. sim_encrypt_start toy_webcrypto d (Some k) v (replicate 28 b) = Some (Inr c, [])"
  using assms by (simp add: sim_encrypt_start_def master_secret_def secureRandomBytes_def rnd_bind_def rnd_return_def)

lemma sim_encryptShare_Inr:
  "sim_encrypt_start W d ms st t = Some (Inr c, t') \<Longrightarrow>
     sim_encryptShare W sid d ms st t = Some (Inr (sim_encrypt_finish sid c st), t')"
  by (simp add: sim_encryptShare_def rnd_bind_def rnd_return_def)

lemma run_encrypt:
  assumes "sim_encrypt_start W d ms (sw_hsm w) t = Some (Inr c, t')"
  shows "sim_run W [EncryptStarted sid, Encrypted sid] w (w\<lparr>sw_hsm := snd (sim_encrypt_finish sid c (sw_hsm w))\<rparr>)"
proof -
  let ?v = "w\<lparr>sw_pending := (sid, c) # sw_pending w\<rparr>"
  have "sim_step W (Encrypted sid) ?v (w\<lparr>sw_hsm := snd (sim_encrypt_finish sid c (sw_hsm w))\<rparr>)"
    using step_encrypt [of sid c ?v W] by simp
  then show ?thesis by (intro run_step [OF step_begin [OF assms]] run_step [OF _ run_done])
qed

theorem hsm_share_roundtrip_witness:
  "\<exists>st hx st' st''. sim_new (replicate 32 0) = Some (Inr st, [])
    \<and> sim_encryptShare toy_webcrypto ''a'' [1, 2] (Some [9]) st (replicate 28 0) = Some (Inr (hx, st'), [])
    \<and> sim_run toy_webcrypto [EncryptStarted ''b'', Encrypted ''b'']
        \<lparr>sw_hsm = st', sw_pending = [], sw_reading = [], sw_resets = 0\<rparr> \<lparr>sw_hsm = st'', sw_pending = [], sw_reading = [], sw_resets = 0\<rparr>
    \<and> sim_decryptShare toy_webcrypto ''a'' (Some [9]) st'' [] = Some (Inr [1, 2], [])"
proof -
  obtain st where st: "sim_new (replicate 32 0) = Some (Inr st, [])" "sh_status st = HEALTHY"
    by (simp add: sim_new_def generateAttestation_def secureRandomBytes_def rnd_bind_def rnd_return_def)
  obtain c where "sim_encrypt_start toy_webcrypto [1, 2] (Some [9]) st (replicate 28 0) = Some (Inr c, [])"
    using toy_encrypt_start [OF st(2)] by blast
  note a = sim_encryptShare_Inr [OF this, of "''a''"]
  define w where "w = \<lparr>sw_hsm = snd (sim_encrypt_finish ''a'' c st), sw_pending = [], sw_reading = [], sw_resets = 0\<rparr>"
  have w: "sim_encrypt_finish ''a'' c st = (hsm_hex c, sw_hsm w)" "sh_status (sw_hsm w) = HEALTHY"
    by (simp_all add: w_def st(2)) (simp add: sim_encrypt_finish_def)
  obtain c2 where "sim_encrypt_start toy_webcrypto [3] (Some [8]) (sw_hsm w) (replicate 28 1) = Some (Inr c2, [])"
    using toy_encrypt_start [OF w(2)] by blast
  note b = run_encrypt [OF this, of "''b''"]
  have "sim_decryptShare toy_webcrypto ''a'' (Some [9])
      (sw_hsm (w\<lparr>sw_hsm := snd (sim_encrypt_finish ''b'' c2 (sw_hsm w))\<rparr>)) [] = Some (Inr [1, 2], [])"
    by (rule hsm_share_roundtrip [OF toy_gcm_laws a [unfolded w(1)] b]) simp
  with st(1) a [unfolded w(1)] b show ?thesis unfolding w_def by auto
qed

text \<open>C28: Zeroization is final for the shares it destroys. Once the store is zeroized, or a reset has
  begun, take a share that no suspended call holds at that moment: no run of the driver that does not
  begin to encrypt it anew ever reads or decrypts it, under any master secret. And without a reset in
  progress or begun later the driver stays tampered, and no call for any share gets past its check: only
  calls that were already suspended finish.\<close>

theorem hsm_zeroize_final:
  assumes "sim_step W e w w'" and "e = Zeroized \<or> e = ResetStarted" and "sim_run W es w' w''"
  shows "(sid \<notin> fst ` set (sw_pending w) \<and> sid \<notin> fst ` set (sw_reading w) \<and> EncryptStarted sid \<notin> set es \<longrightarrow>
        (\<forall>x \<in> set es. \<not> reads sid x) \<and> sim_decryptShare W sid ms (sw_hsm w'') t \<noteq> Some (Inr p, t'))
    \<and> (e = Zeroized \<and> sw_resets w = 0 \<and> ResetStarted \<notin> set es \<longrightarrow>
        sh_status (sw_hsm w'') = TAMPERED \<and> (\<forall>x \<in> set es. \<not> begins_call x)
        \<and> sim_decryptShare W sid ms (sw_hsm w'') t \<noteq> Some (Inr p, t')
        \<and> sim_encryptShare W sid d ms (sw_hsm w'') t \<noteq> Some (Inr r, t'))"
proof (rule conjI; rule impI)
  have z: "sw_hsm w' = sim_zeroize (sw_hsm w)" "sw_pending w' = sw_pending w" "sw_reading w' = sw_reading w"
    using assms(1,2) by (induction rule: sim_step.induct) auto
  show "(\<forall>x \<in> set es. \<not> reads sid x) \<and> sim_decryptShare W sid ms (sw_hsm w'') t \<noteq> Some (Inr p, t')"
    if "sid \<notin> fst ` set (sw_pending w) \<and> sid \<notin> fst ` set (sw_reading w) \<and> EncryptStarted sid \<notin> set es"
  proof -
    have "share_absent sid w'" using that z by (simp add: share_absent_def sim_zeroize_def)
    then have "share_absent sid w'' \<and> (\<forall>x \<in> set es. \<not> reads sid x)" using sim_run_absent [OF assms(3)] that by blast
    then show ?thesis by (simp add: share_absent_def sim_decrypt_missing)
  qed
  assume a: "e = Zeroized \<and> sw_resets w = 0 \<and> ResetStarted \<notin> set es"
  have "dead w'" using assms(1) a by (induction rule: sim_step.induct) (auto simp: dead_def sim_zeroize_def)
  then have t: "sh_status (sw_hsm w'') = TAMPERED" "\<forall>x \<in> set es. \<not> begins_call x"
    using sim_run_dead [OF assms(3)] a by (simp_all add: dead_def)
  have "sim_encryptShare W sid d ms (sw_hsm w'') t \<noteq> Some (Inr r, t')"
    using t by (cases r) (auto elim: sim_encrypt_effect)
  then show "sh_status (sw_hsm w'') = TAMPERED \<and> (\<forall>x \<in> set es. \<not> begins_call x)
      \<and> sim_decryptShare W sid ms (sw_hsm w'') t \<noteq> Some (Inr p, t')
      \<and> sim_encryptShare W sid d ms (sw_hsm w'') t \<noteq> Some (Inr r, t')"
    using t by (simp add: sim_decrypt_unhealthy)
qed

text \<open>A reset, after which the driver is healthy again and stores another share.\<close>

definition toy_world :: sim_world where
  "toy_world = \<lparr>sw_hsm = \<lparr>sh_status = HEALTHY, sh_attestationHash = ''0x'', sh_encryptedShares = [(''a'', replicate 45 1)]\<rparr>,
     sw_pending = [], sw_reading = [], sw_resets = 0\<rparr>"

theorem hsm_zeroize_final_witness:
  "\<exists>w' w''. sim_step toy_webcrypto ResetStarted toy_world w'
     \<and> sim_run toy_webcrypto [ResetFinished, EncryptStarted ''b'', Encrypted ''b''] w' w''
     \<and> sh_status (sw_hsm w'') = HEALTHY \<and> jm_get (sh_encryptedShares (sw_hsm w'')) ''b'' \<noteq> None
     \<and> sim_decryptShare toy_webcrypto ''a'' (Some [9]) (sw_hsm w'') [] \<noteq> Some (Inr [1], [])"
proof -
  let ?z = "sim_zeroize (sw_hsm toy_world)"
  let ?w1 = "toy_world\<lparr>sw_hsm := ?z, sw_resets := Suc (sw_resets toy_world)\<rparr>"
  obtain a where rest: "sim_reset_rest ?z (replicate 32 0) = Some (Inr (?z\<lparr>sh_status := HEALTHY, sh_attestationHash := a\<rparr>), [])"
    by (simp add: sim_reset_rest_def generateAttestation_def secureRandomBytes_def rnd_bind_def rnd_return_def)
  let ?w2 = "?w1\<lparr>sw_hsm := ?z\<lparr>sh_status := HEALTHY, sh_attestationHash := a\<rparr>, sw_resets := 0\<rparr>"
  have start: "sim_step toy_webcrypto ResetStarted toy_world ?w1" by (rule step_start)
  have fin: "sim_step toy_webcrypto ResetFinished ?w1 ?w2"
    by (rule step_finish) (use rest in \<open>simp_all add: toy_world_def\<close>)
  obtain c where "sim_encrypt_start toy_webcrypto [3] (Some [8]) (sw_hsm ?w2) (replicate 28 1) = Some (Inr c, [])"
    using toy_encrypt_start [of "sw_hsm ?w2" "[3]" "[8]" 1] by auto
  note run = run_step [OF fin run_encrypt [OF this, of "''b''"]]
  have "sim_decryptShare toy_webcrypto ''a'' (Some [9])
      (sw_hsm (?w2\<lparr>sw_hsm := snd (sim_encrypt_finish ''b'' c (sw_hsm ?w2))\<rparr>)) [] \<noteq> Some (Inr [1], [])"
    using hsm_zeroize_final [OF start disjI2 [OF refl] run, where sid = "''a''" and ms = "Some [9]" and t = "[]"
        and p = "[1]" and t' = "[]"] by (simp add: toy_world_def)
  moreover have "sh_status (sw_hsm (?w2\<lparr>sw_hsm := snd (sim_encrypt_finish ''b'' c (sw_hsm ?w2))\<rparr>)) = HEALTHY
    \<and> jm_get (sh_encryptedShares (sw_hsm (?w2\<lparr>sw_hsm := snd (sim_encrypt_finish ''b'' c (sw_hsm ?w2))\<rparr>))) ''b'' \<noteq> None"
    by simp
  ultimately show ?thesis using start run by blast
qed

text \<open>A decryption in flight survives a wipe: the bytes it copied are not those \<open>zeroize\<close> overwrites, and
  the call returns the share of a driver that reports \<open>TAMPERED\<close> and holds no key.\<close>

theorem decryption_survives_wipe:
  assumes "sim_decryptShare W sid ms (sw_hsm w) t = Some (Inr d, t')"
  shows "\<exists>w'. sim_run W [DecryptStarted sid, Zeroized, Decrypted sid (Inr d)] w w'
    \<and> sim_getEnclaveStatus (sw_hsm w') = \<lparr>en_status = TAMPERED, en_attestationHash = zeroed_hash,
        en_keySharesEncrypted = 0, en_provider = sim_providerName\<rparr>"
proof (rule sim_decrypt_Inr [OF assms])
  fix k c
  assume "sim_decrypt_start sid ms (sw_hsm w) t = Some (Inr (k, c), t')" and f: "sim_decrypt_finish W k c = Inr d"
  note bg = step_read [OF this(1), of W]
  let ?w1 = "w\<lparr>sw_reading := (sid, k, c) # sw_reading w\<rparr>"
  let ?w2 = "?w1\<lparr>sw_hsm := sim_zeroize (sw_hsm w)\<rparr>"
  have z: "sim_step W Zeroized ?w1 ?w2" using step_zeroize [of W ?w1] by simp
  have e: "sim_step W (Decrypted sid (Inr d)) ?w2 (?w2\<lparr>sw_reading := remove1 (sid, k, c) (sw_reading ?w2)\<rparr>)"
    unfolding f [symmetric] by (rule step_decrypt) simp
  show ?thesis
    by (rule exI, rule conjI, rule run_step [OF bg run_step [OF z run_step [OF e run_done]]])
      (simp add: sim_getEnclaveStatus_def sim_zeroize_def)
qed

theorem decryption_survives_wipe_witness:
  "\<exists>w w'. sim_run toy_webcrypto [DecryptStarted ''a'', Zeroized, Decrypted ''a'' (Inr [1, 2])] w w'
    \<and> en_keySharesEncrypted (sim_getEnclaveStatus (sw_hsm w')) = 0"
proof -
  let ?salt = "replicate 16 (0 :: byte)" and ?iv = "replicate 12 (0 :: byte)"
  let ?w = "\<lparr>sw_hsm = \<lparr>sh_status = HEALTHY, sh_attestationHash = ''0x'', sh_encryptedShares = [(''a'',
      ?salt @ ?iv @ wc_gcm_encrypt toy_webcrypto (deriveAESKey toy_webcrypto [9] ?salt) ?iv [1, 2])]\<rparr>,
    sw_pending = [], sw_reading = [], sw_resets = 0\<rparr>"
  have "sim_decryptShare toy_webcrypto ''a'' (Some [9]) (sw_hsm ?w) [] = Some (Inr [1, 2], [])"
    by (rule sim_decrypt_stored [OF toy_gcm_laws, of _ ?salt ?iv]) (simp_all add: jm_get_def)
  from decryption_survives_wipe [OF this] show ?thesis by fastforce
qed

text \<open>An encryption in flight survives a wipe. The status is checked before the \<open>await\<close> and the share
  stored after it: a driver zeroized in between reports \<open>TAMPERED\<close> and one key, and after a reset begun
  in between the share decrypts.\<close>

theorem encryption_survives_wipe:
  assumes "gcm_laws W" and "sim_encrypt_start W d (Some ms) (sw_hsm w) t = Some (Inr c, t')"
  shows "(\<exists>w'. sim_run W [EncryptStarted sid, Zeroized, Encrypted sid] w w'
        \<and> sim_getEnclaveStatus (sw_hsm w') = \<lparr>en_status = TAMPERED, en_attestationHash = zeroed_hash,
            en_keySharesEncrypted = 1, en_provider = sim_providerName\<rparr>)
    \<and> (\<exists>w'. sim_run W [EncryptStarted sid, ResetStarted, Encrypted sid, ResetFinished] w w'
        \<and> sim_decryptShare W sid (Some ms) (sw_hsm w') u = Some (Inr d, u))"
proof -
  let ?z = "sim_zeroize (sw_hsm w)" and ?ps = "(sid, c) # sw_pending w"
  let ?e = "snd (sim_encrypt_finish sid c ?z)"
  note bg = step_begin [OF assms(2), of sid]
  have z: "sim_step W Zeroized (w\<lparr>sw_pending := ?ps\<rparr>) (w\<lparr>sw_hsm := ?z, sw_pending := ?ps\<rparr>)"
    using step_zeroize [of W "w\<lparr>sw_pending := ?ps\<rparr>"] by (cases w) simp
  have e: "sim_step W (Encrypted sid) (w\<lparr>sw_hsm := ?z, sw_pending := ?ps\<rparr>) (w\<lparr>sw_hsm := ?e\<rparr>)"
    using step_encrypt [of sid c "w\<lparr>sw_hsm := ?z, sw_pending := ?ps\<rparr>" W] by (cases w) simp
  let ?r = "w\<lparr>sw_resets := Suc (sw_resets w)\<rparr>"
  have rs: "sim_step W ResetStarted (w\<lparr>sw_pending := ?ps\<rparr>) (?r\<lparr>sw_hsm := ?z, sw_pending := ?ps\<rparr>)"
    using step_start [of W "w\<lparr>sw_pending := ?ps\<rparr>"] by (cases w) simp
  have re: "sim_step W (Encrypted sid) (?r\<lparr>sw_hsm := ?z, sw_pending := ?ps\<rparr>) (?r\<lparr>sw_hsm := ?e\<rparr>)"
    using step_encrypt [of sid c "?r\<lparr>sw_hsm := ?z, sw_pending := ?ps\<rparr>" W] by (cases w) simp
  obtain a where rest: "sim_reset_rest ?e (replicate 32 0) = Some (Inr (?e\<lparr>sh_status := HEALTHY, sh_attestationHash := a\<rparr>), [])"
    by (simp add: sim_reset_rest_def generateAttestation_def secureRandomBytes_def rnd_bind_def rnd_return_def)
  let ?f = "w\<lparr>sw_hsm := ?e\<lparr>sh_status := HEALTHY, sh_attestationHash := a\<rparr>\<rparr>"
  have rf: "sim_step W ResetFinished (?r\<lparr>sw_hsm := ?e\<rparr>) ?f"
    using step_finish [of "?r\<lparr>sw_hsm := ?e\<rparr>" "replicate 32 0" _ "[]" "sw_resets w" W] rest by (cases w) simp
  have "sim_getEnclaveStatus ?e = \<lparr>en_status = TAMPERED, en_attestationHash = zeroed_hash,
      en_keySharesEncrypted = 1, en_provider = sim_providerName\<rparr>"
    by (simp add: sim_getEnclaveStatus_def sim_encrypt_finish_def sim_zeroize_def jm_set_def)
  moreover have "sim_decryptShare W sid (Some ms) (sw_hsm ?f) u = Some (Inr d, u)"
  proof (rule sim_start_Inr [OF assms(2)])
    fix salt iv
    assume "length salt = 16" "length iv = 12" "c = salt @ iv @ wc_gcm_encrypt W (deriveAESKey W ms salt) iv d"
    then show ?thesis by (intro sim_decrypt_stored [OF assms(1)]) simp_all
  qed
  moreover have "sim_run W [EncryptStarted sid, Zeroized, Encrypted sid] w (w\<lparr>sw_hsm := ?e\<rparr>)"
    by (rule run_step [OF bg run_step [OF z run_step [OF e run_done]]])
  moreover have "sim_run W [EncryptStarted sid, ResetStarted, Encrypted sid, ResetFinished] w ?f"
    by (rule run_step [OF bg run_step [OF rs run_step [OF re run_step [OF rf run_done]]]])
  ultimately show ?thesis by (metis (no_types, lifting) sim_world.select_convs(1) sim_world.update_convs(1) sim_world.surjective)
qed

theorem encryption_survives_wipe_witness:
  "\<exists>w. sim_run toy_webcrypto [EncryptStarted ''a'', Zeroized, Encrypted ''a'']
       \<lparr>sw_hsm = \<lparr>sh_status = HEALTHY, sh_attestationHash = ''0x'', sh_encryptedShares = []\<rparr>, sw_pending = [], sw_reading = [], sw_resets = 0\<rparr> w
    \<and> en_status (sim_getEnclaveStatus (sw_hsm w)) = TAMPERED
    \<and> en_keySharesEncrypted (sim_getEnclaveStatus (sw_hsm w)) = 1"
proof -
  let ?w = "\<lparr>sw_hsm = \<lparr>sh_status = HEALTHY, sh_attestationHash = ''0x'', sh_encryptedShares = []\<rparr>, sw_pending = [], sw_reading = [], sw_resets = 0\<rparr>"
  obtain c where "sim_encrypt_start toy_webcrypto [1] (Some [9]) (sw_hsm ?w) (replicate 28 0) = Some (Inr c, [])"
    using toy_encrypt_start [of "sw_hsm ?w" "[1]" "[9]" 0] by auto
  from encryption_survives_wipe [OF toy_gcm_laws this, of "''a''"] show ?thesis by fastforce
qed

text \<open>The KMS driver returns only what the service returned. A successful \<open>encryptShare\<close> counts one
  key more and returns a blob the service produced for these bytes; if the service decrypts what
  it encrypts, \<open>decryptCiphertext\<close> of that text gives the bytes back; \<open>decryptShare\<close> never
  succeeds; and after \<open>zeroize\<close> every call throws until a reset.\<close>

theorem kms_driver_correct:
  assumes "\<forall>k p c. km_encrypt K k p = Inr (Some c) \<longrightarrow> km_decrypt K k c = Inr (Some p)"
    and "kms_encryptShare K sid d st = Inr (hx, st')" and "d \<noteq> []"
  shows "(\<exists>blob. km_encrypt K (kh_keyId st) d = Inr (Some blob) \<and> blob \<noteq> [] \<and> hx = hsm_hex blob)
    \<and> kh_keyCount st' = Suc (kh_keyCount st)
    \<and> kms_decryptCiphertext K hx st' = Inr d
    \<and> (\<exists>e. kms_decryptShare sid st' = Inl e)
    \<and> (\<exists>e. kms_decryptCiphertext K hx (kms_zeroize st') = Inl e)
    \<and> (\<exists>e. kms_encryptShare K sid d (kms_zeroize st') = Inl e)"
proof -
  from assms(2) obtain blob where g: "kms_guard st = Inr ()"
    and b: "kms_blob ''AWS KMS encryption failed'' (kms_send st (km_encrypt K (kh_keyId st) d)) = Inr blob"
    and hx: "hx = hsm_hex blob" and st': "st' = st\<lparr>kh_keyCount := kh_keyCount st + 1\<rparr>"
    by (auto simp: kms_encryptShare_def result_simps)
  have e: "km_encrypt K (kh_keyId st) d = Inr (Some blob)" "blob \<noteq> []" and cm: "kh_commands st"
    using b by (auto simp: kms_blob_def kms_send_def split: sum.splits option.splits if_splits)
  have z: "kms_guard (kms_zeroize st') = Inl (Error ''AWS KMS HSM is LOCKED or TAMPERED.'')"
    by (simp add: kms_guard_def kms_zeroize_def)
  have "km_decrypt K (kh_keyId st) blob = Inr (Some d)" using assms(1) e by blast
  then have "kms_decryptCiphertext K hx st' = Inr d"
    using assms(3) by (simp add: kms_decryptCiphertext_def g hx buffer_from_hex_bytes kms_blob_def kms_send_def cm st')
  moreover have "\<exists>e. kms_decryptShare sid st' = Inl e"
    using g by (simp add: kms_decryptShare_def st')
  moreover have "\<exists>e. kms_decryptCiphertext K hx (kms_zeroize st') = Inl e"
    by (simp only: kms_decryptCiphertext_def z rbind.simps) blast
  moreover have "\<exists>e. kms_encryptShare K sid d (kms_zeroize st') = Inl e"
    by (simp only: kms_encryptShare_def z rbind.simps) blast
  ultimately show ?thesis using e hx st' by simp
qed

definition toy_kms :: kms where
  "toy_kms = \<lparr>km_encrypt = (\<lambda>k p. Inr (Some (7 # p))), km_decrypt = (\<lambda>k c. Inr (Some (drop 1 c))),
     km_describe = (\<lambda>k. Inr ())\<rparr>"

theorem kms_driver_correct_witness:
  "\<exists>st hx st'. map_sum id kms_sdk_loaded (kms_new ''key'') = Inr st
    \<and> kms_encryptShare toy_kms ''a'' [1, 2] st = Inr (hx, st')
    \<and> kms_decryptCiphertext toy_kms hx st' = Inr [1, 2]"
proof -
  obtain st where st: "map_sum id kms_sdk_loaded (kms_new ''key'') = Inr st" "kms_guard st = Inr ()" "kh_commands st"
    by (simp add: kms_new_def kms_sdk_loaded_def kms_guard_def)
  then obtain hx st' where e: "kms_encryptShare toy_kms ''a'' [1, 2] st = Inr (hx, st')"
    by (simp add: kms_encryptShare_def kms_blob_def kms_send_def toy_kms_def)
  have l: "\<forall>k p c. km_encrypt toy_kms k p = Inr (Some c) \<longrightarrow> km_decrypt toy_kms k c = Inr (Some p)"
    by (auto simp: toy_kms_def)
  show ?thesis using kms_driver_correct [OF l e] e st by blast
qed

text \<open>The facade's status is not the driver's: whatever has happened to the driver, in particular
  right after a tamper alert has destroyed every share, \<open>getStatus\<close> reports \<open>ATTESTED\<close> and three
  active keys, while the driver reports \<open>TAMPERED\<close> and none.\<close>

theorem hsm_status_ignores_driver:
  assumes "triggerTamperAlert now d t = Some (Inr (alert, d'), t')"
    and "hsm_getStatus now' d' t' = Some (Inr s, t'')"
  shows "hs_status alert = TAMPER_ALERT \<and> hs_activeKeysInEnclave alert = 0
    \<and> hs_status s = ATTESTED \<and> hs_activeKeysInEnclave s = 3
    \<and> (case d' of
         Simulation st \<Rightarrow> sim_getEnclaveStatus st = \<lparr>en_status = TAMPERED, en_attestationHash = zeroed_hash,
           en_keySharesEncrypted = 0, en_provider = sim_providerName\<rparr>
       | KMS k \<Rightarrow> kh_status k = TAMPERED \<and> kh_keyCount k = 0)"
  using assms
  by (cases d) (auto simp: triggerTamperAlert_def hsm_getStatus_def result_simps sim_getEnclaveStatus_def
      sim_zeroize_def kms_zeroize_def)

theorem hsm_status_ignores_driver_witness:
  "\<exists>d alert d' s. getHSMDriver ''simulation'' [] (replicate 32 0) = Some (Inr d, [])
    \<and> triggerTamperAlert 5 d (replicate 64 0) = Some (Inr (alert, d'), replicate 32 0)
    \<and> hsm_getStatus 6 d' (replicate 32 0) = Some (Inr s, []) \<and> hs_status s = ATTESTED"
proof -
  obtain d where d: "getHSMDriver ''simulation'' [] (replicate 32 0) = Some (Inr d, [])"
    by (simp add: getHSMDriver_def sim_new_def generateAttestation_def secureRandomBytes_def rnd_bind_def
        rnd_return_def)
  obtain alert d' where a: "triggerTamperAlert 5 d (replicate 64 0) = Some (Inr (alert, d'), replicate 32 0)"
    by (simp add: triggerTamperAlert_def hsm_getStatus_def generateAttestation_def secureRandomBytes_def
        rnd_bind_def rnd_return_def)
  obtain s where s: "hsm_getStatus 6 d' (replicate 32 0) = Some (Inr s, [])"
    by (simp add: hsm_getStatus_def generateAttestation_def secureRandomBytes_def rnd_bind_def rnd_return_def)
  show ?thesis using hsm_status_ignores_driver [OF a s] d a s by blast
qed

end
