(* ===== verification/Serializer.thy ===== *)
theory Serializer
  imports Noble JsMap
begin

section \<open>The binary payload serializer\<close>

text \<open>
  \<^verbatim>\<open>src/lib/network/binary_serializer.ts\<close>. Values are the JavaScript values \<open>pack\<close> distinguishes;
  an object is the list of its own properties in order. Reads outside a \<open>Uint8Array\<close> give
  \<open>undefined\<close>, which bit operations read as 0, and \<open>valueLen\<close> is a signed 32-bit integer, so the
  element loops of the decoder need not advance: they run on fuel, and \<open>None\<close> is "not returned".
\<close>

datatype js_val =
    VUndefined
  | VBool bool
  | VNum int
  | VBig int
  | VBytes bytes
  | VStr string
  | VArr "js_val list"
  | VMap "(string \<times> js_val) list"

text \<open>\<open>VNum\<close> holds the integral numbers; \<open>VUndefined\<close> also stands for the other values \<open>pack\<close> has
  no case for.\<close>

definition MAX_PAYLOAD_SIZE :: int where "MAX_PAYLOAD_SIZE = 1024 * 1024"
definition MAX_FIELD_SIZE :: int where "MAX_FIELD_SIZE = 64 * 1024"
definition MAX_FIELDS :: nat where "MAX_FIELDS = 256"

definition MAGIC :: bytes where "MAGIC = [0x42, 0x46, 0x4D, 0x50]"
definition VERSION :: byte where "VERSION = 1"

definition FT_UINT8 :: byte where "FT_UINT8 = 0x01"
definition FT_UINT16 :: byte where "FT_UINT16 = 0x02"
definition FT_UINT32 :: byte where "FT_UINT32 = 0x03"
definition FT_UINT64 :: byte where "FT_UINT64 = 0x04"
definition FT_BIG_INT :: byte where "FT_BIG_INT = 0x05"
definition FT_BYTES :: byte where "FT_BYTES = 0x06"
definition FT_STRING :: byte where "FT_STRING = 0x07"
definition FT_BOOL :: byte where "FT_BOOL = 0x08"
definition FT_ARRAY :: byte where "FT_ARRAY = 0x09"
definition FT_MAP :: byte where "FT_MAP = 0x0A"

lemmas field_types = FT_UINT8_def FT_UINT16_def FT_UINT32_def FT_UINT64_def FT_BIG_INT_def FT_BYTES_def
  FT_STRING_def FT_BOOL_def FT_ARRAY_def FT_MAP_def

definition ser_throw :: "string \<Rightarrow> 'a result" where
  "ser_throw m = Inl (SerializationError m)"

subsection \<open>Text decoding\<close>

text \<open>\<open>new TextDecoder().decode\<close>: the UTF-8 decoder of the Encoding standard, on the UTF-8 form of
  its output. Ill-formed sequences become U+FFFD, a leading byte order mark is dropped.\<close>

definition utf8_lead :: "byte \<Rightarrow> (nat \<times> byte \<times> byte) option" where
  "utf8_lead b =
     (if b \<le> 0x7F then Some (0, 0x80, 0xBF)
      else if 0xC2 \<le> b \<and> b \<le> 0xDF then Some (1, 0x80, 0xBF)
      else if 0xE0 \<le> b \<and> b \<le> 0xEF
        then Some (2, if b = 0xE0 then 0xA0 else 0x80, if b = 0xED then 0x9F else 0xBF)
      else if 0xF0 \<le> b \<and> b \<le> 0xF4
        then Some (3, if b = 0xF0 then 0x90 else 0x80, if b = 0xF4 then 0x8F else 0xBF)
      else None)"

definition replacement :: bytes where "replacement = [0xEF, 0xBF, 0xBD]"

fun utf8_decode :: "bytes \<Rightarrow> nat \<Rightarrow> byte \<Rightarrow> byte \<Rightarrow> bytes \<Rightarrow> bytes" where
  "utf8_decode pending n lo hi [] = (if n = 0 then [] else replacement)"
| "utf8_decode pending 0 lo hi (b # bs) =
     (case utf8_lead b of
        None \<Rightarrow> replacement @ utf8_decode [] 0 0 0 bs
      | Some (k, lo', hi') \<Rightarrow>
          if k = 0 then b # utf8_decode [] 0 0 0 bs else utf8_decode [b] k lo' hi' bs)"
| "utf8_decode pending (Suc n) lo hi (b # bs) =
     (if b < lo \<or> hi < b then replacement @ utf8_decode [] 0 0 0 (b # bs)
      else if n = 0 then pending @ b # utf8_decode [] 0 0 0 bs
      else utf8_decode (pending @ [b]) n 0x80 0xBF bs)"

definition text_decode :: "bytes \<Rightarrow> string" where
  "text_decode bs =
     bytes_str (utf8_decode [] 0 0 0 (if take 3 bs = [0xEF, 0xBB, 0xBF] then drop 3 bs else bs))"

subsection \<open>Encoding\<close>

text \<open>\<open>(v >> 8) & 0xFF, v & 0xFF\<close>; the shifts wrap to 32 bits first, which keeps these bits.\<close>

definition u16_bytes :: "int \<Rightarrow> bytes" where
  "u16_bytes v = [word_of_int (drop_bit 8 v AND 255), word_of_int (v AND 255)]"

definition u32_bytes :: "int \<Rightarrow> bytes" where
  "u32_bytes v = [word_of_int (drop_bit 24 v AND 255), word_of_int (drop_bit 16 v AND 255),
     word_of_int (drop_bit 8 v AND 255), word_of_int (v AND 255)]"

definition bigIntToBytes :: "int \<Rightarrow> nat \<Rightarrow> bytes" where
  "bigIntToBytes v n = int_be n v"

text \<open>For a number above \<open>0xFFFFFFFF\<close> the code assigns to the constant \<open>big\<close>.\<close>

definition encode_number :: "int \<Rightarrow> (byte \<times> bytes) result" where
  "encode_number v =
     (if v < 0 then ser_throw ''Negative numbers not supported''
      else if v \<le> 0xFF then Inr (FT_UINT8, [word_of_int v])
      else if v \<le> 0xFFFF then Inr (FT_UINT16, u16_bytes v)
      else if v \<le> 0xFFFFFFFF then Inr (FT_UINT32, u32_bytes v)
      else Inl (TypeError ''Assignment to constant variable.''))"

definition field_bytes :: "bytes \<Rightarrow> byte \<Rightarrow> bytes \<Rightarrow> bytes" where
  "field_bytes keyBytes typeByte valueBytes =
     word_of_nat (length keyBytes) # keyBytes @ typeByte # u32_bytes (int (length valueBytes)) @ valueBytes"

fun encodeField :: "string \<Rightarrow> js_val \<Rightarrow> bytes result"
  and encode_value :: "js_val \<Rightarrow> (byte \<times> bytes) result"
  and encode_items :: "js_val list \<Rightarrow> bytes result"
  and encode_entries :: "(string \<times> js_val) list \<Rightarrow> bytes result"
where
  "encodeField key v =
     (if 255 < length (utf8 key) then ser_throw ''Key too long''
      else rbind (encode_value v) (\<lambda>(typeByte, valueBytes). Inr (field_bytes (utf8 key) typeByte valueBytes)))"
| "encode_value (VBool b) = Inr (FT_BOOL, [if b then 1 else 0])"
| "encode_value (VNum n) = encode_number n"
| "encode_value (VBig n) = Inr (FT_BIG_INT, bigIntToBytes n 32)"
| "encode_value (VBytes bs) = Inr (FT_BYTES, bs)"
| "encode_value (VStr s) =
     (if 4096 < length (utf8 s) then ser_throw ''String too long'' else Inr (FT_STRING, utf8 s))"
| "encode_value (VArr vs) = rbind (encode_items vs) (\<lambda>bs. Inr (FT_ARRAY, bs))"
| "encode_value (VMap kvs) = rbind (encode_entries kvs) (\<lambda>bs. Inr (FT_MAP, bs))"
| "encode_value VUndefined = ser_throw ''Unsupported type''"
| "encode_items [] = Inr []"
| "encode_items (v # vs) = rbind (encodeField [] v) (\<lambda>b. rbind (encode_items vs) (\<lambda>bs. Inr (b @ bs)))"
| "encode_entries [] = Inr []"
| "encode_entries ((k, v) # kvs) =
     rbind (encodeField k v) (\<lambda>b. rbind (encode_entries kvs) (\<lambda>bs. Inr (b @ bs)))"

record SerializedPayload =
  sp_bytes :: bytes
  sp_type :: string
  sp_hash :: string

text \<open>The loop over the properties: the count is checked first, then the field is encoded and its
  size checked.\<close>

fun pack_fields :: "nat \<Rightarrow> (string \<times> js_val) list \<Rightarrow> bytes result" where
  "pack_fields fieldCount [] = Inr []"
| "pack_fields fieldCount ((key, v) # rest) =
     (if MAX_FIELDS \<le> fieldCount then ser_throw ''Exceeded max field count''
      else rbind (encodeField key v) (\<lambda>fieldBytes.
        if MAX_FIELD_SIZE < int (length fieldBytes) then ser_throw ''Field exceeds max size''
        else rbind (pack_fields (Suc fieldCount) rest) (\<lambda>bs. Inr (fieldBytes @ bs))))"

text \<open>The payload up to the checksum.\<close>

definition payload_head :: "string \<Rightarrow> nat \<Rightarrow> bytes \<Rightarrow> bytes" where
  "payload_head typ fieldCount body =
     (let totalLen = 4 + 1 + 4 + 1 + length (utf8 typ) + 2 + length body + 4;
          bodyLen = int totalLen - 4 - 1 - 4
      in MAGIC @ VERSION # u32_bytes bodyLen @ word_of_nat (length (utf8 typ)) # utf8 typ
           @ u16_bytes (int fieldCount) @ body)"

definition pack :: "hashes \<Rightarrow> string \<Rightarrow> (string \<times> js_val) list \<Rightarrow> SerializedPayload result" where
  "pack h typ data =
     rbind (pack_fields 0 data) (\<lambda>body.
     if 255 < length (utf8 typ) then ser_throw ''Type string too long''
     else if MAX_PAYLOAD_SIZE < int (4 + 1 + 4 + 1 + length (utf8 typ) + 2 + length body + 4)
     then ser_throw ''Payload exceeds max size''
     else
       let pre = payload_head typ (length data) body;
           hash = h_sha256 h pre
       in Inr \<lparr>sp_bytes = pre @ take 4 hash, sp_type = typ, sp_hash = ''0x'' @ h_bytesToHex h hash\<rparr>)"

subsection \<open>Decoding\<close>

definition byte_at :: "bytes \<Rightarrow> int \<Rightarrow> byte option" where
  "byte_at p i = (if 0 \<le> i \<and> i < int (length p) then Some (p ! nat i) else None)"

definition bits_at :: "bytes \<Rightarrow> int \<Rightarrow> byte" where
  "bits_at p i = (case byte_at p i of None \<Rightarrow> 0 | Some b \<Rightarrow> b)"

text \<open>\<open>p.slice(a, b)\<close>: negative positions count from the end.\<close>

definition js_slice :: "bytes \<Rightarrow> int \<Rightarrow> int \<Rightarrow> bytes" where
  "js_slice p a b =
     (let n = int (length p);
          s = (if a < 0 then max (n + a) 0 else min a n);
          e = (if b < 0 then max (n + b) 0 else min b n)
      in take (nat (e - s)) (drop (nat s) p))"

text \<open>\<open>(p[i] << 24) | (p[i+1] << 16) | (p[i+2] << 8) | p[i+3]\<close>, a signed 32-bit integer.\<close>

definition i32_at :: "bytes \<Rightarrow> int \<Rightarrow> int" where
  "i32_at p i = sint (word_of_int (be_int [bits_at p i, bits_at p (i + 1), bits_at p (i + 2),
     bits_at p (i + 3)]) :: 32 word)"

text \<open>\<open>data[key] = value\<close> on a plain object: \<open>__proto__\<close> is a setter and creates no property.\<close>

definition obj_set :: "(string, js_val) js_map \<Rightarrow> string \<times> js_val \<Rightarrow> (string, js_val) js_map" where
  "obj_set m kv = (if fst kv = ''__proto__'' then m else jm_set m (fst kv) (snd kv))"

definition obj_of :: "(string \<times> js_val) list \<Rightarrow> (string, js_val) js_map" where
  "obj_of kvs = foldl obj_set [] kvs"

text \<open>Computations that may throw or not return.\<close>

definition orbind :: "'a result option \<Rightarrow> ('a \<Rightarrow> 'b result option) \<Rightarrow> 'b result option" where
  "orbind m f = (case m of None \<Rightarrow> None | Some (Inl e) \<Rightarrow> Some (Inl e) | Some (Inr x) \<Rightarrow> f x)"

text \<open>The \<open>switch\<close> on the type byte; \<open>items\<close> runs the element loop on a nested buffer.\<close>

definition decode_value ::
  "(bytes \<Rightarrow> (string \<times> js_val) list result option) \<Rightarrow> byte option \<Rightarrow> bytes \<Rightarrow> js_val result option" where
  "decode_value items ty vb =
     (if ty = Some FT_UINT8 then Some (Inr (case byte_at vb 0 of None \<Rightarrow> VUndefined | Some b \<Rightarrow> VNum (uint b)))
      else if ty = Some FT_UINT16 then Some (Inr (VNum (be_int [bits_at vb 0, bits_at vb 1])))
      else if ty = Some FT_UINT32 then Some (Inr (VNum (i32_at vb 0)))
      else if ty = Some FT_UINT64 then
        Some (if length vb < 8 then Inl (TypeError ''Cannot convert undefined to a BigInt'')
              else Inr (VBig (be_int (take 8 vb))))
      else if ty = Some FT_BIG_INT then Some (Inr (VBig (be_int vb)))
      else if ty = Some FT_BYTES then Some (Inr (VBytes vb))
      else if ty = Some FT_STRING then Some (Inr (VStr (text_decode vb)))
      else if ty = Some FT_BOOL then Some (Inr (VBool (byte_at vb 0 = Some 1)))
      else if ty = Some FT_ARRAY then orbind (items vb) (\<lambda>kvs. Some (Inr (VArr (map snd kvs))))
      else if ty = Some FT_MAP then orbind (items vb) (\<lambda>kvs. Some (Inr (VMap (obj_of kvs))))
      else Some (ser_throw ''Unknown field type''))"

text \<open>At a negative offset the first read is \<open>undefined\<close>, every position after it \<open>NaN\<close>, and the type
  byte \<open>undefined\<close>.\<close>

fun decodeField :: "nat \<Rightarrow> bytes \<Rightarrow> int \<Rightarrow> (string \<times> js_val \<times> int) result option"
  and decode_loop :: "nat \<Rightarrow> bytes \<Rightarrow> int \<Rightarrow> (string \<times> js_val) list result option"
where
  "decodeField 0 p offset = None"
| "decodeField (Suc fuel) p offset =
     (if int (length p) - 6 \<le> offset then Some (ser_throw ''Field header out of bounds'')
      else case byte_at p offset of
        None \<Rightarrow> Some (ser_throw ''Unknown field type'')
      | Some kl \<Rightarrow>
          let o1 = offset + 1; keyLen = uint kl in
          if int (length p) < o1 + keyLen then Some (ser_throw ''Key out of bounds'')
          else
            let key = text_decode (js_slice p o1 (o1 + keyLen));
                o2 = o1 + keyLen;
                typeByte = byte_at p o2;
                valueLen = i32_at p (o2 + 1);
                o3 = o2 + 5
            in
            if int (length p) - 4 < o3 + valueLen then Some (ser_throw ''Value out of bounds'')
            else orbind (decode_value (\<lambda>vb. decode_loop fuel vb 0) typeByte (js_slice p o3 (o3 + valueLen)))
              (\<lambda>v. Some (Inr (key, v, o3 + valueLen))))"
| "decode_loop 0 p offset = None"
| "decode_loop (Suc fuel) p offset =
     (if \<not> offset < int (length p) then Some (Inr [])
      else orbind (decodeField fuel p offset) (\<lambda>(k, v, newOffset).
        orbind (decode_loop fuel p newOffset) (\<lambda>kvs. Some (Inr ((k, v) # kvs)))))"

text \<open>The loop of \<open>unpack\<close>, \<open>fieldCount\<close> times.\<close>

fun unpack_fields :: "nat \<Rightarrow> bytes \<Rightarrow> nat \<Rightarrow> int \<Rightarrow> (string \<times> js_val) list result option" where
  "unpack_fields fuel p 0 offset = Some (Inr [])"
| "unpack_fields fuel p (Suc n) offset =
     orbind (decodeField fuel p offset) (\<lambda>(k, v, newOffset).
     orbind (unpack_fields fuel p n newOffset) (\<lambda>kvs. Some (Inr ((k, v) # kvs))))"

record unpacked =
  up_type :: string
  up_data :: "(string, js_val) js_map"
  up_hash :: string

text \<open>The checks before the fields: sizes, magic, version, length and checksum. Missing bytes of a
  checksum compare unequal to the stored ones.\<close>

definition unpack_checks :: "hashes \<Rightarrow> bytes \<Rightarrow> unit result" where
  "unpack_checks h p =
     (if length p < 12 then ser_throw ''Payload too small''
      else if MAX_PAYLOAD_SIZE < int (length p) then ser_throw ''Payload exceeds max size''
      else if take 4 p \<noteq> MAGIC then ser_throw ''Invalid magic bytes''
      else if p ! 4 \<noteq> VERSION then ser_throw ''Unsupported version''
      else if i32_at p 5 \<noteq> int (length p) - 13 then ser_throw ''Length mismatch''
      else if drop (length p - 4) p \<noteq> take 4 (h_sha256 h (take (length p - 4) p))
      then ser_throw ''CRC mismatch''
      else Inr ())"

definition unpack :: "hashes \<Rightarrow> nat \<Rightarrow> bytes \<Rightarrow> unpacked result option" where
  "unpack h fuel p =
     (case unpack_checks h p of
        Inl e \<Rightarrow> Some (Inl e)
      | Inr _ \<Rightarrow>
          let typeLen = uint (p ! 9); o1 = 10 in
          if int (length p) - 4 < o1 + typeLen then Some (ser_throw ''Type length out of bounds'')
          else
            let typ = text_decode (js_slice p o1 (o1 + typeLen));
                o2 = o1 + typeLen;
                fieldCount = be_int [bits_at p o2, bits_at p (o2 + 1)]
            in orbind (unpack_fields fuel p (nat fieldCount) (o2 + 2)) (\<lambda>kvs.
               Some (Inr \<lparr>up_type = typ, up_data = obj_of kvs,
                 up_hash = ''0x'' @ h_bytesToHex h (h_sha256 h (take (length p - 4) p))\<rparr>)))"

subsection \<open>Reading what was written\<close>

lemma byte_at_append [simp]: "byte_at (pre @ b # post) (int (length pre)) = Some b"
  by (simp add: byte_at_def)

lemma js_slice_append [simp]:
  "js_slice (pre @ x @ post) (int (length pre)) (int (length pre) + int (length x)) = x"
  by (simp add: js_slice_def Let_def)

lemma u32_be: "u32_bytes v = int_be 4 v"
  by (simp add: u32_bytes_def numeral_eq_Suc drop_bit_drop_bit)

lemma u16_be: "u16_bytes v = int_be 2 v"
  by (simp add: u16_bytes_def numeral_eq_Suc drop_bit_drop_bit)

lemma length_u32 [simp]: "length (u32_bytes v) = 4" and length_u16 [simp]: "length (u16_bytes v) = 2"
  by (simp_all add: u32_bytes_def u16_bytes_def)

lemma bits_at_nth: "i < length p \<Longrightarrow> bits_at p (int i) = p ! i"
  by (simp add: bits_at_def byte_at_def)

lemma length_four: "length x = 4 \<Longrightarrow> \<exists>a b c d. x = [a, b, c, d]"
  by (auto simp: numeral_eq_Suc length_Suc_conv)

lemma i32_at_append:
  assumes "length x = 4"
  shows "i32_at (pre @ x @ post) (int (length pre)) = sint (word_of_int (be_int x) :: 32 word)"
proof -
  obtain a b c d where x: "x = [a, b, c, d]"
    using length_four [OF assms] by blast
  have n: "bits_at (pre @ x @ post) (int (length pre) + int k) = x ! k" if "k < 4" for k
    using bits_at_nth [of "length pre + k" "pre @ x @ post"] that assms by (simp add: nth_append)
  show ?thesis
    using n [of 0] n [of 1] n [of 2] n [of 3] by (simp add: i32_at_def x)
qed

lemma sint32_small: "0 \<le> n \<Longrightarrow> n < 2147483648 \<Longrightarrow> sint (word_of_int n :: 32 word) = n"
  by (simp add: signed_take_bit_int_eq_self signed_of_int)

lemma i32_at_u32:
  assumes "n < 2147483648"
  shows "i32_at (pre @ u32_bytes (int n) @ post) (int (length pre)) = int n"
proof -
  have "be_int (u32_bytes (int n)) = int n"
    using assms by (simp add: u32_be be_int_int_be)
  then show ?thesis using assms sint32_small [of "int n"] by (simp add: i32_at_append)
qed

text \<open>The header of a field, wherever it stands: with four bytes or more behind the field, the value
  is decoded from its bytes and the offset moves behind it; with fewer, decoding throws.\<close>

lemma decode_header:
  assumes "length kb < 256" and "length vb < 2147483648"
  shows "decodeField (Suc n) (pre @ field_bytes kb ty vb @ post) (int (length pre)) =
    (if length kb + length vb + length post = 0 then Some (ser_throw ''Field header out of bounds'')
     else if length post < 4 then Some (ser_throw ''Value out of bounds'')
     else orbind (decode_value (\<lambda>vb. decode_loop n vb 0) (Some ty) vb)
       (\<lambda>v. Some (Inr (text_decode kb, v, int (length pre) + int (length (field_bytes kb ty vb))))))"
proof -
  let ?k = "word_of_nat (length kb) :: byte"
  let ?p = "pre @ field_bytes kb ty vb @ post"
  let ?L = "u32_bytes (int (length vb))"
  have kl: "uint ?k = int (length kb)"
    using assms(1) by (simp add: uint_nat unat_of_nat)
  have p1: "?p = pre @ ?k # (kb @ ty # ?L @ vb @ post)"
    and p2: "?p = (pre @ [?k]) @ kb @ (ty # ?L @ vb @ post)"
    and p3: "?p = (pre @ [?k] @ kb) @ ty # (?L @ vb @ post)"
    and p4: "?p = (pre @ [?k] @ kb @ [ty]) @ ?L @ (vb @ post)"
    and p5: "?p = (pre @ [?k] @ kb @ [ty] @ ?L) @ vb @ post"
    by (simp_all add: field_bytes_def)
  have b1: "byte_at ?p (int (length pre)) = Some ?k"
    by (subst p1) simp
  have b2: "js_slice ?p (int (length pre) + 1) (int (length pre) + 1 + int (length kb)) = kb"
    using js_slice_append [of "pre @ [?k]" kb] by (subst p2) (simp add: algebra_simps)
  have b3: "byte_at ?p (int (length pre) + 1 + int (length kb)) = Some ty"
    using byte_at_append [of "pre @ [?k] @ kb" ty] by (subst p3) (simp add: algebra_simps)
  have b4: "i32_at ?p (int (length pre) + 1 + int (length kb) + 1) = int (length vb)"
    using i32_at_u32 [OF assms(2), of "pre @ [?k] @ kb @ [ty]"] by (subst p4) (simp add: algebra_simps)
  have b5: "js_slice ?p (int (length pre) + 1 + int (length kb) + 5)
      (int (length pre) + 1 + int (length kb) + 5 + int (length vb)) = vb"
    using js_slice_append [of "pre @ [?k] @ kb @ [ty] @ ?L" vb] by (subst p5) (simp add: algebra_simps)
  have len: "length ?p = length pre + 6 + length kb + length vb + length post"
    and fl: "length (field_bytes kb ty vb) = 6 + length kb + length vb"
    by (simp_all add: field_bytes_def)
  have nz: "int (length kb) + (int (length post) + int (length vb)) \<le> 0 \<longleftrightarrow> kb = [] \<and> post = [] \<and> vb = []"
    by (auto simp flip: length_0_conv)
  show ?thesis
    unfolding decodeField.simps b1 Let_def option.case kl b2 b3 b4 b5 len fl
    by (auto simp: algebra_simps nz)
qed

text \<open>Values without elements of their own, and what such a value decodes to.\<close>

fun flat :: "js_val \<Rightarrow> bool" where
  "flat (VArr vs) = (vs = [])"
| "flat (VMap kvs) = (kvs = [])"
| "flat _ = True"

fun decoded :: "js_val \<Rightarrow> js_val" where
  "decoded (VNum n) = VNum (if n \<le> 0xFFFF then n else sint (word_of_int n :: 32 word))"
| "decoded (VBig n) = VBig (n mod 2 ^ 256)"
| "decoded (VStr s) = VStr (text_decode (utf8 s))"
| "decoded v = v"

lemma be_two: "bits_at (u16_bytes v) 0 = u16_bytes v ! 0" "bits_at (u16_bytes v) 1 = u16_bytes v ! 1"
  using bits_at_nth [of 0 "u16_bytes v"] bits_at_nth [of 1 "u16_bytes v"] by simp_all

lemma be_u16: "be_int [bits_at (u16_bytes v) 0, bits_at (u16_bytes v) 1] = v mod 65536"
proof -
  have "[u16_bytes v ! 0, u16_bytes v ! 1] = u16_bytes v" by (simp add: u16_bytes_def)
  then show ?thesis by (simp only: be_two) (simp add: u16_be be_int_int_be)
qed

lemma i32_u32_value: "i32_at (u32_bytes v) 0 = sint (word_of_int v :: 32 word)"
proof -
  have "(word_of_int (v mod 4294967296) :: 32 word) = word_of_int v"
    by (simp add: word_of_int_eq_iff take_bit_eq_mod)
  then show ?thesis
    using i32_at_append [of "u32_bytes v" "[]" "[]"] by (simp add: u32_be be_int_int_be)
qed

lemma u_bytes_nonempty [simp]: "u16_bytes v \<noteq> []" "u32_bytes v \<noteq> []"
  by (simp_all add: u16_bytes_def u32_bytes_def)

lemma decode_flat:
  assumes "encode_value v = Inr (ty, vb)" and "flat v" and "0 < n"
  shows "decode_value (\<lambda>vb. decode_loop n vb 0) (Some ty) vb = Some (Inr (decoded v))"
proof (cases v)
  case (VNum k)
  then show ?thesis
    using assms
    by (auto simp: encode_number_def decode_value_def field_types ser_throw_def byte_at_def be_u16
        i32_u32_value uint_word_of_int split: if_splits)
next
  case (VBool b)
  then show ?thesis using assms by (cases b) (auto simp: decode_value_def field_types byte_at_def)
next
  case (VArr vs)
  then show ?thesis
    using assms by (cases n) (auto simp: decode_value_def field_types orbind_def)
next
  case (VMap kvs)
  then show ?thesis
    using assms by (cases n) (auto simp: decode_value_def field_types orbind_def obj_of_def)
qed (use assms in \<open>auto simp: decode_value_def field_types bigIntToBytes_def be_int_int_be ser_throw_def
    split: if_splits\<close>)

subsection \<open>Nested values\<close>

definition ser_error :: "'a result option \<Rightarrow> bool" where
  "ser_error r \<longleftrightarrow> (\<exists>m. r = Some (Inl (SerializationError m)))"

lemma ser_error_throw [simp]: "ser_error (Some (ser_throw m))"
  by (simp add: ser_error_def ser_throw_def)

lemma ser_error_orbind: "ser_error m \<Longrightarrow> ser_error (orbind m f)"
  by (auto simp: ser_error_def orbind_def)

text \<open>A field the decoder steps over or rejects when something follows it.\<close>

definition stepped :: "bytes \<Rightarrow> bool" where
  "stepped b \<longleftrightarrow> (\<exists>kb ty vb. b = field_bytes kb ty vb \<and> length kb < 256 \<and> length vb < 2147483648)
     \<and> (\<forall>n pre post. length b < n \<longrightarrow> 4 \<le> length post \<longrightarrow>
          ser_error (decodeField n (pre @ b @ post) (int (length pre)))
          \<or> (\<exists>k v. decodeField n (pre @ b @ post) (int (length pre))
               = Some (Inr (k, v, int (length pre) + int (length b)))))"

lemma steppedD:
  "stepped b \<Longrightarrow> length b < n \<Longrightarrow> 4 \<le> length post \<Longrightarrow>
     ser_error (decodeField n (pre @ b @ post) (int (length pre)))
     \<or> (\<exists>k v. decodeField n (pre @ b @ post) (int (length pre))
          = Some (Inr (k, v, int (length pre) + int (length b))))"
  unfolding stepped_def by blast

lemma size_items: "w \<in> set vs \<Longrightarrow> size w < size (VArr vs)"
  by (induction vs) auto

lemma size_entries: "(k, w) \<in> set kvs \<Longrightarrow> size w < size (VMap kvs)"
  by (induction kvs) auto

lemma stepped_length: "stepped b \<Longrightarrow> 6 \<le> length b"
  by (auto simp: stepped_def field_bytes_def)

lemma stepped_last:
  assumes "stepped b" and "length b < n"
  shows "ser_error (decodeField n (pre @ b) (int (length pre)))"
proof -
  obtain kb ty vb m where b: "b = field_bytes kb ty vb" "length kb < 256" "length vb < 2147483648"
    and n: "n = Suc m"
    using assms by (cases n) (auto simp: stepped_def)
  show ?thesis using decode_header [OF b(2,3), of m pre ty "[]"] by (simp add: n b(1))
qed

text \<open>The loop over the elements always reaches the last one, which has no trailer behind it.\<close>

lemma decode_loop_fails:
  assumes "bss \<noteq> []" and "\<forall>b \<in> set bss. stepped b" and "Suc (length (concat bss)) < n"
  shows "ser_error (decode_loop n (pre @ concat bss) (int (length pre)))"
  using assms
proof (induction bss arbitrary: n pre)
  case Nil
  then show ?case by simp
next
  case (Cons b bss)
  obtain m where n: "n = Suc m" using Cons.prems(3) by (cases n) auto
  have b: "stepped b" "6 \<le> length b" "b \<noteq> []" using Cons.prems(2) stepped_length [of b] by auto
  have in_range: "int (length pre) < int (length (pre @ concat (b # bss)))" using b(2) by simp
  show ?case
  proof (cases "bss = []")
    case True
    have "ser_error (decodeField m (pre @ b) (int (length pre)))"
      using stepped_last [OF b(1)] Cons.prems(3) True n by simp
    then show ?thesis using True b(2,3) by (simp add: n ser_error_orbind)
  next
    case False
    have "4 \<le> length (concat bss)"
      using False Cons.prems(2) stepped_length [of "hd bss"] by (cases bss) auto
    then consider "ser_error (decodeField m (pre @ b @ concat bss) (int (length pre)))"
      | k v where "decodeField m (pre @ b @ concat bss) (int (length pre))
          = Some (Inr (k, v, int (length pre) + int (length b)))"
      using steppedD [OF b(1), of m "concat bss" pre] Cons.prems(3) n by auto
    then show ?thesis
    proof cases
      case 1
      then show ?thesis using b(2,3) by (simp add: n ser_error_orbind)
    next
      case (2 k v)
      have "ser_error (decode_loop m ((pre @ b) @ concat bss) (int (length (pre @ b))))"
        using Cons.prems b(2) False n by (intro Cons.IH) auto
      then have "ser_error (decode_loop m (pre @ b @ concat bss) (int (length pre) + int (length b)))"
        by simp
      then show ?thesis using 2 b(2,3) by (simp add: n orbind_def [of "Some (Inr _)"] ser_error_orbind)
    qed
  qed
qed

lemma rbind_cases: "rbind m f = Inr y \<Longrightarrow> (\<And>x. m = Inr x \<Longrightarrow> f x = Inr y \<Longrightarrow> P) \<Longrightarrow> P"
  by (cases m) auto

text \<open>A non-empty array or object encodes to the concatenation of its elements.\<close>

lemma encode_items_Inr:
  "encode_items vs = Inr bs \<Longrightarrow> \<exists>bss. list_all2 (\<lambda>v b. encodeField [] v = Inr b) vs bss \<and> bs = concat bss"
proof (induction vs arbitrary: bs)
  case Nil
  then show ?case by simp
next
  case (Cons v vs)
  then obtain b c where "encodeField [] v = Inr b" "encode_items vs = Inr c" "bs = b @ c"
    by (auto simp del: encodeField.simps elim!: rbind_cases)
  moreover obtain bss where "list_all2 (\<lambda>v b. encodeField [] v = Inr b) vs bss" "c = concat bss"
    using Cons.IH calculation(2) by blast
  ultimately have "list_all2 (\<lambda>v b. encodeField [] v = Inr b) (v # vs) (b # bss) \<and> bs = concat (b # bss)"
    by (simp del: encodeField.simps)
  then show ?case by blast
qed

lemma encode_entries_Inr:
  "encode_entries kvs = Inr bs \<Longrightarrow>
     \<exists>bss. list_all2 (\<lambda>(k, v) b. encodeField k v = Inr b) kvs bss \<and> bs = concat bss"
proof (induction kvs arbitrary: bs)
  case Nil
  then show ?case by simp
next
  case (Cons kv kvs)
  obtain k v where kv: "kv = (k, v)" by force
  from Cons.prems obtain b c where "encodeField k v = Inr b" "encode_entries kvs = Inr c" "bs = b @ c"
    by (auto simp: kv simp del: encodeField.simps elim!: rbind_cases)
  moreover obtain bss where "list_all2 (\<lambda>(k, v) b. encodeField k v = Inr b) kvs bss" "c = concat bss"
    using Cons.IH calculation(2) by blast
  ultimately have "list_all2 (\<lambda>(k, v) b. encodeField k v = Inr b) (kv # kvs) (b # bss) \<and> bs = concat (b # bss)"
    by (simp add: kv del: encodeField.simps)
  then show ?case by blast
qed

lemma nested_bytes:
  assumes "encode_value v = Inr (ty, vb)" and "\<not> flat v"
  shows "(ty = FT_ARRAY \<or> ty = FT_MAP) \<and> (\<exists>kvs bss. kvs \<noteq> []
    \<and> list_all2 (\<lambda>(k, v) b. encodeField k v = Inr b) kvs bss \<and> vb = concat bss
    \<and> (\<forall>(k, w) \<in> set kvs. size w < size v))"
proof (cases v)
  case (VArr vs)
  then obtain bss where "list_all2 (\<lambda>v b. encodeField [] v = Inr b) vs bss" "vb = concat bss" "ty = FT_ARRAY"
    using assms encode_items_Inr by (auto simp del: encodeField.simps elim!: rbind_cases)
  moreover have "size w < size v" if "w \<in> set vs" for w
    using size_items [OF that] by (simp add: VArr)
  ultimately show ?thesis
    using assms(2) VArr
    by (intro conjI exI [where x = "map (Pair []) vs"] exI [where x = bss])
      (auto simp del: encodeField.simps simp: list_all2_map1)
next
  case (VMap kvs)
  then obtain bss where "list_all2 (\<lambda>(k, v) b. encodeField k v = Inr b) kvs bss" "vb = concat bss" "ty = FT_MAP"
    using assms encode_entries_Inr by (auto simp del: encodeField.simps elim!: rbind_cases)
  moreover have "size w < size v" if "(k, w) \<in> set kvs" for k w
    using size_entries [OF that] by (simp add: VMap)
  ultimately show ?thesis
    using assms(2) VMap
    by (intro conjI exI [where x = kvs] exI [where x = bss]) (auto simp del: encodeField.simps)
qed (use assms(2) in auto)

lemma encodeField_Inr:
  "encodeField k v = Inr b \<longleftrightarrow> length k < 256
     \<and> (\<exists>ty vb. encode_value v = Inr (ty, vb) \<and> b = field_bytes (utf8 k) ty vb)"
  by (auto simp: ser_throw_def result_simps)

declare encodeField.simps [simp del]

lemma length_field_bytes [simp]: "length (field_bytes kb ty vb) = 6 + length kb + length vb"
  by (simp add: field_bytes_def)

definition rejected :: "bytes \<Rightarrow> bool" where
  "rejected b \<longleftrightarrow> (\<forall>n pre post. length b < n \<longrightarrow> ser_error (decodeField n (pre @ b @ post) (int (length pre))))"

lemma decode_flat_field:
  assumes "encodeField k v = Inr b" and "flat v" and "length b < 2147483648" and "length b < n"
    and "4 \<le> length post"
  shows "decodeField n (pre @ b @ post) (int (length pre))
    = Some (Inr (text_decode (utf8 k), decoded v, int (length pre) + int (length b)))"
proof -
  obtain ty vb where v: "encode_value v = Inr (ty, vb)" and b: "b = field_bytes (utf8 k) ty vb"
    and k: "length k < 256"
    using assms(1) by (auto simp: encodeField_Inr)
  obtain m where n: "n = Suc m" "0 < m" using assms(4) b by (cases n) auto
  have d: "decode_value (\<lambda>vb. decode_loop m vb 0) (Some ty) vb = Some (Inr (decoded v))"
    by (rule decode_flat [OF v assms(2) n(2)])
  have l: "length (utf8 k) < 256" "length vb < 2147483648" "\<not> length post < 4"
    "length (utf8 k) + length vb + length post \<noteq> 0"
    using assms(3,5) k b by auto
  show ?thesis
    unfolding n(1) b decode_header [OF l(1,2)] if_not_P [OF l(4)] if_not_P [OF l(3)] d
    by (simp add: orbind_def)
qed

lemma encoded_stepped:
  assumes "encodeField k v = Inr b" and "length b < 2147483648"
  shows "stepped b \<and> (\<not> flat v \<longrightarrow> rejected b)"
  using assms
proof (induction "size v" arbitrary: k v b rule: less_induct)
  case less
  obtain ty vb where v: "encode_value v = Inr (ty, vb)" and b: "b = field_bytes (utf8 k) ty vb"
    and k: "length k < 256"
    using less.prems(1) by (auto simp: encodeField_Inr)
  have l: "length (utf8 k) < 256" "length vb < 2147483648" using less.prems(2) k b by auto
  show ?case
  proof (cases "flat v")
    case True
    then have "stepped b"
      unfolding stepped_def using decode_flat_field [OF less.prems(1) True less.prems(2)] b l by blast
    with True show ?thesis by simp
  next
    case False
    obtain kvs bss where ty: "ty = FT_ARRAY \<or> ty = FT_MAP" and ne: "kvs \<noteq> []"
      and enc: "list_all2 (\<lambda>(k, v) b. encodeField k v = Inr b) kvs bss" and vb: "vb = concat bss"
      and sz: "\<forall>(k, w) \<in> set kvs. size w < size v"
      using nested_bytes [OF v False] by blast
    have le: "length c \<le> length vb" if "c \<in> set bss" for c
      using that unfolding vb by (induction bss) auto
    have st: "\<forall>c \<in> set bss. stepped c"
    proof
      fix c assume c: "c \<in> set bss"
      then obtain k' w where kw: "(k', w) \<in> set kvs" "encodeField k' w = Inr c"
        using enc by (auto simp: list_all2_conv_all_nth in_set_conv_nth split: prod.splits) (metis nth_mem prod.collapse)
      show "stepped c" using less.hyps [of w k' c] kw sz le [OF c] l(2) by fastforce
    qed
    have bne: "bss \<noteq> []" using ne enc by auto
    have rej: "ser_error (decodeField n (pre @ b @ post) (int (length pre)))" if n: "length b < n" for n pre post
    proof -
      obtain m where m: "n = Suc m" "Suc (length vb) < m" using n b by (cases n) auto
      have e: "ser_error (decode_loop m vb 0)"
        using decode_loop_fails [OF bne st, of m "[]"] m(2) by (simp add: vb)
      have "ser_error (decode_value (\<lambda>vb. decode_loop m vb 0) (Some ty) vb)"
        using ty e by (auto simp: decode_value_def field_types ser_error_orbind)
      then show ?thesis
        unfolding m(1) b decode_header [OF l] by (simp add: ser_error_orbind)
    qed
    then have "stepped b" unfolding stepped_def using b l by blast
    with rej show ?thesis by (simp add: rejected_def)
  qed
qed

subsection \<open>Whole payloads\<close>

definition encoded_fields :: "(string \<times> js_val) list \<Rightarrow> bytes list \<Rightarrow> bool" where
  "encoded_fields data bss \<longleftrightarrow>
     list_all2 (\<lambda>(k, v) b. encodeField k v = Inr b \<and> length b \<le> 65536) data bss"

lemma pack_fields_Inr:
  assumes "pack_fields n data = Inr body"
  shows "(data = [] \<or> n + length data \<le> 256) \<and> (\<exists>bss. encoded_fields data bss \<and> body = concat bss)"
  using assms
proof (induction n data arbitrary: body rule: pack_fields.induct)
  case (1 n)
  then show ?case by (simp add: encoded_fields_def)
next
  case (2 n key v rest)
  from "2.prems" obtain b c where n: "n < 256" and b: "encodeField key v = Inr b" "length b \<le> 65536"
    and c: "pack_fields (Suc n) rest = Inr c" "body = b @ c"
    by (auto simp: ser_throw_def MAX_FIELDS_def MAX_FIELD_SIZE_def split: if_splits elim!: rbind_cases)
  with "2.IH" [of b c] obtain bss where "rest = [] \<or> Suc n + length rest \<le> 256" "encoded_fields rest bss"
    "c = concat bss"
    by (auto simp: MAX_FIELDS_def MAX_FIELD_SIZE_def)
  with n b c show ?case
    by (intro conjI exI [where x = "b # bss"]) (auto simp: encoded_fields_def)
qed

lemma unpack_fields_flat:
  assumes "encoded_fields data bss" and "\<forall>(k, v) \<in> set data. flat v"
    and "65536 < fuel" and "4 \<le> length post"
  shows "unpack_fields fuel (pre @ concat bss @ post) (length data) (int (length pre))
    = Some (Inr (map (\<lambda>(k, v). (text_decode (utf8 k), decoded v)) data))"
  using assms
proof (induction data arbitrary: bss pre)
  case Nil
  then show ?case by simp
next
  case (Cons kv data)
  obtain k v where kv: "kv = (k, v)" by force
  obtain b cs where bss: "bss = b # cs" and b: "encodeField k v = Inr b" "length b \<le> 65536"
    and cs: "encoded_fields data cs"
    using Cons.prems(1) by (auto simp: encoded_fields_def list_all2_Cons1 kv)
  have d: "decodeField fuel (pre @ b @ concat cs @ post) (int (length pre))
      = Some (Inr (text_decode (utf8 k), decoded v, int (length pre) + int (length b)))"
    using Cons.prems(2-4) b by (intro decode_flat_field) (auto simp: kv)
  have "unpack_fields fuel ((pre @ b) @ concat cs @ post) (length data) (int (length (pre @ b)))
      = Some (Inr (map (\<lambda>(k, v). (text_decode (utf8 k), decoded v)) data))"
    using Cons.prems cs by (intro Cons.IH) auto
  then show ?case by (simp add: bss kv d orbind_def)
qed

lemma unpack_fields_nested:
  assumes "encoded_fields data bss" and "(k, v) \<in> set data" and "\<not> flat v"
    and "65536 < fuel" and "4 \<le> length post"
  shows "ser_error (unpack_fields fuel (pre @ concat bss @ post) (length data) (int (length pre)))"
  using assms
proof (induction data arbitrary: bss pre)
  case Nil
  then show ?case by simp
next
  case (Cons kv data)
  obtain k' v' where kv: "kv = (k', v')" by force
  obtain b cs where bss: "bss = b # cs" and b: "encodeField k' v' = Inr b" "length b \<le> 65536"
    and cs: "encoded_fields data cs"
    using Cons.prems(1) by (auto simp: encoded_fields_def list_all2_Cons1 kv)
  have st: "\<not> flat v' \<longrightarrow> rejected b" using encoded_stepped [OF b(1)] b(2) by simp
  show ?case
  proof (cases "flat v'")
    case True
    then have "(k, v) \<in> set data" using Cons.prems(2,3) kv by auto
    then have "ser_error (unpack_fields fuel ((pre @ b) @ concat cs @ post) (length data) (int (length (pre @ b))))"
      using Cons.prems(3-5) cs by (intro Cons.IH) auto
    moreover have "decodeField fuel (pre @ b @ concat cs @ post) (int (length pre))
        = Some (Inr (text_decode (utf8 k'), decoded v', int (length pre) + int (length b)))"
      using Cons.prems(4,5) b True by (intro decode_flat_field) auto
    ultimately show ?thesis by (simp add: bss orbind_def [of "Some (Inr _)"] ser_error_orbind)
  next
    case False
    then show ?thesis
      using st b(2) Cons.prems(4) by (simp add: rejected_def bss ser_error_orbind)
  qed
qed

lemma pack_Inr:
  assumes "pack h typ data = Inr p"
  shows "\<exists>bss. encoded_fields data bss \<and> length data \<le> 256 \<and> length typ < 256
    \<and> 16 + length typ + length (concat bss) \<le> 1048576
    \<and> sp_bytes p = payload_head typ (length data) (concat bss)
        @ take 4 (h_sha256 h (payload_head typ (length data) (concat bss)))
    \<and> sp_hash p = ''0x'' @ h_bytesToHex h (h_sha256 h (payload_head typ (length data) (concat bss)))"
proof -
  from assms obtain body where "pack_fields 0 data = Inr body" "length typ < 256"
    "16 + length typ + length body \<le> 1048576"
    "sp_bytes p = payload_head typ (length data) body @ take 4 (h_sha256 h (payload_head typ (length data) body))"
    "sp_hash p = ''0x'' @ h_bytesToHex h (h_sha256 h (payload_head typ (length data) body))"
    by (auto simp: pack_def ser_throw_def MAX_PAYLOAD_SIZE_def Let_def split: if_splits elim!: rbind_cases)
  with pack_fields_Inr [of 0 data body] show ?thesis by auto
qed

text \<open>The values that come back as they went in.\<close>

fun faithful :: "js_val \<Rightarrow> bool" where
  "faithful (VNum n) = (0 \<le> n \<and> n < 2147483648)"
| "faithful (VBig n) = (0 \<le> n \<and> n < 2 ^ 256)"
| "faithful (VStr s) = (text_decode (utf8 s) = s)"
| "faithful (VArr vs) = (vs = [])"
| "faithful (VMap kvs) = (kvs = [])"
| "faithful VUndefined = False"
| "faithful _ = True"

lemma faithful_decoded: "faithful v \<Longrightarrow> flat v \<and> decoded v = v"
  by (cases v) (auto simp: sint32_small)

lemma obj_of_append: "obj_of (kvs @ [kv]) = obj_set (obj_of kvs) kv"
  by (simp add: obj_of_def)

lemma obj_of_distinct:
  "distinct (map fst kvs) \<Longrightarrow> ''__proto__'' \<notin> fst ` set kvs \<Longrightarrow> obj_of kvs = kvs"
proof (induction kvs rule: rev_induct)
  case Nil
  then show ?case by (simp add: obj_of_def)
next
  case (snoc kv kvs)
  have "AList.update (fst kv) (snd kv) kvs = kvs @ [kv]" if "fst kv \<notin> fst ` set kvs"
    using that by (induction kvs) auto
  then show ?case using snoc by (auto simp: obj_of_append obj_set_def jm_set_def)
qed

lemma text_decode_ascii: "(\<And>c. c \<in> set s \<Longrightarrow> (of_char c :: nat) < 128) \<Longrightarrow> text_decode (utf8 s) = s"
proof -
  assume a: "\<And>c. c \<in> set s \<Longrightarrow> (of_char c :: nat) < 128"
  have b: "b \<le> 0x7F" if "b \<in> set (utf8 s)" for b
  proof -
    obtain c where "c \<in> set s" "b = of_nat (of_char c)" using \<open>b \<in> set (utf8 s)\<close> by (auto simp: utf8_def)
    then show ?thesis using a [of c] by (simp only: word_le_nat_alt unat_char_byte) simp
  qed
  have d: "utf8_decode [] 0 l u bs = bs" if "\<And>b. b \<in> set bs \<Longrightarrow> b \<le> (0x7F :: byte)" for bs l u
    using that by (induction bs arbitrary: l u) (auto simp: utf8_lead_def)
  have "take 3 (utf8 s) \<noteq> [0xEF, 0xBB, 0xBF]"
  proof
    assume "take 3 (utf8 s) = [0xEF, 0xBB, 0xBF]"
    then have "0xEF \<in> set (utf8 s)" by (metis in_set_takeD list.set_intros(1))
    with b show False by fastforce
  qed
  then show ?thesis using d [OF b] by (simp add: text_decode_def)
qed

text \<open>What the checks read of a payload whose length field was written for \<open>n\<close> bytes: the length field
  counts the checksum, so it is never the one expected.\<close>

definition framed :: "bytes \<Rightarrow> nat \<Rightarrow> bool" where
  "framed p n \<longleftrightarrow> take 4 p = MAGIC \<and> p ! 4 = VERSION \<and> i32_at p 5 = int n - 9
     \<and> 9 \<le> length p \<and> length p \<le> n \<and> n \<le> 1048576"

lemma framed_checks:
  "framed p n \<Longrightarrow> unpack_checks h p =
    Inl (SerializationError (if length p < 12 then ''Payload too small'' else ''Length mismatch''))"
  by (simp add: framed_def unpack_checks_def MAX_PAYLOAD_SIZE_def ser_throw_def)

lemma packed_framed:
  assumes hash: "\<forall>x. length (h_sha256 h x) = 32" and "pack h typ data = Inr p"
  shows "framed (sp_bytes p) (length (sp_bytes p)) \<and> 16 \<le> length (sp_bytes p)"
proof -
  obtain body where size: "16 + length typ + length body \<le> 1048576"
    and p: "sp_bytes p = payload_head typ (length data) body
        @ take 4 (h_sha256 h (payload_head typ (length data) body))"
    using pack_Inr [OF assms(2)] by blast
  define bl where "bl = 7 + length typ + length body"
  define rest where "rest = word_of_nat (length typ) # utf8 typ @ u16_bytes (int (length data)) @ body
    @ take 4 (h_sha256 h (payload_head typ (length data) body))"
  have P: "sp_bytes p = (MAGIC @ [VERSION]) @ u32_bytes (int bl) @ rest"
    by (simp add: p payload_head_def Let_def bl_def rest_def algebra_simps)
  have len: "length (sp_bytes p) = 16 + length typ + length body"
    unfolding P using hash by (simp add: rest_def MAGIC_def)
  have "i32_at (sp_bytes p) (int (length (MAGIC @ [VERSION]))) = int bl"
    unfolding P using size by (intro i32_at_u32) (simp add: bl_def)
  then have l: "i32_at (sp_bytes p) 5 = int bl" by (simp add: MAGIC_def)
  have m: "take 4 (sp_bytes p) = MAGIC" "sp_bytes p ! 4 = VERSION" by (simp_all add: P MAGIC_def)
  show ?thesis
    using size by (simp add: framed_def m l len bl_def)
qed

lemma packed_length_field:
  assumes "\<forall>x. length (h_sha256 h x) = 32" and "pack h typ data = Inr p"
  shows "unpack_checks h (sp_bytes p) = Inl (SerializationError ''Length mismatch'')"
  using packed_framed [OF assms] framed_checks [of "sp_bytes p" _ h] by fastforce

subsection \<open>Properties\<close>

text \<open>C6: No payload survives the trip: \<open>unpack\<close> rejects every payload \<open>pack\<close> returns, whatever the
  type, the values and the hash function. \<open>pack\<close> writes a length that still counts the checksum,
  \<open>unpack\<close> expects one that does not.\<close>

theorem unpack_rejects_pack:
  assumes "\<forall>x. length (h_sha256 h x) = 32" and "pack h typ data = Inr p"
  shows "unpack h fuel (sp_bytes p) = Some (Inl (SerializationError ''Length mismatch''))"
  by (simp add: unpack_def packed_length_field [OF assms])

theorem unpack_rejects_pack_witness:
  "\<exists>p. pack toy_hashes ''t'' [(''a'', VBool True)] = Inr p
    \<and> unpack toy_hashes 9 (sp_bytes p) = Some (Inl (SerializationError ''Length mismatch''))"
proof -
  obtain p where p: "pack toy_hashes ''t'' [(''a'', VBool True)] = Inr p"
    by (simp add: pack_def encodeField.simps field_bytes_def MAX_FIELDS_def
        MAX_FIELD_SIZE_def MAX_PAYLOAD_SIZE_def ser_throw_def Let_def)
  have "\<forall>x. length (h_sha256 toy_hashes x) = 32" by (simp add: toy_hashes_def toy_hash_def)
  from unpack_rejects_pack [OF this p] p show ?thesis by blast
qed

text \<open>C22: Fields of flat values (no array or object with elements): the loop of \<open>unpack\<close>, run over the
  fields \<open>pack\<close> writes with at least four bytes behind them, returns within the stated fuel one key and
  value per field, in order, and of each value what \<open>decoded\<close> says: a number from 2^31 comes back
  negative, a bigint modulo 2^256, a text decoded. So the fields come back as they were when the numbers
  are below 2^31, the bigints are natural numbers of at most 256 bits and the keys and texts well formed.\<close>

theorem serializer_fields_roundtrip:
  assumes "pack_fields 0 data = Inr body" and "65536 < fuel" and "4 \<le> length post"
    and "\<forall>(k, v) \<in> set data. flat v"
  shows "unpack_fields fuel (pre @ body @ post) (length data) (int (length pre))
      = Some (Inr (map (\<lambda>(k, v). (text_decode (utf8 k), decoded v)) data))
    \<and> ((\<forall>(k, v) \<in> set data. faithful v \<and> text_decode (utf8 k) = k) \<longrightarrow>
        unpack_fields fuel (pre @ body @ post) (length data) (int (length pre)) = Some (Inr data))"
proof -
  obtain bss where enc: "encoded_fields data bss" "body = concat bss"
    using pack_fields_Inr [OF assms(1)] by blast
  have r: "unpack_fields fuel (pre @ body @ post) (length data) (int (length pre))
      = Some (Inr (map (\<lambda>(k, v). (text_decode (utf8 k), decoded v)) data))"
    using unpack_fields_flat [OF enc(1) assms(4,2,3), of pre] by (simp add: enc(2))
  have "map (\<lambda>(k, v). (text_decode (utf8 k), decoded v)) data = map (\<lambda>kv. kv) data"
    if "\<forall>(k, v) \<in> set data. faithful v \<and> text_decode (utf8 k) = k"
    using that faithful_decoded by (intro map_cong) auto
  with r show ?thesis by simp
qed

theorem serializer_fields_roundtrip_witness:
  "\<exists>body. pack_fields 0 [(''a'', VNum 70000), (''b'', VBool True), (''c'', VBig 5)] = Inr body
    \<and> unpack_fields 65537 ([9] @ body @ [0, 0, 0, 0]) (Suc (Suc (Suc 0))) 1
      = Some (Inr [(''a'', VNum 70000), (''b'', VBool True), (''c'', VBig 5)])"
proof -
  let ?d = "[(''a'', VNum 70000), (''b'', VBool True), (''c'', VBig 5)]"
  obtain body where body: "pack_fields 0 ?d = Inr body"
    by (simp add: encodeField.simps encode_number_def field_bytes_def MAX_FIELDS_def
        MAX_FIELD_SIZE_def bigIntToBytes_def ser_throw_def)
  have t: "\<forall>(k, v) \<in> set ?d. faithful v \<and> text_decode (utf8 k) = k"
    using text_decode_ascii [of "''a''"] text_decode_ascii [of "''b''"] text_decode_ascii [of "''c''"] by simp
  have fl: "\<forall>(k, v) \<in> set ?d. flat v" by simp
  show ?thesis
    using serializer_fields_roundtrip [OF body _ _ fl, of 65537 "[0, 0, 0, 0]" "[9]"] body t
    by (auto simp del: unpack_fields.simps pack_fields.simps)
qed

text \<open>A non-empty array or object encodes, but wherever its field stands in a payload the decoder
  throws a \<open>SerializationError\<close> on it: the bounds check asks for four bytes of checksum also behind
  the last element of a nested buffer, where there is none.\<close>

theorem serializer_nested_never_decodes:
  assumes "encodeField k v = Inr b" and "v = VArr (x # xs) \<or> v = VMap (y # ys)"
    and "length b < 2 ^ 31" and "length b < fuel"
  shows "\<exists>m. decodeField fuel (pre @ b @ post) (int (length pre)) = Some (Inl (SerializationError m))"
proof -
  have "\<not> flat v" using assms(2) by auto
  then have "rejected b" using encoded_stepped [OF assms(1)] assms(3) by simp
  then show ?thesis using assms(4) by (simp add: rejected_def ser_error_def)
qed

theorem serializer_nested_never_decodes_witness:
  "\<exists>b m. encodeField ''a'' (VArr [VBool True]) = Inr b
    \<and> decodeField 100 ([] @ b @ [0, 0, 0, 0]) 0 = Some (Inl (SerializationError m))"
proof -
  obtain b where b: "encodeField ''a'' (VArr [VBool True]) = Inr b" "length b = 14"
    by (simp add: encodeField.simps field_bytes_def)
  show ?thesis
    using serializer_nested_never_decodes [OF b(1), of "VBool True" "[]" "(undefined, undefined)" "[]" 100 "[]" "[0, 0, 0, 0]"] b
    by auto
qed

lemma pack_fields_big:
  "(k, VNum n) \<in> set data \<Longrightarrow> 0xFFFFFFFF < n \<Longrightarrow> \<exists>e. pack_fields m data = Inl e"
proof (induction data arbitrary: m)
  case Nil
  then show ?case by simp
next
  case (Cons kv data)
  obtain k' v where kv: "kv = (k', v)" by force
  show ?case
  proof (cases "kv = (k, VNum n)")
    case True
    then obtain e where "encodeField k (VNum n) = Inl e"
      using Cons.prems(2) by (cases "255 < length k") (auto simp: encodeField.simps encode_number_def ser_throw_def)
    then show ?thesis by (simp add: True ser_throw_def)
  next
    case False
    then obtain e where "pack_fields (Suc m) data = Inl e" using Cons by force
    then show ?thesis by (cases "encodeField k' v") (simp_all add: kv ser_throw_def)
  qed
qed

lemma sint32_big: "2147483648 \<le> n \<Longrightarrow> n \<le> 4294967295 \<Longrightarrow> sint (word_of_int n :: 32 word) = n - 4294967296"
proof -
  assume a: "2147483648 \<le> n" "n \<le> 4294967295"
  have w: "(word_of_int n :: 32 word) = word_of_int (n - 4294967296)"
    by (simp add: word_of_int_eq_iff take_bit_eq_mod mod_diff_right_eq [symmetric, of n])
  have "sint (word_of_int m :: 32 word) = m" if "- 2147483648 \<le> m" "m < 2147483648" for m
    using that by (simp add: signed_of_int signed_take_bit_int_eq_self)
  from this [of "n - 4294967296"] show ?thesis using a unfolding w by linarith
qed

text \<open>The remaining losses of the encoder. A number above 2^32 - 1 makes \<open>pack\<close> throw, so no object
  holding one (a timestamp in milliseconds, for instance) can be sent; a number from 2^31 comes back
  negative; a bigint comes back reduced modulo 2^256.\<close>

theorem serializer_number_limits:
  "((k, VNum n) \<in> set data \<and> 0xFFFFFFFF < n \<longrightarrow> (\<exists>e. pack h typ data = Inl e))
   \<and> (encodeField k (VNum n) = Inr b \<and> 2 ^ 31 \<le> n \<and> length b < fuel \<and> 4 \<le> length post \<longrightarrow>
        decodeField fuel (pre @ b @ post) (int (length pre))
          = Some (Inr (text_decode (utf8 k), VNum (n - 2 ^ 32), int (length pre) + int (length b))))
   \<and> (encodeField k (VBig n) = Inr c \<and> length c < fuel \<and> 4 \<le> length post \<longrightarrow>
        decodeField fuel (pre @ c @ post) (int (length pre))
          = Some (Inr (text_decode (utf8 k), VBig (n mod 2 ^ 256), int (length pre) + int (length c))))"
proof (intro conjI impI; elim conjE)
  assume "(k, VNum n) \<in> set data" "0xFFFFFFFF < n"
  then obtain e where "pack_fields 0 data = Inl e" using pack_fields_big by blast
  then show "\<exists>e. pack h typ data = Inl e" by (simp add: pack_def)
next
  assume a: "encodeField k (VNum n) = Inr b" "2 ^ 31 \<le> n" "length b < fuel" "4 \<le> length post"
  then have n: "n \<le> 0xFFFFFFFF" and l: "length b < 2147483648"
    by (auto simp: encodeField_Inr encode_number_def ser_throw_def split: if_splits)
  have "sint (word_of_int n :: 32 word) = n - 2 ^ 32" using sint32_big a(2) n by simp
  then show "decodeField fuel (pre @ b @ post) (int (length pre))
      = Some (Inr (text_decode (utf8 k), VNum (n - 2 ^ 32), int (length pre) + int (length b)))"
    using decode_flat_field [OF a(1) _ l a(3,4), of pre] a(2) by simp
next
  assume a: "encodeField k (VBig n) = Inr c" "length c < fuel" "4 \<le> length post"
  then have l: "length c < 2147483648" by (auto simp: encodeField_Inr bigIntToBytes_def)
  show "decodeField fuel (pre @ c @ post) (int (length pre))
      = Some (Inr (text_decode (utf8 k), VBig (n mod 2 ^ 256), int (length pre) + int (length c)))"
    using decode_flat_field [OF a(1) _ l a(2,3), of pre] by simp
qed

theorem serializer_number_limits_witness:
  "(\<exists>e. pack toy_hashes ''t'' [(''ts'', VNum 1700000000000)] = Inl e)
   \<and> decodeField 100 ([] @ field_bytes (utf8 ''a'') FT_UINT32 (u32_bytes 2147483648) @ [0, 0, 0, 0]) 0
      = Some (Inr (text_decode (utf8 ''a''), VNum (- 2147483648), 11))"
proof -
  have e: "encodeField ''a'' (VNum 2147483648)
      = Inr (field_bytes (utf8 ''a'') FT_UINT32 (u32_bytes 2147483648))"
    by (simp add: encodeField.simps encode_number_def)
  show ?thesis
    using serializer_number_limits [of "''ts''" 1700000000000 "[(''ts'', VNum 1700000000000)]" toy_hashes "''t''"]
      serializer_number_limits [of "''a''" 2147483648 "[]" toy_hashes "''t''"
        "field_bytes (utf8 ''a'') FT_UINT32 (u32_bytes 2147483648)" 100 "[0, 0, 0, 0]" "[]"] e
    by simp
qed

text \<open>Six bytes suffice to stop a receiver: an element with the empty key, any type but \<open>UINT64\<close>, and the
  length -6, which is minus the size of its own header, so that the next element begins where this
  one did. What follows in the buffer is never reached.\<close>

definition looping_element :: "byte \<Rightarrow> bytes \<Rightarrow> bytes" where
  "looping_element ty rest = [0, ty, 0xFF, 0xFF, 0xFF, 0xFA] @ rest"

definition looping_types :: "byte list" where
  "looping_types = [FT_UINT8, FT_UINT16, FT_UINT32, FT_BIG_INT, FT_BYTES, FT_STRING, FT_BOOL, FT_ARRAY, FT_MAP]"

lemma looping_header:
  "byte_at (looping_element ty rest) 0 = Some 0" "byte_at (looping_element ty rest) 1 = Some ty"
  "i32_at (looping_element ty rest) 2 = - 6" "js_slice (looping_element ty rest) a a = []"
  "js_slice (looping_element ty rest) 6 0 = []"
proof -
  have b: "bits_at (looping_element ty rest) 2 = 0xFF" "bits_at (looping_element ty rest) 3 = 0xFF"
    "bits_at (looping_element ty rest) 4 = 0xFF" "bits_at (looping_element ty rest) 5 = 0xFA"
    by (simp_all add: bits_at_def byte_at_def looping_element_def)
  have v: "sint (word_of_int (be_int [0xFF, 0xFF, 0xFF, 0xFA :: byte]) :: 32 word) = - 6" by code_simp
  show "i32_at (looping_element ty rest) 2 = - 6" using v by (simp add: i32_at_def b)
qed (simp_all add: byte_at_def js_slice_def Let_def looping_element_def)

lemma looping_value:
  assumes "ty \<in> set looping_types" and "items [] = None \<or> (\<exists>kvs. items [] = Some (Inr kvs))"
  shows "decode_value items (Some ty) [] = None \<or> (\<exists>v. decode_value items (Some ty) [] = Some (Inr v))"
  using assms by (auto simp: decode_value_def looping_types_def field_types orbind_def)

lemma looping_step:
  assumes "ty \<in> set looping_types" and "rest \<noteq> []"
  shows "decodeField m (looping_element ty rest) 0 = None
    \<or> (\<exists>k v. decodeField m (looping_element ty rest) 0 = Some (Inr (k, v, 0)))"
proof (cases m)
  case (Suc n)
  have l: "int (length (looping_element ty rest)) = 6 + int (length rest)" "0 < length rest"
    using assms(2) by (simp_all add: looping_element_def)
  have "decode_loop n [] 0 = None \<or> (\<exists>kvs. decode_loop n [] 0 = Some (Inr kvs))" by (cases n) simp_all
  from looping_value [OF assms(1), of "\<lambda>vb. decode_loop n vb 0", OF this] show ?thesis
    using l by (auto simp: Suc looping_header Let_def orbind_def)
qed simp

lemma looping_loop:
  assumes "ty \<in> set looping_types" and "rest \<noteq> []"
  shows "decode_loop fuel (looping_element ty rest) 0 = None"
proof (induction fuel)
  case (Suc fuel)
  have "0 < int (length (looping_element ty rest))" by (simp add: looping_element_def)
  then show ?case using Suc looping_step [OF assms, of fuel] by (auto simp: orbind_def del: decodeField.simps)
qed simp

definition looping_head :: bytes where
  "looping_head = MAGIC @ VERSION # u32_bytes 16 @ 0 # u16_bytes 1
     @ field_bytes [] FT_ARRAY (looping_element FT_UINT8 [0])"

definition looping_payload :: "hashes \<Rightarrow> bytes" where
  "looping_payload h = looping_head @ take 4 (h_sha256 h looping_head)"

text \<open>A field that holds such a buffer, wherever it stands.\<close>

lemma looping_field:
  assumes "ty \<in> set looping_types" and "rest \<noteq> []" and "container \<in> {FT_ARRAY, FT_MAP}" and "length key < 256"
    and "length rest < 2147483642" and "4 \<le> length post"
  shows "decodeField fuel (pre @ field_bytes key container (looping_element ty rest) @ post) (int (length pre)) = None"
proof (cases fuel)
  case (Suc m)
  have l: "length (looping_element ty rest) < 2147483648" using assms(5) by (simp add: looping_element_def)
  have "decode_value (\<lambda>vb. decode_loop m vb 0) (Some container) (looping_element ty rest) = None"
    using assms(3) looping_loop [OF assms(1,2), of m] by (auto simp: decode_value_def field_types orbind_def)
  moreover have "post \<noteq> []" using assms(6) by auto
  ultimately show ?thesis using assms(6) by (simp add: Suc decode_header [OF assms(4) l] orbind_def del: decodeField.simps)
qed simp



end
