(* ===== verification/Transport.thy ===== *)
theory Transport
  imports Serializer SecureMemory
begin

section \<open>The WebSocket transport\<close>

text \<open>
  \<^verbatim>\<open>src/lib/network/transport.ts\<close>: the handlers of \<open>SecureWebSocketTransport\<close> on its state (the
  sockets by peer id, the reconnection timers, the closing flag). The \<open>ws\<close> library is outside: a
  socket is a number, what a handler asks of it is an action in the returned list, its events are
  the handlers' calls, and \<open>is_open\<close> is its \<open>readyState\<close>. The WHATWG URL parser is the parameter
  \<open>url_nodeId\<close> (\<open>new URL(url).searchParams.get('nodeId')\<close>).
\<close>

record TransportConfig =
  tc_nodeId :: string
  tc_listenPort :: nat
  tc_listenHost :: string
  tc_maxPayloadSize :: nat
  tc_maxConnections :: nat
  tc_messageTimeoutMs :: int
  tc_reconnectIntervalMs :: int
  tc_reconnectMaxIntervalMs :: int
  tc_authKey :: bytes

text \<open>The constructor's defaults, for the fields the caller leaves out.\<close>

definition default_config :: "string \<Rightarrow> nat \<Rightarrow> TransportConfig" where
  "default_config nodeId listenPort =
     \<lparr>tc_nodeId = nodeId, tc_listenPort = listenPort, tc_listenHost = ''0.0.0.0'',
      tc_maxPayloadSize = 1024 * 1024, tc_maxConnections = 100, tc_messageTimeoutMs = 30000,
      tc_reconnectIntervalMs = 1000, tc_reconnectMaxIntervalMs = 30000, tc_authKey = replicate 32 0\<rparr>"

type_synonym socket = nat

record transport =
  tr_config :: TransportConfig
  tr_clients :: "(string, socket) js_map"
  tr_reconnectTimers :: "(string, int) js_map"
  tr_isClosing :: bool
  tr_server :: bool
  tr_handler :: bool

definition transport_new :: "TransportConfig \<Rightarrow> transport" where
  "transport_new c = \<lparr>tr_config = c, tr_clients = [], tr_reconnectTimers = [], tr_isClosing = False,
     tr_server = False, tr_handler = False\<rparr>"

datatype action =
    CloseSocket socket nat
  | SendRaw socket bytes
  | EmitAuthFailure string
  | EmitError string js_error
  | Deliver string string "(string, js_val) js_map"
  | OpenSocket string
  | SetTimer string int
  | ClearTimer string
  | TerminateSocket socket
  | Listen string nat nat
  | CloseServer

subsection \<open>Peer ids\<close>

fun hex_pair :: "char \<Rightarrow> char \<Rightarrow> byte option" where
  "hex_pair c d = (case (digit_value c, digit_value d) of
     (Some a, Some b) \<Rightarrow> if a < 16 \<and> b < 16 then Some (word_of_int (16 * a + b)) else None
   | _ \<Rightarrow> None)"

text \<open>\<open>decodeURIComponent\<close>: percent escapes must be complete and form well-formed UTF-8.\<close>

fun pct_decode :: "string \<Rightarrow> bytes option" where
  "pct_decode [] = Some []"
| "pct_decode (c # cs) =
     (if c = CHR ''%'' then
        (case cs of
           d # e # rest \<Rightarrow> (case hex_pair d e of None \<Rightarrow> None | Some b \<Rightarrow> map_option (Cons b) (pct_decode rest))
         | _ \<Rightarrow> None)
      else map_option (append (utf8 [c])) (pct_decode cs))"

definition decodeURIComponent :: "string \<Rightarrow> string result" where
  "decodeURIComponent s =
     (case pct_decode s of
        None \<Rightarrow> Inl (Error ''URI malformed'')
      | Some bs \<Rightarrow> if utf8_decode [] 0 0 0 bs = bs then Inr (bytes_str bs) else Inl (Error ''URI malformed''))"

definition nodeId_key :: string where "nodeId_key = ''nodeId=''"

text \<open>\<open>url.match(/[?&]nodeId=([^&]+)/)\<close>\<close>

fun nodeId_match :: "string \<Rightarrow> string option" where
  "nodeId_match [] = None"
| "nodeId_match (c # cs) =
     (let rest = drop (length nodeId_key) cs in
      if c \<in> {CHR ''?'', CHR ''&''} \<and> startsWith cs nodeId_key \<and> rest \<noteq> [] \<and> hd rest \<noteq> CHR ''&''
      then Some (takeWhile (\<lambda>x. x \<noteq> CHR ''&'') rest)
      else nodeId_match cs)"

definition extractPeerId :: "string \<Rightarrow> string option result" where
  "extractPeerId url =
     (case nodeId_match url of
        None \<Rightarrow> Inr None
      | Some m \<Rightarrow> rbind (decodeURIComponent m) (\<lambda>s. Inr (Some s)))"

definition extractPeerIdFromUrl :: "(string \<Rightarrow> string option result) \<Rightarrow> string \<Rightarrow> string" where
  "extractPeerIdFromUrl url_nodeId url =
     (case url_nodeId url of
        Inl e \<Rightarrow> url
      | Inr None \<Rightarrow> url
      | Inr (Some s) \<Rightarrow> if s = [] then url else s)"

subsection \<open>Authentication\<close>

definition authenticatePayload :: "hashes \<Rightarrow> bytes \<Rightarrow> bytes \<Rightarrow> bytes" where
  "authenticatePayload h authKey bs = bs @ h_hmac_sha256 h authKey bs"

definition verifyAuthentication :: "hashes \<Rightarrow> bytes \<Rightarrow> bytes \<Rightarrow> bool" where
  "verifyAuthentication h authKey d =
     (if length d < 32 then False
      else
        let payload = take (length d - 32) d;
            receivedTag = drop (length d - 32) d
        in constantTimeEqual receivedTag (h_hmac_sha256 h authKey payload))"

subsection \<open>Connections\<close>

definition setupClient :: "string \<Rightarrow> socket \<Rightarrow> transport \<Rightarrow> transport" where
  "setupClient peerId ws st = st\<lparr>tr_clients := jm_set (tr_clients st) peerId ws\<rparr>"

text \<open>\<open>tr_server\<close> and \<open>tr_handler\<close> say whether \<open>server\<close> and \<open>messageHandler\<close> are set.\<close>

definition startServer :: "transport \<Rightarrow> action list \<times> transport" where
  "startServer st =
     ([Listen (tc_listenHost (tr_config st)) (tc_listenPort (tr_config st)) (tc_maxPayloadSize (tr_config st))],
      st\<lparr>tr_server := True\<rparr>)"

definition onMessage :: "transport \<Rightarrow> transport" where
  "onMessage st = st\<lparr>tr_handler := True\<rparr>"

text \<open>The server's \<open>connection\<close> event; an error of \<open>extractPeerId\<close> is thrown out of the listener.\<close>

definition on_connection :: "string \<Rightarrow> socket \<Rightarrow> transport \<Rightarrow> (action list \<times> transport) result" where
  "on_connection url ws st =
     (if tr_isClosing st then Inr ([CloseSocket ws 1001], st)
      else if tc_maxConnections (tr_config st) \<le> length (tr_clients st) then Inr ([CloseSocket ws 1013], st)
      else rbind (extractPeerId url) (\<lambda>peer. case peer of
          None \<Rightarrow> Inr ([CloseSocket ws 1008], st)
        | Some peerId \<Rightarrow>
            if peerId = [] then Inr ([CloseSocket ws 1008], st) else Inr ([], setupClient peerId ws st)))"

text \<open>The \<open>close\<close> event of a socket registered under \<open>peerId\<close>.\<close>

definition on_socket_close :: "string \<Rightarrow> socket \<Rightarrow> transport \<Rightarrow> transport" where
  "on_socket_close peerId ws st = st\<lparr>tr_clients := jm_delete (tr_clients st) peerId\<rparr>"

definition scheduleReconnect ::
  "(string \<Rightarrow> string option result) \<Rightarrow> string \<Rightarrow> transport \<Rightarrow> action list \<times> transport" where
  "scheduleReconnect U peerUrl st =
     (if tr_isClosing st then ([], st)
      else
        let peerId = extractPeerIdFromUrl U peerUrl;
            base = tc_reconnectIntervalMs (tr_config st);
            currentInterval = (if jm_has (tr_reconnectTimers st) peerId then base * 2 else base);
            interval = min currentInterval (tc_reconnectMaxIntervalMs (tr_config st))
        in ([SetTimer peerUrl interval],
            st\<lparr>tr_reconnectTimers := jm_set (tr_reconnectTimers st) peerId interval\<rparr>))"

definition transport_connect ::
  "(string \<Rightarrow> string option result) \<Rightarrow> string \<Rightarrow> transport \<Rightarrow> action list result" where
  "transport_connect U peerUrl st =
     (if tr_isClosing st then Inl (Error ''Transport is closing'')
      else if jm_has (tr_clients st) (extractPeerIdFromUrl U peerUrl) then Inr []
      else Inr [OpenSocket (peerUrl @ ''?nodeId='' @ tc_nodeId (tr_config st))])"

definition on_outbound_open ::
  "(string \<Rightarrow> string option result) \<Rightarrow> string \<Rightarrow> socket \<Rightarrow> transport \<Rightarrow> transport" where
  "on_outbound_open U peerUrl ws st = setupClient (extractPeerIdFromUrl U peerUrl) ws st"

definition on_outbound_close ::
  "(string \<Rightarrow> string option result) \<Rightarrow> string \<Rightarrow> transport \<Rightarrow> action list \<times> transport" where
  "on_outbound_close U peerUrl st =
     scheduleReconnect U peerUrl
       (st\<lparr>tr_clients := jm_delete (tr_clients st) (extractPeerIdFromUrl U peerUrl)\<rparr>)"

text \<open>The \<open>error\<close> event of an outbound socket, and the timeout of an attempt to connect. The caller's
  promise is rejected in both cases; the attempt's own timer is not part of the state.\<close>

definition on_outbound_error ::
  "(string \<Rightarrow> string option result) \<Rightarrow> string \<Rightarrow> transport \<Rightarrow> action list \<times> transport" where
  "on_outbound_error U peerUrl st = scheduleReconnect U peerUrl st"

definition on_connect_timeout :: "socket \<Rightarrow> transport \<Rightarrow> action list \<times> transport" where
  "on_connect_timeout ws st = ([TerminateSocket ws], st)"

text \<open>The \<open>error\<close> event of a socket \<open>setupClient\<close> registered.\<close>

definition on_socket_error :: "string \<Rightarrow> socket \<Rightarrow> js_error \<Rightarrow> transport \<Rightarrow> action list \<times> transport" where
  "on_socket_error peerId ws err st = ([EmitError peerId err, TerminateSocket ws], st)"

definition transport_disconnect :: "string \<Rightarrow> transport \<Rightarrow> action list \<times> transport" where
  "transport_disconnect peerId st =
     ((case jm_get (tr_clients st) peerId of None \<Rightarrow> [] | Some ws \<Rightarrow> [CloseSocket ws 1000])
        @ (if jm_has (tr_reconnectTimers st) peerId then [ClearTimer peerId] else []),
      st\<lparr>tr_clients := jm_delete (tr_clients st) peerId\<rparr>)"

definition getConnectedPeers :: "transport \<Rightarrow> string list" where
  "getConnectedPeers st = jm_keys (tr_clients st)"

definition transport_close :: "transport \<Rightarrow> action list \<times> transport" where
  "transport_close st =
     (map ClearTimer (jm_keys (tr_reconnectTimers st))
        @ map (\<lambda>(peerId, ws). CloseSocket ws 1001) (tr_clients st)
        @ (if tr_server st then [CloseServer] else []),
      st\<lparr>tr_isClosing := True, tr_reconnectTimers := [], tr_clients := []\<rparr>)"

subsection \<open>Messages\<close>

definition transport_send ::
  "hashes \<Rightarrow> (socket \<Rightarrow> bool) \<Rightarrow> string \<Rightarrow> string \<Rightarrow> (string \<times> js_val) list \<Rightarrow> transport \<Rightarrow> action list result" where
  "transport_send h is_open peerId typ payload st =
     (case jm_get (tr_clients st) peerId of
        None \<Rightarrow> Inl (Error (''Peer '' @ peerId @ '' not connected''))
      | Some ws \<Rightarrow>
          if \<not> is_open ws then Inl (Error (''Peer '' @ peerId @ '' not connected''))
          else rbind (pack h typ payload) (\<lambda>serialized.
            Inr [SendRaw ws (authenticatePayload h (tc_authKey (tr_config st)) (sp_bytes serialized))]))"

definition transport_broadcast ::
  "hashes \<Rightarrow> (socket \<Rightarrow> bool) \<Rightarrow> string \<Rightarrow> (string \<times> js_val) list \<Rightarrow> transport \<Rightarrow> action list result" where
  "transport_broadcast h is_open typ payload st =
     rbind (pack h typ payload) (\<lambda>serialized.
     let bs = authenticatePayload h (tc_authKey (tr_config st)) (sp_bytes serialized)
     in Inr (map (\<lambda>(peerId, ws). SendRaw ws bs) (filter (\<lambda>(peerId, ws). is_open ws) (tr_clients st))))"

text \<open>A received message: \<open>None\<close> when deserialization does not return. An exception of
  \<open>handleMessage\<close> is caught by the listener and emitted.\<close>

definition handleMessage ::
  "hashes \<Rightarrow> nat \<Rightarrow> string \<Rightarrow> bytes \<Rightarrow> transport \<Rightarrow> action list result option" where
  "handleMessage h fuel peerId d st =
     (if \<not> verifyAuthentication h (tc_authKey (tr_config st)) d then Some (Inr [EmitAuthFailure peerId])
      else orbind (unpack h fuel (take (length d - 32) d)) (\<lambda>u.
        Some (Inr (if tr_handler st then [Deliver peerId (up_type u) (up_data u)] else []))))"

definition on_message ::
  "hashes \<Rightarrow> nat \<Rightarrow> string \<Rightarrow> socket \<Rightarrow> bytes \<Rightarrow> transport \<Rightarrow> action list option" where
  "on_message h fuel peerId ws d st =
     (if tc_maxPayloadSize (tr_config st) < length d then Some [CloseSocket ws 1009]
      else case handleMessage h fuel peerId d st of
        None \<Rightarrow> None
      | Some (Inl e) \<Rightarrow> Some [EmitError peerId e]
      | Some (Inr acts) \<Rightarrow> Some acts)"

subsection \<open>Lemmas\<close>

lemma verify_iff:
  assumes "\<forall>k x. length (h_hmac_sha256 h k x) = 32"
  shows "verifyAuthentication h key d \<longleftrightarrow> (\<exists>p. d = authenticatePayload h key p)"
proof
  assume v: "verifyAuthentication h key d"
  then have "drop (length d - 32) d = h_hmac_sha256 h key (take (length d - 32) d)"
    by (simp add: verifyAuthentication_def Let_def constantTimeEqual_iff split: if_splits)
  then have "d = authenticatePayload h key (take (length d - 32) d)"
    unfolding authenticatePayload_def by (metis append_take_drop_id)
  then show "\<exists>p. d = authenticatePayload h key p" by blast
next
  assume "\<exists>p. d = authenticatePayload h key p"
  then show "verifyAuthentication h key d"
    using assms by (auto simp: verifyAuthentication_def authenticatePayload_def constantTimeEqual_iff)
qed

text \<open>The number of inbound connections stays within the limit.\<close>

definition within_limit :: "transport \<Rightarrow> bool" where
  "within_limit st \<longleftrightarrow> length (tr_clients st) \<le> tc_maxConnections (tr_config st)"

datatype inbound = Connects string socket | Closes string socket | Disconnects string | Shutdown

fun inbound_step :: "inbound \<Rightarrow> transport \<Rightarrow> transport" where
  "inbound_step (Connects url ws) st = (case on_connection url ws st of Inl e \<Rightarrow> st | Inr (acts, st') \<Rightarrow> st')"
| "inbound_step (Closes peerId ws) st = on_socket_close peerId ws st"
| "inbound_step (Disconnects peerId) st = snd (transport_disconnect peerId st)"
| "inbound_step Shutdown st = snd (transport_close st)"

lemma inbound_step_config: "tr_config (inbound_step e st) = tr_config st"
  by (cases e) (auto simp: on_connection_def setupClient_def on_socket_close_def transport_disconnect_def
      transport_close_def split: sum.splits option.splits if_splits elim!: rbind_cases)

lemma inbound_step_limit: "within_limit st \<Longrightarrow> within_limit (inbound_step e st)"
proof (cases e)
  case (Connects url ws)
  assume "within_limit st"
  then show ?thesis
    by (auto simp: Connects within_limit_def on_connection_def setupClient_def length_jm_set
        split: sum.splits option.splits if_splits elim!: rbind_cases)
qed (auto simp: within_limit_def on_socket_close_def transport_disconnect_def transport_close_def
    intro: order_trans [OF length_jm_delete_le])

lemma inbound_closing: "tr_isClosing st \<Longrightarrow> tr_clients st = [] \<Longrightarrow>
  tr_isClosing (inbound_step e st) \<and> tr_clients (inbound_step e st) = []"
  by (cases e) (auto simp: on_connection_def on_socket_close_def transport_disconnect_def
      transport_close_def jm_delete_def)

lemma inbound_config: "tr_config (fold inbound_step es st) = tr_config st"
  by (induction es arbitrary: st) (auto simp: inbound_step_config)

lemma inbound_limit: "within_limit st \<Longrightarrow> within_limit (fold inbound_step es st)"
  by (induction es arbitrary: st) (auto simp: inbound_step_limit)

lemma inbound_closed: "tr_isClosing st \<Longrightarrow> tr_clients st = [] \<Longrightarrow> tr_clients (fold inbound_step es st) = []"
  by (induction es arbitrary: st) (auto simp: inbound_closing)

text \<open>The "exponential" backoff has two values.\<close>

lemma reconnect_interval_bounded:
  assumes "0 \<le> tc_reconnectIntervalMs (tr_config st)"
    and "scheduleReconnect U url st = (SetTimer u i # acts, st')"
  shows "i \<le> 2 * tc_reconnectIntervalMs (tr_config st) \<and> i \<le> tc_reconnectMaxIntervalMs (tr_config st)"
  using assms by (auto simp: scheduleReconnect_def Let_def split: if_splits)

subsection \<open>Properties\<close>

text \<open>C21: Authentication of messages. Between two nodes with one key every message \<open>send\<close> hands to the
  socket passes the receiver's check, and what the receiver delivers to its handler is a payload
  followed by that payload's HMAC under the key, within the size limit, decoded by \<open>unpack\<close>; any
  other message is reported as an authentication failure and nothing else happens.\<close>

theorem transport_authentic:
  assumes "\<forall>k x. length (h_hmac_sha256 h k x) = 32" and "tc_authKey (tr_config st) = key"
  shows "(tc_authKey (tr_config st0) = key \<and> transport_send h is_open peer typ payload st0 = Inr [SendRaw ws0 m]
        \<longrightarrow> verifyAuthentication h key m)
    \<and> (on_message h fuel peerId ws d st = Some acts \<and> Deliver p typ' obj \<in> set acts \<longrightarrow>
        length d \<le> tc_maxPayloadSize (tr_config st)
        \<and> (\<exists>bs u. d = authenticatePayload h key bs \<and> unpack h fuel bs = Some (Inr u)
             \<and> p = peerId \<and> typ' = up_type u \<and> obj = up_data u))
    \<and> (length d \<le> tc_maxPayloadSize (tr_config st) \<and> (\<nexists>bs. d = authenticatePayload h key bs) \<longrightarrow>
        on_message h fuel peerId ws d st = Some [EmitAuthFailure peerId])"
proof (intro conjI impI; (elim conjE)?)
  assume "tc_authKey (tr_config st0) = key" "transport_send h is_open peer typ payload st0 = Inr [SendRaw ws0 m]"
  then show "verifyAuthentication h key m"
    by (auto simp: transport_send_def verify_iff [OF assms(1)] split: option.splits if_splits elim!: rbind_cases)
next
  assume a: "on_message h fuel peerId ws d st = Some acts" "Deliver p typ' obj \<in> set acts"
  then show "length d \<le> tc_maxPayloadSize (tr_config st)"
    by (auto simp: on_message_def split: if_splits)
  from a have h: "handleMessage h fuel peerId d st = Some (Inr acts)"
    by (auto simp: on_message_def split: if_splits option.splits sum.splits)
  then have v: "verifyAuthentication h key d" using a(2) assms(2) by (auto simp: handleMessage_def split: if_splits)
  then obtain bs where bs: "d = authenticatePayload h key bs" using verify_iff [OF assms(1)] by blast
  then have "take (length d - 32) d = bs" using assms(1) by (simp add: authenticatePayload_def)
  with h v a(2) bs assms(2)
  show "\<exists>bs u. d = authenticatePayload h key bs \<and> unpack h fuel bs = Some (Inr u)
      \<and> p = peerId \<and> typ' = up_type u \<and> obj = up_data u"
    by (auto simp: handleMessage_def orbind_def split: if_splits option.splits sum.splits)
next
  assume "length d \<le> tc_maxPayloadSize (tr_config st)" "\<nexists>bs. d = authenticatePayload h key bs"
  then show "on_message h fuel peerId ws d st = Some [EmitAuthFailure peerId]"
    using verify_iff [OF assms(1), of key d] assms(2) by (simp add: on_message_def handleMessage_def)
qed

theorem transport_authentic_witness:
  "on_message toy_hashes 5 ''p'' 1 (replicate 40 7) (transport_new (default_config ''n'' 9000))
     = Some [EmitAuthFailure ''p'']"
proof -
  have l: "\<forall>k x. length (h_hmac_sha256 toy_hashes k x) = 32" by (simp add: toy_hashes_def toy_hash_def)
  have n: "\<nexists>bs. replicate 40 7 = authenticatePayload toy_hashes (replicate 32 0) bs"
  proof
    assume "\<exists>bs. replicate 40 7 = authenticatePayload toy_hashes (replicate 32 0) bs"
    then obtain bs where e: "replicate 40 7 = bs @ toy_hash (replicate 32 0 @ bs)"
      by (auto simp: authenticatePayload_def toy_hashes_def)
    then have "0 \<in> set (replicate 40 (7 :: byte))" by (simp add: toy_hash_def)
    then show False by simp
  qed
  have k: "tc_authKey (tr_config (transport_new (default_config ''n'' 9000))) = replicate 32 0"
    by (simp add: transport_new_def default_config_def)
  show ?thesis
    using transport_authentic [OF l k, where d = "replicate 40 7" and fuel = 5 and peerId = "''p''" and ws = 1] n
    by (simp add: transport_new_def default_config_def)
qed

text \<open>No message is ever delivered. Whatever one node sends another that shares its key, the
  receiver authenticates it, fails to decode it (\<open>Length mismatch\<close>), and emits an error instead of
  calling its handler.\<close>

theorem transport_never_delivers:
  assumes "\<forall>x. length (h_sha256 h x) = 32" and "\<forall>k x. length (h_hmac_sha256 h k x) = 32"
    and "transport_send h is_open peer typ payload st0 = Inr [SendRaw ws0 m]"
    and "tc_authKey (tr_config st) = tc_authKey (tr_config st0)"
    and "length m \<le> tc_maxPayloadSize (tr_config st)"
  shows "on_message h fuel peerId ws m st
    = Some [EmitError peerId (SerializationError ''Length mismatch'')]"
proof -
  obtain sp where p: "pack h typ payload = Inr sp"
    and m: "m = authenticatePayload h (tc_authKey (tr_config st)) (sp_bytes sp)"
    using assms(3,4) by (auto simp: transport_send_def split: option.splits if_splits elim!: rbind_cases)
  have v: "verifyAuthentication h (tc_authKey (tr_config st)) m"
    using m by (auto simp: verify_iff [OF assms(2)])
  have t: "take (length m - 32) m = sp_bytes sp" using assms(2) by (simp add: m authenticatePayload_def)
  show ?thesis
    using assms(5) v packed_length_field [OF assms(1) p]
    by (simp add: on_message_def handleMessage_def t unpack_def orbind_def)
qed

theorem transport_never_delivers_witness:
  "\<exists>st m. st = setupClient ''b'' 1 (transport_new (default_config ''a'' 9000))
    \<and> transport_send toy_hashes (\<lambda>s. True) ''b'' ''t'' [(''x'', VBool True)] st = Inr [SendRaw 1 m]
    \<and> on_message toy_hashes 9 ''a'' 2 m (onMessage (transport_new (default_config ''b'' 9000)))
       = Some [EmitError ''a'' (SerializationError ''Length mismatch'')]"
proof -
  let ?st = "setupClient ''b'' 1 (transport_new (default_config ''a'' 9000))"
  have l: "\<forall>x. length (h_sha256 toy_hashes x) = 32" "\<forall>k x. length (h_hmac_sha256 toy_hashes k x) = 32"
    by (simp_all add: toy_hashes_def toy_hash_def)
  obtain sp where p: "pack toy_hashes ''t'' [(''x'', VBool True)] = Inr sp" "length (sp_bytes sp) < 100"
    using l(1) by (simp add: pack_def encodeField.simps field_bytes_def MAX_FIELDS_def payload_head_def MAGIC_def
        MAX_FIELD_SIZE_def MAX_PAYLOAD_SIZE_def ser_throw_def Let_def)
  obtain m where m: "transport_send toy_hashes (\<lambda>s. True) ''b'' ''t'' [(''x'', VBool True)] ?st = Inr [SendRaw 1 m]"
    "length m < 200"
    using p l(2) by (simp add: transport_send_def setupClient_def authenticatePayload_def)
  show ?thesis
    using transport_never_delivers [OF l m(1), of "onMessage (transport_new (default_config ''b'' 9000))" 9 "''a''" 2] m
    by (simp add: transport_new_def default_config_def setupClient_def onMessage_def)
qed

text \<open>The connection limit is an invariant: after any sequence of incoming connections, socket
  closings, disconnections and shutdowns a node has at most \<open>maxConnections\<close> clients, and once it
  has been shut down it has none, whatever happens later.\<close>

theorem transport_connection_limit:
  "length (getConnectedPeers (fold inbound_step es (transport_new c))) \<le> tc_maxConnections c
   \<and> getConnectedPeers (fold inbound_step (es @ Shutdown # es') (transport_new c)) = []"
proof
  have "within_limit (fold inbound_step es (transport_new c))"
    by (rule inbound_limit) (simp add: within_limit_def transport_new_def)
  then show "length (getConnectedPeers (fold inbound_step es (transport_new c))) \<le> tc_maxConnections c"
    by (simp add: within_limit_def getConnectedPeers_def jm_keys_def inbound_config transport_new_def)
  have "tr_clients (fold inbound_step es' (inbound_step Shutdown (fold inbound_step es (transport_new c)))) = []"
    by (rule inbound_closed) (simp_all add: transport_close_def)
  then show "getConnectedPeers (fold inbound_step (es @ Shutdown # es') (transport_new c)) = []"
    by (simp add: getConnectedPeers_def jm_keys_def)
qed

text \<open>A stale socket evicts a live one. When a peer reconnects, the new socket replaces the old one
  in the table; the closing of the old socket then removes the peer, so that sending to it throws
  although its new socket is open.\<close>

theorem transport_stale_close:
  assumes "on_connection url ws1 st = Inr ([], st1)" and "on_connection url ws2 st1 = Inr ([], st2)"
    and "extractPeerId url = Inr (Some peerId)"
  shows "jm_get (tr_clients st2) peerId = Some ws2
    \<and> transport_send h is_open peerId typ payload (on_socket_close peerId ws1 st2)
      = Inl (Error (''Peer '' @ peerId @ '' not connected''))"
  using assms
  by (auto simp: on_connection_def setupClient_def on_socket_close_def transport_send_def split: if_splits)

theorem transport_stale_close_witness:
  "\<exists>st1 st2. on_connection ''/?nodeId=a%62'' 1 (transport_new (default_config ''n'' 9000)) = Inr ([], st1)
    \<and> on_connection ''/?nodeId=a%62'' 2 st1 = Inr ([], st2)
    \<and> jm_get (tr_clients st2) ''ab'' = Some 2
    \<and> jm_get (tr_clients (on_socket_close ''ab'' 1 st2)) ''ab'' = None"
proof -
  have e: "extractPeerId ''/?nodeId=a%62'' = Inr (Some ''ab'')" by code_simp
  obtain st1 where s1: "on_connection ''/?nodeId=a%62'' 1 (transport_new (default_config ''n'' 9000)) = Inr ([], st1)"
    by (simp add: on_connection_def e transport_new_def default_config_def)
  then obtain st2 where s2: "on_connection ''/?nodeId=a%62'' 2 st1 = Inr ([], st2)"
    by (auto simp: on_connection_def e transport_new_def default_config_def setupClient_def jm_set_def)
  from transport_stale_close [OF s1 s2 e] s1 s2 show ?thesis by (simp add: on_socket_close_def)
qed

end
