(* ===== verification/Shamir.thy ===== *)
theory Shamir
  imports ModArith
begin

section \<open>Shamir sharing and Lagrange interpolation\<close>

text \<open>
  The share arithmetic of \<^verbatim>\<open>src/lib/protocol/mpc_cmp.ts\<close>: the evaluation of a polynomial at a
  node's index, Lagrange coefficients at 0, and the combination of the values of several nodes.
  The curve order is the parameter \<open>q\<close>. The lemmas identify the coefficients for the indices
  \<open>1, \<dots>, t\<close> the program uses with signed binomials, and derive reconstruction from the vanishing of
  the \<open>t\<close>-th finite difference.
\<close>

subsection \<open>Operations\<close>

text \<open>\<open>value = (value + a_j * power) % q; power = (power * x) % q\<close>\<close>

definition poly_step :: "int \<Rightarrow> int \<Rightarrow> int \<times> int \<Rightarrow> int \<Rightarrow> int \<times> int" where
  "poly_step q x vp a = (case vp of (v, p) \<Rightarrow> ((v + a * p) smod q, (p * x) smod q))"

definition eval_poly :: "int \<Rightarrow> int list \<Rightarrow> int \<Rightarrow> int" where
  "eval_poly q coefficients x = fst (foldl (poly_step q x) (0, 1) coefficients)"

definition lagrange_step :: "int \<Rightarrow> int list \<Rightarrow> nat \<Rightarrow> int \<times> int \<Rightarrow> nat \<Rightarrow> int \<times> int" where
  "lagrange_step q indices i nd j = (case nd of (num, den) \<Rightarrow>
     if i = j then (num, den)
     else (modN q (num * indices ! j), modN q (den * (indices ! j - indices ! i))))"

definition lagrangeCoefficient :: "int \<Rightarrow> int list \<Rightarrow> nat \<Rightarrow> int result" where
  "lagrangeCoefficient q indices i =
     (case foldl (lagrange_step q indices i) (1, 1) [0..<length indices] of (num, den) \<Rightarrow>
        rbind (modInverseOrder q den) (\<lambda>denInv. Inr (modN q (num * denInv))))"

fun combine_from :: "int \<Rightarrow> int list \<Rightarrow> nat \<Rightarrow> int \<Rightarrow> int list \<Rightarrow> int result" where
  "combine_from q indices i combined [] = Inr combined"
| "combine_from q indices i combined (s # sigs) =
     rbind (lagrangeCoefficient q indices i) (\<lambda>lambda.
     combine_from q indices (Suc i) (modN q (combined + s * lambda)) sigs)"

definition combineSignatures :: "int \<Rightarrow> int list \<Rightarrow> int list \<Rightarrow> int result" where
  "combineSignatures q partialSigs indices = combine_from q indices 0 0 partialSigs"

text \<open>\<open>signerIds.map((_, i) => BigInt(i + 1))\<close>\<close>

definition signer_indices :: "nat \<Rightarrow> int list" where
  "signer_indices t = map (\<lambda>i. int i + 1) [0..<t]"

subsection \<open>Polynomials\<close>

definition poly_at :: "int list \<Rightarrow> int \<Rightarrow> int" where
  "poly_at cs x = (\<Sum>d<length cs. cs ! d * x ^ d)"

lemma poly_at_snoc: "poly_at (cs @ [c]) x = poly_at cs x + c * x ^ length cs"
  by (simp add: poly_at_def nth_append)

lemma poly_at_0: "cs \<noteq> [] \<Longrightarrow> poly_at cs 0 = cs ! 0"
proof -
  assume "cs \<noteq> []"
  then obtain n where n: "length cs = Suc n" by (cases cs) auto
  show ?thesis by (simp only: poly_at_def n sum.lessThan_Suc_shift) simp
qed

lemma poly_step_pair: "poly_step q x (v, p) a = ((v + a * p) smod q, (p * x) smod q)"
  by (simp add: poly_step_def)

lemma smod_eq_mod:
  assumes "1 < (q :: int)" and "0 \<le> a"
  shows "a smod q = a mod q"
  using assms by (intro smod_nonneg) auto

lemma mod_affine: "(a mod q + c * (x mod q)) mod q = (a + c * x) mod (q :: int)"
proof -
  have "(a mod q + c * (x mod q)) mod q = (a mod q + (c * (x mod q)) mod q) mod q"
    by (rule mod_add_right_eq [symmetric])
  also have "\<dots> = (a mod q + (c * x) mod q) mod q" by (simp only: mod_mult_right_eq)
  also have "\<dots> = (a + c * x) mod q" by (rule mod_add_eq)
  finally show ?thesis .
qed

text \<open>On non-negative coefficients and index the truncating remainders are the mathematical ones.\<close>

lemma eval_poly_fold:
  assumes "1 < q" and "0 \<le> x" and "\<forall>c \<in> set cs. 0 \<le> c"
  shows "foldl (poly_step q x) (0, 1) cs = (poly_at cs x mod q, x ^ length cs mod q)"
  using assms(3)
proof (induction cs rule: rev_induct)
  case Nil
  then show ?case using assms(1) by (simp add: poly_at_def)
next
  case (snoc c cs)
  have IH: "foldl (poly_step q x) (0, 1) cs = (poly_at cs x mod q, x ^ length cs mod q)"
    using snoc by simp
  have c: "0 \<le> c" using snoc.prems by simp
  have n: "0 \<le> poly_at cs x mod q" "0 \<le> x ^ length cs mod q" using assms(1) by auto
  have "(poly_at cs x mod q + c * (x ^ length cs mod q)) smod q
      = (poly_at cs x + c * x ^ length cs) mod q"
    using n c assms(1) by (subst smod_eq_mod) (simp_all add: mod_affine)
  moreover have "((x ^ length cs mod q) * x) smod q = x ^ Suc (length cs) mod q"
    using n assms(1,2) by (subst smod_eq_mod) (auto simp: mod_simps mult.commute)
  ultimately show ?case
    by (simp only: foldl_append foldl_Cons foldl_Nil IH poly_step_pair poly_at_snoc
        length_append list.size add_0_right add_Suc_right)
qed

lemma eval_poly_eq:
  "1 < q \<Longrightarrow> 0 \<le> x \<Longrightarrow> \<forall>c \<in> set cs. 0 \<le> c \<Longrightarrow> eval_poly q cs x = poly_at cs x mod q"
  by (simp add: eval_poly_def eval_poly_fold)

subsection \<open>Finite differences\<close>

definition alt_sum :: "nat \<Rightarrow> (nat \<Rightarrow> int) \<Rightarrow> int" where
  "alt_sum t f = (\<Sum>i\<le>t. (- 1) ^ i * int (t choose i) * f i)"

lemma alt_sum_Suc: "alt_sum (Suc t) f = alt_sum t (\<lambda>i. f i - f (Suc i))"
proof -
  have "alt_sum (Suc t) f = f 0 + (\<Sum>i\<le>t. (- 1) ^ Suc i * int (Suc t choose Suc i) * f (Suc i))"
    unfolding alt_sum_def by (subst sum.atMost_Suc_shift) simp
  also have "(\<Sum>i\<le>t. (- 1) ^ Suc i * int (Suc t choose Suc i) * f (Suc i))
      = (\<Sum>i\<le>t. (- 1) ^ Suc i * int (t choose Suc i) * f (Suc i))
        - (\<Sum>i\<le>t. (- 1) ^ i * int (t choose i) * f (Suc i))"
    unfolding sum_subtractf [symmetric] by (intro sum.cong refl) (simp add: algebra_simps)
  also have "f 0 + ((\<Sum>i\<le>t. (- 1) ^ Suc i * int (t choose Suc i) * f (Suc i))
        - (\<Sum>i\<le>t. (- 1) ^ i * int (t choose i) * f (Suc i)))
      = (\<Sum>i\<le>Suc t. (- 1) ^ i * int (t choose i) * f i)
        - (\<Sum>i\<le>t. (- 1) ^ i * int (t choose i) * f (Suc i))"
    by (subst sum.atMost_Suc_shift) simp
  also have "(\<Sum>i\<le>Suc t. (- 1) ^ i * int (t choose i) * f i) = alt_sum t f"
    by (simp add: alt_sum_def)
  finally show ?thesis
    by (simp add: alt_sum_def sum_subtractf right_diff_distrib)
qed

lemma alt_sum_sum: "alt_sum t (\<lambda>i. \<Sum>e\<in>S. c e * g e i) = (\<Sum>e\<in>S. c e * alt_sum t (g e))"
  unfolding alt_sum_def sum_distrib_left
  by (subst sum.swap) (simp add: algebra_simps)

text \<open>A difference lowers the degree.\<close>

lemma power_difference:
  "(int i) ^ d - (int (Suc i)) ^ d = (\<Sum>e<d. (- int (d choose e)) * int i ^ e)"
proof -
  have "(int i + 1) ^ d = (\<Sum>e\<le>d. int (d choose e) * int i ^ e)"
    by (simp add: binomial_ring)
  also have "\<dots> = (\<Sum>e<d. int (d choose e) * int i ^ e) + int i ^ d"
    by (simp add: lessThan_Suc_atMost [symmetric])
  finally have e: "(int i + 1) ^ d = (\<Sum>e<d. int (d choose e) * int i ^ e) + int i ^ d" .
  have s: "int (Suc i) = int i + 1" by simp
  show ?thesis unfolding s e by (simp add: sum_negf)
qed

lemma alt_sum_power: "d < t \<Longrightarrow> alt_sum t (\<lambda>i. int i ^ d) = 0"
proof (induction t arbitrary: d)
  case 0
  then show ?case by simp
next
  case (Suc t)
  have "alt_sum (Suc t) (\<lambda>i. int i ^ d) = alt_sum t (\<lambda>i. \<Sum>e<d. (- int (d choose e)) * int i ^ e)"
    unfolding alt_sum_Suc power_difference ..
  also have "\<dots> = (\<Sum>e<d. (- int (d choose e)) * alt_sum t (\<lambda>i. int i ^ e))"
    by (rule alt_sum_sum)
  also have "\<dots> = 0" using Suc by (intro sum.neutral) auto
  finally show ?case .
qed

text \<open>The value at 0 from the values at \<open>1, \<dots>, t\<close>.\<close>

lemma interpolate_at_0:
  assumes "length cs \<le> t"
  shows "(\<Sum>i<t. ((- 1) ^ i * int (t choose Suc i)) * poly_at cs (int i + 1)) = poly_at cs 0"
proof -
  have s: "poly_at cs (int i) = (\<Sum>d<length cs. cs ! d * int i ^ d)" for i by (simp add: poly_at_def)
  have "alt_sum t (\<lambda>i. poly_at cs (int i)) = (\<Sum>d<length cs. cs ! d * alt_sum t (\<lambda>i. int i ^ d))"
    unfolding s by (rule alt_sum_sum)
  also have "\<dots> = 0" using assms by (intro sum.neutral) (auto simp: alt_sum_power)
  finally have z: "alt_sum t (\<lambda>i. poly_at cs (int i)) = 0" .
  show ?thesis
  proof (cases t)
    case 0
    then show ?thesis using assms by (simp add: poly_at_def)
  next
    case (Suc m)
    have "alt_sum t (\<lambda>i. poly_at cs (int i)) = poly_at cs 0
        + (\<Sum>i\<le>m. (- 1) ^ Suc i * int (t choose Suc i) * poly_at cs (int (Suc i)))"
      unfolding alt_sum_def Suc by (subst sum.atMost_Suc_shift) simp
    then have "(\<Sum>i\<le>m. (- 1) ^ i * int (t choose Suc i) * poly_at cs (int (Suc i))) = poly_at cs 0"
      using z by (simp add: sum_negf)
    then show ?thesis by (simp add: Suc lessThan_Suc_atMost add.commute)
  qed
qed

subsection \<open>Lagrange coefficients\<close>

lemma lagrange_fold:
  assumes "1 < q"
  shows "foldl (lagrange_step q xs i) (1, 1) [0..<n]
    = ((\<Prod>j\<in>{..<n} - {i}. xs ! j) mod q, (\<Prod>j\<in>{..<n} - {i}. xs ! j - xs ! i) mod q)"
proof (induction n)
  case 0
  then show ?case using assms by simp
next
  case (Suc n)
  have i: "{..<Suc n} - {n} = {..<n}" and n: "{..<n} - {n} = {..<n}" by auto
  have d: "{..<Suc n} - {i} = insert n ({..<n} - {i})" if "n \<noteq> i" using that by auto
  show ?case
  proof (cases "n = i")
    case True
    then show ?thesis using Suc i n by (simp add: lagrange_step_def)
  next
    case False
    then show ?thesis
      using Suc assms by (simp add: lagrange_step_def d modN_eq mod_simps mult.commute)
  qed
qed

lemma prod_fact: "(\<Prod>j<n. int j + 1) = fact n"
  by (induction n) (simp_all add: algebra_simps)

lemma prod_indices: "i < t \<Longrightarrow> (\<Prod>j\<in>{..<t} - {i}. int j + 1) * (int i + 1) = fact t"
proof -
  assume i: "i < t"
  have "(\<Prod>j<t. int j + 1) = (int i + 1) * (\<Prod>j\<in>{..<t} - {i}. int j + 1)"
    by (rule prod.remove) (use i in auto)
  then show ?thesis by (simp add: prod_fact mult.commute)
qed

lemma prod_below: "(\<Prod>j<i. int j - int i) = (- 1) ^ i * fact i"
proof -
  have "(\<Prod>j<i. int j - int i) = (\<Prod>j<i. (- 1) * (int (i - 1 - j) + 1))"
    by (intro prod.cong) auto
  also have "\<dots> = (- 1) ^ i * (\<Prod>j<i. int (i - 1 - j) + 1)"
    by (simp only: prod.distrib) simp
  also have "(\<Prod>j<i. int (i - 1 - j) + 1) = (\<Prod>j<i. int j + 1)"
    using prod.nat_diff_reindex [of "\<lambda>j. int j + 1" i] by (simp add: diff_commute)
  also have "\<dots> = fact i" by (rule prod_fact)
  finally show ?thesis .
qed

lemma prod_differences:
  assumes "i < t"
  shows "(\<Prod>j\<in>{..<t} - {i}. int j - int i) = (- 1) ^ i * fact i * fact (t - 1 - i)"
proof -
  have split: "{..<t} - {i} = {..<i} \<union> {Suc i..<t}" using assms by auto
  have "(\<Prod>j\<in>{..<t} - {i}. int j - int i) = (\<Prod>j<i. int j - int i) * (\<Prod>j=Suc i..<t. int j - int i)"
    unfolding split by (rule prod.union_disjoint) auto
  also have "(\<Prod>j=Suc i..<t. int j - int i) = (\<Prod>j<t - Suc i. int j + 1)"
    by (rule prod.reindex_bij_witness [where i = "\<lambda>j. j + Suc i" and j = "\<lambda>j. j - Suc i"]) auto
  also have "\<dots> = fact (t - Suc i)" by (rule prod_fact)
  finally show ?thesis by (simp add: prod_below)
qed

lemma coprime_fact:
  assumes "is_prime q" and "int n < q"
  shows "coprime (fact n) q"
  using assms(2)
proof (induction n)
  case 0
  then show ?case by simp
next
  case (Suc n)
  have "\<not> q dvd int (Suc n)" using Suc.prems by (intro zdvd_not_zless) auto
  then have "coprime (int (Suc n)) q" using is_prime_coprime [OF assms(1)] coprime_commute by blast
  moreover have "coprime (fact n) q" using Suc by simp
  ultimately have "coprime (int (Suc n) * fact n) q" by (simp only: coprime_mult_left_iff)
  then show ?case by (simp only: fact_Suc of_nat_id)
qed

text \<open>For the indices \<open>1, \<dots>, t\<close> below a prime order the coefficient at position \<open>i\<close> exists and is
  \<open>(- 1) ^ i * (t choose (i + 1))\<close>.\<close>

lemma lagrange_signer_indices:
  assumes "is_prime q" and "int t < q" and "i < t"
  shows "lagrangeCoefficient q (signer_indices t) i = Inr (((- 1) ^ i * int (t choose Suc i)) mod q)"
proof -
  let ?xs = "signer_indices t"
  let ?num = "\<Prod>j\<in>{..<t} - {i}. int j + 1"
  let ?den = "(- 1) ^ i * fact i * fact (t - 1 - i) :: int"
  let ?c = "(- 1) ^ i * int (t choose Suc i)"
  have q: "1 < q" by (rule is_prime_gt1 [OF assms(1)])
  have x: "length ?xs = t" "\<And>j. j < t \<Longrightarrow> ?xs ! j = int j + 1" by (simp_all add: signer_indices_def)
  have "(\<Prod>j\<in>{..<t} - {i}. ?xs ! j) = ?num" by (intro prod.cong) (auto simp: x)
  moreover have "(\<Prod>j\<in>{..<t} - {i}. ?xs ! j - ?xs ! i) = (\<Prod>j\<in>{..<t} - {i}. int j - int i)"
    by (intro prod.cong) (auto simp: x assms(3))
  ultimately have fold: "foldl (lagrange_step q ?xs i) (1, 1) [0..<length ?xs] = (?num mod q, ?den mod q)"
    using lagrange_fold [OF q, of ?xs i t] prod_differences [OF assms(3)] by (simp add: x(1))
  have b: "fact (Suc i) * fact (t - Suc i) * int (t choose Suc i) = fact t"
    using binomial_fact_lemma [of "Suc i" t] assms(3) by (metis Suc_leI of_nat_fact of_nat_mult)
  have "?den * ?c * (int i + 1) = ((- 1) ^ i * (- 1) ^ i) * (fact (Suc i) * fact (t - Suc i) * int (t choose Suc i))"
    by (simp add: algebra_simps)
  also have "\<dots> = fact t" by (simp only: b) (simp add: power_add [symmetric] mult_2 [symmetric])
  also have "\<dots> = ?num * (int i + 1)" by (rule prod_indices [OF assms(3), symmetric])
  finally have num: "?num = ?den * ?c" by simp
  have "coprime (fact i * fact (t - 1 - i) :: int) q"
    using coprime_fact [OF assms(1)] assms(2,3) by (simp add: coprime_mult_left_iff)
  then have cop: "coprime ?den q"
    by (simp add: coprime_mult_left_iff)
  then have "coprime (?den mod q) q" using q by (simp add: coprime_mod_left_iff)
  then obtain d where d: "modInverseOrder q (?den mod q) = Inr d"
    using ord_inv.inv_ok [OF q] by blast
  have "(?den mod q * d) mod q = 1" using ord_inv.inv_Inr(4) [OF q d] by simp
  then have one: "(?den * d) mod q = 1" by (simp add: mod_mult_left_eq)
  have "(?num mod q * d) mod q = (?den * ?c * d) mod q"
    unfolding num by (rule mod_mult_left_eq)
  also have "?den * ?c * d = ?c * (?den * d)" by (simp only: ac_simps)
  also have "(?c * (?den * d)) mod q = (?c * ((?den * d) mod q)) mod q" by (rule mod_mult_right_eq [symmetric])
  also have "\<dots> = ?c mod q" by (simp only: one) simp
  finally show ?thesis
    using q by (simp only: lagrangeCoefficient_def fold prod.case d rbind.simps) (simp add: modN_eq)
qed

text \<open>The combination loop: a weighted sum.\<close>

lemma combine_from_eq:
  assumes "is_prime q" and "int t < q"
  shows "i + length sigs \<le> t \<Longrightarrow> combine_from q (signer_indices t) i (acc mod q) sigs
    = Inr ((acc + (\<Sum>k<length sigs. ((- 1) ^ (i + k) * int (t choose Suc (i + k))) * sigs ! k)) mod q)"
proof (induction sigs arbitrary: i acc)
  case Nil
  then show ?case by simp
next
  case (Cons s sigs)
  let ?l = "(- 1) ^ i * int (t choose Suc i)"
  have q: "0 < q" using is_prime_gt1 [OF assms(1)] by simp
  have i: "i < t" using Cons.prems by simp
  have step: "modN q (acc mod q + s * (?l mod q)) = (acc + s * ?l) mod q"
    unfolding modN_eq [OF q] by (rule mod_affine)
  let ?w = "\<lambda>k. (- 1) ^ k * int (t choose Suc k)"
  have "combine_from q (signer_indices t) (Suc i) ((acc + s * ?l) mod q) sigs
      = Inr ((acc + s * ?l + (\<Sum>k<length sigs. ?w (Suc i + k) * sigs ! k)) mod q)"
    using Cons.prems by (intro Cons.IH) simp
  moreover have "(\<Sum>k<length (s # sigs). ?w (i + k) * (s # sigs) ! k)
      = s * ?l + (\<Sum>k<length sigs. ?w (Suc i + k) * sigs ! k)"
    unfolding list.size add_0_right plus_nat.add_0 by (simp add: sum.lessThan_Suc_shift del: sum.lessThan_Suc)
  ultimately show ?case
    by (simp only: combine_from.simps lagrange_signer_indices [OF assms i] rbind.simps step add.assoc)
qed

lemma combine_eq:
  assumes "is_prime q" and "int t < q" and "length sigs = t"
  shows "combineSignatures q sigs (signer_indices t)
    = Inr ((\<Sum>k<t. ((- 1) ^ k * int (t choose Suc k)) * sigs ! k) mod q)"
  using combine_from_eq [OF assms(1,2), of 0 sigs 0] assms(3) by (simp add: combineSignatures_def)

text \<open>Reconstruction: the values of a polynomial of degree below \<open>t\<close> combine to its constant term.\<close>

lemma combine_poly:
  assumes "is_prime q" and "int t < q" and "length cs \<le> t"
    and "length sigs = t" and "\<And>k. k < t \<Longrightarrow> sigs ! k mod q = poly_at cs (int k + 1) mod q"
  shows "combineSignatures q sigs (signer_indices t) = Inr (poly_at cs 0 mod q)"
proof -
  let ?c = "\<lambda>k. (- 1) ^ k * int (t choose Suc k)"
  have e: "(?c k * sigs ! k) mod q = (?c k * poly_at cs (int k + 1)) mod q" if "k < t" for k
    using assms(5) [OF that] by (metis mod_mult_right_eq)
  have "(\<Sum>k<t. ?c k * sigs ! k) mod q = (\<Sum>k<t. (?c k * sigs ! k) mod q) mod q"
    by (rule mod_sum_eq [symmetric])
  also have "\<dots> = (\<Sum>k<t. (?c k * poly_at cs (int k + 1)) mod q) mod q"
    by (rule arg_cong [where f = "\<lambda>s. s mod q"], rule sum.cong) (simp_all only: e lessThan_iff)
  also have "\<dots> = (\<Sum>k<t. ?c k * poly_at cs (int k + 1)) mod q"
    by (rule mod_sum_eq)
  also have "\<dots> = poly_at cs 0 mod q" by (simp only: interpolate_at_0 [OF assms(3)])
  finally show ?thesis by (simp add: combine_eq [OF assms(1,2,4)])
qed

end
