(* ===== verification/MpcCmp.thy ===== *)
theory MpcCmp
  imports Shamir Curves JsMap
begin

section \<open>Key generation and threshold signing\<close>

text \<open>
  \<^verbatim>\<open>src/lib/protocol/mpc_cmp.ts\<close>: the in-memory sessions, distributed key generation, the
  signing ceremony, the key refresh stub. All nodes run in one process. The curve is \<open>E\<close> (its
  order is \<open>CURVE_ORDER\<close>), the hashes \<open>h\<close>, the clock the argument \<open>now\<close>, and \<open>bd\<close> says whether
  \<open>paillier.ts\<close> imports the range draw its primality test calls (it does not). A generation that
  throws half-way keeps what it has stored by then.
\<close>

record NodeConfig =
  nc_id :: string
  nc_url :: string

record MPCParty =
  pt_id :: string
  pt_name :: string
  pt_role :: string
  pt_status :: string
  pt_isEnclave :: bool
  pt_publicPaillierN :: string
  pt_shareCommitment :: string
  pt_latencyMs :: nat
  pt_lastSeenAt :: int
  pt_enclaveAttestationHash :: string

record DKGSession =
  ds_sessionId :: string
  ds_curve :: string
  ds_threshold :: nat
  ds_totalParties :: nat
  ds_phase :: string
  ds_masterPublicKey :: string
  ds_chainAddresses :: "(string, string) js_map"
  ds_parties :: "MPCParty list"
  ds_createdAt :: int
  ds_updatedAt :: int
  ds_completedAt :: "int option"
  ds_auditLogIds :: "string list"

record KeyShare =
  ks_nodeId :: string
  ks_share :: int
  ks_publicShare :: string
  ks_paillierPublicKey :: "paillier_public option"

record final_signature =
  fs_r :: string
  fs_s :: string
  fs_v :: int
  fs_rawSigHex :: string

record SigningCeremonyState =
  sc_ceremonyId :: string
  sc_dkgSessionId :: string
  sc_chainId :: string
  sc_curve :: string
  sc_messageHash :: string
  sc_amount :: string
  sc_symbol :: string
  sc_toAddress :: string
  sc_currentRound :: string
  sc_activeSigners :: "string list"
  sc_partialSignatures :: "(string, string) js_map"
  sc_nonceCommitments :: "(string, string) js_map"
  sc_mtaProofs :: "(string, string) js_map"
  sc_consistencyChecks :: "(string \<times> bool) list"
  sc_finalSignature :: final_signature
  sc_durationMs :: int
  sc_logs :: "string list"
  sc_createdAt :: int

record mpc_state =
  ms_dkgSessions :: "(string, DKGSession) js_map"
  ms_signSessions :: "(string, SigningCeremonyState) js_map"
  ms_nodeRegistry :: "NodeConfig list"
  ms_nodePaillierKeys :: "(string, paillier_keypair) js_map"
  ms_nodeShares :: "(string, (string, int) js_map) js_map"

definition mpc_init :: mpc_state where
  "mpc_init = \<lparr>ms_dkgSessions = [], ms_signSessions = [], ms_nodeRegistry = [], ms_nodePaillierKeys = [],
     ms_nodeShares = []\<rparr>"

definition registerNodes :: "NodeConfig list \<Rightarrow> mpc_state \<Rightarrow> mpc_state" where
  "registerNodes nodes st = st\<lparr>ms_nodeRegistry := nodes\<rparr>"

definition generateSessionId :: "hashes \<Rightarrow> string rnd" where
  "generateSessionId h = rnd_bind (secureRandomBytes 16) (\<lambda>bs. rnd_return (''sess_'' @ h_bytesToHex h bs))"

definition point_hex :: "hashes \<Rightarrow> 'p ec \<Rightarrow> 'p \<Rightarrow> string result" where
  "point_hex h E P = rbind (ec_toRawBytes E P False) (\<lambda>raw. Inr (''0x'' @ h_bytesToHex h raw))"

subsection \<open>Distributed key generation\<close>

definition fill_registry :: "nat \<Rightarrow> NodeConfig list \<Rightarrow> NodeConfig list" where
  "fill_registry totalParties reg =
     reg @ map (\<lambda>i. \<lparr>nc_id = ''node-'' @ dec (int i + 1), nc_url = ''http://localhost:'' @ dec (3001 + int i)\<rparr>)
       [length reg..<totalParties]"

text \<open>One node's polynomial: a coefficient and its commitment at a time.\<close>

fun draw_polynomial :: "hashes \<Rightarrow> 'p ec \<Rightarrow> nat \<Rightarrow> (int list \<times> string list) rnd" where
  "draw_polynomial h E 0 = rnd_return ([], [])"
| "draw_polynomial h E (Suc n) =
     rnd_bind (randomScalar (ec_order E)) (\<lambda>coeff.
     rnd_bind (rnd_lift (rbind (ec_BASE_multiply E coeff) (point_hex h E))) (\<lambda>commitment.
     rnd_bind (draw_polynomial h E n) (\<lambda>(coeffs, commitments).
     rnd_return (coeff # coeffs, commitment # commitments))))"

type_synonym polynomials = "(string, int list \<times> string list) js_map"

text \<open>Phase 1: every node's polynomial and Paillier keys. The keys also go to the global map \<open>glob\<close>,
  which keeps them when a later node fails.\<close>

fun dkg_phase1 :: "binding \<Rightarrow> hashes \<Rightarrow> 'p ec \<Rightarrow> nat \<Rightarrow> NodeConfig list
  \<Rightarrow> polynomials \<times> (string, paillier_keypair) js_map \<Rightarrow> (string, paillier_keypair) js_map \<Rightarrow> tape
  \<Rightarrow> (((polynomials \<times> (string, paillier_keypair) js_map) result \<times> (string, paillier_keypair) js_map) \<times> tape) option" where
  "dkg_phase1 bd h E threshold [] acc glob t = Some ((Inr acc, glob), t)"
| "dkg_phase1 bd h E threshold (node # nodes) (polys, keys) glob t =
     (case rnd_bind (draw_polynomial h E threshold) (\<lambda>poly.
           rnd_bind (generatePaillierKeys bd 2048) (\<lambda>k. rnd_return (poly, k))) t of
        None \<Rightarrow> None
      | Some (Inl e, t') \<Rightarrow> Some ((Inl e, glob), t')
      | Some (Inr (poly, k), t') \<Rightarrow>
          dkg_phase1 bd h E threshold nodes (jm_set polys (nc_id node) poly, jm_set keys (nc_id node) k)
            (jm_set glob (nc_id node) k) t')"

text \<open>The share of the node with a given index: the sum of all polynomials there.\<close>

definition total_share :: "int \<Rightarrow> polynomials \<Rightarrow> int \<Rightarrow> int" where
  "total_share q polys nodeIndex =
     foldl (\<lambda>total (nodeId, coeffs, commitments). (total + eval_poly q coeffs nodeIndex) smod q) 0 polys"

text \<open>Phase 2: \<open>shares\<close> and \<open>allShares\<close>, for the nodes from position \<open>i\<close> on.\<close>

fun dkg_phase2 :: "hashes \<Rightarrow> 'p ec \<Rightarrow> polynomials \<Rightarrow> (string, paillier_keypair) js_map \<Rightarrow> nat \<Rightarrow> NodeConfig list
  \<Rightarrow> (string, KeyShare) js_map \<Rightarrow> (string, KeyShare) js_map result" where
  "dkg_phase2 h E polys keys i [] shares = Inr shares"
| "dkg_phase2 h E polys keys i (node # nodes) shares =
     (let totalShare = total_share (ec_order E) polys (int i + 1) in
      rbind (ec_BASE_multiply E totalShare) (\<lambda>P.
      rbind (point_hex h E P) (\<lambda>publicShare.
      dkg_phase2 h E polys keys (Suc i) nodes (jm_set shares (nc_id node)
        \<lparr>ks_nodeId = nc_id node, ks_share = totalShare, ks_publicShare = publicShare,
          ks_paillierPublicKey = map_option kp_public (jm_get keys (nc_id node))\<rparr>))))"

text \<open>The sum of the commitments to the constant terms; a polynomial without coefficients has none.\<close>

fun group_key :: "'p ec \<Rightarrow> polynomials \<Rightarrow> 'p \<Rightarrow> 'p result" where
  "group_key E [] P = Inr P"
| "group_key E ((nodeId, coeffs, commitments) # polys) P =
     (case coeffs of
        [] \<Rightarrow> Inl (TypeError ''Cannot read undefined'')
      | a0 # _ \<Rightarrow> rbind (ec_BASE_multiply E a0) (\<lambda>Q. group_key E polys (ec_add E P Q)))"

fun dkg_parties :: "hashes \<Rightarrow> int \<Rightarrow> (string, paillier_keypair) js_map \<Rightarrow> (string, KeyShare) js_map
  \<Rightarrow> nat \<Rightarrow> NodeConfig list \<Rightarrow> MPCParty list rnd" where
  "dkg_parties h now keys shares i [] = rnd_return []"
| "dkg_parties h now keys shares i (node # nodes) =
     rnd_bind (secureRandomBytes 16) (\<lambda>att.
     rnd_bind (dkg_parties h now keys shares (Suc i) nodes) (\<lambda>rest.
     rnd_return (\<lparr>pt_id = nc_id node, pt_name = ''Node '' @ dec (int i + 1),
       pt_role = (if i = 0 then ''Client'' else if i = 1 then ''BlindedEnclave'' else ''CoSigner''),
       pt_status = ''ONLINE'', pt_isEnclave = (i = 1),
       pt_publicPaillierN = (case jm_get keys (nc_id node) of None \<Rightarrow> ''undefined''
          | Some k \<Rightarrow> take 14 (hex (pk_n (kp_public k)))) @ ''...'',
       pt_shareCommitment = (case jm_get shares (nc_id node) of None \<Rightarrow> ''undefined''
          | Some s \<Rightarrow> take 16 (ks_publicShare s)) @ ''...'',
       pt_latencyMs = 10 + i * 5, pt_lastSeenAt = now,
       pt_enclaveAttestationHash = ''0x'' @ h_bytesToHex h att\<rparr> # rest)))"

text \<open>From the shares to the session.\<close>

definition dkg_session :: "hashes \<Rightarrow> 'p ec \<Rightarrow> int \<Rightarrow> nat \<Rightarrow> nat \<Rightarrow> string \<Rightarrow> NodeConfig list \<Rightarrow> string
  \<Rightarrow> polynomials \<Rightarrow> (string, paillier_keypair) js_map \<Rightarrow> (string, KeyShare) js_map \<Rightarrow> DKGSession rnd" where
  "dkg_session h E now threshold totalParties curve nodes sessionId polys keys shares =
     rnd_bind (rnd_lift (group_key E polys (ec_ZERO E))) (\<lambda>pk.
     rnd_bind (dkg_parties h now keys shares 0 nodes) (\<lambda>parties.
     rnd_bind (rnd_lift (point_hex h E pk)) (\<lambda>masterPublicKey.
     rnd_return \<lparr>ds_sessionId = sessionId, ds_curve = curve, ds_threshold = threshold,
       ds_totalParties = totalParties, ds_phase = ''COMPLETED'', ds_masterPublicKey = masterPublicKey,
       ds_chainAddresses = [], ds_parties = parties, ds_createdAt = now, ds_updatedAt = now,
       ds_completedAt = Some now, ds_auditLogIds = []\<rparr>)))"

text \<open>Phases 1 to 3. The registry, the Paillier keys and the shares are stored as they are computed, and
  stay when a later step throws.\<close>

definition dkg_shared :: "hashes \<Rightarrow> 'p ec \<Rightarrow> int \<Rightarrow> nat \<Rightarrow> nat \<Rightarrow> string \<Rightarrow> NodeConfig list \<Rightarrow> string
  \<Rightarrow> polynomials \<Rightarrow> (string, paillier_keypair) js_map \<Rightarrow> mpc_state
  \<Rightarrow> tape \<Rightarrow> ((DKGSession result \<times> mpc_state) \<times> tape) option" where
  "dkg_shared h E now threshold totalParties curve nodes sessionId polys keys st t =
     (case dkg_phase2 h E polys keys 0 nodes [] of
        Inl e \<Rightarrow> Some ((Inl e, st), t)
      | Inr shares \<Rightarrow>
          (let st1 = st\<lparr>ms_nodeShares := jm_set (ms_nodeShares st) sessionId
                 (map (\<lambda>(nodeId, s). (nodeId, ks_share s)) shares)\<rparr>
           in case dkg_session h E now threshold totalParties curve nodes sessionId polys keys shares t of
                None \<Rightarrow> None
              | Some (Inl e, t') \<Rightarrow> Some ((Inl e, st1), t')
              | Some (Inr session, t') \<Rightarrow>
                  Some ((Inr session, st1\<lparr>ms_dkgSessions := jm_set (ms_dkgSessions st1) sessionId session\<rparr>), t')))"

definition executeDKG :: "binding \<Rightarrow> hashes \<Rightarrow> 'p ec \<Rightarrow> int \<Rightarrow> nat \<Rightarrow> nat \<Rightarrow> string \<Rightarrow> mpc_state
  \<Rightarrow> tape \<Rightarrow> ((DKGSession result \<times> mpc_state) \<times> tape) option" where
  "executeDKG bd h E now threshold totalParties curve st t =
     (case generateSessionId h t of
        None \<Rightarrow> None
      | Some (Inl e, t0) \<Rightarrow> Some ((Inl e, st), t0)
      | Some (Inr sessionId, t0) \<Rightarrow>
          (let st1 = st\<lparr>ms_nodeRegistry := fill_registry totalParties (ms_nodeRegistry st)\<rparr>;
               nodes = take totalParties (ms_nodeRegistry st1)
           in case dkg_phase1 bd h E threshold nodes ([], []) (ms_nodePaillierKeys st1) t0 of
                None \<Rightarrow> None
              | Some ((Inl e, glob), t1) \<Rightarrow> Some ((Inl e, st1\<lparr>ms_nodePaillierKeys := glob\<rparr>), t1)
              | Some ((Inr (polys, keys), glob), t1) \<Rightarrow>
                  dkg_shared h E now threshold totalParties curve nodes sessionId polys keys
                    (st1\<lparr>ms_nodePaillierKeys := glob\<rparr>) t1))"

subsection \<open>Looking up a session\<close>

text \<open>\<open>find(s => s.state === 'COMPLETED')\<close>. A session has a property \<open>phase\<close> and none named
  \<open>state\<close>, so \<open>s.state\<close> is \<open>undefined\<close> on every session.\<close>

definition session_state :: "DKGSession \<Rightarrow> string option" where
  "session_state s = None"

definition find_completed :: "(string, DKGSession) js_map \<Rightarrow> DKGSession option" where
  "find_completed sessions = find (\<lambda>s. session_state s = Some ''COMPLETED'') (map snd sessions)"

definition getDKGSession :: "mpc_state \<Rightarrow> string option \<Rightarrow> DKGSession option" where
  "getDKGSession st sessionId =
     (case sessionId of
        Some (c # cs) \<Rightarrow> jm_get (ms_dkgSessions st) (c # cs)
      | _ \<Rightarrow> find_completed (ms_dkgSessions st))"

definition getAllDKGSessions :: "mpc_state \<Rightarrow> DKGSession list" where
  "getAllDKGSessions st = map snd (ms_dkgSessions st)"

definition executeKeyRefresh :: "hashes \<Rightarrow> string \<Rightarrow> mpc_state \<Rightarrow> (bool \<times> string) rnd" where
  "executeKeyRefresh h sessionId st =
     (if jm_get (ms_dkgSessions st) sessionId = None then rnd_throw (Error ''DKG session not found'')
      else rnd_bind (generateSessionId h) (\<lambda>newSessionId. rnd_return (True, newSessionId)))"

subsection \<open>The signing ceremony\<close>

definition nonempty :: "string option \<Rightarrow> string option" where
  "nonempty s = (case s of Some (c # cs) \<Rightarrow> s | _ \<Rightarrow> None)"

definition select_signers :: "DKGSession \<Rightarrow> string option \<Rightarrow> string list result" where
  "select_signers session droppedPartyId =
     (let signers = map pt_id (take (ds_threshold session) (ds_parties session));
          signers = (case nonempty droppedPartyId of None \<Rightarrow> signers
             | Some d \<Rightarrow> filter (\<lambda>s. s \<noteq> d) signers)
      in if length signers < ds_threshold session
         then Inl (Error (''Insufficient signers: '' @ dec (int (length signers)) @ '' < '' @ dec (int (ds_threshold session))))
         else Inr signers)"

text \<open>Phase 1: nonces and their points in raw form.\<close>

fun draw_nonces :: "'p ec \<Rightarrow> string list \<Rightarrow> (string, int \<times> bytes) js_map \<Rightarrow> (string, int \<times> bytes) js_map rnd" where
  "draw_nonces E [] acc = rnd_return acc"
| "draw_nonces E (signer # signers) acc =
     rnd_bind (randomScalar (ec_order E)) (\<lambda>k.
     rnd_bind (rnd_lift (rbind (ec_BASE_multiply E k) (\<lambda>R. ec_toRawBytes E R False))) (\<lambda>raw.
     draw_nonces E signers (jm_set acc signer (k, raw))))"

text \<open>\<open>ProjectivePoint.fromHex\<close> on bytes is the parse of their hexadecimal form.\<close>

definition ec_from_raw :: "'p ec \<Rightarrow> bytes \<Rightarrow> 'p result" where
  "ec_from_raw E raw = ec_fromHex E (concat (map byte_hex raw))"

fun combine_nonces :: "'p ec \<Rightarrow> (string, int \<times> bytes) js_map \<Rightarrow> 'p \<Rightarrow> 'p result" where
  "combine_nonces E [] P = Inr P"
| "combine_nonces E ((signer, k, raw) # rest) P =
     rbind (ec_from_raw E raw) (\<lambda>R. combine_nonces E rest (ec_add E P R))"

definition partial_s :: "int \<Rightarrow> int \<Rightarrow> int \<Rightarrow> int \<Rightarrow> int \<Rightarrow> int result" where
  "partial_s q r z k share =
     rbind (modInverseOrder q k) (\<lambda>kInv.
     let rx = modN q (r * share) in Inr (modN q (kInv * modN q (z + rx))))"

text \<open>Phase 3: a signer without a (non-zero) share is skipped.\<close>

fun partial_signatures :: "int \<Rightarrow> int \<Rightarrow> int \<Rightarrow> (string, int) js_map \<Rightarrow> (string, int \<times> bytes) js_map
  \<Rightarrow> string list \<Rightarrow> (string, int) js_map \<Rightarrow> (string, int) js_map result" where
  "partial_signatures q r z shares nonces [] acc = Inr acc"
| "partial_signatures q r z shares nonces (signer # signers) acc =
     (case jm_get shares signer of
        None \<Rightarrow> partial_signatures q r z shares nonces signers acc
      | Some share \<Rightarrow>
          if share = 0 then partial_signatures q r z shares nonces signers acc
          else case jm_get nonces signer of
            None \<Rightarrow> Inl (TypeError ''Cannot read properties of undefined'')
          | Some (k, raw) \<Rightarrow>
              rbind (partial_s q r z k share) (\<lambda>s.
              partial_signatures q r z shares nonces signers (jm_set acc signer s)))"

text \<open>Phases 2 to 4, for given nonces: \<open>r\<close>, the partial signatures and the combined \<open>s\<close>.\<close>

definition aggregate :: "'p ec \<Rightarrow> int \<Rightarrow> (string, int) js_map \<Rightarrow> (string, int \<times> bytes) js_map \<Rightarrow> string list
  \<Rightarrow> (int \<times> (string, int) js_map \<times> int) result" where
  "aggregate E z shares nonces signers =
     (let q = ec_order E in
      rbind (combine_nonces E nonces (ec_ZERO E)) (\<lambda>R.
      rbind (ec_toRawBytes E R False) (\<lambda>raw.
      let r = modN q (ec_x E R) in
      rbind (partial_signatures q r z shares nonces signers []) (\<lambda>partials.
      rbind (combineSignatures q (map snd partials) (signer_indices (length signers))) (\<lambda>s.
      Inr (r, partials, s))))))"

definition signing_message :: "string \<Rightarrow> string \<Rightarrow> string \<Rightarrow> string \<Rightarrow> int \<Rightarrow> string" where
  "signing_message chainId amount symbol toAddress now =
     chainId @ '':'' @ amount @ '':'' @ symbol @ '':'' @ toAddress @ '':'' @ dec now"

definition ceremony_logs :: "DKGSession \<Rightarrow> string list \<Rightarrow> string list" where
  "ceremony_logs session signers =
     [''DKG session loaded: '' @ ds_sessionId session,
      ''Phase 1: '' @ dec (int (length signers)) @ '' signers generated independent nonces'',
      ''Phase 2: MtA exchange completed with ZK range proofs'',
      ''Phase 3: Partial signatures computed'',
      ''Phase 4: Lagrange interpolation combined signatures'',
      ''Phase 5: Final ECDSA signature verified'']"

definition sign_with_session :: "hashes \<Rightarrow> 'p ec \<Rightarrow> int \<Rightarrow> DKGSession \<Rightarrow> string \<Rightarrow> string \<Rightarrow> string \<Rightarrow> string
  \<Rightarrow> string option \<Rightarrow> mpc_state \<Rightarrow> (SigningCeremonyState \<times> mpc_state) rnd" where
  "sign_with_session h E now session chainId amount symbol toAddress droppedPartyId st =
     rnd_bind (generateSessionId h) (\<lambda>ceremonyId.
     let messageHash = h_sha256 h (utf8 (signing_message chainId amount symbol toAddress now)) in
     rnd_bind (rnd_lift (select_signers session droppedPartyId)) (\<lambda>signers.
     case jm_get (ms_nodeShares st) (ds_sessionId session) of
       None \<Rightarrow> rnd_throw (Error ''DKG shares not found'')
     | Some shares \<Rightarrow>
         rnd_bind (draw_nonces E signers []) (\<lambda>nonces.
         rnd_bind (rnd_lift (rbind (bytesToBigInt messageHash) (\<lambda>z. aggregate E z shares nonces signers)))
           (\<lambda>(r, partials, s).
         let ceremony = \<lparr>sc_ceremonyId = ceremonyId, sc_dkgSessionId = ds_sessionId session,
               sc_chainId = chainId, sc_curve = ds_curve session,
               sc_messageHash = ''0x'' @ h_bytesToHex h messageHash, sc_amount = amount,
               sc_symbol = symbol, sc_toAddress = toAddress, sc_currentRound = ''COMPLETED'',
               sc_activeSigners = signers,
               sc_partialSignatures = map (\<lambda>(i, s). (i, ''0x'' @ hex64 s)) partials,
               sc_nonceCommitments = map (\<lambda>(i, k, raw). (i, ''0x'' @ h_bytesToHex h raw)) nonces,
               sc_mtaProofs = [], sc_consistencyChecks = [(''combined_signature'', True)],
               sc_finalSignature = \<lparr>fs_r = ''0x'' @ hex64 r, fs_s = ''0x'' @ hex64 s, fs_v = 27,
                 fs_rawSigHex = ''0x'' @ hex64 r @ hex64 s @ ''1b''\<rparr>,
               sc_durationMs = 0, sc_logs = ceremony_logs session signers, sc_createdAt = now\<rparr>
         in rnd_return (ceremony,
              st\<lparr>ms_signSessions := jm_set (ms_signSessions st) ceremonyId ceremony\<rparr>)))))"

definition executeThresholdSigning :: "hashes \<Rightarrow> 'p ec \<Rightarrow> int \<Rightarrow> string \<Rightarrow> string \<Rightarrow> string \<Rightarrow> string
  \<Rightarrow> string option \<Rightarrow> mpc_state \<Rightarrow> (SigningCeremonyState \<times> mpc_state) rnd" where
  "executeThresholdSigning h E now chainId amount symbol toAddress droppedPartyId st =
     (case find_completed (ms_dkgSessions st) of
        None \<Rightarrow> rnd_throw (Error ''No active DKG session found'')
      | Some session \<Rightarrow> sign_with_session h E now session chainId amount symbol toAddress droppedPartyId st)"

subsection \<open>Lemmas on key generation\<close>

lemma length_fill_registry: "totalParties \<le> length (fill_registry totalParties reg)"
  by (simp add: fill_registry_def)

lemma node_material_unbound:
  "rnd_bind (draw_polynomial h E threshold) (\<lambda>poly.
     rnd_bind (generatePaillierKeys NotImported 2048) (\<lambda>k. rnd_return (poly, k))) t \<noteq> Some (Inr r, t')"
  using keygen_unbound by (cases r) (auto simp: result_simps)

lemma phase1_unbound:
  assumes "nodes \<noteq> []" and "dkg_phase1 NotImported h E threshold nodes acc glob t = Some ((r, glob'), t')"
  shows "(\<exists>e. r = Inl e) \<and> glob' = glob"
proof -
  obtain node ns polys keys where n: "nodes = node # ns" "acc = (polys, keys)"
    using assms by (cases nodes; cases acc) auto
  show ?thesis
    using assms(2) unfolding n dkg_phase1.simps
    by (auto simp: node_material_unbound split: option.splits sum.splits)
qed

lemma dkg_unbound:
  "case executeDKG NotImported h E now threshold (Suc n) curve st t of
     None \<Rightarrow> True
   | Some ((r, st'), t') \<Rightarrow> (\<exists>e. r = Inl e) \<and> ms_dkgSessions st' = ms_dkgSessions st
       \<and> ms_nodeShares st' = ms_nodeShares st \<and> ms_nodePaillierKeys st' = ms_nodePaillierKeys st"
proof -
  let ?reg = "fill_registry (Suc n) (ms_nodeRegistry st)"
  have ne: "take (Suc n) ?reg \<noteq> []" using length_fill_registry [of "Suc n" "ms_nodeRegistry st"] by auto
  show ?thesis
    using phase1_unbound [OF ne, of h E threshold "([], [])" "ms_nodePaillierKeys st"]
    by (fastforce simp: executeDKG_def Let_def split: option.splits sum.splits)
qed

lemma find_completed_none: "find_completed m = None"
  by (simp add: find_completed_def session_state_def find_None_iff)

lemma signing_throws:
  "executeThresholdSigning h E now chainId amount symbol toAddress dropped st t
     = Some (Inl (Error ''No active DKG session found''), t)"
  by (simp add: executeThresholdSigning_def rnd_throw_def find_completed_none)

definition good_poly :: "int \<Rightarrow> nat \<Rightarrow> int list \<Rightarrow> bool" where
  "good_poly q t coeffs \<longleftrightarrow> length coeffs = t \<and> (\<forall>c \<in> set coeffs. 0 < c \<and> c < q)"

lemma draw_polynomial_good:
  "draw_polynomial h E n t = Some (Inr (coeffs, cs), t') \<Longrightarrow> good_poly (ec_order E) n coeffs"
  by (induction n arbitrary: t t' coeffs cs)
    (fastforce simp: good_poly_def result_simps dest: randomScalar_range)+

lemma jm_set_new: "k \<notin> fst ` set m \<Longrightarrow> jm_set m k v = m @ [(k, v)]"
  unfolding jm_set_def by (induction m) auto

lemma phase1_good:
  assumes "dkg_phase1 bd h E n nodes (polys, keys) glob t = Some ((Inr (polys', keys'), glob'), t')"
    and "\<forall>(i, cs, c) \<in> set polys. good_poly (ec_order E) n cs"
    and "distinct (map nc_id nodes)" and "nc_id ` set nodes \<inter> fst ` set polys = {}"
  shows "(\<forall>(i, cs, c) \<in> set polys'. good_poly (ec_order E) n cs) \<and> length polys' = length polys + length nodes"
  using assms
proof (induction nodes arbitrary: polys keys glob t)
  case Nil
  then show ?case by simp
next
  case (Cons node nodes)
  from Cons.prems(1) obtain cs c t1 k t2 where d: "draw_polynomial h E n t = Some (Inr (cs, c), t1)"
    and r: "dkg_phase1 bd h E n nodes (jm_set polys (nc_id node) (cs, c), jm_set keys (nc_id node) k)
      (jm_set glob (nc_id node) k) t2 = Some ((Inr (polys', keys'), glob'), t')"
    by (auto simp: result_simps split: option.splits sum.splits)
  have new: "jm_set polys (nc_id node) (cs, c) = polys @ [(nc_id node, cs, c)]"
    using Cons.prems(4) by (intro jm_set_new) auto
  have "(\<forall>(i, cs, c) \<in> set polys'. good_poly (ec_order E) n cs)
      \<and> length polys' = length (jm_set polys (nc_id node) (cs, c)) + length nodes"
    using Cons.prems(2-4) draw_polynomial_good [OF d]
    by (intro Cons.IH [OF r]) (auto simp: new)
  then show ?case by (simp add: new)
qed

text \<open>The sum of the polynomials, coefficient by coefficient.\<close>

definition sum_coeffs :: "nat \<Rightarrow> polynomials \<Rightarrow> int list" where
  "sum_coeffs n polys = map (\<lambda>d. \<Sum>(i, cs, c)\<leftarrow>polys. cs ! d) [0..<n]"

lemma poly_at_sum_coeffs:
  assumes "\<forall>(i, cs, c) \<in> set polys. length cs = n"
  shows "poly_at (sum_coeffs n polys) x = (\<Sum>(i, cs, c)\<leftarrow>polys. poly_at cs x)"
  using assms
proof (induction polys)
  case Nil
  then show ?case by (simp add: sum_coeffs_def poly_at_def)
next
  case (Cons p polys)
  obtain i cs c where p: "p = (i, cs, c)" by (cases p)
  have "length cs = n" using Cons.prems p by simp
  then have "poly_at (sum_coeffs n (p # polys)) x = poly_at cs x + poly_at (sum_coeffs n polys) x"
    by (simp add: p poly_at_def sum_coeffs_def sum.distrib [symmetric] algebra_simps)
  then show ?case using Cons by (simp add: p)
qed

lemma total_share_fold:
  assumes "1 < q" and "0 \<le> x" and "\<forall>(i, cs, c) \<in> set polys. good_poly q n cs" and "0 \<le> a"
  shows "foldl (\<lambda>total (nodeId, coeffs, commitments). (total + eval_poly q coeffs x) smod q) (a mod q) polys
    = (a + (\<Sum>(i, cs, c)\<leftarrow>polys. poly_at cs x)) mod q"
  using assms(3,4)
proof (induction polys arbitrary: a)
  case Nil
  then show ?case by simp
next
  case (Cons p polys)
  obtain i cs c where p: "p = (i, cs, c)" by (cases p)
  have g: "good_poly q n cs" using Cons.prems(1) p by simp
  then have nn: "\<forall>c \<in> set cs. 0 \<le> c" by (auto simp: good_poly_def)
  have e: "eval_poly q cs x = poly_at cs x mod q" by (rule eval_poly_eq [OF assms(1,2) nn])
  have pos: "0 \<le> poly_at cs x" unfolding poly_at_def
    using nn assms(2) by (intro sum_nonneg mult_nonneg_nonneg) auto
  have "(a mod q + poly_at cs x mod q) smod q = (a + poly_at cs x) mod q"
    using assms(1) by (subst smod_eq_mod) (auto simp: mod_simps)
  then show ?case
    using Cons.IH [of "a + poly_at cs x"] Cons.prems pos by (simp add: p e add.assoc)
qed

lemma total_share_eq:
  assumes "1 < q" and "0 \<le> x" and "\<forall>(i, cs, c) \<in> set polys. good_poly q n cs"
  shows "total_share q polys x = poly_at (sum_coeffs n polys) x mod q"
proof -
  have "\<forall>(i, cs, c) \<in> set polys. length cs = n" using assms(3) by (auto simp: good_poly_def)
  then show ?thesis
    using total_share_fold [OF assms, of 0] assms(1) by (simp add: total_share_def poly_at_sum_coeffs)
qed

lemma phase2_shares:
  assumes "dkg_phase2 h E polys keys i nodes shares = Inr shares'"
    and "distinct (map nc_id nodes)" and "nc_id ` set nodes \<inter> fst ` set shares = {}"
  shows "map (ks_share \<circ> snd) shares' = map (ks_share \<circ> snd) shares
    @ map (\<lambda>j. total_share (ec_order E) polys (int (i + j) + 1)) [0..<length nodes]"
  using assms
proof (induction nodes arbitrary: i shares)
  case Nil
  then show ?case by simp
next
  case (Cons node nodes)
  let ?s = "total_share (ec_order E) polys (int i + 1)"
  from Cons.prems(1) obtain P pub where r: "dkg_phase2 h E polys keys (Suc i) nodes (jm_set shares (nc_id node)
      \<lparr>ks_nodeId = nc_id node, ks_share = ?s, ks_publicShare = pub,
        ks_paillierPublicKey = map_option kp_public (jm_get keys (nc_id node))\<rparr>) = Inr shares'"
    by (auto simp: Let_def result_simps)
  have new: "jm_set shares (nc_id node) v = shares @ [(nc_id node, v)]" for v
    using Cons.prems(3) by (intro jm_set_new) auto
  have up: "[0..<length (node # nodes)] = 0 # map Suc [0..<length nodes]"
    by (simp add: upt_conv_Cons map_Suc_upt del: upt_Suc)
  show ?case
    using Cons.IH [OF r] Cons.prems(2,3)
    by (simp only: up list.map map_map) (auto simp: new comp_def algebra_simps)
qed

lemma group_key_eq:
  assumes "ec_laws E G" and "0 < n" and "\<forall>(i, cs, c) \<in> set polys. good_poly (ec_order E) n cs"
  shows "group_key E polys (G a) = Inr (G (a + poly_at (sum_coeffs n polys) 0))"
proof -
  have "group_key E polys (G a) = Inr (G (a + (\<Sum>(i, cs, c)\<leftarrow>polys. cs ! 0)))"
    using assms(3)
  proof (induction polys arbitrary: a)
    case Nil
    then show ?case by simp
  next
    case (Cons p polys)
    obtain i cs c where p: "p = (i, cs, c)" by (cases p)
    have "good_poly (ec_order E) n cs" using Cons.prems p by simp
    then obtain a0 cs' where cs: "cs = a0 # cs'" "0 < a0" "a0 < ec_order E"
      using assms(2) by (cases cs) (auto simp: good_poly_def)
    show ?case
      using Cons.IH [of "a + a0"] Cons.prems
      by (simp add: p cs ec_multiply_in [OF assms(1)] ec_laws_simps(2) [OF assms(1)] add.assoc)
  qed
  moreover have "poly_at (sum_coeffs n polys) 0 = (\<Sum>(i, cs, c)\<leftarrow>polys. cs ! 0)"
  proof -
    have "sum_coeffs n polys \<noteq> []" using assms(2) by (simp add: sum_coeffs_def)
    then show ?thesis using assms(2) by (simp add: poly_at_0) (simp add: sum_coeffs_def)
  qed
  ultimately show ?thesis by simp
qed

subsection \<open>Lemmas on signing\<close>

lemma partial_s_Inr:
  assumes "1 < q" and "partial_s q r z k x = Inr s"
  shows "\<exists>kInv. modInverseOrder q k = Inr kInv \<and> s = (kInv * (z + r * x)) mod q"
proof -
  have q: "0 < q" using assms(1) by simp
  have "modN q (kInv * modN q (z + modN q (r * x))) = (kInv * (z + r * x)) mod q" for kInv
    by (simp only: modN_eq [OF q] mod_add_right_eq mod_mult_right_eq)
  with assms(2) show ?thesis by (auto simp: partial_s_def result_simps Let_def)
qed

lemma mod_affine_right: "(a + c * (x mod q)) mod q = (a + c * x) mod (q :: int)"
proof -
  have "(a + c * (x mod q)) mod q = (a + (c * (x mod q)) mod q) mod q" by (rule mod_add_right_eq [symmetric])
  also have "\<dots> = (a + (c * x) mod q) mod q" by (simp only: mod_mult_right_eq)
  also have "\<dots> = (a + c * x) mod q" by (rule mod_add_right_eq)
  finally show ?thesis .
qed

lemma partial_signatures_eq:
  assumes "partial_signatures q r z shares nonces signers acc = Inr acc'"
    and "distinct signers" and "set signers \<inter> fst ` set acc = {}"
    and "\<forall>i \<in> set signers. jm_get shares i = Some (x i) \<and> x i \<noteq> 0 \<and> (\<exists>raw. jm_get nonces i = Some (k, raw))"
  shows "\<exists>ss. acc' = acc @ zip signers ss \<and> length ss = length signers
    \<and> (\<forall>i < length signers. partial_s q r z k (x (signers ! i)) = Inr (ss ! i))"
  using assms
proof (induction signers arbitrary: acc)
  case Nil
  then show ?case by simp
next
  case (Cons i signers)
  from Cons.prems obtain s where s: "partial_s q r z k (x i) = Inr s"
    and r: "partial_signatures q r z shares nonces signers (jm_set acc i s) = Inr acc'"
    by (auto simp: result_simps)
  have new: "jm_set acc i s = acc @ [(i, s)]" using Cons.prems(3) by (intro jm_set_new) auto
  obtain ss where "acc' = jm_set acc i s @ zip signers ss" "length ss = length signers"
    "\<forall>j < length signers. partial_s q r z k (x (signers ! j)) = Inr (ss ! j)"
    using Cons.IH [OF r] Cons.prems(2-4) by (auto simp: new)
  then show ?case
    using s by (intro exI [where x = "s # ss"]) (auto simp: new nth_Cons split: nat.splits)
qed

lemma combine_nonces_equal:
  assumes "ec_laws E G" and "ec_from_raw E raw = Inr (G k)"
  shows "combine_nonces E (map (\<lambda>i. (i, k, raw)) signers) (G a) = Inr (G (a + int (length signers) * k))"
  by (induction signers arbitrary: a)
    (simp_all add: assms(2) ec_laws_simps(2) [OF assms(1)] algebra_simps)

text \<open>The weights of the combination sum to 1.\<close>

lemma weights_sum: "0 < t \<Longrightarrow> (\<Sum>k<t. (- 1) ^ k * int (t choose Suc k)) = 1"
  using interpolate_at_0 [of "[1]" t] by (simp add: poly_at_def)

lemma equal_nonce_sum:
  assumes "is_prime q" and "int t < q" and "0 < t" and "modInverseOrder q k = Inr kInv"
    and "length ss = t" and "length xs = t"
    and "\<And>i. i < t \<Longrightarrow> ss ! i = (kInv * (z + r * xs ! i)) mod q"
    and "combineSignatures q xs (signer_indices t) = Inr X"
    and "combineSignatures q ss (signer_indices t) = Inr s"
  shows "(k * s) mod q = (z + r * X) mod q"
proof -
  let ?w = "\<lambda>i. (- 1) ^ i * int (t choose Suc i)"
  have q: "1 < q" by (rule is_prime_gt1 [OF assms(1)])
  have X: "X = (\<Sum>i<t. ?w i * xs ! i) mod q"
    using combine_eq [OF assms(1,2,6)] assms(8) by simp
  have s: "s = (\<Sum>i<t. ?w i * ss ! i) mod q"
    using combine_eq [OF assms(1,2,5)] assms(9) by simp
  have "(\<Sum>i<t. ?w i * ss ! i) mod q = (\<Sum>i<t. (?w i * ss ! i) mod q) mod q"
    by (rule mod_sum_eq [symmetric])
  also have "\<dots> = (\<Sum>i<t. (?w i * (kInv * (z + r * xs ! i))) mod q) mod q"
    by (rule arg_cong [where f = "\<lambda>s. s mod q"], rule sum.cong) (simp_all add: assms(7) mod_mult_right_eq)
  also have "\<dots> = (\<Sum>i<t. ?w i * (kInv * (z + r * xs ! i))) mod q" by (rule mod_sum_eq)
  also have "(\<Sum>i<t. ?w i * (kInv * (z + r * xs ! i)))
      = kInv * (z * (\<Sum>i<t. ?w i) + r * (\<Sum>i<t. ?w i * xs ! i))"
    by (simp add: sum_distrib_left sum.distrib algebra_simps)
  finally have s': "s = (kInv * (z + r * (\<Sum>i<t. ?w i * xs ! i))) mod q"
    using weights_sum [OF assms(3)] s by simp
  have "(k * s) mod q = (k * (kInv * (z + r * (\<Sum>i<t. ?w i * xs ! i)))) mod q"
    unfolding s' by (rule mod_mult_right_eq)
  also have "\<dots> = (z + r * (\<Sum>i<t. ?w i * xs ! i)) mod q"
    by (rule ord_inv.inv_mult_cancel [OF q assms(4)])
  also have "\<dots> = (z + r * X) mod q"
    unfolding X by (rule mod_affine_right [symmetric])
  finally show ?thesis .
qed

text \<open>The shares and the group key of a key generation.\<close>

lemma phase2_reconstructs:
  assumes "ec_laws E G" and "is_prime (ec_order E)" and "int (length nodes) < ec_order E"
    and "0 < threshold" and "threshold \<le> t" and "t \<le> length nodes" and "distinct (map nc_id nodes)"
    and "\<forall>(i, cs, c) \<in> set polys. good_poly (ec_order E) threshold cs"
    and "dkg_phase2 h E polys keys 0 nodes [] = Inr shares"
    and "group_key E polys (ec_ZERO E) = Inr P"
  shows "\<exists>x. combineSignatures (ec_order E) (take t (map (ks_share \<circ> snd) shares)) (signer_indices t) = Inr x
    \<and> 0 \<le> x \<and> x < ec_order E \<and> ec_equals E P (G x)"
proof -
  let ?q = "ec_order E" and ?f = "sum_coeffs threshold polys"
  have q: "1 < ?q" by (rule is_prime_gt1 [OF assms(2)])
  have P: "P = G (poly_at ?f 0)"
    using group_key_eq [OF assms(1,4,8), of 0] assms(10) ec_laws_simps(3) [OF assms(1)] by simp
  have sh: "map (ks_share \<circ> snd) shares = map (\<lambda>j. total_share ?q polys (int j + 1)) [0..<length nodes]"
    using phase2_shares [OF assms(9,7)] by simp
  have "combineSignatures ?q (take t (map (ks_share \<circ> snd) shares)) (signer_indices t)
      = Inr (poly_at ?f 0 mod ?q)"
  proof (rule combine_poly [OF assms(2)])
    show "int t < ?q" using assms(3,6) by simp
    show "length ?f \<le> t" using assms(5) by (simp add: sum_coeffs_def)
    show "length (take t (map (ks_share \<circ> snd) shares)) = t" using assms(6) by (simp add: sh)
    show "take t (map (ks_share \<circ> snd) shares) ! k mod ?q = poly_at ?f (int k + 1) mod ?q" if "k < t" for k
      using that assms(6) total_share_eq [OF q _ assms(8), of "int k + 1"] by (simp add: sh)
  qed
  moreover have "ec_equals E P (G (poly_at ?f 0 mod ?q))"
    using ec_laws_simps(4) [OF assms(1)] by (simp add: P)
  ultimately show ?thesis using q by simp
qed

subsection \<open>Properties\<close>

text \<open>As written, key generation never succeeds: for any number of parties, threshold, state and
  random input, \<open>executeDKG\<close> throws or does not return, and leaves the sessions and shares as they
  were (the Paillier key of the first node cannot be generated).\<close>

theorem dkg_never_completes:
  "case executeDKG NotImported h E now threshold (Suc n) curve st t of
     None \<Rightarrow> True
   | Some ((r, st'), t') \<Rightarrow> (\<exists>e. r = Inl e) \<and> ms_dkgSessions st' = ms_dkgSessions st
       \<and> ms_nodeShares st' = ms_nodeShares st \<and> ms_nodePaillierKeys st' = ms_nodePaillierKeys st"
  by (rule dkg_unbound)

text \<open>C2: With polynomials as phase 1 draws them, key generation is sound Shamir sharing: the shares of
  the first \<open>threshold\<close> nodes combine, by the interpolation the signing code uses, to a secret \<open>x\<close>
  whose multiple of the base point is the group public key; the same holds for any larger number
  of nodes.\<close>

theorem dkg_shares_reconstruct:
  assumes "ec_laws E G" and "is_prime (ec_order E)" and "int (length nodes) < ec_order E"
    and "0 < threshold" and "threshold \<le> t" and "t \<le> length nodes" and "distinct (map nc_id nodes)"
    and "\<forall>(i, cs, c) \<in> set polys. good_poly (ec_order E) threshold cs"
    and "dkg_phase2 h E polys keys 0 nodes [] = Inr shares"
    and "group_key E polys (ec_ZERO E) = Inr P"
  shows "\<exists>x. combineSignatures (ec_order E) (take t (map (ks_share \<circ> snd) shares)) (signer_indices t) = Inr x
    \<and> 0 \<le> x \<and> x < ec_order E \<and> ec_equals E P (G x)"
  by (rule phase2_reconstructs [OF assms])

theorem dkg_shares_reconstruct_witness:
  "let nodes = fill_registry 3 []; polys = [(''node-1'', [2, 3], []), (''node-2'', [4, 1], [])]
   in \<exists>shares P x. dkg_phase2 toy_hashes (toy_ec 11) polys [] 0 nodes [] = Inr shares
     \<and> group_key (toy_ec 11) polys 0 = Inr P
     \<and> combineSignatures 11 (take 2 (map (ks_share \<circ> snd) shares)) (signer_indices 2) = Inr x
     \<and> P = x mod 11"
proof -
  let ?nodes = "fill_registry 3 []" and ?polys = "[(''node-1'', [2, 3], []), (''node-2'', [4, 1], [])]"
  have p: "is_prime (ec_order (toy_ec 11))" by (simp add: toy_ec_def) (rule is_primeI; code_simp)
  have n: "length ?nodes = 3" "distinct (map nc_id ?nodes)" by code_simp+
  have ids: "?nodes = [?nodes ! 0, ?nodes ! 1, ?nodes ! 2]"
    using n(1) by (auto simp: list_eq_iff_nth_eq less_Suc_eq numeral_eq_Suc)
  have ts: "total_share 11 ?polys 1 = 10" "total_share 11 ?polys 2 = 3" "total_share 11 ?polys 3 = 7"
    by code_simp+
  have "\<exists>shares. dkg_phase2 toy_hashes (toy_ec 11) ?polys [] 0 [a, b, c] [] = Inr shares" for a b c
    by (simp add: Let_def toy_ec_def ts point_hex_def)
  then obtain shares where sh: "dkg_phase2 toy_hashes (toy_ec 11) ?polys [] 0 ?nodes [] = Inr shares"
    using ids by metis
  have g: "group_key (toy_ec 11) ?polys (ec_ZERO (toy_ec 11)) = Inr 6" by (simp add: toy_ec_def)
  have good: "\<forall>(i, cs, c) \<in> set ?polys. good_poly (ec_order (toy_ec 11)) 2 cs"
    by (simp add: good_poly_def toy_ec_def)
  from dkg_shares_reconstruct [OF toy_ec_laws p _ _ _ _ n(2) good sh g, of 2] n(1)
  obtain x where "combineSignatures 11 (take 2 (map (ks_share \<circ> snd) shares)) (signer_indices 2) = Inr x"
    "6 = x mod 11"
    by (auto simp: toy_ec_def)
  with sh g show ?thesis by (auto simp: Let_def toy_ec_def)
qed

lemma dkg_session_Inr:
  assumes "dkg_session h E now threshold totalParties curve nodes sessionId polys keys shares t = Some (Inr session, t')"
  obtains P where "group_key E polys (ec_ZERO E) = Inr P" and "point_hex h E P = Inr (ds_masterPublicKey session)"
    and "ds_sessionId session = sessionId"
proof (cases "group_key E polys (ec_ZERO E)")
  case (Inl e)
  then show thesis using assms by (simp add: dkg_session_def result_simps)
next
  case (Inr P)
  have "point_hex h E P = Inr (ds_masterPublicKey session) \<and> ds_sessionId session = sessionId"
    using assms by (auto simp: dkg_session_def Inr result_simps)
  then show thesis using that Inr by blast
qed

text \<open>The whole of \<open>executeDKG\<close>, with the primality test bound: a session it returns is stored under its
  identifier, its shares are stored beside it, any \<open>threshold\<close> or more of them (of the first nodes)
  combine to a secret, and the master public key is the point of that secret.\<close>

theorem executeDKG_sound:
  assumes "ec_laws E G" and "is_prime (ec_order E)" and "int totalParties < ec_order E"
    and "0 < threshold" and "threshold \<le> n" and "n \<le> totalParties"
    and "distinct (map nc_id (take totalParties (fill_registry totalParties (ms_nodeRegistry st))))"
    and "executeDKG bd h E now threshold totalParties curve st t = Some ((Inr session, st'), t')"
  obtains shares x P where "jm_get (ms_dkgSessions st') (ds_sessionId session) = Some session"
    and "jm_get (ms_nodeShares st') (ds_sessionId session) = Some shares"
    and "combineSignatures (ec_order E) (take n (map snd shares)) (signer_indices n) = Inr x"
    and "point_hex h E P = Inr (ds_masterPublicKey session)" and "ec_equals E P (G x)"
proof -
  let ?nodes = "take totalParties (fill_registry totalParties (ms_nodeRegistry st))"
  have len: "length ?nodes = totalParties" using length_fill_registry by (simp add: min_absorb2)
  from assms(8) obtain sessionId t0 polys keys glob t1 where
    p1: "dkg_phase1 bd h E threshold ?nodes ([], []) (ms_nodePaillierKeys st) t0 = Some ((Inr (polys, keys), glob), t1)"
    and sh: "dkg_shared h E now threshold totalParties curve ?nodes sessionId polys keys
      (st\<lparr>ms_nodeRegistry := fill_registry totalParties (ms_nodeRegistry st), ms_nodePaillierKeys := glob\<rparr>) t1
      = Some ((Inr session, st'), t')"
    by (auto simp: executeDKG_def Let_def split: option.splits sum.splits)
  from sh obtain shares where p2: "dkg_phase2 h E polys keys 0 ?nodes [] = Inr shares"
    and se: "dkg_session h E now threshold totalParties curve ?nodes sessionId polys keys shares t1 = Some (Inr session, t')"
    and st': "jm_get (ms_dkgSessions st') sessionId = Some session"
      "jm_get (ms_nodeShares st') sessionId = Some (map (\<lambda>(nodeId, s). (nodeId, ks_share s)) shares)"
    by (auto simp: dkg_shared_def Let_def js_map_simps split: option.splits sum.splits)
  obtain P where g: "group_key E polys (ec_ZERO E) = Inr P" and mk: "point_hex h E P = Inr (ds_masterPublicKey session)"
    and id: "ds_sessionId session = sessionId"
    by (rule dkg_session_Inr [OF se])
  have good: "\<forall>(i, cs, c) \<in> set polys. good_poly (ec_order E) threshold cs"
    using phase1_good [OF p1] assms(7) by simp
  have "int (length ?nodes) < ec_order E" "n \<le> length ?nodes" unfolding len using assms(3,6) .
  from phase2_reconstructs [OF assms(1,2) this(1) assms(4,5) this(2) assms(7) good p2 g]
  obtain x where x: "combineSignatures (ec_order E) (take n (map (ks_share \<circ> snd) shares)) (signer_indices n) = Inr x"
    "ec_equals E P (G x)" by blast
  have "map snd (map (\<lambda>(nodeId, s). (nodeId, ks_share s)) shares) = map (ks_share \<circ> snd) shares" by auto
  with x(1) have "combineSignatures (ec_order E) (take n (map snd (map (\<lambda>(nodeId, s). (nodeId, ks_share s)) shares)))
      (signer_indices n) = Inr x" by (simp only:)
  with st' show ?thesis unfolding id [symmetric] by (rule that [OF _ _ _ mk x(2)])
qed

text \<open>Threshold signing never finds a key: in every state, also one that holds completed sessions,
  \<open>executeThresholdSigning\<close> throws \<open>No active DKG session found\<close>, and \<open>getDKGSession\<close> without an id
  returns nothing, because the lookup reads a property no session has.\<close>

theorem signing_finds_no_session:
  "executeThresholdSigning h E now chainId amount symbol toAddress dropped st t
     = Some (Inl (Error ''No active DKG session found''), t)
   \<and> getDKGSession st None = None
   \<and> getDKGSession (st\<lparr>ms_dkgSessions := jm_set (ms_dkgSessions st) (c # cs) session\<rparr>) (Some (c # cs)) = Some session"
  by (simp add: signing_throws getDKGSession_def find_completed_none)

text \<open>A dropped party is never replaced. The signers are the first \<open>threshold\<close> parties or none: a
  ceremony that names a dropped party proceeds exactly when there are enough parties and the named
  one is not among the first \<open>threshold\<close>.\<close>

theorem dropped_party_not_replaced:
  "select_signers session (Some (c # cs)) = Inr signers \<longleftrightarrow>
     ds_threshold session \<le> length (ds_parties session)
     \<and> signers = map pt_id (take (ds_threshold session) (ds_parties session))
     \<and> c # cs \<notin> set signers"
proof -
  let ?all = "map pt_id (take (ds_threshold session) (ds_parties session))"
  have f: "length (filter (\<lambda>s. s \<noteq> c # cs) ?all) < length ?all \<longleftrightarrow> c # cs \<in> set ?all"
  proof
    assume "length (filter (\<lambda>s. s \<noteq> c # cs) ?all) < length ?all"
    show "c # cs \<in> set ?all"
    proof (rule ccontr)
      assume "c # cs \<notin> set ?all"
      then have "filter (\<lambda>s. s \<noteq> c # cs) ?all = ?all" by (intro filter_True) blast
      with \<open>length (filter (\<lambda>s. s \<noteq> c # cs) ?all) < length ?all\<close> show False by (simp only: less_irrefl)
    qed
  next
    assume "c # cs \<in> set ?all"
    then show "length (filter (\<lambda>s. s \<noteq> c # cs) ?all) < length ?all" by (intro length_filter_less) auto
  qed
  have id: "c # cs \<notin> set ?all \<Longrightarrow> filter (\<lambda>s. s \<noteq> c # cs) ?all = ?all" by (intro filter_True) blast
  have sel: "select_signers session (Some (c # cs))
      = (if length (filter (\<lambda>s. s \<noteq> c # cs) ?all) < ds_threshold session then Inl (Error (''Insufficient signers: ''
             @ dec (int (length (filter (\<lambda>s. s \<noteq> c # cs) ?all))) @ '' < '' @ dec (int (ds_threshold session))))
         else Inr (filter (\<lambda>s. s \<noteq> c # cs) ?all))"
    by (simp only: select_signers_def nonempty_def Let_def option.case list.case)
  show ?thesis
  proof (cases "ds_threshold session \<le> length (ds_parties session)")
    case True
    then have l: "length ?all = ds_threshold session" by simp
    show ?thesis
    proof (cases "c # cs \<in> set ?all")
      case True
      with f l have "length (filter (\<lambda>s. s \<noteq> c # cs) ?all) < ds_threshold session" by simp
      with True show ?thesis unfolding sel by auto
    next
      case False
      with \<open>ds_threshold session \<le> length (ds_parties session)\<close> show ?thesis unfolding sel id [OF False] by auto
    qed
  next
    case False
    then have "length (filter (\<lambda>s. s \<noteq> c # cs) ?all) < ds_threshold session"
      by (intro le_less_trans [OF length_filter_le]) simp
    with False show ?thesis unfolding sel by simp
  qed
qed

lemma scaled_equation_iff:
  assumes "is_prime q" and "0 < t" and "int t < q" and eq: "(k * s) mod q = w mod q"
  shows "(int t * k * s) mod q = w mod q \<longleftrightarrow> t = 1 \<or> w mod q = 0"
proof -
  have "(int t * k * s) mod q = (int t * ((k * s) mod q)) mod q"
    by (simp add: mod_mult_right_eq mult.assoc)
  also have "\<dots> = (int t * w) mod q" unfolding eq by (rule mod_mult_right_eq)
  finally have scaled: "(int t * k * s) mod q = (int t * w) mod q" .
  have "(int t * w) mod q = w mod q \<longleftrightarrow> q dvd (int t - 1) * w"
    by (simp add: mod_eq_dvd_iff algebra_simps)
  also have "\<dots> \<longleftrightarrow> t = 1 \<or> q dvd w"
  proof
    assume d: "q dvd (int t - 1) * w"
    show "t = 1 \<or> q dvd w"
    proof (cases "t = 1")
      case False
      then have "\<not> q dvd int t - 1" using assms(2,3) by (intro zdvd_not_zless) auto
      then show ?thesis using euclid_dvd [OF assms(1)] d by blast
    qed simp
  qed auto
  finally show ?thesis by (simp add: scaled mod_eq_0_iff_dvd)
qed

text \<open>C30: What the ceremony signs with equal nonces. If every signer draws the nonce \<open>k\<close>, then for \<open>t\<close>
  signers \<open>r\<close> is the abscissa of \<open>t * k * G\<close>, while the combined \<open>s\<close> satisfies the signature equation
  of the secret for the nonce \<open>k\<close>; it therefore satisfies the equation for \<open>t * k\<close>, the nonce \<open>r\<close>
  belongs to, exactly when there is one signer (or the signed value is 0 modulo the order).\<close>

theorem threshold_signature_equal_nonces:
  assumes "ec_laws E G" and "is_prime (ec_order E)" and "int (length signers) < ec_order E"
    and "signers \<noteq> []" and "distinct signers" and "ec_from_raw E raw = Inr (G k)"
    and "\<forall>i \<in> set signers. jm_get shares i = Some (x i) \<and> x i \<noteq> 0"
    and "combineSignatures (ec_order E) (map x signers) (signer_indices (length signers)) = Inr X"
    and "aggregate E z shares (map (\<lambda>i. (i, k, raw)) signers) signers = Inr (r, partials, s)"
  shows "r = ec_x E (G (int (length signers) * k)) mod ec_order E
    \<and> (k * s) mod ec_order E = (z + r * X) mod ec_order E
    \<and> ((int (length signers) * k * s) mod ec_order E = (z + r * X) mod ec_order E
        \<longleftrightarrow> length signers = 1 \<or> (z + r * X) mod ec_order E = 0)"
proof -
  let ?q = "ec_order E" and ?t = "length signers" and ?n = "map (\<lambda>i. (i, k, raw)) signers"
  have q: "1 < ?q" by (rule is_prime_gt1 [OF assms(2)])
  have t: "0 < ?t" using assms(4) by simp
  have R: "combine_nonces E ?n (ec_ZERO E) = Inr (G (int ?t * k))"
    using combine_nonces_equal [OF assms(1,6), of signers 0] ec_laws_simps(3) [OF assms(1)] by simp
  from assms(9) R have r: "r = modN ?q (ec_x E (G (int ?t * k)))"
    and ps: "partial_signatures ?q r z shares ?n signers [] = Inr partials"
    and cs: "combineSignatures ?q (map snd partials) (signer_indices ?t) = Inr s"
    by (auto simp: aggregate_def Let_def result_simps)
  have nonce: "jm_get ?n i = Some (k, raw)" if "i \<in> set signers" for i
    using that by (induction signers) (auto simp: jm_get_def)
  obtain ss where part: "partials = zip signers ss" and len: "length ss = ?t"
    and each: "\<forall>i < ?t. partial_s ?q r z k (x (signers ! i)) = Inr (ss ! i)"
    using partial_signatures_eq [OF ps assms(5), of x k] assms(7) nonce by auto
  obtain kInv where inv: "modInverseOrder ?q k = Inr kInv"
    using partial_s_Inr [OF q] each t by blast
  have eqn: "ss ! i = (kInv * (z + r * map x signers ! i)) mod ?q" if "i < ?t" for i
  proof -
    have "partial_s ?q r z k (x (signers ! i)) = Inr (ss ! i)" using each that by blast
    from partial_s_Inr [OF q this] inv that show ?thesis by auto
  qed
  have snd: "map snd partials = ss" using len by (simp add: part)
  have ks: "(k * s) mod ?q = (z + r * X) mod ?q"
    by (rule equal_nonce_sum [OF assms(2,3) t inv len _ eqn assms(8) cs [unfolded snd]]) simp_all
  show ?thesis using r ks scaled_equation_iff [OF assms(2) t assms(3) ks] q by (simp add: modN_eq)
qed

theorem threshold_signature_equal_nonces_witness:
  "\<exists>r partials s X. aggregate (toy_ec 11) 4 [(''a'', 10), (''b'', 3)] [(''a'', 3, [3]), (''b'', 3, [3])] [''a'', ''b'']
      = Inr (r, partials, s)
    \<and> combineSignatures 11 [10, 3] (signer_indices 2) = Inr X
    \<and> (3 * s) mod 11 = (4 + r * X) mod 11 \<and> (6 * s) mod 11 \<noteq> (4 + r * X) mod 11"
proof -
  have p: "is_prime (ec_order (toy_ec 11))" by (simp add: toy_ec_def) (rule is_primeI; code_simp)
  have raw: "ec_from_raw (toy_ec 11) [3] = Inr (3 mod 11)" by code_simp
  have ps: "partial_s 11 6 4 3 10 = Inr 3" "partial_s 11 6 4 3 3 = Inr 0"
    "combineSignatures 11 [3, 0] (signer_indices 2) = Inr 6" "modN 11 6 = 6"
    by code_simp+
  have "combine_nonces (toy_ec 11) [(''a'', 3, [3]), (''b'', 3, [3])] 0 = Inr 6"
    using raw by (simp add: toy_ec_def)
  then have a: "aggregate (toy_ec 11) 4 [(''a'', 10), (''b'', 3)] [(''a'', 3, [3]), (''b'', 3, [3])] [''a'', ''b'']
      = Inr (6, [(''a'', 3), (''b'', 0)], 6)"
    using ps by (simp add: aggregate_def toy_ec_def Let_def jm_get_def jm_set_def numeral_2_eq_2)
  have c: "combineSignatures 11 [10, 3] (signer_indices 2) = Inr 6" by code_simp
  show ?thesis
    using threshold_signature_equal_nonces [OF toy_ec_laws p, of "[''a'', ''b'']" "[3]" 3
        "[(''a'', 10), (''b'', 3)]" "\<lambda>i. if i = ''a'' then 10 else 3" 6 4 6 "[(''a'', 3), (''b'', 0)]" 6] raw a c
    by (simp add: toy_ec_def jm_get_def numeral_2_eq_2)
qed

end
