(* ===== verification/Json.thy ===== *)
theory Json
  imports Complex_Main JsText
begin

text \<open>
  \<open>JSON.stringify\<close> on the values the program serializes: objects keep the order of their
  properties, a property whose value is \<open>undefined\<close> is left out by the caller, strings escape the
  quote, the backslash and the control characters. A number is a rational, printed by the parameter
  \<open>num\<close> (\<open>Number.prototype.toString\<close>). Where a number comes from a caller unchecked and the code
  compares it, its infinities and \<open>NaN\<close> are kept: \<open>js_number\<close>.
\<close>

datatype js_number = Finite rat | Infinity | MinusInfinity | NotANumber

fun js_plus :: "js_number \<Rightarrow> js_number \<Rightarrow> js_number" where
  "js_plus (Finite x) (Finite y) = Finite (x + y)"
| "js_plus NotANumber y = NotANumber"
| "js_plus x NotANumber = NotANumber"
| "js_plus Infinity MinusInfinity = NotANumber"
| "js_plus MinusInfinity Infinity = NotANumber"
| "js_plus Infinity y = Infinity"
| "js_plus x Infinity = Infinity"
| "js_plus MinusInfinity y = MinusInfinity"
| "js_plus x MinusInfinity = MinusInfinity"

text \<open>\<open>x > y\<close> for a number \<open>y\<close> that is finite; every comparison with \<open>NaN\<close> is false.\<close>

fun js_greater :: "js_number \<Rightarrow> rat \<Rightarrow> bool" where
  "js_greater (Finite x) y = (x > y)"
| "js_greater Infinity y = True"
| "js_greater MinusInfinity y = False"
| "js_greater NotANumber y = False"

datatype json =
    JNull
  | JBool bool
  | JNum rat
  | JStr string
  | JArr "json list"
  | JObj "(string \<times> json) list"

text \<open>\<open>JSON.stringify\<close> writes \<open>null\<close> for a number that is not finite.\<close>

fun json_number :: "js_number \<Rightarrow> json" where
  "json_number (Finite r) = JNum r"
| "json_number x = JNull"

definition json_char :: "char \<Rightarrow> string" where
  "json_char c =
     (let n = of_char c :: int in
      if c = CHR 0x22 then [CHR 0x5C, CHR 0x22]
      else if c = CHR 0x5C then [CHR 0x5C, CHR 0x5C]
      else if n = 8 then CHR 0x5C # ''b''
      else if n = 12 then CHR 0x5C # ''f''
      else if n = 10 then CHR 0x5C # ''n''
      else if n = 13 then CHR 0x5C # ''r''
      else if n = 9 then CHR 0x5C # ''t''
      else if n < 32 then CHR 0x5C # ''u'' @ padStart 4 CHR ''0'' (hex n)
      else [c])"

definition json_string :: "string \<Rightarrow> string" where
  "json_string s = CHR 0x22 # concat (map json_char s) @ [CHR 0x22]"

fun json_text :: "(rat \<Rightarrow> string) \<Rightarrow> json \<Rightarrow> string" where
  "json_text num JNull = ''null''"
| "json_text num (JBool b) = (if b then ''true'' else ''false'')"
| "json_text num (JNum r) = num r"
| "json_text num (JStr s) = json_string s"
| "json_text num (JArr xs) = ''['' @ join '','' (map (json_text num) xs) @ '']''"
| "json_text num (JObj fs) =
     ''{'' @ join '','' (map (\<lambda>(k, v). json_string k @ '':'' @ json_text num v) fs) @ ''}''"

end
