(* ===== verification/Vdf.thy ===== *)
theory Vdf
  imports Complex_Main ModArith JsText Noble
begin

text \<open>
  The verifiable delay function of governance/vdf/vdf_engine.ts: challenge, sequential squaring,
  proof, verification, and the time-lock envelope built on them. A JavaScript number (the number of
  squarings, the delay in seconds) is a rational, printed by the parameter \<open>num\<close>
  (\<open>Number.prototype.toString\<close>); the measured evaluation time is a parameter too. Awaiting
  \<open>setImmediate\<close> inside the loop does not change the value computed, so the evaluation is a
  function; the moment its promise settles is a step of the governance state machine.
\<close>

subsection \<open>Definitions\<close>

definition VDF_MODULUS_HEX :: string where
  "VDF_MODULUS_HEX = ''0x'' @ replicate 512 CHR ''f''"

record VDFProof =
  vp_challenge :: string
  vp_result :: string
  vp_proof :: string
  vp_iterations :: rat
  vp_verificationTimeMs :: rat

record TimeLockEnvelope =
  te_payload :: string
  te_notBeforeVdf :: VDFProof
  te_createdAt :: int
  te_minimumDelaySeconds :: rat

definition generateVDFChallenge ::
  "hashes \<Rightarrow> (rat \<Rightarrow> string) \<Rightarrow> string \<Rightarrow> string \<Rightarrow> int \<Rightarrow> rat \<Rightarrow> string" where
  "generateVDFChallenge h num approvalId approverId timestamp minimumDelaySeconds =
     ''0x'' @ h_bytesToHex h (h_sha256 h (utf8
       (approvalId @ '':'' @ approverId @ '':'' @ dec timestamp @ '':'' @ num minimumDelaySeconds)))"

text \<open>The loop \<open>for (let i = 0; i < T; i++) y = (y * y) % N\<close>.\<close>

definition vdf_squarings :: "int \<Rightarrow> rat \<Rightarrow> int \<Rightarrow> int" where
  "vdf_squarings N T x = ((\<lambda>y. (y * y) smod N) ^^ nat \<lceil>T\<rceil>) x"

text \<open>\<open>BigInt('0x' + bytesToHex(sha256(`${x}:${y}`))) % N\<close>\<close>

definition vdf_r :: "hashes \<Rightarrow> int \<Rightarrow> int \<Rightarrow> int \<Rightarrow> int result" where
  "vdf_r h N x y =
     rbind (parse_BigInt (''0x'' @ h_bytesToHex h (h_sha256 h (utf8 (dec x @ '':'' @ dec y)))))
       (\<lambda>r. Inr (r smod N))"

text \<open>\<open>BigInt(T)\<close> of a number: only integers convert.\<close>

definition BigInt_number :: "rat \<Rightarrow> int result" where
  "BigInt_number T = (if of_int \<lfloor>T\<rfloor> = T then Inr \<lfloor>T\<rfloor>
     else Inl (RangeError ''The number cannot be converted to a BigInt because it is not an integer''))"

definition evaluateVDF :: "hashes \<Rightarrow> rat \<Rightarrow> string \<Rightarrow> rat \<Rightarrow> VDFProof result" where
  "evaluateVDF h evalTime challenge T =
     rbind (parse_BigInt VDF_MODULUS_HEX) (\<lambda>N.
     rbind (parse_BigInt challenge) (\<lambda>c.
     let x = c smod N; y = vdf_squarings N T x in
     rbind (vdf_r h N x y) (\<lambda>r.
     rbind (BigInt_number T) (\<lambda>t.
     rbind (modPow x (t - r) N) (\<lambda>proof.
     Inr \<lparr>vp_challenge = challenge, vp_result = ''0x'' @ hex y, vp_proof = ''0x'' @ hex proof,
          vp_iterations = T, vp_verificationTimeMs = evalTime\<rparr>)))))"

definition verifyVDF :: "hashes \<Rightarrow> VDFProof \<Rightarrow> bool" where
  "verifyVDF h proof =
     (case rbind (parse_BigInt VDF_MODULUS_HEX) (\<lambda>N.
           rbind (parse_BigInt (vp_challenge proof)) (\<lambda>c.
           let x = c smod N in
           rbind (parse_BigInt (vp_result proof)) (\<lambda>y.
           rbind (parse_BigInt (vp_proof proof)) (\<lambda>pi.
           rbind (vdf_r h N x y) (\<lambda>r.
           rbind (BigInt_number (vp_iterations proof)) (\<lambda>t.
           rbind (modPow pi t N) (\<lambda>lhs.
           Inr (lhs = y)))))))) of
        Inl e \<Rightarrow> False
      | Inr b \<Rightarrow> b)"

definition createTimeLockedApproval ::
  "hashes \<Rightarrow> (rat \<Rightarrow> string) \<Rightarrow> int \<Rightarrow> rat \<Rightarrow> string \<Rightarrow> string \<Rightarrow> string \<Rightarrow> rat \<Rightarrow> TimeLockEnvelope result" where
  "createTimeLockedApproval h num now evalTime approvalId approverId payload minimumDelaySeconds =
     (let challenge = generateVDFChallenge h num approvalId approverId now minimumDelaySeconds;
          T = minimumDelaySeconds * 1000000
      in rbind (evaluateVDF h evalTime challenge T) (\<lambda>vdfProof.
         Inr \<lparr>te_payload = payload, te_notBeforeVdf = vdfProof, te_createdAt = now,
              te_minimumDelaySeconds = minimumDelaySeconds\<rparr>))"

definition verifyTimeLock :: "hashes \<Rightarrow> (rat \<Rightarrow> string) \<Rightarrow> TimeLockEnvelope \<Rightarrow> bool" where
  "verifyTimeLock h num envelope =
     (if \<not> verifyVDF h (te_notBeforeVdf envelope) then False
      else if vp_challenge (te_notBeforeVdf envelope) \<noteq>
        generateVDFChallenge h num (te_payload envelope) ''system'' (te_createdAt envelope)
          (te_minimumDelaySeconds envelope)
      then False else True)"

subsection \<open>The modulus and the challenge\<close>

definition vdf_modulus :: int where
  "vdf_modulus = 16 ^ 512 - 1"

lemma parse_digits_fs: "parse_digits 16 acc (replicate n CHR ''f'') = Some (acc * 16 ^ n + (16 ^ n - 1))"
proof (induction n arbitrary: acc)
  case (Suc n)
  have "digit_value CHR ''f'' = Some 15" by code_simp
  then show ?case using Suc [of "acc * 16 + 15"] by (simp add: algebra_simps)
qed simp

lemma js_trim_fs: "js_trim (''0x'' @ replicate n CHR ''f'') = ''0x'' @ replicate n CHR ''f''"
  by (rule js_trim_id) (auto simp: js_space_def)

lemma parse_modulus [simp]: "parse_BigInt VDF_MODULUS_HEX = Inr vdf_modulus"
proof -
  have "parse_radix 16 (replicate 512 CHR ''f'') = Some vdf_modulus"
    using parse_digits_fs [of 0 512] unfolding parse_radix_def vdf_modulus_def
    by simp
  then show ?thesis
    unfolding VDF_MODULUS_HEX_def parse_BigInt_def js_trim_fs
    by (simp add: syntax_option_def)
qed

lemma vdf_modulus_gt: "2 ^ 2047 < vdf_modulus"
  unfolding vdf_modulus_def by simp

lemma vdf_modulus_gt1: "1 < vdf_modulus" "0 < vdf_modulus"
  unfolding vdf_modulus_def by simp_all

subsection \<open>Evaluation\<close>

lemma squarings_pow:
  fixes N x :: int
  assumes "1 < N" and "0 \<le> x" and "x < N"
  shows "((\<lambda>y. (y * y) smod N) ^^ n) x = x ^ (2 ^ n) mod N"
proof (induction n)
  case 0
  show ?case using assms by simp
next
  case (Suc n)
  have "((\<lambda>y. (y * y) smod N) ^^ Suc n) x = (x ^ (2 ^ n) mod N) * (x ^ (2 ^ n) mod N) mod N"
    using Suc assms by (simp add: smod_nonneg)
  also have "\<dots> = (x ^ (2 ^ n) * x ^ (2 ^ n)) mod N"
    by (rule mod_mult_eq)
  also have "x ^ (2 ^ n) * x ^ (2 ^ n) = x ^ (2 ^ Suc n)"
    by (simp add: power_add [symmetric] mult_2)
  finally show ?case .
qed

lemma vdf_squarings_eq:
  assumes "1 < N" and "0 \<le> x" and "x < N"
  shows "vdf_squarings N (of_nat n) x = x ^ (2 ^ n) mod N"
proof -
  have "nat \<lceil>of_nat n :: rat\<rceil> = n" by simp
  then show ?thesis unfolding vdf_squarings_def using squarings_pow [OF assms] by simp
qed

text \<open>The exponent \<open>r\<close> as the value of the digest.\<close>

definition vdf_digest :: "hashes \<Rightarrow> int \<Rightarrow> int \<Rightarrow> int" where
  "vdf_digest h x y = be_int (h_sha256 h (utf8 (dec x @ '':'' @ dec y)))"

lemma parse_BigInt_digest:
  assumes "hex_laws h" and "bs \<noteq> []"
  shows "parse_BigInt (''0x'' @ h_bytesToHex h bs) = Inr (be_int bs)"
proof -
  have "c \<in> set (''0x'' @ h_bytesToHex h bs) \<Longrightarrow> \<not> js_space c" for c
    using hex_lawsD(3) [OF assms(1), of c bs] by (auto simp: js_space_def digit_value_def)
  then have "js_trim (''0x'' @ h_bytesToHex h bs) = ''0x'' @ h_bytesToHex h bs"
    by (rule js_trim_id)
  then show ?thesis
    using hex_lawsD(4) [OF assms] by (simp add: parse_BigInt_def syntax_option_def)
qed

lemma vdf_r_eq:
  assumes "hex_laws h" and "\<And>x. length (h_sha256 h x) = 32"
  shows "vdf_r h vdf_modulus x y = Inr (vdf_digest h x y)"
proof -
  let ?bs = "h_sha256 h (utf8 (dec x @ '':'' @ dec y))"
  have "?bs \<noteq> []" using assms(2) [of "utf8 (dec x @ '':'' @ dec y)"] by fastforce
  moreover have "be_int ?bs < vdf_modulus"
    using be_int_less [of ?bs] assms(2) [of "utf8 (dec x @ '':'' @ dec y)"] unfolding vdf_modulus_def by simp
  ultimately show ?thesis
    using parse_BigInt_digest [OF assms(1), of ?bs]
    by (simp add: vdf_r_def vdf_digest_def smod_nonneg vdf_modulus_gt1)
qed

text \<open>The challenge of an approval is a digest, so its value is between 0 and the modulus.\<close>

definition challenge_value :: "hashes \<Rightarrow> (rat \<Rightarrow> string) \<Rightarrow> string \<Rightarrow> string \<Rightarrow> int \<Rightarrow> rat \<Rightarrow> int" where
  "challenge_value h num approvalId approverId timestamp delay = be_int (h_sha256 h (utf8
     (approvalId @ '':'' @ approverId @ '':'' @ dec timestamp @ '':'' @ num delay)))"

lemma challenge_parses:
  assumes "hex_laws h" and "\<And>x. length (h_sha256 h x) = 32"
  shows "parse_BigInt (generateVDFChallenge h num a b t d) = Inr (challenge_value h num a b t d)"
    and "0 \<le> challenge_value h num a b t d" and "challenge_value h num a b t d < vdf_modulus"
proof -
  let ?bs = "h_sha256 h (utf8 (a @ '':'' @ b @ '':'' @ dec t @ '':'' @ num d))"
  have len: "length ?bs = 32" by (rule assms(2))
  then have "?bs \<noteq> []" by fastforce
  then show "parse_BigInt (generateVDFChallenge h num a b t d) = Inr (challenge_value h num a b t d)"
    unfolding generateVDFChallenge_def challenge_value_def by (rule parse_BigInt_digest [OF assms(1)])
  show "0 \<le> challenge_value h num a b t d" by (simp add: challenge_value_def)
  show "challenge_value h num a b t d < vdf_modulus"
    using be_int_less [of ?bs] len unfolding challenge_value_def vdf_modulus_def by simp
qed

text \<open>Creating a time lock. With a delay of \<open>n\<close> squarings the result is the challenge raised to
  \<open>2 ^ n\<close>, but the proof exponent is \<open>n\<close> minus a 256-bit digest: when the digest exceeds \<open>n\<close>, and it
  does unless its leading bits vanish, the promise is rejected and no envelope exists.\<close>

theorem timelock_creation:
  fixes now num approvalId approverId
  assumes "hex_laws h" and "\<And>x. length (h_sha256 h x) = 32" and "delay * 1000000 = of_nat n"
  defines "x \<equiv> challenge_value h num approvalId approverId now delay"
  defines "y \<equiv> x ^ (2 ^ n) mod vdf_modulus"
  shows "createTimeLockedApproval h num now evalTime approvalId approverId payload delay =
    (if int n < vdf_digest h x y then Inl (Error ''Negative exponents not supported in modPow'')
     else Inr \<lparr>te_payload = payload,
       te_notBeforeVdf = \<lparr>vp_challenge = generateVDFChallenge h num approvalId approverId now delay,
         vp_result = ''0x'' @ hex y, vp_proof = ''0x'' @ hex (x ^ nat (int n - vdf_digest h x y) mod vdf_modulus),
         vp_iterations = of_nat n, vp_verificationTimeMs = evalTime\<rparr>,
       te_createdAt = now, te_minimumDelaySeconds = delay\<rparr>)"
proof -
  have x: "0 \<le> x" "x < vdf_modulus" and parse: "parse_BigInt (generateVDFChallenge h num approvalId approverId now delay) = Inr x"
    unfolding x_def by (rule challenge_parses [OF assms(1,2)])+
  have xs: "x smod vdf_modulus = x" using x by (simp add: smod_nonneg vdf_modulus_gt1)
  have y: "vdf_squarings vdf_modulus (of_nat n) x = y"
    unfolding y_def by (rule vdf_squarings_eq [OF vdf_modulus_gt1(1) x])
  have t: "BigInt_number (of_nat n) = Inr (int n)" by (simp add: BigInt_number_def)
  have p: "modPow x (int n - vdf_digest h x y) vdf_modulus =
      (if int n < vdf_digest h x y then Inl (Error ''Negative exponents not supported in modPow'')
       else Inr (x ^ nat (int n - vdf_digest h x y) mod vdf_modulus))"
    using modPow_eq [OF vdf_modulus_gt1(1), of "int n - vdf_digest h x y" x] vdf_modulus_gt1
    by (simp add: modPow_def)
  show ?thesis
    unfolding createTimeLockedApproval_def evaluateVDF_def Let_def assms(3)
    by (simp add: parse xs y vdf_r_eq [OF assms(1,2)] t p)
qed

theorem timelock_creation_witness:
  "createTimeLockedApproval toy_hashes (\<lambda>r. dec \<lfloor>r\<rfloor>) 0 0 ''a'' ''system'' ''tx'' 0 =
    Inl (Error ''Negative exponents not supported in modPow'')"
proof -
  have len: "\<And>x. length (h_sha256 toy_hashes x) = 32" by (simp add: toy_hashes_def toy_hash_def)
  let ?x = "challenge_value toy_hashes (\<lambda>r. dec \<lfloor>r\<rfloor>) ''a'' ''system'' 0 0"
  have "0 < vdf_digest toy_hashes ?x (?x ^ (2 ^ 0) mod vdf_modulus)" by code_simp
  then show ?thesis
    by (subst timelock_creation [OF toy_hex_laws len, where n = 0]) simp_all
qed

subsection \<open>Verification\<close>

lemma verifyVDF_iff:
  assumes "hex_laws h" and "\<And>x. length (h_sha256 h x) = 32"
    and "parse_BigInt (vp_challenge p) = Inr c" and "parse_BigInt (vp_result p) = Inr y"
    and "parse_BigInt (vp_proof p) = Inr w" and "vp_iterations p = of_nat n"
  shows "verifyVDF h p \<longleftrightarrow> w ^ n mod vdf_modulus = y"
proof -
  have "BigInt_number (of_nat n) = Inr (int n)" by (simp add: BigInt_number_def)
  then show ?thesis
    using modPow_eq [OF vdf_modulus_gt1(1), of "int n" w]
    by (simp add: verifyVDF_def assms vdf_r_eq [OF assms(1,2)] Let_def)
qed

text \<open>The time lock can be forged. For any payload, creation time and delay, an envelope whose proof
  repeats its result and claims one squaring is accepted, whatever the result: nothing was computed,
  and the delay does not enter the check.\<close>

theorem timelock_forgeable:
  assumes "hex_laws h" and "\<And>x. length (h_sha256 h x) = 32" and "0 \<le> y" and "y < vdf_modulus"
  shows "verifyTimeLock h num
    \<lparr>te_payload = payload,
     te_notBeforeVdf = \<lparr>vp_challenge = generateVDFChallenge h num payload ''system'' createdAt delay,
       vp_result = ''0x'' @ hex y, vp_proof = ''0x'' @ hex y, vp_iterations = 1, vp_verificationTimeMs = ms\<rparr>,
     te_createdAt = createdAt, te_minimumDelaySeconds = delay\<rparr>"
proof -
  have "y ^ 1 mod vdf_modulus = y" using assms(3,4) by simp
  then have "verifyVDF h \<lparr>vp_challenge = generateVDFChallenge h num payload ''system'' createdAt delay,
       vp_result = ''0x'' @ hex y, vp_proof = ''0x'' @ hex y, vp_iterations = 1, vp_verificationTimeMs = ms\<rparr>"
    using assms(3) by (subst verifyVDF_iff [OF assms(1,2), where n = 1 and y = y and w = y])
      (auto simp: challenge_parses(1) [OF assms(1,2)])
  then show ?thesis by (simp add: verifyTimeLock_def)
qed

theorem timelock_forgeable_witness:
  "verifyTimeLock toy_hashes (\<lambda>r. dec \<lfloor>r\<rfloor>)
    \<lparr>te_payload = ''tx'',
     te_notBeforeVdf = \<lparr>vp_challenge = generateVDFChallenge toy_hashes (\<lambda>r. dec \<lfloor>r\<rfloor>) ''tx'' ''system'' 0 86400,
       vp_result = ''0x'' @ hex 5, vp_proof = ''0x'' @ hex 5, vp_iterations = 1, vp_verificationTimeMs = 0\<rparr>,
     te_createdAt = 0, te_minimumDelaySeconds = 86400\<rparr>"
  by (rule timelock_forgeable [OF toy_hex_laws])
    (simp_all add: toy_hashes_def toy_hash_def vdf_modulus_def)

end
