(* ===== verification/Bls.thy ===== *)
theory Bls
  imports SecureRandom SecureMemory Noble
begin

text \<open>
  Threshold approval signatures (governance/bls/bls_engine.ts). The curve library is a parameter:
  \<open>bls12_381.getPublicKey\<close>, \<open>sign\<close> and \<open>verify\<close>, and the points of its two groups with their
  encodings. \<open>bls_laws\<close> states what the library documents: public keys are points of the first group
  and signatures points of the second, each group has a compressed encoding (48 and 96 bytes, top bit
  set) and an uncompressed one of twice the length (top bit clear), and what a key signs verifies.
\<close>

subsection \<open>Definitions\<close>

record ('g1, 'g2) bls_lib =
  bl_order :: int
  bl_getPublicKey :: "bytes \<Rightarrow> bytes result"
  bl_sign :: "bytes \<Rightarrow> bytes \<Rightarrow> bytes result"
  bl_verify :: "bytes \<Rightarrow> bytes \<Rightarrow> bytes \<Rightarrow> bool result"
  g1_fromHex :: "string \<Rightarrow> 'g1 result"
  g1_add :: "'g1 \<Rightarrow> 'g1 \<Rightarrow> 'g1"
  g1_toRawBytes :: "'g1 \<Rightarrow> bytes"
  g2_fromHex :: "string \<Rightarrow> 'g2 result"
  g2_add :: "'g2 \<Rightarrow> 'g2 \<Rightarrow> 'g2"
  g2_toRawBytes :: "'g2 \<Rightarrow> bytes"

record BLSKeyPair =
  bk_privateKey :: SecureBuffer
  bk_publicKey :: string

record BLSSignature =
  bs_signature :: string
  bs_signerIndex :: int

record AggregatedApproval =
  ag_aggregatedSignature :: string
  ag_signers :: "int list"
  ag_messageHash :: string
  ag_thresholdMet :: bool

definition generateBLSKeyPair :: "hashes \<Rightarrow> ('g1, 'g2) bls_lib \<Rightarrow> BLSKeyPair rnd" where
  "generateBLSKeyPair h B =
     rnd_bind (randomScalar (bl_order B)) (\<lambda>priv.
     let privBytes = int_be 32 priv in
     rnd_bind (rnd_lift (bl_getPublicKey B privBytes)) (\<lambda>pub.
     rnd_return \<lparr>bk_privateKey = sb_from privBytes, bk_publicKey = ''0x'' @ h_bytesToHex h pub\<rparr>))"

definition signBLS ::
  "hashes \<Rightarrow> ('g1, 'g2) bls_lib \<Rightarrow> SecureBuffer \<Rightarrow> bytes \<Rightarrow> BLSSignature result" where
  "signBLS h B privateKey message =
     rbind (sb_bytes privateKey) (\<lambda>k.
     rbind (bl_sign B message k) (\<lambda>sig.
     Inr \<lparr>bs_signature = ''0x'' @ h_bytesToHex h sig, bs_signerIndex = -1\<rparr>))"

definition verifyBLS :: "hashes \<Rightarrow> ('g1, 'g2) bls_lib \<Rightarrow> string \<Rightarrow> bytes \<Rightarrow> string \<Rightarrow> bool" where
  "verifyBLS h B publicKeyHex message signatureHex =
     (case rbind (h_hexToBytes h (strip0x publicKeyHex)) (\<lambda>pub.
           rbind (h_hexToBytes h (strip0x signatureHex)) (\<lambda>sig.
           bl_verify B sig message pub)) of
        Inl e \<Rightarrow> False
      | Inr b \<Rightarrow> b)"

text \<open>\<open>xs.map(f)\<close> where \<open>f\<close> may throw.\<close>

fun map_result :: "('a \<Rightarrow> 'b result) \<Rightarrow> 'a list \<Rightarrow> 'b list result" where
  "map_result f [] = Inr []"
| "map_result f (x # xs) = rbind (f x) (\<lambda>y. rbind (map_result f xs) (\<lambda>ys. Inr (y # ys)))"

definition aggregateSignatures ::
  "hashes \<Rightarrow> ('g1, 'g2) bls_lib \<Rightarrow> BLSSignature list \<Rightarrow> AggregatedApproval result" where
  "aggregateSignatures h B signatures =
     (if signatures = [] then Inl (Error ''Cannot aggregate empty signature set'')
      else rbind (map_result (\<lambda>s. g1_fromHex B (strip0x (bs_signature s))) signatures) (\<lambda>sigPoints.
        let agg = foldl (g1_add B) (hd sigPoints) (tl sigPoints);
            messageHash = ''0x'' @ h_bytesToHex h (h_sha256 h (utf8 ''approval''))
        in Inr \<lparr>ag_aggregatedSignature = ''0x'' @ h_bytesToHex h (g1_toRawBytes B agg),
             ag_signers = map bs_signerIndex signatures, ag_messageHash = messageHash,
             ag_thresholdMet = (0 < length signatures)\<rparr>))"

definition verifyAggregatedBLS :: "hashes \<Rightarrow> ('g1, 'g2) bls_lib \<Rightarrow> string \<Rightarrow> bytes \<Rightarrow> string \<Rightarrow> bool" where
  "verifyAggregatedBLS h B aggregatedPublicKey message aggregatedSignature =
     (case rbind (h_hexToBytes h (strip0x aggregatedPublicKey)) (\<lambda>apk.
           rbind (h_hexToBytes h (strip0x aggregatedSignature)) (\<lambda>sig.
           bl_verify B sig message apk)) of
        Inl e \<Rightarrow> False
      | Inr b \<Rightarrow> b)"

text \<open>On an empty list \<open>points[0]\<close> is \<open>undefined\<close>, and its method call a TypeError.\<close>

definition aggregatePublicKeys :: "hashes \<Rightarrow> ('g1, 'g2) bls_lib \<Rightarrow> string list \<Rightarrow> string result" where
  "aggregatePublicKeys h B publicKeys =
     rbind (map_result (\<lambda>pk. g2_fromHex B (strip0x pk)) publicKeys) (\<lambda>points.
     if points = [] then Inl (TypeError ''Cannot read properties of undefined'')
     else Inr (''0x'' @ h_bytesToHex h (g2_toRawBytes B (foldl (g2_add B) (hd points) (tl points)))))"

subsection \<open>Documented behaviour of the library\<close>

definition compressed_flag :: "bytes \<Rightarrow> bool" where
  "compressed_flag b \<longleftrightarrow> b \<noteq> [] \<and> bit (hd b) 7"

text \<open>An encoding of a point of a group whose compressed encoding has \<open>n\<close> bytes.\<close>

definition point_encoding :: "nat \<Rightarrow> bytes \<Rightarrow> bool" where
  "point_encoding n b \<longleftrightarrow>
     (length b = n \<and> compressed_flag b) \<or> (length b = 2 * n \<and> \<not> compressed_flag b)"

definition bls_laws :: "hashes \<Rightarrow> ('g1, 'g2) bls_lib \<Rightarrow> bool" where
  "bls_laws h B \<longleftrightarrow>
     (\<forall>k pub. bl_getPublicKey B k = Inr pub \<longrightarrow> length pub = 48 \<and> compressed_flag pub)
     \<and> (\<forall>m k sig. bl_sign B m k = Inr sig \<longrightarrow> length sig = 96 \<and> compressed_flag sig)
     \<and> (\<forall>sig m pub. bl_verify B sig m pub = Inr True \<longrightarrow> point_encoding 96 sig)
     \<and> (\<forall>s P. g1_fromHex B s = Inr P \<longrightarrow> (\<exists>b. h_hexToBytes h s = Inr b \<and> point_encoding 48 b))
     \<and> (\<forall>s P. g2_fromHex B s = Inr P \<longrightarrow> (\<exists>b. h_hexToBytes h s = Inr b \<and> point_encoding 96 b))
     \<and> (\<forall>k m sig pub. bl_getPublicKey B k = Inr pub \<longrightarrow> bl_sign B m k = Inr sig \<longrightarrow>
          bl_verify B sig m pub = Inr True)"

lemma bls_lawsD:
  assumes "bls_laws h B"
  shows "bl_getPublicKey B k = Inr pub \<Longrightarrow> length pub = 48 \<and> compressed_flag pub"
    and "bl_sign B m k = Inr sig \<Longrightarrow> length sig = 96 \<and> compressed_flag sig"
    and "bl_verify B sig m pub = Inr True \<Longrightarrow> point_encoding 96 sig"
    and "g1_fromHex B s = Inr P \<Longrightarrow> \<exists>b. h_hexToBytes h s = Inr b \<and> point_encoding 48 b"
    and "g2_fromHex B s = Inr Q \<Longrightarrow> \<exists>b. h_hexToBytes h s = Inr b \<and> point_encoding 96 b"
    and "bl_getPublicKey B k = Inr pub \<Longrightarrow> bl_sign B m k = Inr sig \<Longrightarrow> bl_verify B sig m pub = Inr True"
  using assms unfolding bls_laws_def by blast+

text \<open>The two groups have no encoding in common: the lengths agree only at 96 bytes, where the flag
  differs.\<close>

lemma encodings_disjoint: "point_encoding 48 b \<Longrightarrow> \<not> point_encoding 96 b"
  by (auto simp: point_encoding_def)

lemma map_result_Inr_iff: "map_result f xs = Inr ys \<longleftrightarrow> list_all2 (\<lambda>x y. f x = Inr y) xs ys"
  by (induction xs arbitrary: ys) (auto simp: result_simps list_all2_Cons1)

lemma map_result_fails: "x \<in> set xs \<Longrightarrow> \<forall>y. f x \<noteq> Inr y \<Longrightarrow> \<exists>e. map_result f xs = Inl e"
proof (cases "map_result f xs")
  case (Inr ys)
  assume "x \<in> set xs" and "\<forall>y. f x \<noteq> Inr y"
  then show ?thesis
    using Inr by (fastforce simp: map_result_Inr_iff list_all2_conv_all_nth in_set_conv_nth)
qed blast

lemma verifyBLS_iff:
  "verifyBLS h B pk m s \<longleftrightarrow> (\<exists>pub sig. h_hexToBytes h (strip0x pk) = Inr pub
     \<and> h_hexToBytes h (strip0x s) = Inr sig \<and> bl_verify B sig m pub = Inr True)"
  by (auto simp: verifyBLS_def result_simps split: sum.splits)

subsection \<open>An instance for the witnesses\<close>

definition toy_bls :: "(int, int) bls_lib" where
  "toy_bls = \<lparr>bl_order = 13,
     bl_getPublicKey = (\<lambda>k. Inr (128 # replicate 15 0 @ toy_hash k)),
     bl_sign = (\<lambda>m k. Inr (128 # replicate 31 0 @ toy_hash k @ toy_hash m)),
     bl_verify = (\<lambda>sig m pub. Inr (sig = 128 # replicate 31 0 @ drop 16 pub @ toy_hash m \<and> length pub = 48)),
     g1_fromHex = (\<lambda>s. rbind (unhex s) (\<lambda>b. if point_encoding 48 b then Inr (be_int b)
        else Inl (Error ''invalid G1 point: expected 48/96 bytes''))),
     g1_add = (+), g1_toRawBytes = int_be 48,
     g2_fromHex = (\<lambda>s. rbind (unhex s) (\<lambda>b. if point_encoding 96 b then Inr (be_int b)
        else Inl (Error ''invalid G2 point: expected 96/192 bytes''))),
     g2_add = (+), g2_toRawBytes = int_be 96\<rparr>"

lemma toy_flag: "bit (128 :: byte) 7"
  by code_simp

lemma toy_bls_laws: "bls_laws toy_hashes toy_bls"
proof -
  have "length (toy_hash x) = 32" for x by (simp add: toy_hash_def)
  then show ?thesis
    unfolding bls_laws_def by (auto simp: toy_bls_def toy_hashes_def compressed_flag_def
      point_encoding_def toy_flag result_simps split: if_splits)
qed

subsection \<open>Signatures verify, and cannot be aggregated\<close>

lemma generateBLSKeyPair_Inr:
  assumes "generateBLSKeyPair h B t = Some (Inr kp, t')"
  shows "\<exists>priv pub. bl_getPublicKey B (int_be 32 priv) = Inr pub
    \<and> kp = \<lparr>bk_privateKey = sb_from (int_be 32 priv), bk_publicKey = ''0x'' @ h_bytesToHex h pub\<rparr>"
  using assms unfolding generateBLSKeyPair_def Let_def by (auto simp: result_simps) metis

text \<open>What a generated key pair signs is accepted under its public key, for every draw of the key.\<close>

theorem bls_sign_verify:
  assumes "hex_laws h" and "bls_laws h B" and "generateBLSKeyPair h B t = Some (Inr kp, t')"
    and "signBLS h B (bk_privateKey kp) m = Inr s"
  shows "verifyBLS h B (bk_publicKey kp) m (bs_signature s)"
proof -
  obtain priv pub where pub: "bl_getPublicKey B (int_be 32 priv) = Inr pub"
    and kp: "kp = \<lparr>bk_privateKey = sb_from (int_be 32 priv), bk_publicKey = ''0x'' @ h_bytesToHex h pub\<rparr>"
    using generateBLSKeyPair_Inr [OF assms(3)] by blast
  obtain sig where sig: "bl_sign B m (int_be 32 priv) = Inr sig"
    and s: "bs_signature s = ''0x'' @ h_bytesToHex h sig"
    using assms(4) by (auto simp: kp signBLS_def sb_from_bytes result_simps)
  show ?thesis
    using bls_lawsD(6) [OF assms(2) pub sig] by (simp add: kp s verifyBLS_iff hex_lawsD(1) [OF assms(1)])
qed

theorem bls_sign_verify_witness:
  "\<exists>kp t' s. generateBLSKeyPair toy_hashes toy_bls (replicate 8 0 @ [5]) = Some (Inr kp, t')
    \<and> signBLS toy_hashes toy_bls (bk_privateKey kp) [1] = Inr s
    \<and> verifyBLS toy_hashes toy_bls (bk_publicKey kp) [1] (bs_signature s)"
proof -
  have draw: "randomScalar 13 (replicate 8 0 @ [5]) = Some (Inr 5, [])" by code_simp
  obtain kp t' where kp: "generateBLSKeyPair toy_hashes toy_bls (replicate 8 0 @ [5]) = Some (Inr kp, t')"
    and k: "bk_privateKey kp = sb_from (int_be 32 5)"
    using draw by (simp add: generateBLSKeyPair_def toy_bls_def Let_def rnd_bind_def rnd_lift_def rnd_return_def)
  obtain s where "signBLS toy_hashes toy_bls (bk_privateKey kp) [1] = Inr s"
    by (simp add: k signBLS_def sb_from_bytes toy_bls_def)
  then show ?thesis using bls_sign_verify [OF toy_hex_laws toy_bls_laws kp] kp by blast
qed

lemma aggregate_rejects:
  assumes "bls_laws h B" and "s \<in> set sigs" and "verifyBLS h B pk m (bs_signature s)"
  shows "\<exists>e. aggregateSignatures h B sigs = Inl e"
proof -
  obtain sig where sig: "h_hexToBytes h (strip0x (bs_signature s)) = Inr sig" "point_encoding 96 sig"
    using assms(3) bls_lawsD(3) [OF assms(1)] by (auto simp: verifyBLS_iff)
  have "\<forall>P. g1_fromHex B (strip0x (bs_signature s)) \<noteq> Inr P"
    using sig bls_lawsD(4) [OF assms(1)] encodings_disjoint by fastforce
  then obtain e where "map_result (\<lambda>s. g1_fromHex B (strip0x (bs_signature s))) sigs = Inl e"
    using map_result_fails [OF assms(2), of "\<lambda>s. g1_fromHex B (strip0x (bs_signature s))"] by blast
  then show ?thesis using assms(2) by (auto simp: aggregateSignatures_def)
qed

text \<open>Aggregation reads points in the wrong group: a signature is a point of the second group and is
  parsed in the first, a public key of the first is parsed in the second. So aggregation throws as
  soon as one of the signatures is a valid one, and as soon as one of the keys is a generated one.\<close>

theorem bls_aggregation_fails:
  assumes "hex_laws h" and "bls_laws h B"
  shows "(s \<in> set sigs \<and> verifyBLS h B pk m (bs_signature s) \<longrightarrow> (\<exists>e. aggregateSignatures h B sigs = Inl e))
    \<and> (generateBLSKeyPair h B t = Some (Inr kp, t') \<and> bk_publicKey kp \<in> set pks \<longrightarrow>
        (\<exists>e. aggregatePublicKeys h B pks = Inl e))"
proof -
  have "\<exists>e. aggregatePublicKeys h B pks = Inl e"
    if gen: "generateBLSKeyPair h B t = Some (Inr kp, t')" and pk: "bk_publicKey kp \<in> set pks"
  proof -
    obtain priv pub where pub: "bl_getPublicKey B (int_be 32 priv) = Inr pub"
      and kp: "bk_publicKey kp = ''0x'' @ h_bytesToHex h pub"
      using generateBLSKeyPair_Inr [OF gen] by auto
    have "h_hexToBytes h (strip0x (bk_publicKey kp)) = Inr pub" "point_encoding 48 pub"
      using bls_lawsD(1) [OF assms(2) pub] by (simp_all add: kp hex_lawsD(1) [OF assms(1)] point_encoding_def)
    then have "\<forall>P. g2_fromHex B (strip0x (bk_publicKey kp)) \<noteq> Inr P"
      using bls_lawsD(5) [OF assms(2)] encodings_disjoint by fastforce
    then obtain e where "map_result (\<lambda>pk. g2_fromHex B (strip0x pk)) pks = Inl e"
      using map_result_fails [OF pk, of "\<lambda>pk. g2_fromHex B (strip0x pk)"] by blast
    then show ?thesis by (simp add: aggregatePublicKeys_def)
  qed
  then show ?thesis using aggregate_rejects [OF assms(2)] by blast
qed

theorem bls_aggregation_fails_witness:
  "verifyBLS toy_hashes toy_bls (''0x'' @ h_bytesToHex toy_hashes (128 # replicate 15 0 @ toy_hash [7])) [1]
     (''0x'' @ h_bytesToHex toy_hashes (128 # replicate 31 0 @ toy_hash [7] @ toy_hash [1]))
   \<and> (\<exists>e. aggregateSignatures toy_hashes toy_bls [\<lparr>bs_signature = ''0x'' @
        h_bytesToHex toy_hashes (128 # replicate 31 0 @ toy_hash [7] @ toy_hash [1]), bs_signerIndex = 0\<rparr>] = Inl e)"
  (is "verifyBLS _ _ ?pk _ ?s \<and> _")
proof -
  have v: "verifyBLS toy_hashes toy_bls ?pk [1] ?s"
    by (simp add: verifyBLS_iff hex_lawsD(1) [OF toy_hex_laws]) (simp add: toy_bls_def toy_hash_def)
  then show ?thesis
    using bls_aggregation_fails [OF toy_hex_laws toy_bls_laws,
        where s = "\<lparr>bs_signature = ?s, bs_signerIndex = 0\<rparr>"
        and sigs = "[\<lparr>bs_signature = ?s, bs_signerIndex = 0\<rparr>]"] by auto
qed

end
