(* ===== verification/Governance.thy ===== *)
theory Governance
  imports Json AuditChain JsMap Bls Vdf
begin

text \<open>
  The governance engine (governance/governance_engine.ts): roles, policies, approvals, delegations and
  the emergency circuit breaker, over the BLS engine, the time locks and the audit chain.

  A pending approval is an object that the map, the caller and the callback of its time lock share,
  so approvals live in a store (\<open>gv_objects\<close>) and the map holds positions in it. The promise of a
  time lock that has not settled is an entry of \<open>gv_timelocks\<close>; \<open>timelock_settled\<close> is the moment its
  callback runs. One reading of the clock serves a call: \<open>ck_now\<close>, with the text
  \<open>new Date().toISOString()\<close> of the same moment for the audit log. An operation returns its result and
  the state it leaves behind, also when it throws.

  The method \<open>verifyBLSSignature\<close> awaits a dynamic import without being asynchronous, which no
  compiler accepts; the model reads it as the import of \<open>verifyBLS\<close> that it names, the reading under
  which the module loads.
\<close>

subsection \<open>Data\<close>

datatype GovernanceRole = ROLE_ADMIN | ROLE_TREASURY | ROLE_COMPLIANCE | ROLE_RISK_OFFICER | ROLE_AUDITOR

fun role_text :: "GovernanceRole \<Rightarrow> string" where
  "role_text ROLE_ADMIN = ''ADMIN''"
| "role_text ROLE_TREASURY = ''TREASURY''"
| "role_text ROLE_COMPLIANCE = ''COMPLIANCE''"
| "role_text ROLE_RISK_OFFICER = ''RISK_OFFICER''"
| "role_text ROLE_AUDITOR = ''AUDITOR''"

record RoleIdentity =
  ri_role :: GovernanceRole
  ri_ed25519PublicKey :: string
  ri_blsPublicKey :: string
  ri_hdPath :: string
  ri_delegatedBy :: "string option"
  ri_expiresAt :: "int option"

record ApprovalTier =
  at_tierName :: string
  at_minAmountUSD :: rat
  at_maxAmountUSD :: rat
  at_requiredRoles :: "GovernanceRole list"
  at_thresholdCount :: int
  at_timeLockSeconds :: rat
  at_requiresEmergencyOverride :: bool

datatype breaker_condition = VELOCITY_SPIKE | ANOMALOUS_AMOUNT | FAILED_AUTH | MANUAL_PANIC
datatype breaker_action = FREEZE_OUTBOUND | FREEZE_ALL | ALERT_ONLY

fun condition_text :: "breaker_condition \<Rightarrow> string" where
  "condition_text VELOCITY_SPIKE = ''VELOCITY_SPIKE''"
| "condition_text ANOMALOUS_AMOUNT = ''ANOMALOUS_AMOUNT''"
| "condition_text FAILED_AUTH = ''FAILED_AUTH''"
| "condition_text MANUAL_PANIC = ''MANUAL_PANIC''"

fun action_text :: "breaker_action \<Rightarrow> string" where
  "action_text FREEZE_OUTBOUND = ''FREEZE_OUTBOUND''"
| "action_text FREEZE_ALL = ''FREEZE_ALL''"
| "action_text ALERT_ONLY = ''ALERT_ONLY''"

record CircuitBreakerRule =
  cr_ruleId :: string
  cr_condition :: breaker_condition
  cr_threshold :: rat
  cr_action :: breaker_action
  cr_durationMinutes :: rat

record GovernancePolicy =
  gp_policyId :: string
  gp_version :: int
  gp_tiers :: "ApprovalTier list"
  gp_circuitBreakerRules :: "CircuitBreakerRule list"
  gp_signedBy :: "string list"
  gp_merkleRoot :: string
  gp_createdAt :: int

record DelegationToken =
  dt_tokenId :: string
  dt_delegatorRole :: GovernanceRole
  dt_delegateePublicKey :: string
  dt_delegatedRoles :: "GovernanceRole list"
  dt_notBefore :: int
  dt_notAfter :: int
  dt_maxTransactions :: int
  dt_maxAmountUSD :: rat
  dt_signature :: string

datatype approval_status = ST_PENDING | ST_TIME_LOCKED | ST_APPROVED | ST_REJECTED | ST_EXPIRED

record PendingApproval =
  pa_approvalId :: string
  pa_transactionHash :: string
  pa_amountUSD :: rat
  pa_tier :: ApprovalTier
  pa_approvals :: "(string, string) js_map"
  pa_timeLockEnvelope :: "TimeLockEnvelope option"
  pa_status :: approval_status
  pa_createdAt :: int
  pa_expiresAt :: int

record EmergencyState =
  es_isActive :: bool
  es_triggeredBy :: string
  es_triggerReason :: string
  es_triggeredAt :: int
  es_expiresAt :: int
  es_requiredUnfreezeApprovals :: int
  es_unfreezeApprovals :: "string list"

text \<open>An unsettled time lock: the object its callback updates, and the call that makes it.\<close>

record pending_timelock =
  tl_object :: nat
  tl_approvalId :: string
  tl_payload :: string
  tl_now :: int
  tl_seconds :: rat

record 'd gov_state =
  gv_roleIdentities :: "(string, RoleIdentity) js_map"
  gv_policies :: "(string, GovernancePolicy) js_map"
  gv_objects :: "PendingApproval list"
  gv_pending :: "(string, nat) js_map"
  gv_delegations :: "(string, DelegationToken) js_map"
  gv_emergency :: "EmergencyState option"
  gv_masterPolicyKey :: SecureBuffer
  gv_timelocks :: "pending_timelock list"
  gv_audit :: "'d audit_state"

text \<open>The libraries the engine calls, with the two printers of the standard library it uses:
  \<open>Number.prototype.toString\<close> and \<open>Date.prototype.toISOString\<close> (which throws on an invalid date).\<close>

record ('g1, 'g2, 'd) gov_lib =
  gl_h :: hashes
  gl_D :: ed25519
  gl_B :: "('g1, 'g2) bls_lib"
  gl_S :: "'d sqlite"
  gl_num :: "rat \<Rightarrow> string"
  gl_iso :: "int \<Rightarrow> string result"

record clock =
  ck_now :: int
  ck_iso :: string

definition gov_new :: "string \<Rightarrow> 'd audit_state \<Rightarrow> 'd gov_state" where
  "gov_new masterPolicyKeyHex audit =
     \<lparr>gv_roleIdentities = [], gv_policies = [], gv_objects = [], gv_pending = [], gv_delegations = [],
      gv_emergency = None, gv_masterPolicyKey = sb_fromHex masterPolicyKeyHex, gv_timelocks = [],
      gv_audit = audit\<rparr>"

text \<open>\<open>AuditChainEngine.appendLog(action, 'GOVERNANCE', details)\<close>\<close>

definition gov_log ::
  "('g1, 'g2, 'd) gov_lib \<Rightarrow> clock \<Rightarrow> string \<Rightarrow> string \<Rightarrow> 'd gov_state \<Rightarrow> 'd gov_state" where
  "gov_log L ck action details st =
     st\<lparr>gv_audit := snd (appendLog (gl_h L) (gl_S L) (ck_iso ck) action ''GOVERNANCE'' details None (gv_audit st))\<rparr>"

text \<open>\<open>'0x' + bytesToHex(sha256(text)).slice(0, 32)\<close>\<close>

definition gov_id :: "('g1, 'g2, 'd) gov_lib \<Rightarrow> string \<Rightarrow> string" where
  "gov_id L text = ''0x'' @ take 32 (h_bytesToHex (gl_h L) (h_sha256 (gl_h L) (utf8 text)))"

subsection \<open>Roles\<close>

record role_check =
  rc_valid :: bool
  rc_identity :: "RoleIdentity option"
  rc_reason :: "string option"

text \<open>The key pair is drawn before anything is stored; \<open>seed\<close> is not used.\<close>

definition registerRoleIdentity ::
  "('g1, 'g2, 'd) gov_lib \<Rightarrow> clock \<Rightarrow> GovernanceRole \<Rightarrow> string \<Rightarrow> SecureBuffer \<Rightarrow> string
   \<Rightarrow> 'd gov_state \<Rightarrow> (RoleIdentity \<times> 'd gov_state) rnd" where
  "registerRoleIdentity L ck role ed25519PublicKey seed hdPath st =
     rnd_bind (generateBLSKeyPair (gl_h L) (gl_B L)) (\<lambda>blsKeys.
     let identity = \<lparr>ri_role = role, ri_ed25519PublicKey = ed25519PublicKey,
           ri_blsPublicKey = bk_publicKey blsKeys, ri_hdPath = hdPath, ri_delegatedBy = None,
           ri_expiresAt = None\<rparr>;
         st1 = st\<lparr>gv_roleIdentities := jm_set (gv_roleIdentities st) ed25519PublicKey identity\<rparr>
     in rnd_return (identity, gov_log L ck ''ROLE_REGISTERED''
          (''Role '' @ role_text role @ '' registered with HD path '' @ hdPath) st1))"

text \<open>A number is false as a condition exactly when it is 0.\<close>

definition identity_expired :: "int \<Rightarrow> RoleIdentity \<Rightarrow> bool" where
  "identity_expired now identity =
     (case ri_expiresAt identity of None \<Rightarrow> False | Some e \<Rightarrow> e \<noteq> 0 \<and> e < now)"

fun role_scan ::
  "('g1, 'g2, 'd) gov_lib \<Rightarrow> int \<Rightarrow> GovernanceRole \<Rightarrow> bytes \<Rightarrow> string
   \<Rightarrow> (string, RoleIdentity) js_map \<Rightarrow> role_check" where
  "role_scan L now role message signatureHex [] =
     \<lparr>rc_valid = False, rc_identity = None,
      rc_reason = Some ''No valid signature from registered role holder''\<rparr>"
| "role_scan L now role message signatureHex ((pubKey, identity) # rest) =
     (if ri_role identity \<noteq> role then role_scan L now role message signatureHex rest
      else case rbind (h_hexToBytes (gl_h L) (strip0x pubKey)) (\<lambda>pub.
                rbind (h_hexToBytes (gl_h L) (strip0x signatureHex)) (\<lambda>sig.
                ed_verify (gl_D L) sig message pub)) of
        Inr True \<Rightarrow>
          if identity_expired now identity
          then \<lparr>rc_valid = False, rc_identity = None, rc_reason = Some ''Delegation expired''\<rparr>
          else \<lparr>rc_valid = True, rc_identity = Some identity, rc_reason = None\<rparr>
      | _ \<Rightarrow> role_scan L now role message signatureHex rest)"

definition verifyRoleSignature ::
  "('g1, 'g2, 'd) gov_lib \<Rightarrow> int \<Rightarrow> GovernanceRole \<Rightarrow> bytes \<Rightarrow> string \<Rightarrow> 'd gov_state \<Rightarrow> role_check" where
  "verifyRoleSignature L now role message signatureHex st =
     role_scan L now role message signatureHex (gv_roleIdentities st)"

subsection \<open>Policies\<close>

definition tier_json :: "ApprovalTier \<Rightarrow> json" where
  "tier_json t = JObj [(''tierName'', JStr (at_tierName t)), (''minAmountUSD'', JNum (at_minAmountUSD t)),
     (''maxAmountUSD'', JNum (at_maxAmountUSD t)),
     (''requiredRoles'', JArr (map (\<lambda>r. JStr (role_text r)) (at_requiredRoles t))),
     (''thresholdCount'', JNum (of_int (at_thresholdCount t))),
     (''timeLockSeconds'', JNum (at_timeLockSeconds t)),
     (''requiresEmergencyOverride'', JBool (at_requiresEmergencyOverride t))]"

definition rule_json :: "CircuitBreakerRule \<Rightarrow> json" where
  "rule_json r = JObj [(''ruleId'', JStr (cr_ruleId r)), (''condition'', JStr (condition_text (cr_condition r))),
     (''threshold'', JNum (cr_threshold r)), (''action'', JStr (action_text (cr_action r))),
     (''durationMinutes'', JNum (cr_durationMinutes r))]"

text \<open>The loop is that of \<open>getMerkleRoot\<close>; on no leaves \<open>bytesToHex(undefined)\<close> throws.\<close>

definition computePolicyMerkleRoot ::
  "('g1, 'g2, 'd) gov_lib \<Rightarrow> ApprovalTier list \<Rightarrow> CircuitBreakerRule list \<Rightarrow> string result" where
  "computePolicyMerkleRoot L tiers rules =
     (let leaves = map (\<lambda>t. h_sha256 (gl_h L) (utf8 (json_text (gl_num L) (tier_json t)))) tiers
                 @ map (\<lambda>r. h_sha256 (gl_h L) (utf8 (json_text (gl_num L) (rule_json r)))) rules
      in case merkle_up (gl_h L) leaves of
           [] \<Rightarrow> Inl (Error ''Uint8Array expected'')
         | digest # _ \<Rightarrow> Inr (''0x'' @ h_bytesToHex (gl_h L) digest))"

definition policy_message :: "int \<Rightarrow> GovernanceRole \<Rightarrow> bytes" where
  "policy_message now role = utf8 (''POLICY_CHANGE:'' @ dec now @ '':'' @ role_text role)"

definition policy_seal ::
  "('g1, 'g2, 'd) gov_lib \<Rightarrow> string \<Rightarrow> ApprovalTier list \<Rightarrow> CircuitBreakerRule list \<Rightarrow> 'd gov_state
   \<Rightarrow> (string \<times> bytes) result" where
  "policy_seal L policyId tiers circuitBreakerRules st =
     rbind (computePolicyMerkleRoot L tiers circuitBreakerRules) (\<lambda>merkleRoot.
     rbind (h_hexToBytes (gl_h L) (strip0x policyId)) (\<lambda>idBytes.
     rbind (sb_bytes (gv_masterPolicyKey st)) (\<lambda>key.
     rbind (ed_sign (gl_D L) idBytes key) (\<lambda>policySig. Inr (merkleRoot, policySig)))))"

definition policy_approvals ::
  "('g1, 'g2, 'd) gov_lib \<Rightarrow> int \<Rightarrow> (GovernanceRole, string) js_map \<Rightarrow> 'd gov_state \<Rightarrow> nat" where
  "policy_approvals L now approverSignatures st =
     length (filter (\<lambda>(role, sig). rc_valid (verifyRoleSignature L now role
       (policy_message now role) sig st)) approverSignatures)"

definition store_policy ::
  "('g1, 'g2, 'd) gov_lib \<Rightarrow> clock \<Rightarrow> nat \<Rightarrow> GovernancePolicy \<Rightarrow> 'd gov_state \<Rightarrow> 'd gov_state" where
  "store_policy L ck approvalCount policy st =
     gov_log L ck ''POLICY_CREATED''
       (''Policy '' @ gp_policyId policy @ '' v'' @ dec (gp_version policy) @ '' created with ''
         @ dec (int approvalCount) @ '' approvals'')
       (st\<lparr>gv_policies := jm_set (gv_policies st) (gp_policyId policy) policy\<rparr>)"

definition createPolicy ::
  "('g1, 'g2, 'd) gov_lib \<Rightarrow> clock \<Rightarrow> (GovernanceRole, string) js_map \<Rightarrow> ApprovalTier list
   \<Rightarrow> CircuitBreakerRule list \<Rightarrow> 'd gov_state \<Rightarrow> GovernancePolicy result \<times> 'd gov_state" where
  "createPolicy L ck approverSignatures tiers circuitBreakerRules st =
     (let approvalCount = policy_approvals L (ck_now ck) approverSignatures st
      in if approvalCount < 3
         then (Inl (Error (''Policy creation requires 3-of-5 approvals, got '' @ dec (int approvalCount))), st)
         else let policyId = gov_id L (json_text (gl_num L) (JArr (map tier_json tiers)) @ dec (ck_now ck))
           in case policy_seal L policyId tiers circuitBreakerRules st of
               Inl e \<Rightarrow> (Inl e, st)
             | Inr (merkleRoot, policySig) \<Rightarrow>
                 let policy = \<lparr>gp_policyId = policyId, gp_version = int (length (gv_policies st)) + 1,
                       gp_tiers = tiers, gp_circuitBreakerRules = circuitBreakerRules,
                       gp_signedBy = map snd approverSignatures @ [''0x'' @ h_bytesToHex (gl_h L) policySig],
                       gp_merkleRoot = merkleRoot, gp_createdAt = ck_now ck\<rparr>
                 in (Inr policy, store_policy L ck approvalCount policy st))"

subsection \<open>Approvals\<close>

definition tier_for :: "GovernancePolicy \<Rightarrow> rat \<Rightarrow> ApprovalTier option" where
  "tier_for policy amountUSD =
     List.find (\<lambda>t. at_minAmountUSD t \<le> amountUSD \<and> amountUSD \<le> at_maxAmountUSD t) (gp_tiers policy)"

definition emergency_active :: "'d gov_state \<Rightarrow> bool" where
  "emergency_active st = (case gv_emergency st of None \<Rightarrow> False | Some e \<Rightarrow> es_isActive e)"

definition new_approval ::
  "('g1, 'g2, 'd) gov_lib \<Rightarrow> int \<Rightarrow> string \<Rightarrow> rat \<Rightarrow> ApprovalTier \<Rightarrow> PendingApproval" where
  "new_approval L now transactionHash amountUSD tier =
     \<lparr>pa_approvalId = gov_id L (transactionHash @ '':'' @ gl_num L amountUSD @ '':'' @ dec now),
      pa_transactionHash = transactionHash, pa_amountUSD = amountUSD, pa_tier = tier, pa_approvals = [],
      pa_timeLockEnvelope = None,
      pa_status = (if at_timeLockSeconds tier > 0 then ST_TIME_LOCKED else ST_PENDING),
      pa_createdAt = now, pa_expiresAt = now + 24 * 60 * 60 * 1000\<rparr>"

text \<open>The new object is stored, with the promise of its time lock when the tier has one.\<close>

definition store_approval ::
  "('g1, 'g2, 'd) gov_lib \<Rightarrow> clock \<Rightarrow> PendingApproval \<Rightarrow> 'd gov_state \<Rightarrow> 'd gov_state" where
  "store_approval L ck approval st =
     (let k = length (gv_objects st); tier = pa_tier approval
      in gov_log L ck ''APPROVAL_INITIATED''
           (''Approval '' @ pa_approvalId approval @ '' for $'' @ gl_num L (pa_amountUSD approval) @ '' requires ''
             @ dec (at_thresholdCount tier) @ '' approvals from [''
             @ join '','' (map role_text (at_requiredRoles tier)) @ '']'')
           (st\<lparr>gv_objects := gv_objects st @ [approval],
               gv_timelocks := (if at_timeLockSeconds tier > 0
                 then gv_timelocks st @ [\<lparr>tl_object = k, tl_approvalId = pa_approvalId approval,
                        tl_payload = pa_transactionHash approval, tl_now = ck_now ck,
                        tl_seconds = at_timeLockSeconds tier\<rparr>]
                 else gv_timelocks st),
               gv_pending := jm_set (gv_pending st) (pa_approvalId approval) k\<rparr>))"

definition initiateApproval ::
  "('g1, 'g2, 'd) gov_lib \<Rightarrow> clock \<Rightarrow> string \<Rightarrow> rat \<Rightarrow> string \<Rightarrow> 'd gov_state
   \<Rightarrow> PendingApproval result \<times> 'd gov_state" where
  "initiateApproval L ck transactionHash amountUSD policyId st =
     (case jm_get (gv_policies st) policyId of
        None \<Rightarrow> (Inl (Error ''Policy not found''), st)
      | Some policy \<Rightarrow>
     (case tier_for policy amountUSD of
        None \<Rightarrow> (Inl (Error ''Amount exceeds all policy tiers''), st)
      | Some tier \<Rightarrow>
          if emergency_active st
          then (Inl (Error (''Emergency freeze active: '' @ es_triggerReason (the (gv_emergency st)))), st)
          else let approval = new_approval L (ck_now ck) transactionHash amountUSD tier
            in (Inr approval, store_approval L ck approval st)))"

text \<open>The promise of the \<open>i\<close>-th time lock settles: its callback stores the envelope and sets the
  status, or it is rejected and nothing is stored (the error is returned: the rejection is unhandled).\<close>

definition timelock_settled ::
  "('g1, 'g2, 'd) gov_lib \<Rightarrow> rat \<Rightarrow> nat \<Rightarrow> 'd gov_state \<Rightarrow> unit result \<times> 'd gov_state" where
  "timelock_settled L evalTime i st =
     (let tl = gv_timelocks st ! i;
          st1 = st\<lparr>gv_timelocks := take i (gv_timelocks st) @ drop (Suc i) (gv_timelocks st)\<rparr>;
          approval = gv_objects st ! tl_object tl
      in case createTimeLockedApproval (gl_h L) (gl_num L) (tl_now tl) evalTime (tl_approvalId tl) ''system''
                (tl_payload tl) (tl_seconds tl) of
           Inl e \<Rightarrow> (Inl e, st1)
         | Inr envelope \<Rightarrow> (Inr (), st1\<lparr>gv_objects := (gv_objects st)[tl_object tl :=
             approval\<lparr>pa_timeLockEnvelope := Some envelope, pa_status := ST_PENDING\<rparr>]\<rparr>))"

definition verifyBLSSignature ::
  "('g1, 'g2, 'd) gov_lib \<Rightarrow> string \<Rightarrow> bytes \<Rightarrow> string \<Rightarrow> bool" where
  "verifyBLSSignature L blsPublicKey message signature =
     verifyBLS (gl_h L) (gl_B L) blsPublicKey message signature"

record submit_result =
  sr_status :: string
  sr_approvalsRemaining :: int
  sr_aggregated :: "AggregatedApproval option"

definition approval_message :: "PendingApproval \<Rightarrow> bytes" where
  "approval_message approval = utf8 (pa_transactionHash approval @ '':'' @ pa_approvalId approval)"

definition indexed_signatures :: "(string, string) js_map \<Rightarrow> BLSSignature list" where
  "indexed_signatures approvals =
     map (\<lambda>(idx, (pubKey, sig)). \<lparr>bs_signature = sig, bs_signerIndex = int idx\<rparr>) (enumerate 0 approvals)"

text \<open>What happens once the signatures have been checked: the approval is recorded, and when the
  threshold is met the signatures are aggregated. An error of the aggregation leaves the recorded
  approval in place.\<close>

definition record_approval ::
  "('g1, 'g2, 'd) gov_lib \<Rightarrow> clock \<Rightarrow> string \<Rightarrow> nat \<Rightarrow> RoleIdentity \<Rightarrow> string \<Rightarrow> 'd gov_state
   \<Rightarrow> submit_result result \<times> 'd gov_state" where
  "record_approval L ck approvalId k identity blsSignature st =
     (let approval = (gv_objects st ! k)\<lparr>pa_approvals :=
            jm_set (pa_approvals (gv_objects st ! k)) (ri_ed25519PublicKey identity) blsSignature\<rparr>;
          st1 = st\<lparr>gv_objects := (gv_objects st)[k := approval]\<rparr>;
          uniqueApprovals = int (length (pa_approvals approval));
          remaining = max 0 (at_thresholdCount (pa_tier approval) - uniqueApprovals)
      in if remaining = 0
         then case aggregateSignatures (gl_h L) (gl_B L) (indexed_signatures (pa_approvals approval)) of
                Inl e \<Rightarrow> (Inl e, st1)
              | Inr aggregated \<Rightarrow>
                  (Inr \<lparr>sr_status = ''APPROVED'', sr_approvalsRemaining = 0, sr_aggregated = Some aggregated\<rparr>,
                   gov_log L ck ''APPROVAL_COMPLETED''
                     (''Approval '' @ approvalId @ '' APPROVED with '' @ dec uniqueApprovals @ '' signatures'')
                     (st\<lparr>gv_objects := (gv_objects st)[k := approval\<lparr>pa_status := ST_APPROVED\<rparr>]\<rparr>))
         else (Inr \<lparr>sr_status = ''PENDING'', sr_approvalsRemaining = remaining, sr_aggregated = None\<rparr>,
               gov_log L ck ''APPROVAL_RECEIVED''
                 (''Approval '' @ approvalId @ '': '' @ dec uniqueApprovals @ ''/''
                   @ dec (at_thresholdCount (pa_tier approval)) @ '' signatures'') st1))"

definition submitApproval ::
  "('g1, 'g2, 'd) gov_lib \<Rightarrow> clock \<Rightarrow> string \<Rightarrow> GovernanceRole \<Rightarrow> string \<Rightarrow> string \<Rightarrow> 'd gov_state
   \<Rightarrow> submit_result result \<times> 'd gov_state" where
  "submitApproval L ck approvalId role ed25519Signature blsSignature st =
     (case jm_get (gv_pending st) approvalId of
        None \<Rightarrow> (Inl (Error ''Approval not found''), st)
      | Some k \<Rightarrow>
          let approval = gv_objects st ! k; msg = approval_message approval in
          if pa_status approval = ST_EXPIRED \<and> pa_expiresAt approval < ck_now ck
          then (Inl (Error ''Approval expired''), st)
          else if pa_status approval = ST_APPROVED then (Inl (Error ''Already approved''), st)
          else
            let roleCheck = verifyRoleSignature L (ck_now ck) role msg ed25519Signature st in
            if \<not> rc_valid roleCheck
            then (Inl (Error (''Invalid role signature: '' @ undefined_text (rc_reason roleCheck))), st)
            else case rc_identity roleCheck of
              None \<Rightarrow> (Inl (Error ''Role identity not found''), st)
            | Some identity \<Rightarrow>
                if \<not> verifyBLSSignature L (ri_blsPublicKey identity) msg blsSignature
                then (Inl (Error ''Invalid BLS signature''), st)
                else record_approval L ck approvalId k identity blsSignature st)"

subsection \<open>Delegations\<close>

definition delegation_data :: "('g1, 'g2, 'd) gov_lib \<Rightarrow> DelegationToken \<Rightarrow> bytes" where
  "delegation_data L token =
     utf8 (dt_tokenId token @ '':'' @ role_text (dt_delegatorRole token) @ '':'' @ dt_delegateePublicKey token
       @ '':'' @ dec (dt_notAfter token) @ '':'' @ dec (dt_maxTransactions token) @ '':''
       @ gl_num L (dt_maxAmountUSD token))"

definition delegation_token ::
  "('g1, 'g2, 'd) gov_lib \<Rightarrow> int \<Rightarrow> GovernanceRole \<Rightarrow> string \<Rightarrow> GovernanceRole list
   \<Rightarrow> int \<Rightarrow> int \<Rightarrow> rat \<Rightarrow> DelegationToken" where
  "delegation_token L now delegatorRole delegateePublicKey delegatedRoles notAfter maxTransactions maxAmountUSD =
     \<lparr>dt_tokenId = gov_id L (role_text delegatorRole @ '':'' @ delegateePublicKey @ '':'' @ dec now),
      dt_delegatorRole = delegatorRole, dt_delegateePublicKey = delegateePublicKey,
      dt_delegatedRoles = delegatedRoles, dt_notBefore = now, dt_notAfter = notAfter,
      dt_maxTransactions = maxTransactions, dt_maxAmountUSD = maxAmountUSD, dt_signature = []\<rparr>"

text \<open>The token is stored before the log text is built, so an expiry that is no valid date throws
  after the fact.\<close>

definition store_delegation ::
  "('g1, 'g2, 'd) gov_lib \<Rightarrow> clock \<Rightarrow> DelegationToken \<Rightarrow> 'd gov_state \<Rightarrow> DelegationToken result \<times> 'd gov_state" where
  "store_delegation L ck token st =
     (let st1 = st\<lparr>gv_delegations := jm_set (gv_delegations st) (dt_tokenId token) token\<rparr>
      in case gl_iso L (dt_notAfter token) of
           Inl e \<Rightarrow> (Inl e, st1)
         | Inr expiry \<Rightarrow>
             (Inr token, gov_log L ck ''DELEGATION_CREATED''
                (''Delegation '' @ dt_tokenId token @ '' from '' @ role_text (dt_delegatorRole token) @ '' to ''
                  @ take 20 (dt_delegateePublicKey token) @ ''... expires '' @ expiry) st1))"

definition createDelegation ::
  "('g1, 'g2, 'd) gov_lib \<Rightarrow> clock \<Rightarrow> GovernanceRole \<Rightarrow> SecureBuffer \<Rightarrow> string \<Rightarrow> GovernanceRole list
   \<Rightarrow> int \<Rightarrow> int \<Rightarrow> rat \<Rightarrow> 'd gov_state \<Rightarrow> DelegationToken result \<times> 'd gov_state" where
  "createDelegation L ck delegatorRole delegatorPrivateKey delegateePublicKey delegatedRoles notAfter
     maxTransactions maxAmountUSD st =
     (let token = delegation_token L (ck_now ck) delegatorRole delegateePublicKey delegatedRoles notAfter
            maxTransactions maxAmountUSD
      in case rbind (sb_bytes delegatorPrivateKey) (ed_sign (gl_D L) (delegation_data L token)) of
           Inl e \<Rightarrow> (Inl e, st)
         | Inr sig \<Rightarrow>
             store_delegation L ck (token\<lparr>dt_signature := ''0x'' @ h_bytesToHex (gl_h L) sig\<rparr>) st)"

definition verifyDelegation ::
  "('g1, 'g2, 'd) gov_lib \<Rightarrow> int \<Rightarrow> DelegationToken \<Rightarrow> 'd gov_state \<Rightarrow> bool \<times> string option" where
  "verifyDelegation L now token st =
     (if dt_notAfter token < now then (False, Some ''Delegation expired'')
      else if now < dt_notBefore token then (False, Some ''Delegation not yet active'')
      else case List.find (\<lambda>r. ri_role r = dt_delegatorRole token) (map snd (gv_roleIdentities st)) of
        None \<Rightarrow> (False, Some ''Delegator role not registered'')
      | Some delegatorIdentity \<Rightarrow>
          case rbind (h_hexToBytes (gl_h L) (strip0x (ri_ed25519PublicKey delegatorIdentity))) (\<lambda>pub.
               rbind (h_hexToBytes (gl_h L) (strip0x (dt_signature token))) (\<lambda>sig.
               ed_verify (gl_D L) sig (delegation_data L token) pub)) of
            Inl e \<Rightarrow> (False, Some ''Signature verification failed'')
          | Inr False \<Rightarrow> (False, Some ''Invalid delegation signature'')
          | Inr True \<Rightarrow> (True, None))"

subsection \<open>Circuit breaker\<close>

definition emergency_message :: "string \<Rightarrow> int \<Rightarrow> bytes" where
  "emergency_message triggerReason now = utf8 (''EMERGENCY:'' @ triggerReason @ '':'' @ dec now)"

text \<open>The approvers whose signature is valid, in the order of the map.\<close>

definition valid_approvers ::
  "('g1, 'g2, 'd) gov_lib \<Rightarrow> int \<Rightarrow> bytes \<Rightarrow> (GovernanceRole, string) js_map \<Rightarrow> 'd gov_state \<Rightarrow> string list" where
  "valid_approvers L now msg approverSignatures st =
     concat (map (\<lambda>(role, sig). let result = verifyRoleSignature L now role msg sig st in
       if rc_valid result then [ri_ed25519PublicKey (the (rc_identity result))] else []) approverSignatures)"

definition triggerEmergency ::
  "('g1, 'g2, 'd) gov_lib \<Rightarrow> clock \<Rightarrow> string \<Rightarrow> string \<Rightarrow> (GovernanceRole, string) js_map \<Rightarrow> 'd gov_state
   \<Rightarrow> EmergencyState result \<times> 'd gov_state" where
  "triggerEmergency L ck triggerReason triggeredBy approverSignatures st =
     (let now = ck_now ck;
          validApprovers = valid_approvers L now (emergency_message triggerReason now) approverSignatures st;
          approvalCount = length validApprovers
      in if approvalCount < 2
         then (Inl (Error (''Emergency requires 2-of-4 approvals, got '' @ dec (int approvalCount))), st)
         else let state = \<lparr>es_isActive = True, es_triggeredBy = triggeredBy, es_triggerReason = triggerReason,
                es_triggeredAt = now, es_expiresAt = now + 24 * 60 * 60 * 1000,
                es_requiredUnfreezeApprovals = 3, es_unfreezeApprovals = validApprovers\<rparr>
              in (Inr state, gov_log L ck ''EMERGENCY_TRIGGERED''
                   (''EMERGENCY: '' @ triggerReason @ '' by '' @ triggeredBy
                     @ ''. Outbound transactions FROZEN.'')
                   (st\<lparr>gv_emergency := Some state\<rparr>)))"

text \<open>One signature of the unfreeze loop: a valid approver not yet in the list is counted and added.\<close>

definition unfreeze_step ::
  "('g1, 'g2, 'd) gov_lib \<Rightarrow> int \<Rightarrow> 'd gov_state \<Rightarrow> EmergencyState \<times> int \<Rightarrow> GovernanceRole \<times> string
   \<Rightarrow> EmergencyState \<times> int" where
  "unfreeze_step L now st acc entry =
     (case (acc, entry) of ((e, approvalCount), (role, sig)) \<Rightarrow>
       let result = verifyRoleSignature L now role (utf8 (''UNFREEZE:'' @ dec (es_triggeredAt e))) sig st in
       if rc_valid result \<and> ri_ed25519PublicKey (the (rc_identity result)) \<notin> set (es_unfreezeApprovals e)
       then (e\<lparr>es_unfreezeApprovals := es_unfreezeApprovals e @ [ri_ed25519PublicKey (the (rc_identity result))]\<rparr>,
             approvalCount + 1)
       else (e, approvalCount))"

definition unfreezeEmergency ::
  "('g1, 'g2, 'd) gov_lib \<Rightarrow> clock \<Rightarrow> (GovernanceRole, string) js_map \<Rightarrow> 'd gov_state
   \<Rightarrow> unit result \<times> 'd gov_state" where
  "unfreezeEmergency L ck approverSignatures st =
     (case gv_emergency st of
        None \<Rightarrow> (Inl (Error ''No active emergency state''), st)
      | Some e0 \<Rightarrow>
          if \<not> es_isActive e0 then (Inl (Error ''No active emergency state''), st)
          else case foldl (unfreeze_step L (ck_now ck) st) (e0, int (length (es_unfreezeApprovals e0)))
                 approverSignatures of
            (e, approvalCount) \<Rightarrow>
              let st1 = st\<lparr>gv_emergency := Some e\<rparr> in
              if approvalCount < es_requiredUnfreezeApprovals e
              then (Inl (Error (''Unfreeze requires '' @ dec (es_requiredUnfreezeApprovals e)
                      @ '' approvals, got '' @ dec approvalCount)), st1)
              else (Inr (), gov_log L ck ''EMERGENCY_UNFROZEN''
                      (''Emergency unfreezed with '' @ dec approvalCount @ '' approvals'')
                      (st\<lparr>gv_emergency := Some (e\<lparr>es_isActive := False\<rparr>)\<rparr>)))"

definition getEmergencyState :: "'d gov_state \<Rightarrow> EmergencyState option" where
  "getEmergencyState st = gv_emergency st"

definition getPendingApproval :: "string \<Rightarrow> 'd gov_state \<Rightarrow> PendingApproval option" where
  "getPendingApproval approvalId st = map_option (\<lambda>k. gv_objects st ! k) (jm_get (gv_pending st) approvalId)"

subsection \<open>The engine as a state machine\<close>

text \<open>One call of a method, whether it returns or throws, or one settled time lock. An argument that is
  a \<open>Map\<close> has one entry per key.\<close>

inductive gov_step :: "('g1, 'g2, 'd) gov_lib \<Rightarrow> 'd gov_state \<Rightarrow> 'd gov_state \<Rightarrow> bool" for L where
  step_register: "registerRoleIdentity L ck role pk seed path st t = Some (Inr (identity, st'), t')
     \<Longrightarrow> gov_step L st st'"
| step_policy: "jm_inv sigs \<Longrightarrow> createPolicy L ck sigs tiers rules st = (r, st') \<Longrightarrow> gov_step L st st'"
| step_initiate: "initiateApproval L ck tx amount policyId st = (r, st') \<Longrightarrow> gov_step L st st'"
| step_settled: "i < length (gv_timelocks st) \<Longrightarrow> timelock_settled L ms i st = (r, st') \<Longrightarrow> gov_step L st st'"
| step_submit: "submitApproval L ck approvalId role edSig blsSig st = (r, st') \<Longrightarrow> gov_step L st st'"
| step_delegation: "createDelegation L ck role key delegatee roles notAfter maxTx maxAmount st = (r, st')
     \<Longrightarrow> gov_step L st st'"
| step_trigger: "jm_inv sigs \<Longrightarrow> triggerEmergency L ck reason by_whom sigs st = (r, st') \<Longrightarrow> gov_step L st st'"
| step_unfreeze: "jm_inv sigs \<Longrightarrow> unfreezeEmergency L ck sigs st = (r, st') \<Longrightarrow> gov_step L st st'"

inductive gov_reach :: "('g1, 'g2, 'd) gov_lib \<Rightarrow> 'd gov_state \<Rightarrow> 'd gov_state \<Rightarrow> bool" for L s0 where
  gov_init: "gov_reach L s0 s0"
| gov_more: "gov_reach L s0 st \<Longrightarrow> gov_step L st st' \<Longrightarrow> gov_reach L s0 st'"

end
