(* ===== verification/AuditClient.thy ===== *)
theory AuditClient
  imports AuditChain "HOL-Library.Sublist"
begin

section \<open>Components that write the audit chain\<close>

text \<open>
  The interface between the audit chain and the components that log to it: every operation of a client
  leaves the chain alone or appends one entry through \<open>appendLog\<close>. What follows for any sequence of
  operations is proved once here and holds of the governance engine and of the server.
\<close>

definition audit_step :: "hashes \<Rightarrow> 'd sqlite \<Rightarrow> 'd audit_state \<Rightarrow> 'd audit_state \<Rightarrow> bool" where
  "audit_step h S au au' \<longleftrightarrow> au' = au
     \<or> (\<exists>time action actor details ip item. appendLog h S time action actor details ip au = (item, au'))"

lemma audit_step_same [simp]: "audit_step h S au au"
  by (simp add: audit_step_def)

lemma audit_step_prefix: "audit_step h S au au' \<Longrightarrow> prefix (au_chain au) (au_chain au')"
  unfolding audit_step_def using appendLog_chain by fastforce

lemma audit_step_reach: "audit_step h S au au' \<Longrightarrow> audit_reach h S au \<Longrightarrow> audit_reach h S au'"
  unfolding audit_step_def using reach_append by blast

lemma audit_step_linked:
  "audit_step h S au au' \<Longrightarrow> au_chain au \<noteq> [] \<Longrightarrow>
     au_chain au' \<noteq> [] \<and> (linked h (au_chain au') \<longleftrightarrow> linked h (au_chain au))"
  unfolding audit_step_def using appendLog_chain new_entry_link linked_append by fastforce

lemma audit_reach_valid:
  assumes "audit_reach h S au"
  shows "verifyChainIntegrity h au = \<lparr>ci_isValid = True, ci_brokenAtStep = None,
      ci_hash = ae_hash (last (au_chain au)), ci_totalBlocks = length (au_chain au)\<rparr>"
  using verify_from_linked audit_reach_linked [OF assms] by (simp add: verifyChainIntegrity_def)

locale audit_client =
  fixes h :: hashes and S :: "'d sqlite" and audit :: "'s \<Rightarrow> 'd audit_state" and step :: "'s \<Rightarrow> 's \<Rightarrow> bool"
  assumes step_audit: "step s s' \<Longrightarrow> audit_step h S (audit s) (audit s')"
begin

lemma run_reach: "step\<^sup>*\<^sup>* s s' \<Longrightarrow> audit_reach h S (audit s) \<Longrightarrow> audit_reach h S (audit s')"
  by (induction rule: rtranclp_induct) (auto intro: audit_step_reach step_audit)

text \<open>Nothing a client does removes or changes an entry.\<close>

lemma run_prefix: "step\<^sup>*\<^sup>* s s' \<Longrightarrow> prefix (au_chain (audit s)) (au_chain (audit s'))"
  by (induction rule: rtranclp_induct)
    (auto intro: prefix_order.order_trans audit_step_prefix dest: step_audit)

text \<open>Nor does it repair or break one.\<close>

lemma run_linked:
  "step\<^sup>*\<^sup>* s s' \<Longrightarrow> au_chain (audit s) \<noteq> [] \<Longrightarrow>
     au_chain (audit s') \<noteq> [] \<and> (linked h (au_chain (audit s')) \<longleftrightarrow> linked h (au_chain (audit s)))"
  by (induction rule: rtranclp_induct) (auto dest: step_audit audit_step_linked)

lemma run_intact:
  assumes "step\<^sup>*\<^sup>* s s'" and "audit_reach h S (audit s)"
  shows "ci_isValid (verifyChainIntegrity h (audit s')) \<and> prefix (au_chain (audit s)) (au_chain (audit s'))"
  using run_prefix [OF assms(1)] audit_reach_valid [OF run_reach [OF assms]] by simp

end

end
