(* ===== verification/GovernanceSafety.thy ===== *)
theory GovernanceSafety
  imports Governance AuditClient
begin

text \<open>
  What the governance engine guarantees, and what it does not: the invariant of its reachable states
  (approvals carry verified signatures of distinct registered keys), the effect of every step on the
  audit chain, the circuit breaker, and the controls that a submission does not look at.
\<close>

subsection \<open>Frames\<close>

named_theorems gov_frame \<open>fields an operation leaves alone\<close>

lemma gov_log_frame [simp]:
  "gv_roleIdentities (gov_log L ck a d st) = gv_roleIdentities st"
  "gv_policies (gov_log L ck a d st) = gv_policies st"
  "gv_objects (gov_log L ck a d st) = gv_objects st"
  "gv_pending (gov_log L ck a d st) = gv_pending st"
  "gv_delegations (gov_log L ck a d st) = gv_delegations st"
  "gv_emergency (gov_log L ck a d st) = gv_emergency st"
  "gv_masterPolicyKey (gov_log L ck a d st) = gv_masterPolicyKey st"
  "gv_timelocks (gov_log L ck a d st) = gv_timelocks st"
  by (simp_all add: gov_log_def)

lemma emergency_active_log [simp]: "emergency_active (gov_log L ck a d st) = emergency_active st"
  by (simp add: emergency_active_def)

text \<open>The audit chain is untouched or gains one entry.\<close>

definition audit_grows :: "('g1, 'g2, 'd) gov_lib \<Rightarrow> 'd gov_state \<Rightarrow> 'd gov_state \<Rightarrow> bool" where
  "audit_grows L st st' \<longleftrightarrow> audit_step (gl_h L) (gl_S L) (gv_audit st) (gv_audit st')"

lemma audit_grows_log: "gv_audit st1 = gv_audit st \<Longrightarrow> audit_grows L st (gov_log L ck a d st1)"
  unfolding audit_grows_def gov_log_def audit_step_def by simp (metis prod.collapse)

lemma audit_grows_same: "gv_audit st' = gv_audit st \<Longrightarrow> audit_grows L st st'"
  by (simp add: audit_grows_def)

lemma registered:
  assumes "registerRoleIdentity L ck role pk seed path st t = Some (Inr (identity, st'), t')"
  shows "\<exists>st1. st1 = st\<lparr>gv_roleIdentities := jm_set (gv_roleIdentities st) pk identity\<rparr>
    \<and> ri_ed25519PublicKey identity = pk \<and> ri_role identity = role \<and> ri_expiresAt identity = None
    \<and> st' = gov_log L ck ''ROLE_REGISTERED''
          (''Role '' @ role_text role @ '' registered with HD path '' @ path) st1"
  using assms by (auto simp: registerRoleIdentity_def result_simps Let_def)

lemma createPolicy_cases:
  assumes "createPolicy L ck sigs tiers rules st = (r, st')"
  obtains "st' = st" "\<exists>e. r = Inl e"
  | policy where "st' = store_policy L ck (policy_approvals L (ck_now ck) sigs st) policy st" "r = Inr policy"
      "3 \<le> policy_approvals L (ck_now ck) sigs st"
proof (cases "policy_approvals L (ck_now ck) sigs st < 3")
  case True
  then show thesis
    using assms that(1) unfolding createPolicy_def Let_def by (simp only: if_True prod.inject) blast
next
  case False
  then have count: "3 \<le> policy_approvals L (ck_now ck) sigs st" by simp
  let ?id = "gov_id L (json_text (gl_num L) (JArr (map tier_json tiers)) @ dec (ck_now ck))"
  show thesis
  proof (cases "policy_seal L ?id tiers rules st")
    case (Inl e)
    then show thesis
      using assms False that(1) unfolding createPolicy_def Let_def Inl
      by (simp only: if_False sum.case prod.inject) blast
  next
    case (Inr ms)
    obtain m s where "ms = (m, s)" by (cases ms)
    then show thesis
      using assms False that(2) [OF _ _ count] unfolding createPolicy_def Let_def Inr
      by (simp only: if_False sum.case prod.case prod.inject) blast
  qed
qed

lemma initiateApproval_cases:
  assumes "initiateApproval L ck tx amount policyId st = (r, st')"
  obtains "st' = st" "\<exists>e. r = Inl e"
  | tier where "\<not> emergency_active st" "r = Inr (new_approval L (ck_now ck) tx amount tier)"
      "st' = store_approval L ck (new_approval L (ck_now ck) tx amount tier) st"
proof (cases "jm_get (gv_policies st) policyId")
  case None
  then show thesis
    using assms that(1) unfolding initiateApproval_def by (simp only: option.case prod.inject) blast
next
  case policy: (Some policy)
  show thesis
  proof (cases "tier_for policy amount")
    case None
    then show thesis
      using assms that(1) policy unfolding initiateApproval_def by (simp only: option.case prod.inject) blast
  next
    case tier: (Some tier)
    show thesis
    proof (cases "emergency_active st")
      case True
      then show thesis
        using assms that(1) policy tier unfolding initiateApproval_def
        by (simp only: option.case prod.inject if_True) blast
    next
      case False
      then show thesis
        using assms that(2) [OF False] policy tier unfolding initiateApproval_def Let_def
        by (simp only: option.case prod.inject if_False) blast
    qed
  qed
qed

lemma timelock_settled_cases:
  assumes "timelock_settled L ms i st = (r, st')"
  obtains "st' = st\<lparr>gv_timelocks := take i (gv_timelocks st) @ drop (Suc i) (gv_timelocks st)\<rparr>" "\<exists>e. r = Inl e"
  | envelope where "r = Inr ()"
      "st' = st\<lparr>gv_timelocks := take i (gv_timelocks st) @ drop (Suc i) (gv_timelocks st),
         gv_objects := (gv_objects st)[tl_object (gv_timelocks st ! i) :=
           (gv_objects st ! tl_object (gv_timelocks st ! i))\<lparr>pa_timeLockEnvelope := Some envelope,
              pa_status := ST_PENDING\<rparr>]\<rparr>"
  using assms unfolding timelock_settled_def Let_def by (auto split: sum.splits)

lemma role_check_valid:
  "rc_valid (verifyRoleSignature L now role m s st) \<Longrightarrow>
    \<exists>i. verifyRoleSignature L now role m s st = \<lparr>rc_valid = True, rc_identity = Some i, rc_reason = None\<rparr>"
proof -
  have "rc_valid (role_scan L now role m s ids) \<Longrightarrow>
    \<exists>i. role_scan L now role m s ids = \<lparr>rc_valid = True, rc_identity = Some i, rc_reason = None\<rparr>" for ids
    by (induction ids) (auto split: if_splits sum.splits bool.splits)
  then show "rc_valid (verifyRoleSignature L now role m s st) \<Longrightarrow> ?thesis"
    by (simp add: verifyRoleSignature_def)
qed

lemma submitApproval_cases:
  assumes "submitApproval L ck approvalId role edSig blsSig st = (r, st')"
  obtains "st' = st" "\<exists>e. r = Inl e"
  | k identity where "jm_get (gv_pending st) approvalId = Some k"
      "verifyRoleSignature L (ck_now ck) role (approval_message (gv_objects st ! k)) edSig st
         = \<lparr>rc_valid = True, rc_identity = Some identity, rc_reason = None\<rparr>"
      "verifyBLSSignature L (ri_blsPublicKey identity) (approval_message (gv_objects st ! k)) blsSig"
      "pa_status (gv_objects st ! k) \<noteq> ST_APPROVED"
      "record_approval L ck approvalId k identity blsSig st = (r, st')"
  using assms role_check_valid unfolding submitApproval_def Let_def
  by (fastforce split: if_splits option.splits)

subsection \<open>What an accepted approval proves\<close>

definition signed_by :: "('g1, 'g2, 'd) gov_lib \<Rightarrow> string \<Rightarrow> bytes \<Rightarrow> string \<Rightarrow> bool" where
  "signed_by L pubKey message signatureHex \<longleftrightarrow> (\<exists>pub sig. h_hexToBytes (gl_h L) (strip0x pubKey) = Inr pub
     \<and> h_hexToBytes (gl_h L) (strip0x signatureHex) = Inr sig \<and> ed_verify (gl_D L) sig message pub = Inr True)"

lemma role_scan_valid:
  "role_scan L now role m s ids = \<lparr>rc_valid = True, rc_identity = Some i, rc_reason = None\<rparr> \<Longrightarrow>
   \<exists>k. (k, i) \<in> set ids \<and> ri_role i = role \<and> \<not> identity_expired now i \<and> signed_by L k m s"
proof (induction ids)
  case (Cons entry rest)
  obtain pubKey identity where entry: "entry = (pubKey, identity)" by (cases entry)
  show ?case
  proof (cases "ri_role identity = role \<and> rbind (h_hexToBytes (gl_h L) (strip0x pubKey)) (\<lambda>pub.
                rbind (h_hexToBytes (gl_h L) (strip0x s)) (\<lambda>sig. ed_verify (gl_D L) sig m pub)) = Inr True")
    case True
    then have "signed_by L pubKey m s" by (auto simp: signed_by_def result_simps)
    then show ?thesis using Cons.prems True by (auto simp: entry split: if_splits)
  next
    case False
    have rest: "role_scan L now role m s rest = \<lparr>rc_valid = True, rc_identity = Some i, rc_reason = None\<rparr>"
      using Cons.prems False by (auto simp: entry split: if_splits sum.splits bool.splits)
    show ?thesis using Cons.IH [OF rest] by auto
  qed
qed simp

definition endorsed :: "('g1, 'g2, 'd) gov_lib \<Rightarrow> string \<Rightarrow> bytes \<Rightarrow> string \<Rightarrow> bool" where
  "endorsed L pubKey message blsSignature \<longleftrightarrow>
     (\<exists>edSig. signed_by L pubKey message edSig)
     \<and> (\<exists>blsPublicKey. verifyBLS (gl_h L) (gl_B L) blsPublicKey message blsSignature)"

definition approval_ok :: "('g1, 'g2, 'd) gov_lib \<Rightarrow> (string, RoleIdentity) js_map \<Rightarrow> PendingApproval \<Rightarrow> bool" where
  "approval_ok L ids a \<longleftrightarrow> jm_inv (pa_approvals a)
     \<and> (\<forall>pk s. jm_get (pa_approvals a) pk = Some s \<longrightarrow> jm_has ids pk \<and> endorsed L pk (approval_message a) s)
     \<and> (pa_status a = ST_APPROVED \<longrightarrow> at_thresholdCount (pa_tier a) \<le> int (length (pa_approvals a)))
     \<and> pa_status a \<noteq> ST_EXPIRED"

definition gov_inv :: "('g1, 'g2, 'd) gov_lib \<Rightarrow> 'd gov_state \<Rightarrow> bool" where
  "gov_inv L st \<longleftrightarrow> jm_inv (gv_roleIdentities st)
     \<and> (\<forall>k i. jm_get (gv_roleIdentities st) k = Some i \<longrightarrow> ri_ed25519PublicKey i = k)
     \<and> (\<forall>a \<in> set (gv_objects st). approval_ok L (gv_roleIdentities st) a)
     \<and> (\<forall>id k. jm_get (gv_pending st) id = Some k \<longrightarrow> k < length (gv_objects st))
     \<and> (\<forall>tl \<in> set (gv_timelocks st). tl_object tl < length (gv_objects st))"

lemma gov_inv_cong:
  assumes "gov_inv L st" and "gv_roleIdentities st' = gv_roleIdentities st" and "gv_objects st' = gv_objects st"
    and "gv_pending st' = gv_pending st" and "set (gv_timelocks st') \<subseteq> set (gv_timelocks st)"
  shows "gov_inv L st'"
  using assms by (auto simp: gov_inv_def)

lemma gov_inv_object:
  assumes "gov_inv L st" and "approval_ok L (gv_roleIdentities st) a" and "gv_roleIdentities st' = gv_roleIdentities st"
    and "gv_objects st' = (gv_objects st)[k := a]" and "gv_pending st' = gv_pending st"
    and "set (gv_timelocks st') \<subseteq> set (gv_timelocks st)"
  shows "gov_inv L st'"
proof -
  have "set (gv_objects st') \<subseteq> insert a (set (gv_objects st))"
    by (simp add: assms(4) set_update_subset_insert)
  then show ?thesis using assms by (auto simp: gov_inv_def)
qed

text \<open>An engine before its first approval: a new one, or one whose roles, policies and delegations have
  been set up.\<close>

definition gov_start :: "'d gov_state \<Rightarrow> bool" where
  "gov_start st \<longleftrightarrow> jm_inv (gv_roleIdentities st)
     \<and> (\<forall>(k, i) \<in> set (gv_roleIdentities st). ri_ed25519PublicKey i = k)
     \<and> gv_objects st = [] \<and> gv_pending st = [] \<and> gv_timelocks st = [] \<and> gv_emergency st = None"

lemma gov_start_new: "gov_start (gov_new key audit)"
  by (simp add: gov_start_def gov_new_def jm_inv_def)

lemma gov_inv_start: "gov_start st \<Longrightarrow> gov_inv L st"
  by (auto simp: gov_inv_def gov_start_def jm_inv_def jm_get_def dest!: map_of_SomeD)

lemma role_check_registered:
  assumes "gov_inv L st"
    and "verifyRoleSignature L now role m s st = \<lparr>rc_valid = True, rc_identity = Some i, rc_reason = None\<rparr>"
  shows "jm_get (gv_roleIdentities st) (ri_ed25519PublicKey i) = Some i \<and> ri_role i = role
    \<and> signed_by L (ri_ed25519PublicKey i) m s"
proof -
  obtain k where "(k, i) \<in> set (gv_roleIdentities st)" and "ri_role i = role" and "signed_by L k m s"
    using role_scan_valid [OF assms(2) [unfolded verifyRoleSignature_def]] by blast
  moreover from this have "jm_get (gv_roleIdentities st) k = Some i"
    using assms(1) by (simp add: gov_inv_def jm_get_def jm_inv_def)
  ultimately show ?thesis using assms(1) by (auto simp: gov_inv_def)
qed

lemma timelocks_removed:
  "set (take i xs @ drop (Suc i) xs) \<subseteq> set xs"
  by (auto dest: in_set_takeD in_set_dropD)

lemma approval_ok_record:
  assumes "approval_ok L ids a" and "jm_has ids pk" and "endorsed L pk (approval_message a) s"
    and "status = ST_APPROVED \<longrightarrow> at_thresholdCount (pa_tier a) \<le> int (length (jm_set (pa_approvals a) pk s))"
    and "status \<noteq> ST_EXPIRED"
  shows "approval_ok L ids (a\<lparr>pa_approvals := jm_set (pa_approvals a) pk s, pa_status := status\<rparr>)"
  using assms by (auto simp: approval_ok_def approval_message_def js_map.inv_put)

text \<open>The outcomes of recording a vote: the aggregation failed, the threshold was met, or votes are
  missing. In each the vote is stored.\<close>

abbreviation voted :: "'d gov_state \<Rightarrow> nat \<Rightarrow> string \<Rightarrow> string \<Rightarrow> PendingApproval" where
  "voted st k pk s \<equiv> (gv_objects st ! k)\<lparr>pa_approvals := jm_set (pa_approvals (gv_objects st ! k)) pk s\<rparr>"

lemma voted_fields:
  "pa_approvals (a\<lparr>pa_approvals := m\<rparr>) = m" "pa_tier (a\<lparr>pa_approvals := m\<rparr>) = pa_tier a"
  by simp_all

lemma record_approval_cases:
  assumes "record_approval L ck aid k i s st = (r, st')"
  obtains (failed) e where "r = Inl e"
      "st' = st\<lparr>gv_objects := (gv_objects st)[k := voted st k (ri_ed25519PublicKey i) s]\<rparr>"
      "aggregateSignatures (gl_h L) (gl_B L) (indexed_signatures
         (pa_approvals (voted st k (ri_ed25519PublicKey i) s))) = Inl e"
      "at_thresholdCount (pa_tier (gv_objects st ! k))
         \<le> int (length (jm_set (pa_approvals (gv_objects st ! k)) (ri_ed25519PublicKey i) s))"
  | (complete) agg d where "r = Inr \<lparr>sr_status = ''APPROVED'', sr_approvalsRemaining = 0, sr_aggregated = Some agg\<rparr>"
      "st' = gov_log L ck ''APPROVAL_COMPLETED'' d (st\<lparr>gv_objects := (gv_objects st)
         [k := (voted st k (ri_ed25519PublicKey i) s)\<lparr>pa_status := ST_APPROVED\<rparr>]\<rparr>)"
      "aggregateSignatures (gl_h L) (gl_B L) (indexed_signatures
         (pa_approvals (voted st k (ri_ed25519PublicKey i) s))) = Inr agg"
      "at_thresholdCount (pa_tier (gv_objects st ! k))
         \<le> int (length (jm_set (pa_approvals (gv_objects st ! k)) (ri_ed25519PublicKey i) s))"
  | (waiting) d n where "r = Inr \<lparr>sr_status = ''PENDING'', sr_approvalsRemaining = n, sr_aggregated = None\<rparr>"
      "st' = gov_log L ck ''APPROVAL_RECEIVED'' d
         (st\<lparr>gv_objects := (gv_objects st)[k := voted st k (ri_ed25519PublicKey i) s]\<rparr>)"
      "n = at_thresholdCount (pa_tier (gv_objects st ! k))
         - int (length (jm_set (pa_approvals (gv_objects st ! k)) (ri_ed25519PublicKey i) s))" "0 < n"
proof -
  let ?m = "jm_set (pa_approvals (gv_objects st ! k)) (ri_ed25519PublicKey i) s"
  let ?n = "at_thresholdCount (pa_tier (gv_objects st ! k)) - int (length ?m)"
  show thesis
  proof (cases "0 < ?n")
    case True
    then have "max 0 ?n = ?n" "?n \<noteq> 0" by simp_all
    then show thesis
      using assms waiting True unfolding record_approval_def Let_def
      by (simp only: voted_fields if_False prod.inject) blast
  next
    case False
    then have n: "max 0 ?n = 0" "at_thresholdCount (pa_tier (gv_objects st ! k)) \<le> int (length ?m)" by simp_all
    show thesis
    proof (cases "aggregateSignatures (gl_h L) (gl_B L) (indexed_signatures ?m)")
      case (Inl e)
      then show thesis
        using assms failed n unfolding record_approval_def Let_def
        by (simp only: voted_fields refl [THEN eq_True [THEN iffD2]] if_True sum.case prod.inject) blast
    next
      case (Inr agg)
      then show thesis
        using assms n unfolding record_approval_def Let_def
        by (simp only: voted_fields refl [THEN eq_True [THEN iffD2]] if_True sum.case prod.inject)
          (elim conjE, rule complete [OF sym sym], assumption+, simp_all only: voted_fields)
    qed
  qed
qed

lemma record_approval_effect:
  assumes "record_approval L ck aid k i s st = (r, st')"
  obtains status where
      "gv_objects st' = (gv_objects st)[k := (voted st k (ri_ed25519PublicKey i) s)\<lparr>pa_status := status\<rparr>]"
      "status = pa_status (gv_objects st ! k) \<or> status = ST_APPROVED \<and> (\<exists>q. r = Inr q \<and> sr_status q = ''APPROVED'')
         \<and> at_thresholdCount (pa_tier (gv_objects st ! k))
             \<le> int (length (jm_set (pa_approvals (gv_objects st ! k)) (ri_ed25519PublicKey i) s))"
      "gv_roleIdentities st' = gv_roleIdentities st" "gv_pending st' = gv_pending st"
      "gv_timelocks st' = gv_timelocks st" "gv_emergency st' = gv_emergency st" "audit_grows L st st'"
  using assms
proof (cases rule: record_approval_cases)
  case failed
  then show thesis by (intro that [of "pa_status (gv_objects st ! k)"]) (simp_all add: audit_grows_same)
next
  case complete
  then show thesis by (intro that [of ST_APPROVED]) (simp_all add: audit_grows_log)
next
  case waiting
  then show thesis by (intro that [of "pa_status (gv_objects st ! k)"]) (simp_all add: audit_grows_log)
qed

subsection \<open>The circuit breaker\<close>

lemma valid_approvers_Cons:
  "valid_approvers L now m ((role, sig) # sigs) st =
     (if rc_valid (verifyRoleSignature L now role m sig st)
      then [ri_ed25519PublicKey (the (rc_identity (verifyRoleSignature L now role m sig st)))] else [])
     @ valid_approvers L now m sigs st"
  by (simp add: valid_approvers_def Let_def)

lemma approver_registered:
  assumes "gov_inv L st" and "rc_valid (verifyRoleSignature L now role m sig st)"
  shows "\<exists>i. jm_get (gv_roleIdentities st)
      (ri_ed25519PublicKey (the (rc_identity (verifyRoleSignature L now role m sig st)))) = Some i \<and> ri_role i = role"
proof -
  obtain i where i: "verifyRoleSignature L now role m sig st = \<lparr>rc_valid = True, rc_identity = Some i, rc_reason = None\<rparr>"
    using role_check_valid [OF assms(2)] by blast
  show ?thesis using role_check_registered [OF assms(1) i] by (simp add: i)
qed

lemma valid_approvers_registered:
  assumes "gov_inv L st" and "pk \<in> set (valid_approvers L now m sigs st)"
  shows "\<exists>i. jm_get (gv_roleIdentities st) pk = Some i \<and> ri_role i \<in> fst ` set sigs"
  using assms(2)
proof (induction sigs)
  case (Cons entry sigs)
  obtain role sig where "entry = (role, sig)" by (cases entry)
  then show ?case
    using Cons approver_registered [OF assms(1), of now role m sig]
    by (auto simp: valid_approvers_Cons split: if_splits)
qed (simp add: valid_approvers_def)

lemma valid_approvers_distinct:
  assumes "gov_inv L st" and "jm_inv sigs"
  shows "distinct (valid_approvers L now m sigs st)"
  using assms(2)
proof (induction sigs)
  case (Cons entry sigs)
  obtain role sig where entry: "entry = (role, sig)" by (cases entry)
  have "jm_inv sigs" and fresh: "role \<notin> fst ` set sigs" using Cons.prems by (simp_all add: jm_inv_def entry)
  have "pk \<notin> set (valid_approvers L now m sigs st)"
    if valid: "rc_valid (verifyRoleSignature L now role m sig st)"
      and pk: "pk = ri_ed25519PublicKey (the (rc_identity (verifyRoleSignature L now role m sig st)))" for pk
  proof
    assume "pk \<in> set (valid_approvers L now m sigs st)"
    then obtain i where "jm_get (gv_roleIdentities st) pk = Some i" and "ri_role i \<in> fst ` set sigs"
      using valid_approvers_registered [OF assms(1)] by blast
    moreover obtain j where "jm_get (gv_roleIdentities st) pk = Some j" and "ri_role j = role"
      using approver_registered [OF assms(1) valid] unfolding pk by blast
    ultimately show False using fresh by simp
  qed
  then show ?case using Cons.IH \<open>jm_inv sigs\<close> by (simp add: entry valid_approvers_Cons)
qed (simp add: valid_approvers_def)

text \<open>The approvers on record are distinct registered keys, at least two, and three when the freeze is
  over.\<close>

definition approvers_ok :: "'d gov_state \<Rightarrow> EmergencyState \<Rightarrow> bool" where
  "approvers_ok st e \<longleftrightarrow> distinct (es_unfreezeApprovals e)
     \<and> (\<forall>pk \<in> set (es_unfreezeApprovals e). jm_has (gv_roleIdentities st) pk)
     \<and> 2 \<le> length (es_unfreezeApprovals e) \<and> es_requiredUnfreezeApprovals e = 3"

definition emergency_inv :: "'d gov_state \<Rightarrow> bool" where
  "emergency_inv st \<longleftrightarrow> (case gv_emergency st of None \<Rightarrow> True
     | Some e \<Rightarrow> approvers_ok st e \<and> (\<not> es_isActive e \<longrightarrow> 3 \<le> length (es_unfreezeApprovals e)))"

lemma unfreeze_fold:
  assumes "gov_inv L st" and "approvers_ok st e" and "n = int (length (es_unfreezeApprovals e))"
    and "foldl (unfreeze_step L now st) (e, n) sigs = (e', n')"
  shows "approvers_ok st e' \<and> n' = int (length (es_unfreezeApprovals e')) \<and> es_isActive e' = es_isActive e
    \<and> (\<exists>more. es_unfreezeApprovals e' = es_unfreezeApprovals e @ more)"
  using assms(2-)
proof (induction sigs arbitrary: e n)
  case (Cons entry sigs)
  obtain role sig where entry: "entry = (role, sig)" by (cases entry)
  obtain e1 n1 where step: "unfreeze_step L now st (e, n) entry = (e1, n1)" by fastforce
  have ok: "approvers_ok st e1 \<and> n1 = int (length (es_unfreezeApprovals e1)) \<and> es_isActive e1 = es_isActive e
    \<and> (\<exists>more. es_unfreezeApprovals e1 = es_unfreezeApprovals e @ more)"
    using step Cons.prems(1,2) approver_registered [OF assms(1)]
    by (fastforce simp: unfreeze_step_def Let_def entry approvers_ok_def jm_has_def split: if_splits)
  then show ?case using Cons.IH [of e1 n1] Cons.prems(3) step by auto
qed auto

text \<open>The remaining operations, by their effect on the state.\<close>

lemma store_frames:
  "gv_roleIdentities (store_policy L ck n p st) = gv_roleIdentities st"
  "gv_objects (store_policy L ck n p st) = gv_objects st"
  "gv_pending (store_policy L ck n p st) = gv_pending st"
  "gv_timelocks (store_policy L ck n p st) = gv_timelocks st"
  "gv_emergency (store_policy L ck n p st) = gv_emergency st"
  "gv_roleIdentities (store_approval L ck a st) = gv_roleIdentities st"
  "gv_emergency (store_approval L ck a st) = gv_emergency st"
  "gv_objects (store_approval L ck a st) = gv_objects st @ [a]"
  "gv_pending (store_approval L ck a st) = jm_set (gv_pending st) (pa_approvalId a) (length (gv_objects st))"
  by (simp_all add: store_policy_def store_approval_def Let_def)

lemma store_audit: "audit_grows L st (store_policy L ck n p st)" "audit_grows L st (store_approval L ck a st)"
  unfolding store_policy_def store_approval_def Let_def by (rule audit_grows_log, simp)+

lemma store_timelocks:
  "lock \<in> set (gv_timelocks (store_approval L ck a st)) \<Longrightarrow>
     lock \<in> set (gv_timelocks st) \<or> tl_object lock = length (gv_objects st)"
  by (auto simp: store_approval_def Let_def split: if_splits)

lemma createDelegation_cases:
  assumes "createDelegation L ck role key delegatee roles notAfter maxTx maxAmount st = (r, st')"
  obtains (refused) "st' = st" "\<exists>e. r = Inl e"
  | (stored) sig where "rbind (sb_bytes key) (ed_sign (gl_D L) (delegation_data L
         (delegation_token L (ck_now ck) role delegatee roles notAfter maxTx maxAmount))) = Inr sig"
      "store_delegation L ck ((delegation_token L (ck_now ck) role delegatee roles notAfter maxTx maxAmount)
         \<lparr>dt_signature := ''0x'' @ h_bytesToHex (gl_h L) sig\<rparr>) st = (r, st')"
proof (cases "rbind (sb_bytes key) (ed_sign (gl_D L) (delegation_data L
         (delegation_token L (ck_now ck) role delegatee roles notAfter maxTx maxAmount)))")
  case (Inl e)
  then show thesis
    using assms refused unfolding createDelegation_def Let_def by (simp only: sum.case prod.inject) blast
next
  case (Inr sig)
  then show thesis
    using assms stored unfolding createDelegation_def Let_def by (simp only: sum.case)
qed

lemma store_delegation_cases:
  assumes "store_delegation L ck token st = (r, st')"
  obtains (undated) e where "gl_iso L (dt_notAfter token) = Inl e" "r = Inl e"
      "st' = st\<lparr>gv_delegations := jm_set (gv_delegations st) (dt_tokenId token) token\<rparr>"
  | (stored) d where "r = Inr token" "st' = gov_log L ck ''DELEGATION_CREATED'' d
      (st\<lparr>gv_delegations := jm_set (gv_delegations st) (dt_tokenId token) token\<rparr>)"
proof (cases "gl_iso L (dt_notAfter token)")
  case (Inl e)
  then show thesis
    using assms undated unfolding store_delegation_def Let_def by (simp only: sum.case prod.inject)
next
  case (Inr d)
  then show thesis
    using assms stored unfolding store_delegation_def Let_def by (simp only: sum.case prod.inject) blast
qed

lemma createDelegation_frame:
  assumes "createDelegation L ck role key delegatee roles notAfter maxTx maxAmount st = (r, st')"
  shows "gv_roleIdentities st' = gv_roleIdentities st \<and> gv_objects st' = gv_objects st
    \<and> gv_pending st' = gv_pending st \<and> gv_timelocks st' = gv_timelocks st
    \<and> gv_emergency st' = gv_emergency st \<and> audit_grows L st st'"
  using assms
proof (cases rule: createDelegation_cases)
  case (stored sig)
  show ?thesis using stored(2) by (cases rule: store_delegation_cases) (simp_all add: audit_grows_same audit_grows_log)
qed (simp add: audit_grows_same)

lemma triggerEmergency_cases:
  assumes "triggerEmergency L ck reason who sigs st = (r, st')"
  obtains (refused) "st' = st" "\<exists>e. r = Inl e"
  | (frozen) e d where "r = Inr e" "st' = gov_log L ck ''EMERGENCY_TRIGGERED'' d (st\<lparr>gv_emergency := Some e\<rparr>)"
      "es_isActive e" "es_triggerReason e = reason" "es_requiredUnfreezeApprovals e = 3"
      "es_unfreezeApprovals e = valid_approvers L (ck_now ck) (emergency_message reason (ck_now ck)) sigs st"
      "2 \<le> length (es_unfreezeApprovals e)"
proof (cases "length (valid_approvers L (ck_now ck) (emergency_message reason (ck_now ck)) sigs st) < 2")
  case True
  then show thesis
    using assms refused unfolding triggerEmergency_def Let_def by (simp only: if_True prod.inject) blast
next
  case False
  then show thesis
    using assms unfolding triggerEmergency_def Let_def
    by (simp only: if_False prod.inject) (elim conjE, rule frozen [OF sym sym], assumption+, simp_all)
qed

lemma unfreezeEmergency_cases:
  assumes "unfreezeEmergency L ck sigs st = (r, st')"
  obtains (inactive) "\<not> emergency_active st" "st' = st" "\<exists>e. r = Inl e"
  | (missing) e0 e n where "gv_emergency st = Some e0" "es_isActive e0"
      "foldl (unfreeze_step L (ck_now ck) st) (e0, int (length (es_unfreezeApprovals e0))) sigs = (e, n)"
      "n < es_requiredUnfreezeApprovals e" "\<exists>e. r = Inl e" "st' = st\<lparr>gv_emergency := Some e\<rparr>"
  | (unfrozen) e0 e n d where "gv_emergency st = Some e0" "es_isActive e0"
      "foldl (unfreeze_step L (ck_now ck) st) (e0, int (length (es_unfreezeApprovals e0))) sigs = (e, n)"
      "es_requiredUnfreezeApprovals e \<le> n" "r = Inr ()"
      "st' = gov_log L ck ''EMERGENCY_UNFROZEN'' d (st\<lparr>gv_emergency := Some (e\<lparr>es_isActive := False\<rparr>)\<rparr>)"
proof (cases "gv_emergency st")
  case None
  then have "\<not> emergency_active st" by (simp add: emergency_active_def)
  from inactive [OF this] show thesis
    using assms None unfolding unfreezeEmergency_def by (simp only: option.case prod.inject) blast
next
  case e0: (Some e0)
  obtain e n where fold: "foldl (unfreeze_step L (ck_now ck) st) (e0, int (length (es_unfreezeApprovals e0))) sigs = (e, n)"
    by fastforce
  show thesis
  proof (cases "es_isActive e0")
    case False
    then have "\<not> emergency_active st" by (simp add: emergency_active_def e0)
    from inactive [OF this] show thesis
      using assms e0 False unfolding unfreezeEmergency_def
      by (simp only: option.case not_False_eq_True if_True prod.inject) blast
  next
    case active: True
    show thesis
    proof (cases "n < es_requiredUnfreezeApprovals e")
      case True
      show thesis
        using assms missing [OF e0 active fold True] unfolding unfreezeEmergency_def e0 Let_def
        by (simp only: option.case active fold prod.case not_True_eq_False if_P [OF True] if_False prod.inject) blast
    next
      case False
      then have enough: "es_requiredUnfreezeApprovals e \<le> n" by simp
      show thesis
        using assms unfrozen [OF e0 active fold enough] unfolding unfreezeEmergency_def e0 Let_def
        by (simp only: option.case active fold prod.case not_True_eq_False if_not_P [OF False] if_False prod.inject) blast
    qed
  qed
qed

subsection \<open>Every step keeps the invariants\<close>

lemma approval_ok_mono:
  "approval_ok L ids a \<Longrightarrow> (\<And>pk. jm_has ids pk \<Longrightarrow> jm_has ids' pk) \<Longrightarrow> approval_ok L ids' a"
  by (auto simp: approval_ok_def)

lemma new_approval_ok: "approval_ok L ids (new_approval L now tx amount tier)"
  by (simp add: approval_ok_def new_approval_def jm_inv_def jm_get_def)

lemma gov_inv_submit:
  assumes "gov_inv L st" and "submitApproval L ck aid role edSig blsSig st = (r, st')"
  shows "gov_inv L st'"
  using assms(2)
proof (cases rule: submitApproval_cases)
  case (2 k i)
  have k: "k < length (gv_objects st)" using assms(1) 2(1) by (auto simp: gov_inv_def)
  have old: "approval_ok L (gv_roleIdentities st) (gv_objects st ! k)"
    using assms(1) k by (simp add: gov_inv_def)
  note id = role_check_registered [OF assms(1) 2(2)]
  have has: "jm_has (gv_roleIdentities st) (ri_ed25519PublicKey i)" using id by (simp add: jm_has_def)
  have end1: "endorsed L (ri_ed25519PublicKey i) (approval_message (gv_objects st ! k)) blsSig"
    using id 2(3) unfolding endorsed_def verifyBLSSignature_def by blast
  from record_approval_effect [OF 2(5)] obtain status
    where eff: "gv_objects st' = (gv_objects st)[k := (voted st k (ri_ed25519PublicKey i) blsSig)\<lparr>pa_status := status\<rparr>]"
      "status = pa_status (gv_objects st ! k) \<or> status = ST_APPROVED \<and> (\<exists>q. r = Inr q \<and> sr_status q = ''APPROVED'')
         \<and> at_thresholdCount (pa_tier (gv_objects st ! k))
             \<le> int (length (jm_set (pa_approvals (gv_objects st ! k)) (ri_ed25519PublicKey i) blsSig))"
      "gv_roleIdentities st' = gv_roleIdentities st" "gv_pending st' = gv_pending st"
      "gv_timelocks st' = gv_timelocks st" .
  have "approval_ok L (gv_roleIdentities st) ((voted st k (ri_ed25519PublicKey i) blsSig)\<lparr>pa_status := status\<rparr>)"
  proof (rule approval_ok_record [OF old has end1])
    show "status = ST_APPROVED \<longrightarrow> at_thresholdCount (pa_tier (gv_objects st ! k))
       \<le> int (length (jm_set (pa_approvals (gv_objects st ! k)) (ri_ed25519PublicKey i) blsSig))"
      using eff(2) 2(4) by (elim disjE conjE) simp_all
    have "pa_status (gv_objects st ! k) \<noteq> ST_EXPIRED" using old unfolding approval_ok_def by blast
    then show "status \<noteq> ST_EXPIRED" using eff(2) by (elim disjE conjE) simp_all
  qed
  then show ?thesis using gov_inv_object [OF assms(1) _ eff(3,1,4)] eff(5) by simp
qed (simp add: assms(1))

lemma gov_inv_initiate:
  assumes "gov_inv L st" and "initiateApproval L ck tx amount policyId st = (r, st')"
  shows "gov_inv L st'"
  using assms(2)
proof (cases rule: initiateApproval_cases)
  case (2 tier)
  let ?a = "new_approval L (ck_now ck) tx amount tier"
  show ?thesis
    using assms(1) new_approval_ok unfolding gov_inv_def 2(3)
    by (auto simp: store_frames less_Suc_eq dest!: store_timelocks split: if_splits)
qed (simp add: assms(1))

lemma gov_inv_settled:
  assumes "gov_inv L st" and "i < length (gv_timelocks st)" and "timelock_settled L ms i st = (r, st')"
  shows "gov_inv L st'"
  using assms(3)
proof (cases rule: timelock_settled_cases)
  case 1
  show ?thesis
    by (rule gov_inv_cong [OF assms(1)])
      (use timelocks_removed [of i "gv_timelocks st"] in \<open>simp_all add: 1(1)\<close>)
next
  case (2 envelope)
  let ?k = "tl_object (gv_timelocks st ! i)"
  have "?k < length (gv_objects st)" using assms(1,2) by (simp add: gov_inv_def)
  then have "approval_ok L (gv_roleIdentities st) (gv_objects st ! ?k)" using assms(1) by (simp add: gov_inv_def)
  then have "approval_ok L (gv_roleIdentities st)
      ((gv_objects st ! ?k)\<lparr>pa_timeLockEnvelope := Some envelope, pa_status := ST_PENDING\<rparr>)"
    by (simp add: approval_ok_def approval_message_def)
  then show ?thesis
    by (rule gov_inv_object [OF assms(1)])
      (use timelocks_removed [of i "gv_timelocks st"] in \<open>simp_all add: 2(2)\<close>)
qed

lemma gov_inv_register:
  assumes "gov_inv L st" and "registerRoleIdentity L ck role pk seed path st t = Some (Inr (identity, st'), t')"
  shows "gov_inv L st'"
proof -
  obtain a d where st': "st' = gov_log L ck a d (st\<lparr>gv_roleIdentities := jm_set (gv_roleIdentities st) pk identity\<rparr>)"
    and "ri_ed25519PublicKey identity = pk"
    using registered [OF assms(2)] by blast
  then show ?thesis
    using assms(1) unfolding gov_inv_def st' by (auto simp: js_map.inv_put intro: approval_ok_mono)
qed

lemma gov_inv_step: "gov_inv L st \<Longrightarrow> gov_step L st st' \<Longrightarrow> gov_inv L st'"
proof (erule gov_step.cases, goal_cases)
  case 2
  then show ?case by (elim createPolicy_cases) (auto simp: store_frames intro: gov_inv_cong)
next
  case 6
  then show ?case using createDelegation_frame by (metis gov_inv_cong order_refl)
next
  case 7
  then show ?case by (elim triggerEmergency_cases) (auto intro: gov_inv_cong)
next
  case 8
  then show ?case by (elim unfreezeEmergency_cases) (auto intro: gov_inv_cong)
qed (auto intro: gov_inv_register gov_inv_initiate gov_inv_settled gov_inv_submit)

lemma gov_reach_inv: "gov_reach L s0 st \<Longrightarrow> gov_inv L s0 \<Longrightarrow> gov_inv L st"
  by (induction rule: gov_reach.induct) (auto intro: gov_inv_step)

text \<open>What every operation respects: the audit chain gains at most an entry, no key is removed. Only
  the circuit breaker changes the emergency state.\<close>

definition gov_respects :: "('g1, 'g2, 'd) gov_lib \<Rightarrow> 'd gov_state \<Rightarrow> 'd gov_state \<Rightarrow> bool" where
  "gov_respects L st st' \<longleftrightarrow> audit_grows L st st'
     \<and> (\<forall>pk. jm_has (gv_roleIdentities st) pk \<longrightarrow> jm_has (gv_roleIdentities st') pk)"

lemma respects_same: "audit_grows L st st' \<Longrightarrow> gv_roleIdentities st' = gv_roleIdentities st \<Longrightarrow> gov_respects L st st'"
  by (simp add: gov_respects_def)

lemma respects_refl: "gov_respects L st st"
  by (simp add: gov_respects_def audit_grows_same)

lemma register_frame:
  assumes "registerRoleIdentity L ck role pk seed path st t = Some (Inr (identity, st'), t')"
  shows "gov_respects L st st' \<and> gv_emergency st' = gv_emergency st"
proof -
  obtain a d where "st' = gov_log L ck a d (st\<lparr>gv_roleIdentities := jm_set (gv_roleIdentities st) pk identity\<rparr>)"
    using registered [OF assms] by blast
  then show ?thesis by (simp add: gov_respects_def audit_grows_log)
qed

lemma policy_frame:
  "createPolicy L ck sigs tiers rules st = (r, st') \<Longrightarrow> gov_respects L st st' \<and> gv_emergency st' = gv_emergency st"
  by (erule createPolicy_cases) (simp_all add: respects_refl respects_same store_audit store_frames)

lemma initiate_frame:
  "initiateApproval L ck tx amount policyId st = (r, st') \<Longrightarrow> gov_respects L st st' \<and> gv_emergency st' = gv_emergency st"
  by (erule initiateApproval_cases) (simp_all add: respects_refl respects_same store_audit store_frames)

lemma settled_frame:
  "timelock_settled L ms i st = (r, st') \<Longrightarrow> gov_respects L st st' \<and> gv_emergency st' = gv_emergency st"
  by (erule timelock_settled_cases) (simp_all add: respects_same audit_grows_same)

lemma submit_frame:
  assumes "submitApproval L ck aid role edSig blsSig st = (r, st')"
  shows "gov_respects L st st' \<and> gv_emergency st' = gv_emergency st"
  using assms
proof (cases rule: submitApproval_cases)
  case (2 k i)
  from record_approval_effect [OF 2(5)] have "gv_roleIdentities st' = gv_roleIdentities st"
    and "gv_emergency st' = gv_emergency st" and "audit_grows L st st'" by blast+
  then show ?thesis by (simp add: respects_same)
qed (simp add: respects_refl)

lemma delegation_frame:
  "createDelegation L ck role key delegatee roles notAfter maxTx maxAmount st = (r, st')
   \<Longrightarrow> gov_respects L st st' \<and> gv_emergency st' = gv_emergency st"
  using createDelegation_frame respects_same by metis

lemma trigger_frame: "triggerEmergency L ck reason who sigs st = (r, st') \<Longrightarrow> gov_respects L st st'"
  by (erule triggerEmergency_cases) (simp_all add: respects_refl respects_same audit_grows_log)

lemma unfreeze_frame: "unfreezeEmergency L ck sigs st = (r, st') \<Longrightarrow> gov_respects L st st'"
  by (erule unfreezeEmergency_cases) (simp_all add: respects_refl respects_same audit_grows_log audit_grows_same)

lemma step_respects: "gov_step L st st' \<Longrightarrow> gov_respects L st st'"
  by (erule gov_step.cases) (simp_all add: register_frame policy_frame initiate_frame settled_frame
    submit_frame delegation_frame trigger_frame unfreeze_frame)

lemma emergency_step:
  assumes "gov_step L st st'"
  obtains (same) "gv_emergency st' = gv_emergency st"
  | (trigger) ck reason who sigs r where "jm_inv sigs" "triggerEmergency L ck reason who sigs st = (r, st')"
  | (unfreeze) ck sigs r where "jm_inv sigs" "unfreezeEmergency L ck sigs st = (r, st')"
  using assms
proof (cases rule: gov_step.cases)
  case (step_register ck role pk seed path t identity t')
  then show thesis using same register_frame by metis
next
  case (step_policy sigs ck tiers rules r)
  then show thesis using same policy_frame by metis
next
  case (step_initiate ck tx amount policyId r)
  then show thesis using same initiate_frame by metis
next
  case (step_settled i ms r)
  then show thesis using same settled_frame by metis
next
  case (step_submit ck approvalId role edSig blsSig r)
  then show thesis using same submit_frame by metis
next
  case (step_delegation ck role key delegatee roles notAfter maxTx maxAmount r)
  then show thesis using same delegation_frame by metis
next
  case (step_trigger sigs ck reason who r)
  then show thesis by (rule trigger)
next
  case (step_unfreeze sigs ck r)
  then show thesis by (rule unfreeze)
qed

lemma approvers_ok_mono:
  "approvers_ok st e \<Longrightarrow> (\<And>pk. jm_has (gv_roleIdentities st) pk \<Longrightarrow> jm_has (gv_roleIdentities st') pk) \<Longrightarrow>
     approvers_ok st' e"
  by (auto simp: approvers_ok_def)

lemma emergency_inv_step:
  assumes "gov_inv L st" and "emergency_inv st" and step: "gov_step L st st'"
  shows "emergency_inv st'"
  using step
proof (cases rule: emergency_step)
  case same
  then show ?thesis
    using assms(2) step_respects [OF step] by (auto simp: emergency_inv_def gov_respects_def intro: approvers_ok_mono split: option.splits)
next
  case (trigger ck reason who sigs r)
  from trigger(2) show ?thesis
  proof (cases rule: triggerEmergency_cases)
    case (frozen e d)
    have "approvers_ok st e"
      using frozen valid_approvers_distinct [OF assms(1) trigger(1)] valid_approvers_registered [OF assms(1)]
      by (fastforce simp: approvers_ok_def jm_has_def)
    then show ?thesis using frozen by (auto simp: emergency_inv_def approvers_ok_def)
  qed (simp add: assms(2))
next
  case (unfreeze ck sigs r)
  from unfreeze(2) show ?thesis
  proof (cases rule: unfreezeEmergency_cases)
    case (missing e0 e n)
    have "approvers_ok st e0" using assms(2) missing(1) by (simp add: emergency_inv_def)
    from unfreeze_fold [OF assms(1) this refl missing(3)] missing show ?thesis
      by (auto simp: emergency_inv_def approvers_ok_def)
  next
    case (unfrozen e0 e n d)
    have "approvers_ok st e0" using assms(2) unfrozen(1) by (simp add: emergency_inv_def)
    from unfreeze_fold [OF assms(1) this refl unfrozen(3)] unfrozen show ?thesis
      by (auto simp: emergency_inv_def approvers_ok_def)
  qed (simp add: assms(2))
qed

lemma gov_reach_emergency: "gov_reach L s0 st \<Longrightarrow> gov_inv L s0 \<Longrightarrow> emergency_inv s0 \<Longrightarrow> emergency_inv st"
  by (induction rule: gov_reach.induct) (auto intro: emergency_inv_step gov_reach_inv)

lemma emergency_inv_start: "gov_start st \<Longrightarrow> emergency_inv st"
  by (simp add: emergency_inv_def gov_start_def)

text \<open>While a freeze is active no step removes its record, and none adds an approval.\<close>

lemma frozen_step_emergency:
  assumes "gov_step L st st'" and "emergency_active st"
  shows "gv_emergency st' \<noteq> None"
proof (cases rule: emergency_step [OF assms(1)])
  case (2 ck reason who sigs r)
  from 2(2) show ?thesis
    by (cases rule: triggerEmergency_cases) (use assms(2) in \<open>auto simp: emergency_active_def split: option.splits\<close>)
next
  case (3 ck sigs r)
  from 3(2) show ?thesis
    by (cases rule: unfreezeEmergency_cases) (use assms(2) in \<open>auto simp: emergency_active_def split: option.splits\<close>)
qed (use assms(2) in \<open>auto simp: emergency_active_def split: option.splits\<close>)

lemma frozen_step_objects:
  assumes "gov_step L st st'" and "emergency_active st"
  shows "length (gv_objects st') = length (gv_objects st)"
  using assms(1)
proof (cases rule: gov_step.cases)
  case (step_register ck role pk seed path t identity t')
  then show ?thesis using registered [OF step_register(1)] by auto
next
  case (step_policy sigs ck tiers rules r)
  from step_policy(2) show ?thesis by (cases rule: createPolicy_cases) (simp_all add: store_frames)
next
  case (step_initiate ck tx amount policyId r)
  from step_initiate(1) show ?thesis using assms(2) by (cases rule: initiateApproval_cases) simp_all
next
  case (step_settled i ms r)
  from step_settled(2) show ?thesis by (cases rule: timelock_settled_cases) simp_all
next
  case (step_submit ck approvalId role edSig blsSig r)
  from step_submit(1) show ?thesis
  proof (cases rule: submitApproval_cases)
    case (2 k i)
    from record_approval_effect [OF 2(5)] show ?thesis by (metis length_list_update)
  qed simp
next
  case (step_delegation ck role key delegatee roles notAfter maxTx maxAmount r)
  then show ?thesis using createDelegation_frame [OF step_delegation(1)] by simp
next
  case (step_trigger sigs ck reason who r)
  from step_trigger(2) show ?thesis by (cases rule: triggerEmergency_cases) simp_all
next
  case (step_unfreeze sigs ck r)
  from step_unfreeze(2) show ?thesis by (cases rule: unfreezeEmergency_cases) simp_all
qed

end
