(* ===== verification/GovernanceResults.thy ===== *)
theory GovernanceResults
  imports GovernanceSafety
begin

text \<open>
  The properties of the governance engine from any state without approvals (\<open>gov_start\<close>): the votes on record, the specification a submission refines,
  what it does not look at, the circuit breaker, delegations and the audit chain.
\<close>

subsection \<open>Ballots: the specification of a submission\<close>

text \<open>A ballot is a threshold and the set of keys that have voted.\<close>

record ballot =
  ba_threshold :: int
  ba_voters :: "string set"

definition cast_vote :: "string \<Rightarrow> ballot \<Rightarrow> ballot" where
  "cast_vote pk b = b\<lparr>ba_voters := insert pk (ba_voters b)\<rparr>"

definition votes_missing :: "ballot \<Rightarrow> int" where
  "votes_missing b = max 0 (ba_threshold b - int (card (ba_voters b)))"

definition ballot_of :: "PendingApproval \<Rightarrow> ballot" where
  "ballot_of a = \<lparr>ba_threshold = at_thresholdCount (pa_tier a), ba_voters = fst ` set (pa_approvals a)\<rparr>"

definition ballots :: "'d gov_state \<Rightarrow> ballot list" where
  "ballots st = map ballot_of (gv_objects st)"

lemma voters_jm_set: "fst ` set (jm_set m k v) = insert k (fst ` set m)"
  by (simp add: jm_set_def dom_update)

lemma ballot_of_voted:
  "ballot_of (a\<lparr>pa_approvals := jm_set (pa_approvals a) pk s, pa_status := status\<rparr>) = cast_vote pk (ballot_of a)"
  by (simp add: ballot_of_def cast_vote_def voters_jm_set)

lemma card_voters: "jm_inv (pa_approvals a) \<Longrightarrow> card (ba_voters (ballot_of a)) = length (pa_approvals a)"
  by (simp add: ballot_of_def jm_inv_def) (metis distinct_card length_map set_map)

lemma object_ok:
  assumes "gov_inv L st" and "jm_get (gv_pending st) aid = Some k"
  shows "k < length (gv_objects st) \<and> approval_ok L (gv_roleIdentities st) (gv_objects st ! k)"
  using assms by (auto simp: gov_inv_def)

text \<open>C3: A submission refines casting a vote. Either it throws and no ballot changes, or the vote of a
  registered holder of the claimed role is cast on the ballot of the approval; then the votes it
  reports as remaining are those the ballot is missing, and it throws only when none is missing (the
  aggregation failed).\<close>

theorem submission_refines_vote:
  assumes "gov_start s0" and "gov_reach L s0 st" and "submitApproval L ck aid role edSig blsSig st = (r, st')"
  shows "(ballots st' = ballots st \<and> (\<exists>e. r = Inl e))
    \<or> (\<exists>k i. jm_get (gv_pending st) aid = Some k \<and> k < length (ballots st)
        \<and> jm_get (gv_roleIdentities st) (ri_ed25519PublicKey i) = Some i \<and> ri_role i = role
        \<and> ballots st' = (ballots st)[k := cast_vote (ri_ed25519PublicKey i) (ballots st ! k)]
        \<and> (case r of Inl e \<Rightarrow> votes_missing (ballots st' ! k) = 0
            | Inr q \<Rightarrow> sr_approvalsRemaining q = votes_missing (ballots st' ! k)))"
  using assms(3)
proof (cases rule: submitApproval_cases)
  case (2 k i)
  have inv: "gov_inv L st" using gov_reach_inv [OF assms(2) gov_inv_start [OF assms(1)]] .
  then have inv': "gov_inv L st'" by (rule gov_inv_submit [OF _ assms(3)])
  have k: "k < length (gv_objects st)" using object_ok [OF inv 2(1)] by blast
  let ?pk = "ri_ed25519PublicKey i"
  let ?n = "at_thresholdCount (pa_tier (gv_objects st ! k))
    - int (length (jm_set (pa_approvals (gv_objects st ! k)) ?pk blsSig))"
  obtain status where objs: "gv_objects st' = (gv_objects st)[k := (voted st k ?pk blsSig)\<lparr>pa_status := status\<rparr>]"
    using record_approval_effect [OF 2(5)] by blast
  have b: "ballots st' = (ballots st)[k := cast_vote ?pk (ballots st ! k)]"
    using k by (simp add: ballots_def objs map_update ballot_of_voted)
  have "jm_inv (jm_set (pa_approvals (gv_objects st ! k)) ?pk blsSig)"
    using object_ok [OF inv 2(1)] by (simp add: approval_ok_def js_map.inv_put)
  then have "votes_missing (ballots st' ! k) = max 0 ?n"
    using k card_voters [of "(voted st k ?pk blsSig)\<lparr>pa_status := status\<rparr>"]
    by (simp add: votes_missing_def ballots_def objs ballot_of_def)
  moreover from 2(5) have "case r of Inl e \<Rightarrow> max 0 ?n = 0 | Inr q \<Rightarrow> sr_approvalsRemaining q = max 0 ?n"
    by (cases rule: record_approval_cases) simp_all
  ultimately have "case r of Inl e \<Rightarrow> votes_missing (ballots st' ! k) = 0
      | Inr q \<Rightarrow> sr_approvalsRemaining q = votes_missing (ballots st' ! k)"
    by (simp split: sum.splits)
  moreover have "jm_get (gv_roleIdentities st) ?pk = Some i \<and> ri_role i = role"
    using role_check_registered [OF inv 2(2)] by blast
  ultimately show ?thesis using 2(1) k b by (auto simp: ballots_def)
qed simp

subsection \<open>The votes on record\<close>

text \<open>C5: In every reachable state, the votes of an approval are from distinct registered keys, each with a
  valid Ed25519 signature of the transaction and approval and with a valid BLS signature, and an
  approval marked as approved has reached the threshold of its tier.\<close>

theorem votes_are_endorsed:
  assumes "gov_start s0" and "gov_reach L s0 st" and "getPendingApproval aid st = Some a"
  shows "distinct (map fst (pa_approvals a))
    \<and> (\<forall>(pk, s) \<in> set (pa_approvals a). jm_has (gv_roleIdentities st) pk
        \<and> (\<exists>edSig. signed_by L pk (approval_message a) edSig)
        \<and> (\<exists>blsPublicKey. verifyBLS (gl_h L) (gl_B L) blsPublicKey (approval_message a) s))
    \<and> (pa_status a = ST_APPROVED \<longrightarrow> at_thresholdCount (pa_tier a) \<le> int (length (pa_approvals a)))"
proof -
  have inv: "gov_inv L st" using gov_reach_inv [OF assms(2) gov_inv_start [OF assms(1)]] .
  obtain k where "jm_get (gv_pending st) aid = Some k" and "a = gv_objects st ! k"
    using assms(3) by (auto simp: getPendingApproval_def)
  then have ok: "approval_ok L (gv_roleIdentities st) a" using object_ok [OF inv] by simp
  have "jm_has (gv_roleIdentities st) pk \<and> endorsed L pk (approval_message a) s"
    if "(pk, s) \<in> set (pa_approvals a)" for pk s
  proof -
    have "jm_get (pa_approvals a) pk = Some s" using ok that by (simp add: approval_ok_def jm_inv_def jm_get_def)
    then show ?thesis using ok unfolding approval_ok_def by blast
  qed
  then have "\<forall>(pk, s) \<in> set (pa_approvals a). jm_has (gv_roleIdentities st) pk
      \<and> (\<exists>edSig. signed_by L pk (approval_message a) edSig)
      \<and> (\<exists>blsPublicKey. verifyBLS (gl_h L) (gl_B L) blsPublicKey (approval_message a) s)"
    unfolding endorsed_def by blast
  then show ?thesis using ok unfolding approval_ok_def jm_inv_def by blast
qed

subsection \<open>No approval is ever completed\<close>

lemma indexed_signatures_set: "(pk, s) \<in> set m \<Longrightarrow> \<exists>x \<in> set (indexed_signatures m). bs_signature x = s"
  unfolding indexed_signatures_def by (force simp: in_set_conv_nth nth_enumerate_eq)

lemma record_never_completes:
  assumes "bls_laws (gl_h L) (gl_B L)" and "verifyBLS (gl_h L) (gl_B L) pk m blsSig"
    and "record_approval L ck aid k i blsSig st = (r, st')"
  shows "gv_objects st' = (gv_objects st)[k := voted st k (ri_ed25519PublicKey i) blsSig]
    \<and> (case r of Inl e \<Rightarrow> True | Inr q \<Rightarrow> sr_status q = ''PENDING'' \<and> 0 < sr_approvalsRemaining q)"
  using assms(3)
proof (cases rule: record_approval_cases)
  case (complete agg d)
  let ?m = "jm_set (pa_approvals (gv_objects st ! k)) (ri_ed25519PublicKey i) blsSig"
  have "(ri_ed25519PublicKey i, blsSig) \<in> set ?m"
    by (metis jm_get_def js_map.get_put_same map_of_SomeD)
  then obtain x where "x \<in> set (indexed_signatures ?m)" and "bs_signature x = blsSig"
    using indexed_signatures_set by blast
  then have "\<exists>e. aggregateSignatures (gl_h L) (gl_B L) (indexed_signatures ?m) = Inl e"
    using aggregate_rejects [OF assms(1)] assms(2) by blast
  then show ?thesis using complete(3) by simp
qed simp_all

definition none_approved :: "'d gov_state \<Rightarrow> bool" where
  "none_approved st \<longleftrightarrow> (\<forall>a \<in> set (gv_objects st). pa_status a \<noteq> ST_APPROVED)"

lemma none_approved_step:
  assumes "bls_laws (gl_h L) (gl_B L)" and "gov_inv L st" and "none_approved st" and "gov_step L st st'"
  shows "none_approved st'"
  using assms(4)
proof (cases rule: gov_step.cases)
  case (step_register ck role pk seed path t identity t')
  then show ?thesis using registered [OF step_register(1)] assms(3) by (auto simp: none_approved_def)
next
  case (step_policy sigs ck tiers rules r)
  from step_policy(2) show ?thesis using assms(3)
    by (cases rule: createPolicy_cases) (simp_all add: none_approved_def store_frames)
next
  case (step_initiate ck tx amount policyId r)
  from step_initiate(1) show ?thesis using assms(3)
    by (cases rule: initiateApproval_cases) (simp_all add: none_approved_def store_frames new_approval_def)
next
  case (step_settled i ms r)
  from step_settled(2) show ?thesis using assms(3)
    by (cases rule: timelock_settled_cases) (auto simp: none_approved_def dest!: set_update_subset_insert [THEN subsetD])
next
  case (step_submit ck approvalId role edSig blsSig r)
  from step_submit(1) show ?thesis
  proof (cases rule: submitApproval_cases)
    case (2 k i)
    have "gv_objects st' = (gv_objects st)[k := voted st k (ri_ed25519PublicKey i) blsSig]"
      using record_never_completes [OF assms(1) 2(3) [unfolded verifyBLSSignature_def] 2(5)] by blast
    then show ?thesis
      using assms(3) 2(4) by (auto simp: none_approved_def dest!: set_update_subset_insert [THEN subsetD])
  qed (use assms(3) in simp)
next
  case (step_delegation ck role key delegatee roles notAfter maxTx maxAmount r)
  then show ?thesis using createDelegation_frame [OF step_delegation(1)] assms(3) by (simp add: none_approved_def)
next
  case (step_trigger sigs ck reason who r)
  from step_trigger(2) show ?thesis using assms(3)
    by (cases rule: triggerEmergency_cases) (simp_all add: none_approved_def)
next
  case (step_unfreeze sigs ck r)
  from step_unfreeze(2) show ?thesis using assms(3)
    by (cases rule: unfreezeEmergency_cases) (simp_all add: none_approved_def)
qed

text \<open>C26: With the library as documented, no approval is ever completed: whatever the calls and their
  order, no reachable state holds an approved transaction, and a submission that returns reports at
  least one missing vote. The vote that meets the threshold is recorded and then throws.\<close>

theorem approval_never_completes:
  assumes "bls_laws (gl_h L) (gl_B L)" and "gov_start s0" and "gov_reach L s0 st"
    and "submitApproval L ck aid role edSig blsSig st = (r, st')"
  shows "(\<forall>a \<in> set (gv_objects st'). pa_status a \<noteq> ST_APPROVED)
    \<and> (case r of Inl e \<Rightarrow> True | Inr q \<Rightarrow> sr_status q = ''PENDING'' \<and> 0 < sr_approvalsRemaining q)"
proof -
  have "none_approved st \<and> gov_inv L st"
    using assms(3)
  proof (induction rule: gov_reach.induct)
    case gov_init
    then show ?case using assms(2) gov_inv_start by (simp add: none_approved_def gov_start_def)
  next
    case (gov_more st st')
    then show ?case using none_approved_step [OF assms(1)] gov_inv_step by blast
  qed
  then have "none_approved st'" using none_approved_step [OF assms(1)] step_submit [OF assms(4)] by blast
  moreover have "case r of Inl e \<Rightarrow> True | Inr q \<Rightarrow> sr_status q = ''PENDING'' \<and> 0 < sr_approvalsRemaining q"
    using assms(4)
  proof (cases rule: submitApproval_cases)
    case (2 k i)
    then show ?thesis
      using record_never_completes [OF assms(1) 2(3) [unfolded verifyBLSSignature_def] 2(5)] by blast
  qed auto
  ultimately show ?thesis by (simp add: none_approved_def)
qed

subsection \<open>What a submission does not look at\<close>

text \<open>The same tier without its controls: no required roles, no time lock, no emergency override; the
  same approval without them, and the same engine without a freeze.\<close>

definition open_tier :: "ApprovalTier \<Rightarrow> ApprovalTier" where
  "open_tier t = t\<lparr>at_requiredRoles := [], at_timeLockSeconds := 0, at_requiresEmergencyOverride := False\<rparr>"

definition open_approval :: "PendingApproval \<Rightarrow> PendingApproval" where
  "open_approval a = a\<lparr>pa_tier := open_tier (pa_tier a), pa_timeLockEnvelope := None,
     pa_status := (if pa_status a = ST_TIME_LOCKED then ST_PENDING else pa_status a)\<rparr>"

definition open_engine :: "'d gov_state \<Rightarrow> 'd gov_state" where
  "open_engine st = st\<lparr>gv_objects := map open_approval (gv_objects st), gv_emergency := None\<rparr>"

lemma open_engine_fields:
  "gv_roleIdentities (open_engine st) = gv_roleIdentities st" "gv_pending (open_engine st) = gv_pending st"
  "gv_objects (open_engine st) = map open_approval (gv_objects st)" "gv_audit (open_engine st) = gv_audit st"
  by (simp_all add: open_engine_def)

lemma open_approval_fields:
  "pa_approvals (open_approval a) = pa_approvals a"
  "at_thresholdCount (pa_tier (open_approval a)) = at_thresholdCount (pa_tier a)"
  "pa_expiresAt (open_approval a) = pa_expiresAt a" "approval_message (open_approval a) = approval_message a"
  "pa_status (open_approval a) = ST_APPROVED \<longleftrightarrow> pa_status a = ST_APPROVED"
  "pa_status (open_approval a) = ST_EXPIRED \<longleftrightarrow> pa_status a = ST_EXPIRED"
  by (simp_all add: open_approval_def open_tier_def approval_message_def)

lemma open_engine_log: "open_engine (gov_log L ck a d st) = gov_log L ck a d (open_engine st)"
  by (simp add: open_engine_def gov_log_def)

lemma open_approval_voted:
  "(open_approval a)\<lparr>pa_approvals := m\<rparr> = open_approval (a\<lparr>pa_approvals := m\<rparr>)"
  "open_approval (a\<lparr>pa_status := ST_APPROVED\<rparr>) = (open_approval a)\<lparr>pa_status := ST_APPROVED\<rparr>"
  by (simp_all add: open_approval_def)

lemma open_engine_update:
  "open_engine (st\<lparr>gv_objects := (gv_objects st)[k := a]\<rparr>)
     = (open_engine st)\<lparr>gv_objects := (map open_approval (gv_objects st))[k := open_approval a]\<rparr>"
  by (simp add: open_engine_def map_update)

lemma record_approval_open:
  assumes "k < length (gv_objects st)"
  shows "record_approval L ck aid k i s (open_engine st)
    = (fst (record_approval L ck aid k i s st), open_engine (snd (record_approval L ck aid k i s st)))"
  unfolding record_approval_def Let_def open_engine_fields nth_map [OF assms] open_approval_fields
    open_approval_voted
  by (simp add: open_approval_fields voted_fields open_engine_log open_engine_update open_approval_voted split: sum.split)

lemma submitApproval_open:
  assumes "\<And>k. jm_get (gv_pending st) aid = Some k \<Longrightarrow> k < length (gv_objects st)"
  shows "submitApproval L ck aid role edSig blsSig (open_engine st)
    = (fst (submitApproval L ck aid role edSig blsSig st), open_engine (snd (submitApproval L ck aid role edSig blsSig st)))"
proof (cases "jm_get (gv_pending st) aid")
  case None
  then show ?thesis by (simp add: submitApproval_def open_engine_fields)
next
  case (Some k)
  have k: "k < length (gv_objects st)" by (rule assms [OF Some])
  have v: "verifyRoleSignature L now rl m sg (open_engine st) = verifyRoleSignature L now rl m sg st" for now rl m sg
    by (simp add: verifyRoleSignature_def open_engine_fields)
  show ?thesis
    unfolding submitApproval_def Let_def open_engine_fields Some option.case v nth_map [OF k] open_approval_fields
      record_approval_open [OF k]
    by (simp split: option.split)
qed

text \<open>The controls of a tier do not take part. Submitting to an engine whose approvals have no required
  roles and no time lock, and which is not frozen, has the same result and the same effect: votes
  of any role count, a locked approval is not locked, and a freeze does not stop an approval.\<close>

theorem submission_ignores_controls:
  assumes "gov_start s0" and "gov_reach L s0 st" and "submitApproval L ck aid role edSig blsSig st = (r, st')"
  shows "submitApproval L ck aid role edSig blsSig (open_engine st) = (r, open_engine st')"
  using submitApproval_open [of st aid L ck role edSig blsSig]
    object_ok [OF gov_reach_inv [OF assms(2) gov_inv_start [OF assms(1)]]] assms(3) by auto

subsection \<open>The freeze\<close>

text \<open>C14: While a freeze is active no approval can be initiated, and no step lifts it unless at least three
  distinct registered keys have approved.\<close>

theorem freeze_needs_three_approvers:
  assumes "gov_start s0" and "gov_reach L s0 st" and "emergency_active st" and "gov_step L st st'"
  shows "length (gv_objects st') = length (gv_objects st)
    \<and> (emergency_active st' \<or> (\<exists>pks. distinct pks \<and> 3 \<le> length pks
         \<and> (\<forall>pk \<in> set pks. jm_has (gv_roleIdentities st') pk)
         \<and> map_option es_unfreezeApprovals (gv_emergency st') = Some pks))"
proof -
  have inv: "gov_inv L st" using gov_reach_inv [OF assms(2) gov_inv_start [OF assms(1)]] .
  have "emergency_inv st" using gov_reach_emergency [OF assms(2) gov_inv_start [OF assms(1)] emergency_inv_start [OF assms(1)]] .
  then have e: "emergency_inv st'" using emergency_inv_step [OF inv _ assms(4)] by blast
  obtain em where em: "gv_emergency st' = Some em"
    using frozen_step_emergency [OF assms(4,3)] by blast
  then show ?thesis using e frozen_step_objects [OF assms(4,3)]
    by (auto simp: emergency_inv_def emergency_active_def approvers_ok_def)
qed

text \<open>The signatures that trigger a freeze count as approvals to lift it: a freeze triggered by three
  roles is lifted at once, by anybody, without a signature; one triggered by two is not.\<close>

theorem freeze_lifted_without_signatures:
  assumes "triggerEmergency L ck reason who sigs st = (Inr e, st')"
  shows "(fst (unfreezeEmergency L ck' [] st') = Inr () \<longleftrightarrow> 3 \<le> length (es_unfreezeApprovals e))
    \<and> (emergency_active (snd (unfreezeEmergency L ck' [] st')) \<longleftrightarrow> length (es_unfreezeApprovals e) < 3)"
  using assms
proof (cases rule: triggerEmergency_cases)
  case (frozen e' d)
  have e': "e' = e" using frozen(1) by simp
  have em: "gv_emergency st' = Some e" by (simp add: frozen(2) e')
  note e = frozen(3,5) [unfolded e']
  obtain r st'' where u: "unfreezeEmergency L ck' [] st' = (r, st'')" by fastforce
  from u have "(r = Inr () \<longleftrightarrow> 3 \<le> length (es_unfreezeApprovals e))
    \<and> (emergency_active st'' \<longleftrightarrow> length (es_unfreezeApprovals e) < 3)"
  proof (cases rule: unfreezeEmergency_cases)
    case inactive
    then show ?thesis using em e by (simp add: emergency_active_def)
  next
    case (missing e0 e1 n)
    then show ?thesis using em e by (auto simp: emergency_active_def)
  next
    case (unfrozen e0 e1 n d)
    then show ?thesis using em e by (auto simp: emergency_active_def)
  qed
  then show ?thesis by (simp add: u)
qed simp

subsection \<open>Delegations\<close>

lemma delegation_data_scope:
  "delegation_data L (token\<lparr>dt_delegatedRoles := roles, dt_notBefore := nb\<rparr>) = delegation_data L token"
  "delegation_data L (token\<lparr>dt_signature := sg\<rparr>) = delegation_data L token"
  by (simp_all add: delegation_data_def)

text \<open>A delegation verifies exactly within its period, when the delegator's key is the one first
  registered for the role. But the delegated roles and the start of the period are not signed:
  the same holds of the token with other roles, and with any start written into it.\<close>

theorem delegation_scope_unsigned:
  assumes "hex_laws (gl_h L)" and "ed_laws (gl_D L)"
    and "createDelegation L ck role key delegatee roles notAfter maxTx maxAmount st = (Inr token, st')"
    and "sb_bytes key = Inr kb" and "ed_getPublicKey (gl_D L) kb = Inr pub"
    and "List.find (\<lambda>r. ri_role r = role) (map snd (gv_roleIdentities st)) = Some i"
    and "ri_ed25519PublicKey i = ''0x'' @ h_bytesToHex (gl_h L) pub"
  shows "verifyDelegation L now (token\<lparr>dt_delegatedRoles := roles', dt_notBefore := nb\<rparr>) st' =
    (if notAfter < now then (False, Some ''Delegation expired'')
     else if now < nb then (False, Some ''Delegation not yet active'') else (True, None))"
  using assms(3)
proof (cases rule: createDelegation_cases)
  case (stored sig)
  let ?t = "delegation_token L (ck_now ck) role delegatee roles notAfter maxTx maxAmount"
  have t: "token = ?t\<lparr>dt_signature := ''0x'' @ h_bytesToHex (gl_h L) sig\<rparr>"
    and ids: "gv_roleIdentities st' = gv_roleIdentities st"
    using stored(2) by (cases rule: store_delegation_cases, simp_all)+
  have "ed_sign (gl_D L) (delegation_data L ?t) kb = Inr sig" using stored(1) assms(4) by simp
  then have v: "ed_verify (gl_D L) sig (delegation_data L ?t) pub = Inr True"
    using assms(2,5) unfolding ed_laws_def by blast
  have f: "dt_notAfter token = notAfter" "dt_delegatorRole token = role"
    "dt_signature token = ''0x'' @ h_bytesToHex (gl_h L) sig"
    by (simp_all add: t delegation_token_def)
  have data: "delegation_data L token = delegation_data L ?t" by (simp add: t delegation_data_scope)
  show ?thesis
    using v f assms(6,7)
    by (simp add: verifyDelegation_def ids delegation_data_scope data hex_lawsD(1) [OF assms(1)])
qed simp

subsection \<open>The audit chain\<close>

interpretation gov_audit: audit_client "gl_h L" "gl_S L" gv_audit "gov_step L" for L
  by unfold_locales (drule step_respects, simp add: gov_respects_def audit_grows_def)

lemma gov_reach_steps: "gov_reach L s0 st \<Longrightarrow> (gov_step L)\<^sup>*\<^sup>* s0 st"
  by (induction rule: gov_reach.induct) (auto intro: rtranclp.rtrancl_into_rtrancl)

text \<open>Whatever the calls, the audit chain the engine writes to still verifies, and what it held before is
  its beginning still.\<close>

theorem governance_keeps_audit_chain:
  assumes "audit_reach (gl_h L) (gl_S L) (gv_audit s0)" and "gov_reach L s0 st"
  shows "ci_isValid (verifyChainIntegrity (gl_h L) (gv_audit st))
    \<and> prefix (au_chain (gv_audit s0)) (au_chain (gv_audit st))"
  by (rule gov_audit.run_intact [OF gov_reach_steps [OF assms(2)] assms(1)])

subsection \<open>A concrete engine\<close>

text \<open>Three registered roles and a policy of one tier: one vote of compliance, after a minute.\<close>

definition toy_gov :: "(int, int, audit_row list) gov_lib" where
  "toy_gov = \<lparr>gl_h = toy_hashes, gl_D = toy_ed, gl_B = toy_bls, gl_S = toy_sqlite,
     gl_num = (\<lambda>r. dec \<lfloor>r\<rfloor>), gl_iso = (\<lambda>t. Inr (dec t))\<rparr>"

definition toy_ck :: clock where
  "toy_ck = \<lparr>ck_now = 1000, ck_iso = ''1970''\<rparr>"

definition toy_pk :: "byte \<Rightarrow> string" where
  "toy_pk k = ''0x'' @ h_bytesToHex toy_hashes (toy_hash [k])"

definition toy_identity :: "GovernanceRole \<Rightarrow> byte \<Rightarrow> RoleIdentity" where
  "toy_identity role k = \<lparr>ri_role = role, ri_ed25519PublicKey = toy_pk k,
     ri_blsPublicKey = ''0x'' @ h_bytesToHex toy_hashes (128 # replicate 15 0 @ toy_hash [k]),
     ri_hdPath = ''m'', ri_delegatedBy = None, ri_expiresAt = None\<rparr>"

definition toy_tier :: ApprovalTier where
  "toy_tier = \<lparr>at_tierName = ''T'', at_minAmountUSD = 0, at_maxAmountUSD = 100,
     at_requiredRoles = [ROLE_COMPLIANCE], at_thresholdCount = 1, at_timeLockSeconds = 60,
     at_requiresEmergencyOverride = False\<rparr>"

definition toy_engine :: "audit_row list gov_state" where
  "toy_engine = (gov_new ''0x01'' (initChain toy_hashes toy_sqlite None ''t'' ''t'' []))
     \<lparr>gv_roleIdentities := [(toy_pk 1, toy_identity ROLE_ADMIN 1), (toy_pk 2, toy_identity ROLE_COMPLIANCE 2),
         (toy_pk 3, toy_identity ROLE_TREASURY 3)],
      gv_policies := [(''p'', \<lparr>gp_policyId = ''p'', gp_version = 1, gp_tiers = [toy_tier],
         gp_circuitBreakerRules = [], gp_signedBy = [], gp_merkleRoot = [], gp_createdAt = 0\<rparr>)]\<rparr>"

definition toy_sig :: "byte \<Rightarrow> bytes \<Rightarrow> string" where
  "toy_sig k m = ''0x'' @ h_bytesToHex toy_hashes (toy_hash [k] @ toy_hash m)"

definition toy_bls_sig :: "byte \<Rightarrow> bytes \<Rightarrow> string" where
  "toy_bls_sig k m = ''0x'' @ h_bytesToHex toy_hashes (128 # replicate 31 0 @ toy_hash [k] @ toy_hash m)"

lemma toy_pk_inj: "toy_pk j = toy_pk k \<longleftrightarrow> j = k"
  using bytesToHex_inject [OF toy_hex_laws, of "toy_hash [j]" "toy_hash [k]"] by (simp add: toy_pk_def toy_hash_def)

lemma toy_unhex: "h_hexToBytes toy_hashes (h_bytesToHex toy_hashes bs) = Inr bs"
  by (rule hex_lawsD(1) [OF toy_hex_laws])

lemma toy_start: "gov_start toy_engine"
  by (simp add: gov_start_def toy_engine_def gov_new_def jm_inv_def toy_pk_inj toy_identity_def)

lemma toy_role_checks:
  assumes "gv_roleIdentities st = gv_roleIdentities toy_engine"
  shows "verifyRoleSignature toy_gov now ROLE_ADMIN m (toy_sig 1 m) st
      = \<lparr>rc_valid = True, rc_identity = Some (toy_identity ROLE_ADMIN 1), rc_reason = None\<rparr>"
    and "verifyRoleSignature toy_gov now ROLE_COMPLIANCE m (toy_sig 2 m) st
      = \<lparr>rc_valid = True, rc_identity = Some (toy_identity ROLE_COMPLIANCE 2), rc_reason = None\<rparr>"
    and "verifyRoleSignature toy_gov now ROLE_TREASURY m (toy_sig 3 m) st
      = \<lparr>rc_valid = True, rc_identity = Some (toy_identity ROLE_TREASURY 3), rc_reason = None\<rparr>"
  by (simp_all add: verifyRoleSignature_def assms) (simp_all add: toy_engine_def toy_identity_def toy_pk_def
    toy_sig_def toy_gov_def toy_unhex identity_expired_def, simp_all add: toy_ed_def)

definition toy_approval :: PendingApproval where
  "toy_approval = new_approval toy_gov 1000 ''tx'' 50 toy_tier"

definition toy_pending :: "audit_row list gov_state" where
  "toy_pending = store_approval toy_gov toy_ck toy_approval toy_engine"

abbreviation "toy_message \<equiv> approval_message toy_approval"

lemma toy_initiate: "initiateApproval toy_gov toy_ck ''tx'' 50 ''p'' toy_engine = (Inr toy_approval, toy_pending)"
  by (simp add: initiateApproval_def toy_engine_def gov_new_def jm_get_def tier_for_def toy_tier_def
      emergency_active_def Let_def toy_pending_def toy_approval_def toy_ck_def)

lemma toy_reach: "gov_reach toy_gov toy_engine toy_pending"
  by (rule gov_more [OF gov_init step_initiate [OF toy_initiate]])

lemma toy_pending_fields:
  "jm_get (gv_pending toy_pending) (pa_approvalId toy_approval) = Some 0"
  "gv_objects toy_pending = [toy_approval]"
  "gv_roleIdentities toy_pending = gv_roleIdentities toy_engine"
  by (simp_all add: toy_pending_def store_frames) (simp_all add: toy_engine_def gov_new_def)

definition toy_voted :: "submit_result result \<times> audit_row list gov_state" where
  "toy_voted = submitApproval toy_gov toy_ck (pa_approvalId toy_approval) ROLE_ADMIN (toy_sig 1 toy_message)
     (toy_bls_sig 1 toy_message) toy_pending"

lemma toy_submit:
  "submitApproval toy_gov toy_ck (pa_approvalId toy_approval) ROLE_ADMIN (toy_sig 1 toy_message)
     (toy_bls_sig 1 toy_message) toy_pending = (fst toy_voted, snd toy_voted)"
  by (simp add: toy_voted_def)

lemma toy_bls_valid: "verifyBLSSignature toy_gov (ri_blsPublicKey (toy_identity role k)) m (toy_bls_sig k m)"
  by (simp add: verifyBLSSignature_def verifyBLS_iff toy_identity_def toy_bls_sig_def toy_gov_def toy_unhex)
    (simp add: toy_bls_def toy_hash_def)

lemma toy_voted_eq:
  "toy_voted = record_approval toy_gov toy_ck (pa_approvalId toy_approval) 0 (toy_identity ROLE_ADMIN 1)
     (toy_bls_sig 1 toy_message) toy_pending"
  using toy_role_checks(1) [OF toy_pending_fields(3)] toy_bls_valid
  by (simp add: toy_voted_def submitApproval_def toy_pending_fields Let_def)
    (simp add: toy_approval_def new_approval_def toy_tier_def)

lemma toy_voted_objects: "gv_objects (snd toy_voted) =
   [toy_approval\<lparr>pa_approvals := [(toy_pk 1, toy_bls_sig 1 toy_message)]\<rparr>]"
proof -
  have l: "bls_laws (gl_h toy_gov) (gl_B toy_gov)" using toy_bls_laws by (simp add: toy_gov_def)
  have v: "verifyBLS (gl_h toy_gov) (gl_B toy_gov) (ri_blsPublicKey (toy_identity ROLE_ADMIN 1)) toy_message
      (toy_bls_sig 1 toy_message)"
    using toy_bls_valid by (simp add: verifyBLSSignature_def)
  have "gv_objects (snd toy_voted) = (gv_objects toy_pending)[0 := voted toy_pending 0
      (ri_ed25519PublicKey (toy_identity ROLE_ADMIN 1)) (toy_bls_sig 1 toy_message)]"
    using record_never_completes [OF l v, of toy_ck "pa_approvalId toy_approval" 0 "toy_identity ROLE_ADMIN 1"
      toy_pending "fst toy_voted" "snd toy_voted"] toy_voted_eq by simp
  then show ?thesis
    by (simp add: toy_pending_fields toy_identity_def) (simp add: toy_approval_def new_approval_def jm_set_def)
qed

lemma toy_voted_reach: "gov_reach toy_gov toy_engine (snd toy_voted)"
  by (rule gov_more [OF toy_reach step_submit [OF toy_submit]])

lemma toy_voted_pending: "gv_pending (snd toy_voted) = gv_pending toy_pending"
  using record_approval_effect [of toy_gov toy_ck "pa_approvalId toy_approval" 0 "toy_identity ROLE_ADMIN 1"
    "toy_bls_sig 1 toy_message" toy_pending "fst toy_voted" "snd toy_voted"] toy_voted_eq by (metis prod.collapse)

theorem submission_refines_vote_witness:
  "\<exists>k i. jm_get (gv_pending toy_pending) (pa_approvalId toy_approval) = Some k \<and> k < length (ballots toy_pending)
     \<and> jm_get (gv_roleIdentities toy_pending) (ri_ed25519PublicKey i) = Some i \<and> ri_role i = ROLE_ADMIN
     \<and> ballots (snd toy_voted) = (ballots toy_pending)[k := cast_vote (ri_ed25519PublicKey i) (ballots toy_pending ! k)]"
proof -
  have "ballots (snd toy_voted) \<noteq> ballots toy_pending"
    by (simp add: ballots_def toy_voted_objects toy_pending_fields ballot_of_def)
      (simp add: toy_approval_def new_approval_def)
  then show ?thesis using submission_refines_vote [OF toy_start toy_reach toy_submit] by auto
qed

theorem votes_are_endorsed_witness:
  "jm_has (gv_roleIdentities (snd toy_voted)) (toy_pk 1)
    \<and> (\<exists>edSig. signed_by toy_gov (toy_pk 1) toy_message edSig)"
proof -
  let ?a = "toy_approval\<lparr>pa_approvals := [(toy_pk 1, toy_bls_sig 1 toy_message)]\<rparr>"
  have g: "getPendingApproval (pa_approvalId toy_approval) (snd toy_voted) = Some ?a"
    by (simp add: getPendingApproval_def toy_voted_pending toy_pending_fields toy_voted_objects)
  have "approval_message ?a = toy_message" by (simp add: approval_message_def)
  then show ?thesis using votes_are_endorsed [OF toy_start toy_voted_reach g] by simp
qed

theorem approval_never_completes_witness:
  "list_all (\<lambda>a. pa_status a \<noteq> ST_APPROVED) (gv_objects (snd toy_voted))"
proof -
  have "bls_laws (gl_h toy_gov) (gl_B toy_gov)" using toy_bls_laws by (simp add: toy_gov_def)
  from approval_never_completes [OF this toy_start toy_reach toy_submit] show ?thesis
    unfolding list_all_iff by blast
qed

theorem submission_ignores_controls_witness:
  "submitApproval toy_gov toy_ck (pa_approvalId toy_approval) ROLE_ADMIN (toy_sig 1 toy_message)
     (toy_bls_sig 1 toy_message) (open_engine toy_pending) = (fst toy_voted, open_engine (snd toy_voted))
   \<and> pa_status toy_approval = ST_TIME_LOCKED \<and> at_requiredRoles (pa_tier toy_approval) = [ROLE_COMPLIANCE]"
  using submission_ignores_controls [OF toy_start toy_reach toy_submit]
  by (simp add: toy_approval_def new_approval_def toy_tier_def)

text \<open>A freeze triggered by two roles, and one triggered by three.\<close>

definition toy_trigger :: "nat \<Rightarrow> EmergencyState result \<times> audit_row list gov_state" where
  "toy_trigger n = triggerEmergency toy_gov toy_ck ''r'' ''who''
     (take n [(ROLE_ADMIN, toy_sig 1 (emergency_message ''r'' 1000)),
       (ROLE_COMPLIANCE, toy_sig 2 (emergency_message ''r'' 1000)),
       (ROLE_TREASURY, toy_sig 3 (emergency_message ''r'' 1000))]) toy_engine"

lemma toy_trigger_ok:
  "\<exists>e. toy_trigger 2 = (Inr e, snd (toy_trigger 2)) \<and> es_isActive e \<and> gv_emergency (snd (toy_trigger 2)) = Some e"
  "\<exists>e. toy_trigger 3 = (Inr e, snd (toy_trigger 3)) \<and> length (es_unfreezeApprovals e) = 3"
  using toy_role_checks [of toy_engine]
  by (simp_all add: toy_trigger_def triggerEmergency_def Let_def valid_approvers_Cons toy_ck_def
      numeral_eq_Suc) (simp_all add: valid_approvers_def)

theorem freeze_needs_three_approvers_witness:
  "emergency_active (snd (toy_trigger 2))
   \<and> (let st' = snd (unfreezeEmergency toy_gov toy_ck [] (snd (toy_trigger 2))) in
       length (gv_objects st') = length (gv_objects (snd (toy_trigger 2)))
       \<and> (emergency_active st' \<or> (\<exists>pks. distinct pks \<and> 3 \<le> length pks
           \<and> map_option es_unfreezeApprovals (gv_emergency st') = Some pks)))"
proof -
  obtain e where t: "toy_trigger 2 = (Inr e, snd (toy_trigger 2))" and e: "es_isActive e"
    and em: "gv_emergency (snd (toy_trigger 2)) = Some e"
    using toy_trigger_ok(1) by blast
  have act: "emergency_active (snd (toy_trigger 2))" using e em by (simp add: emergency_active_def)
  have r: "gov_reach toy_gov toy_engine (snd (toy_trigger 2))"
    by (rule gov_more [OF gov_init step_trigger [OF _ t [unfolded toy_trigger_def [of 2]]], folded toy_trigger_def])
      (simp add: jm_inv_def numeral_eq_Suc)
  have s: "gov_step toy_gov (snd (toy_trigger 2)) (snd (unfreezeEmergency toy_gov toy_ck [] (snd (toy_trigger 2))))"
    by (rule step_unfreeze [where sigs = "[]" and r = "fst (unfreezeEmergency toy_gov toy_ck [] (snd (toy_trigger 2)))"])
      (simp_all add: jm_inv_def)
  show ?thesis using freeze_needs_three_approvers [OF toy_start r act s] act unfolding Let_def by blast
qed

theorem freeze_lifted_without_signatures_witness:
  "fst (unfreezeEmergency toy_gov toy_ck [] (snd (toy_trigger 3))) = Inr ()"
proof -
  obtain e where "toy_trigger 3 = (Inr e, snd (toy_trigger 3))" and "length (es_unfreezeApprovals e) = 3"
    using toy_trigger_ok(2) by blast
  then show ?thesis
    using freeze_lifted_without_signatures [of toy_gov toy_ck "''r''" "''who''" _ toy_engine e "snd (toy_trigger 3)" toy_ck]
    unfolding toy_trigger_def by simp
qed

definition toy_delegation :: "DelegationToken result \<times> audit_row list gov_state" where
  "toy_delegation = createDelegation toy_gov toy_ck ROLE_ADMIN (sb_from [1]) ''0xab'' [ROLE_AUDITOR] 2000 1 5 toy_engine"

theorem delegation_scope_unsigned_witness:
  "\<exists>token. toy_delegation = (Inr token, snd toy_delegation)
    \<and> verifyDelegation toy_gov 1500 (token\<lparr>dt_delegatedRoles := [ROLE_ADMIN, ROLE_TREASURY], dt_notBefore := 0\<rparr>)
        (snd toy_delegation) = (True, None)"
proof -
  obtain token where t: "toy_delegation = (Inr token, snd toy_delegation)"
    by (simp add: toy_delegation_def createDelegation_def store_delegation_def sb_from_bytes toy_gov_def toy_ed_def Let_def)
  have h: "hex_laws (gl_h toy_gov)" "ed_laws (gl_D toy_gov)" using toy_hex_laws toy_ed_laws by (simp_all add: toy_gov_def)
  have k: "ed_getPublicKey (gl_D toy_gov) [1] = Inr (toy_hash [1])" by (simp add: toy_gov_def toy_ed_def)
  have i: "List.find (\<lambda>r. ri_role r = ROLE_ADMIN) (map snd (gv_roleIdentities toy_engine)) = Some (toy_identity ROLE_ADMIN 1)"
    "ri_ed25519PublicKey (toy_identity ROLE_ADMIN 1) = ''0x'' @ h_bytesToHex (gl_h toy_gov) (toy_hash [1])"
    by (simp_all add: toy_engine_def toy_identity_def toy_pk_def toy_gov_def)
  show ?thesis
    using delegation_scope_unsigned [OF h t [unfolded toy_delegation_def] sb_from_bytes k i, folded toy_delegation_def,
        where now = 1500 and roles' = "[ROLE_ADMIN, ROLE_TREASURY]" and nb = 0] t by auto
qed

theorem governance_keeps_audit_chain_witness:
  "ci_isValid (verifyChainIntegrity toy_hashes (gv_audit (snd toy_voted)))"
proof -
  have "audit_reach (gl_h toy_gov) (gl_S toy_gov) (gv_audit toy_engine)"
    unfolding toy_engine_def gov_new_def toy_gov_def
    by (simp del: initChain_def) (rule reach_init, simp add: loadFromDB_def)
  from governance_keeps_audit_chain [OF this toy_voted_reach] show ?thesis by (simp add: toy_gov_def)
qed

end
