(* ===== verification/KeyRefresh.thy ===== *)
theory KeyRefresh
  imports Shamir Paillier Transport SecureMemory Sanitize MpcCmp
begin

text \<open>
  Proactive key refresh (protocol/key_refresh_engine.ts): the zero-sharing polynomial, the sub-shares
  sent to the peers with their proofs, the new share, and the verification of a received proof. The
  module imports \<open>CURVE_ORDER\<close> from a module that does not export it; the order of the curve is read
  in its place. A refresh is one step: it consumes random bytes, sends packed messages (actions of
  the transport) and leaves a state also when it throws. \<open>peers\<close> is \<open>getConnectedPeers()\<close>, read once.
\<close>

subsection \<open>Definitions\<close>

record RefreshZKP =
  rz_commitmentR :: string
  rz_challengeE :: string
  rz_responseZ :: string

record SubSharePackage =
  sp_fromNodeId :: string
  sp_toNodeId :: string
  sp_subShare :: string
  sp_commitment :: "string option"
  sp_proof :: RefreshZKP
  sp_epoch :: int

record RefreshResult =
  rr_success :: bool
  rr_newEpoch :: int
  rr_newShare :: SecureBigInt
  rr_newPaillierKeys :: paillier_keypair
  rr_masterPublicKeyUnchanged :: bool
  rr_zeroizedOldShare :: bool
  rr_faultyNodes :: "string list"

record key_refresh =
  kr_nodeId :: string
  kr_share :: "SecureBigInt option"
  kr_paillier :: "paillier_keypair option"
  kr_epoch :: int
  kr_threshold :: int
  kr_totalParties :: int

definition refresh_new :: "string \<Rightarrow> int \<Rightarrow> int \<Rightarrow> key_refresh" where
  "refresh_new nodeId threshold totalParties =
     \<lparr>kr_nodeId = nodeId, kr_share = None, kr_paillier = None, kr_epoch = 0, kr_threshold = threshold,
      kr_totalParties = totalParties\<rparr>"

definition refresh_initialize :: "SecureBigInt \<Rightarrow> paillier_keypair \<Rightarrow> int \<Rightarrow> key_refresh \<Rightarrow> key_refresh" where
  "refresh_initialize share paillierKeys epoch st =
     st\<lparr>kr_share := Some share, kr_paillier := Some paillierKeys, kr_epoch := epoch\<rparr>"

text \<open>The pattern \<open>/node-(\d+)/\<close>, found at the leftmost position; the group holds all the digits.\<close>

fun node_number :: "string \<Rightarrow> string option" where
  "node_number [] = None"
| "node_number (c # cs) =
     (let digits = takeWhile is_digit (drop 5 (c # cs)) in
      if startsWith (c # cs) ''node-'' \<and> digits \<noteq> [] then Some digits else node_number cs)"

definition getPeerIndex :: "string \<Rightarrow> int" where
  "getPeerIndex peerId = (case node_number peerId of None \<Rightarrow> -1
     | Some digits \<Rightarrow> (case parse_radix 10 digits of None \<Rightarrow> -1 | Some n \<Rightarrow> n))"

text \<open>Phase 1: \<open>threshold - 1\<close> coefficients, each with its commitment.\<close>

fun draw_coeffs :: "hashes \<Rightarrow> 'p ec \<Rightarrow> nat \<Rightarrow> (int \<times> string) list rnd" where
  "draw_coeffs h E 0 = rnd_return []"
| "draw_coeffs h E (Suc n) =
     rnd_bind (randomScalar (ec_order E)) (\<lambda>a.
     rnd_bind (rnd_lift (rbind (ec_BASE_multiply E a) (point_hex h E))) (\<lambda>c.
     rnd_bind (draw_coeffs h E n) (\<lambda>rest. rnd_return ((a, c) # rest))))"

text \<open>The loop over the coefficients starts with the power 1 of the index: the constant term is 0.\<close>

definition zero_eval :: "int \<Rightarrow> int list \<Rightarrow> int \<Rightarrow> int" where
  "zero_eval q coeffs x = fst (foldl (poly_step q x) (0, x) coeffs)"

definition subshare_digest :: "hashes \<Rightarrow> int \<Rightarrow> string \<Rightarrow> int" where
  "subshare_digest h q text = be_int (h_sha256 h (utf8 text)) smod q"

definition generateSubShareZKP :: "hashes \<Rightarrow> 'p ec \<Rightarrow> key_refresh \<Rightarrow> int \<Rightarrow> RefreshZKP rnd" where
  "generateSubShareZKP h E st subShare =
     rnd_bind (randomScalar (ec_order E)) (\<lambda>r.
     rnd_lift (
       rbind (ec_BASE_multiply E r) (\<lambda>R.
       rbind (ec_BASE_multiply E subShare) (\<lambda>C.
       rbind (ec_toRawBytes E R False) (\<lambda>rawR.
       rbind (ec_toRawBytes E C False) (\<lambda>rawC.
       let e = subshare_digest h (ec_order E) (h_bytesToHex h rawR @ '':'' @ h_bytesToHex h rawC @ '':''
                 @ kr_nodeId st @ '':'' @ dec (kr_epoch st));
           z = (r + e * subShare) smod ec_order E
       in Inr \<lparr>rz_commitmentR = ''0x'' @ h_bytesToHex h rawR, rz_challengeE = ''0x'' @ hex64 e,
               rz_responseZ = ''0x'' @ hex64 z\<rparr>))))))"

definition verifySubShareZKP ::
  "hashes \<Rightarrow> 'p ec \<Rightarrow> string \<Rightarrow> RefreshZKP \<Rightarrow> string \<Rightarrow> int \<Rightarrow> bool" where
  "verifySubShareZKP h E subShareHex proof nodeId epoch =
     (case rbind (parse_BigInt subShareHex) (\<lambda>subShare.
           rbind (ec_fromHex E (strip0x (rz_commitmentR proof))) (\<lambda>R.
           rbind (parse_BigInt (rz_responseZ proof)) (\<lambda>z.
           rbind (parse_BigInt (rz_challengeE proof)) (\<lambda>e.
           rbind (ec_BASE_multiply E subShare) (\<lambda>C.
           rbind (ec_toRawBytes E C False) (\<lambda>rawC.
           let eExpected = subshare_digest h (ec_order E) (rz_commitmentR proof @ '':'' @ h_bytesToHex h rawC
                 @ '':'' @ nodeId @ '':'' @ dec epoch)
           in if e \<noteq> eExpected then Inr False
              else rbind (ec_BASE_multiply E z) (\<lambda>zG.
                   rbind (ec_multiply E C e) (\<lambda>eC.
                   Inr (ec_equals E zG (ec_add E R eC)))))))))) of
        Inl e \<Rightarrow> False
      | Inr b \<Rightarrow> b)"

text \<open>Phase 2, one peer: the package is serialized, and sent inside a second payload.\<close>

definition subshare_package ::
  "key_refresh \<Rightarrow> (int \<times> string) list \<Rightarrow> string \<Rightarrow> int \<Rightarrow> RefreshZKP \<Rightarrow> SubSharePackage" where
  "subshare_package st coeffs peerId subShare zkp =
     \<lparr>sp_fromNodeId = kr_nodeId st, sp_toNodeId = peerId, sp_subShare = ''0x'' @ hex64 subShare,
      sp_commitment = (case coeffs of [] \<Rightarrow> None | (a, c) # _ \<Rightarrow> Some c), sp_proof = zkp,
      sp_epoch = kr_epoch st + 1\<rparr>"

definition package_fields :: "SubSharePackage \<Rightarrow> (string \<times> js_val) list" where
  "package_fields pkg =
     [(''fromNodeId'', VStr (sp_fromNodeId pkg)), (''toNodeId'', VStr (sp_toNodeId pkg)),
      (''subShare'', VStr (sp_subShare pkg)),
      (''commitment'', case sp_commitment pkg of None \<Rightarrow> VUndefined | Some c \<Rightarrow> VStr c),
      (''proofR'', VStr (rz_commitmentR (sp_proof pkg))), (''proofE'', VStr (rz_challengeE (sp_proof pkg))),
      (''proofZ'', VStr (rz_responseZ (sp_proof pkg))), (''epoch'', VNum (sp_epoch pkg))]"

definition send_subshare ::
  "hashes \<Rightarrow> 'p ec \<Rightarrow> (socket \<Rightarrow> bool) \<Rightarrow> transport \<Rightarrow> key_refresh \<Rightarrow> (int \<times> string) list \<Rightarrow> string
   \<Rightarrow> action list rnd" where
  "send_subshare h E is_open tr st coeffs peerId =
     (let subShare = zero_eval (ec_order E) (map fst coeffs) (getPeerIndex peerId) in
      rnd_bind (generateSubShareZKP h E st subShare) (\<lambda>zkp.
      rnd_lift (rbind (pack h ''KEY_REFRESH_SUBSHARE'' (package_fields (subshare_package st coeffs peerId subShare zkp)))
        (\<lambda>serialized. transport_send h is_open peerId ''KEY_REFRESH_SUBSHARE''
           [(''payload'', VBytes (sp_bytes serialized))] tr))))"

fun send_subshares ::
  "hashes \<Rightarrow> 'p ec \<Rightarrow> (socket \<Rightarrow> bool) \<Rightarrow> transport \<Rightarrow> key_refresh \<Rightarrow> (int \<times> string) list \<Rightarrow> string list
   \<Rightarrow> tape \<Rightarrow> ((unit result \<times> action list) \<times> tape) option" where
  "send_subshares h E is_open tr st coeffs [] t = Some ((Inr (), []), t)"
| "send_subshares h E is_open tr st coeffs (peerId # peers) t =
     (if getPeerIndex peerId = -1 then send_subshares h E is_open tr st coeffs peers t
      else case send_subshare h E is_open tr st coeffs peerId t of
        None \<Rightarrow> None
      | Some (Inl e, t') \<Rightarrow> Some ((Inl e, []), t')
      | Some (Inr acts, t') \<Rightarrow>
          (case send_subshares h E is_open tr st coeffs peers t' of
             None \<Rightarrow> None
           | Some ((r, acts'), t'') \<Rightarrow> Some ((r, acts @ acts'), t'')))"

text \<open>Phase 3: the placeholder answers 0 for every peer when the node knows its own number.\<close>

definition receiveSubShare :: "key_refresh \<Rightarrow> string \<Rightarrow> int option" where
  "receiveSubShare st peerId = (if getPeerIndex (kr_nodeId st) = -1 then None else Some 0)"

definition received_subshares :: "key_refresh \<Rightarrow> string list \<Rightarrow> (string, int) js_map" where
  "received_subshares st peers = foldl (\<lambda>m peerId. case receiveSubShare st peerId of
     None \<Rightarrow> m | Some s \<Rightarrow> jm_set m peerId s) [] peers"

text \<open>Phase 4.\<close>

definition refreshed_value :: "int \<Rightarrow> string \<Rightarrow> int list \<Rightarrow> (string, int) js_map \<Rightarrow> int \<Rightarrow> int" where
  "refreshed_value q nodeId coeffs received share =
     (let v = foldl (\<lambda>acc (peerId, s). (acc + s) smod q) share received;
          selfIndex = getPeerIndex nodeId
      in if selfIndex \<noteq> -1 then (v + zero_eval q coeffs selfIndex) smod q else v)"

definition verifyMasterPublicKeyInvariant :: bool where
  "verifyMasterPublicKeyInvariant = True"

definition executeRefresh ::
  "binding \<Rightarrow> hashes \<Rightarrow> 'p ec \<Rightarrow> (socket \<Rightarrow> bool) \<Rightarrow> transport \<Rightarrow> key_refresh \<Rightarrow> tape
   \<Rightarrow> ((RefreshResult result \<times> action list \<times> key_refresh) \<times> tape) option" where
  "executeRefresh bd h E is_open tr st t =
     (case (kr_share st, kr_paillier st) of
        (Some share, Some paillier) \<Rightarrow>
          (case draw_coeffs h E (nat (kr_threshold st - 1)) t of
             None \<Rightarrow> None
           | Some (Inl e, t1) \<Rightarrow> Some ((Inl e, [], st), t1)
           | Some (Inr coeffs, t1) \<Rightarrow>
          (case send_subshares h E is_open tr st coeffs (getConnectedPeers tr) t1 of
             None \<Rightarrow> None
           | Some ((Inl e, acts), t2) \<Rightarrow> Some ((Inl e, acts, st), t2)
           | Some ((Inr u, acts), t2) \<Rightarrow>
          (case sbi_get share of
             Inl e \<Rightarrow> Some ((Inl e, acts, st), t2)
           | Inr v \<Rightarrow>
               let newShare = sbi_new (refreshed_value (ec_order E) (kr_nodeId st) (map fst coeffs)
                     (received_subshares st (getConnectedPeers tr)) v);
                   st1 = st\<lparr>kr_share := Some newShare\<rparr>
               in (case generatePaillierKeys bd 2048 t2 of
                     None \<Rightarrow> None
                   | Some (Inl e, t3) \<Rightarrow> Some ((Inl e, acts, st1), t3)
                   | Some (Inr keys, t3) \<Rightarrow>
                       Some ((Inr \<lparr>rr_success = True, rr_newEpoch = kr_epoch st + 1, rr_newShare = newShare,
                           rr_newPaillierKeys = keys,
                           rr_masterPublicKeyUnchanged = verifyMasterPublicKeyInvariant,
                           rr_zeroizedOldShare = sbi_released (sbi_release share), rr_faultyNodes = []\<rparr>,
                         acts, st1\<lparr>kr_paillier := Some keys, kr_epoch := kr_epoch st + 1\<rparr>), t3)))))
      | _ \<Rightarrow> Some ((Inl (Error ''KeyRefreshEngine not initialized''), [], st), t))"

definition getCurrentEpoch :: "key_refresh \<Rightarrow> int" where "getCurrentEpoch st = kr_epoch st"
definition getCurrentShare :: "key_refresh \<Rightarrow> SecureBigInt option" where "getCurrentShare st = kr_share st"

subsection \<open>The sub-shares share zero\<close>

lemma zero_eval_eq:
  assumes "1 < q" and "0 \<le> x" and "x < q" and "\<forall>c \<in> set cs. 0 \<le> c"
  shows "zero_eval q cs x = poly_at (0 # cs) x mod q"
proof -
  have "poly_step q x (0, 1) 0 = (0, x)" using assms(1-3) by (simp add: poly_step_def smod_nonneg)
  then have "zero_eval q cs x = eval_poly q (0 # cs) x" by (simp add: zero_eval_def eval_poly_def)
  then show ?thesis using eval_poly_eq [of q x "0 # cs"] assms by simp
qed

lemma zero_eval_bounds:
  "1 < q \<Longrightarrow> 0 \<le> x \<Longrightarrow> x < q \<Longrightarrow> \<forall>c \<in> set cs. 0 \<le> c \<Longrightarrow> 0 \<le> zero_eval q cs x \<and> zero_eval q cs x < q"
  by (simp add: zero_eval_eq)

text \<open>The values a node computes for the nodes 1 to t interpolate to zero, so adding each to the share
  of its node preserves the secret.\<close>

lemma zero_shares_interpolate:
  assumes "is_prime q" and "int t < q" and "length cs < t" and "\<forall>c \<in> set cs. 0 \<le> c"
  shows "combineSignatures q (map (zero_eval q cs) (signer_indices t)) (signer_indices t) = Inr 0"
proof -
  have q: "1 < q" by (rule is_prime_gt1 [OF assms(1)])
  have "combineSignatures q (map (zero_eval q cs) (signer_indices t)) (signer_indices t)
      = Inr (poly_at (0 # cs) 0 mod q)"
  proof (rule combine_poly [OF assms(1,2)])
    show "length (0 # cs) \<le> t" using assms(3) by simp
    show "length (map (zero_eval q cs) (signer_indices t)) = t" by (simp add: signer_indices_def)
    fix k assume k: "k < t"
    then show "map (zero_eval q cs) (signer_indices t) ! k mod q = poly_at (0 # cs) (int k + 1) mod q"
      using zero_eval_eq [OF q, of "int k + 1" cs] assms(2,4) by (simp add: signer_indices_def)
  qed
  then show ?thesis using poly_at_0 [of "0 # cs"] by simp
qed

lemma combine_add:
  assumes "is_prime q" and "int t < q" and "length xs = t" and "length ys = t" and "length zs = t"
    and "\<And>k. k < t \<Longrightarrow> zs ! k mod q = (xs ! k + ys ! k) mod q"
    and "combineSignatures q xs (signer_indices t) = Inr a" and "combineSignatures q ys (signer_indices t) = Inr b"
  shows "combineSignatures q zs (signer_indices t) = Inr ((a + b) mod q)"
proof -
  let ?c = "\<lambda>k. (- 1) ^ k * int (t choose Suc k)"
  let ?S = "\<lambda>f. (\<Sum>k<t. ?c k * f k)"
  have a: "a = ?S ((!) xs) mod q" and b: "b = ?S ((!) ys) mod q"
    using assms(7,8) combine_eq [OF assms(1,2,3)] combine_eq [OF assms(1,2,4)] by simp_all
  have e: "(?c k * zs ! k) mod q = (?c k * (xs ! k + ys ! k)) mod q" if "k < t" for k
    using assms(6) [OF that] by (metis mod_mult_right_eq)
  have "?S ((!) zs) mod q = (\<Sum>k<t. (?c k * zs ! k) mod q) mod q" by (rule mod_sum_eq [symmetric])
  also have "\<dots> = (\<Sum>k<t. (?c k * (xs ! k + ys ! k)) mod q) mod q"
    by (rule arg_cong [where f = "\<lambda>s. s mod q"], rule sum.cong) (simp_all only: e lessThan_iff)
  also have "\<dots> = ?S (\<lambda>k. xs ! k + ys ! k) mod q" by (rule mod_sum_eq)
  also have "?S (\<lambda>k. xs ! k + ys ! k) = ?S ((!) xs) + ?S ((!) ys)"
    by (simp only: distrib_left sum.distrib)
  also have "(?S ((!) xs) + ?S ((!) ys)) mod q = (a + b) mod q" unfolding a b by (rule mod_add_eq [symmetric])
  finally show ?thesis by (simp add: combine_eq [OF assms(1,2,5)])
qed

subsection \<open>What a refresh does to the secret\<close>

lemma received_zero: "\<forall>(p, s) \<in> set (received_subshares st peers). s = 0"
proof -
  have "\<forall>(p, s) \<in> set (foldl (\<lambda>m peerId. case receiveSubShare st peerId of
     None \<Rightarrow> m | Some s \<Rightarrow> jm_set m peerId s) m peers). s = 0" if "\<forall>(p, s) \<in> set m. s = 0" for m
    using that
  proof (induction peers arbitrary: m)
    case (Cons peer peers)
    have "snd ` set (jm_set m peer 0) \<subseteq> {0}"
      using Cons.prems unfolding jm_set_def by (induction m) (auto split: if_splits)
    then have "\<forall>(p, s) \<in> set (jm_set m peer 0). s = 0" by fastforce
    then show ?case using Cons by (auto simp: receiveSubShare_def)
  qed simp
  from this [of "[]"] show ?thesis by (simp add: received_subshares_def)
qed

lemma fold_zeros:
  fixes q v :: int
  assumes "1 < q" and "\<forall>(p, s) \<in> set received. s = 0" and "0 \<le> v"
  shows "0 \<le> foldl (\<lambda>acc (p, s). (acc + s) smod q) v received
    \<and> foldl (\<lambda>acc (p, s). (acc + s) smod q) v received mod q = v mod q"
  using assms(2,3)
proof (induction received arbitrary: v)
  case (Cons entry received)
  then have "foldl (\<lambda>acc (p, s). (acc + s) smod q) v (entry # received)
      = foldl (\<lambda>acc (p, s). (acc + s) smod q) (v mod q) received"
    using assms(1) by (auto simp: smod_nonneg)
  moreover have "0 \<le> v mod q" using assms(1) by simp
  ultimately show ?case using Cons.IH [of "v mod q"] Cons.prems by simp
qed simp

text \<open>The new share of a numbered node is its old share plus the value of its own polynomial: the
  sub-shares of the other nodes are read as 0.\<close>

lemma refreshed_value_eq:
  assumes "1 < q" and "0 \<le> v" and "0 \<le> getPeerIndex (kr_nodeId st)" and "getPeerIndex (kr_nodeId st) < q"
    and "\<forall>c \<in> set cs. 0 \<le> c"
  shows "refreshed_value q (kr_nodeId st) cs (received_subshares st peers) v
    = (v + zero_eval q cs (getPeerIndex (kr_nodeId st))) mod q"
proof -
  let ?i = "getPeerIndex (kr_nodeId st)"
  let ?w = "foldl (\<lambda>acc (p, s). (acc + s) smod q) v (received_subshares st peers)"
  have w: "0 \<le> ?w" "?w mod q = v mod q" using fold_zeros [OF assms(1) received_zero assms(2)] by blast+
  have z: "0 \<le> zero_eval q cs ?i" using zero_eval_bounds [OF assms(1,3,4,5)] by blast
  have "refreshed_value q (kr_nodeId st) cs (received_subshares st peers) v = (?w + zero_eval q cs ?i) mod q"
    using assms(1,3) w(1) z by (simp add: refreshed_value_def Let_def smod_nonneg)
  also have "\<dots> = (v + zero_eval q cs ?i) mod q" by (metis mod_add_left_eq w(2))
  finally show ?thesis .
qed

lemma combine_idem: "is_prime q \<Longrightarrow> int t < q \<Longrightarrow> length xs = t \<Longrightarrow>
    combineSignatures q xs (signer_indices t) = Inr a \<Longrightarrow> a mod q = a"
  by (auto simp: combine_eq)

text \<open>The sub-shares of all the nodes, added up: they interpolate to zero too.\<close>

lemma dealt_sums_zero:
  assumes "is_prime q" and "int t < q" and "\<forall>cs \<in> set polys. length cs < t \<and> (\<forall>c \<in> set cs. 0 \<le> c)"
  shows "combineSignatures q (map (\<lambda>x. \<Sum>cs\<leftarrow>polys. zero_eval q cs x) (signer_indices t)) (signer_indices t) = Inr 0"
  using assms(3)
proof (induction polys)
  case Nil
  show ?case using combine_eq [OF assms(1,2), of "map (\<lambda>x. 0) (signer_indices t)"]
    by (simp add: signer_indices_def)
next
  case (Cons cs polys)
  have len: "length (map f (signer_indices t)) = t" for f :: "int \<Rightarrow> int" by (simp add: signer_indices_def)
  have "combineSignatures q (map (\<lambda>x. \<Sum>cs\<leftarrow>cs # polys. zero_eval q cs x) (signer_indices t)) (signer_indices t)
      = Inr ((0 + 0) mod q)"
    by (rule combine_add [OF assms(1,2) len len len _ zero_shares_interpolate [OF assms(1,2), of cs] Cons.IH])
      (use Cons.prems in \<open>simp_all add: signer_indices_def\<close>)
  then show ?case by simp
qed

text \<open>The new shares of the nodes 1 to \<open>t\<close>, and what they interpolate to: to each the weight of its
  position.\<close>

definition refreshed_shares ::
  "int \<Rightarrow> key_refresh list \<Rightarrow> string list \<Rightarrow> int list \<Rightarrow> int list list \<Rightarrow> int list" where
  "refreshed_shares q nodes peers shares polys = map (\<lambda>k. refreshed_value q (kr_nodeId (nodes ! k)) (polys ! k)
     (received_subshares (nodes ! k) peers) (shares ! k)) [0..<length shares]"

definition refresh_drift :: "int \<Rightarrow> nat \<Rightarrow> int list list \<Rightarrow> int" where
  "refresh_drift q t polys = (\<Sum>k<t. ((- 1) ^ k * int (t choose Suc k)) * zero_eval q (polys ! k) (int k + 1))"

lemma refreshed_combine:
  assumes "is_prime q" and "int t < q" and "length shares = t" and "length polys = t"
    and "\<forall>k < t. 0 \<le> shares ! k \<and> getPeerIndex (kr_nodeId (nodes ! k)) = int k + 1"
    and "\<forall>cs \<in> set polys. \<forall>c \<in> set cs. 0 \<le> c"
    and "combineSignatures q shares (signer_indices t) = Inr secret"
  shows "combineSignatures q (refreshed_shares q nodes peers shares polys) (signer_indices t)
    = Inr ((secret + refresh_drift q t polys mod q) mod q)"
proof (rule combine_add [OF assms(1-3) _ _ _ assms(7)])
  have q: "1 < q" by (rule is_prime_gt1 [OF assms(1)])
  show "combineSignatures q (map (\<lambda>k. zero_eval q (polys ! k) (int k + 1)) [0..<t]) (signer_indices t)
      = Inr (refresh_drift q t polys mod q)"
    by (simp add: combine_eq [OF assms(1,2)] refresh_drift_def)
  fix k assume k: "k < t"
  then have "polys ! k \<in> set polys" using assms(4) by simp
  then have nn: "\<forall>c \<in> set (polys ! k). 0 \<le> c" using assms(6) by blast
  have i: "getPeerIndex (kr_nodeId (nodes ! k)) = int k + 1" "0 \<le> shares ! k" using assms(5) k by blast+
  show "refreshed_shares q nodes peers shares polys ! k mod q
    = (shares ! k + map (\<lambda>k. zero_eval q (polys ! k) (int k + 1)) [0..<t] ! k) mod q"
    using k i assms(2,3) nn by (simp add: refreshed_shares_def refreshed_value_eq [OF q, of "shares ! k" "nodes ! k"])
qed (simp_all add: refreshed_shares_def assms(3))

text \<open>The drift as a function of the first coefficient of node 1, whose weight is \<open>t\<close>.\<close>

lemma refresh_drift_first:
  assumes "1 < q" and "0 < t" and "length polys = t" and "0 \<le> a" and "\<forall>c \<in> set cs. 0 \<le> c"
  shows "refresh_drift q t (polys[0 := a # cs]) mod q
    = (int t * a + refresh_drift q t (polys[0 := 0 # cs])) mod q"
proof -
  let ?c = "\<lambda>k. (- 1) ^ k * int (t choose Suc k)"
  have split: "refresh_drift q t (polys[0 := b # cs])
      = int t * zero_eval q (b # cs) 1 + (\<Sum>k\<in>{..<t} - {0}. ?c k * zero_eval q (polys ! k) (int k + 1))" for b
  proof -
    have "refresh_drift q t (polys[0 := b # cs])
        = int t * zero_eval q (b # cs) 1 + (\<Sum>k\<in>{..<t} - {0}. ?c k * zero_eval q (polys[0 := b # cs] ! k) (int k + 1))"
      unfolding refresh_drift_def using assms(2,3) by (subst sum.remove [of _ 0]) auto
    also have "(\<Sum>k\<in>{..<t} - {0}. ?c k * zero_eval q (polys[0 := b # cs] ! k) (int k + 1))
        = (\<Sum>k\<in>{..<t} - {0}. ?c k * zero_eval q (polys ! k) (int k + 1))"
      by (intro sum.cong) auto
    finally show ?thesis .
  qed
  have p: "poly_at (0 # b # cs) 1 = b + poly_at (0 # 0 # cs) 1" for b
  proof -
    have "poly_at ds 1 = sum_list ds" for ds by (simp add: poly_at_def sum_list_sum_nth atLeast0LessThan)
    then show ?thesis by simp
  qed
  have "zero_eval q (a # cs) 1 mod q = (a + zero_eval q (0 # cs) 1) mod q"
    using assms(1,4,5) by (simp add: zero_eval_eq p [of a] mod_add_right_eq)
  then have "(int t * zero_eval q (a # cs) 1) mod q = (int t * a + int t * zero_eval q (0 # cs) 1) mod q"
    by (metis mod_mult_right_eq distrib_left)
  then show ?thesis unfolding split by (metis (no_types, lifting) add.assoc mod_add_left_eq)
qed

lemma affine_root:
  assumes "is_prime q" and "0 < t" and "int t < q"
  shows "\<exists>!a. 0 \<le> a \<and> a < q \<and> (int t * a + D) mod q = 0"
proof (rule ex_ex1I)
  have q: "1 < q" by (rule is_prime_gt1 [OF assms(1)])
  have "\<not> q dvd int t" using assms(2,3) zdvd_imp_le by fastforce
  note c = is_prime_coprime [OF assms(1) this]
  obtain x where x: "(int t * x) mod q = 1"
    using modInverseOrder_ok [OF q, of "int t"] c by (auto simp: coprime_commute)
  have "(int t * ((- D * x) mod q) + D) mod q = (- D * (int t * x) + D) mod q"
    by (metis (no_types, opaque_lifting) mod_add_left_eq mod_mult_right_eq mult.left_commute)
  also have "\<dots> = (- D * 1 + D) mod q" by (metis x mod_add_left_eq mod_mult_right_eq)
  finally have "(int t * ((- D * x) mod q) + D) mod q = 0" by simp
  then show "\<exists>a. 0 \<le> a \<and> a < q \<and> (int t * a + D) mod q = 0"
    using q by (intro exI [of _ "(- D * x) mod q"]) simp
  fix a b
  assume a: "0 \<le> a \<and> a < q \<and> (int t * a + D) mod q = 0" and b: "0 \<le> b \<and> b < q \<and> (int t * b + D) mod q = 0"
  then have "q dvd (int t * a + D) - (int t * b + D)" by (intro dvd_diff) (auto intro: mod_0_imp_dvd)
  then have "q dvd int t * (a - b)" by (simp add: algebra_simps)
  then have "q dvd a - b" using c by (metis coprime_commute coprime_dvd_mult_right_iff)
  then show "a = b" using a b by (metis mod_eq_dvd_iff mod_pos_pos_trivial)
qed

text \<open>C18: A refresh of all \<open>t\<close> nodes. Had every node added the sub-shares the others computed for it, the
  secret would be preserved. As written each adds only the value of its own polynomial, and the shares
  interpolate to the secret plus the drift these values have. The secret is kept exactly when the drift
  is 0 modulo the order; and whatever else is drawn, that is so for exactly one of the \<open>q\<close> values of the
  first coefficient of node 1. With a threshold of 1 there are no coefficients and nothing changes.\<close>

theorem refresh_changes_secret:
  assumes "is_prime q" and "int t < q" and "length shares = t" and "length polys = t"
    and "\<forall>k < t. 0 \<le> shares ! k \<and> getPeerIndex (kr_nodeId (nodes ! k)) = int k + 1"
    and "\<forall>cs \<in> set polys. length cs < t \<and> (\<forall>c \<in> set cs. 0 \<le> c)"
    and "combineSignatures q shares (signer_indices t) = Inr secret"
  shows "combineSignatures q (refreshed_shares q nodes peers shares polys) (signer_indices t)
      = Inr ((secret + refresh_drift q t polys) mod q)
    \<and> (combineSignatures q (refreshed_shares q nodes peers shares polys) (signer_indices t) = Inr secret
        \<longleftrightarrow> refresh_drift q t polys mod q = 0)
    \<and> (polys \<noteq> [] \<and> polys ! 0 \<noteq> [] \<longrightarrow> (\<exists>!a. 0 \<le> a \<and> a < q
        \<and> combineSignatures q (refreshed_shares q nodes peers shares (polys[0 := a # tl (polys ! 0)])) (signer_indices t)
          = Inr secret))
    \<and> combineSignatures q (map (\<lambda>k. shares ! k + (\<Sum>cs\<leftarrow>polys. zero_eval q cs (int k + 1))) [0..<t])
        (signer_indices t) = Inr secret"
proof -
  have q: "1 < q" by (rule is_prime_gt1 [OF assms(1)])
  have s: "secret mod q = secret" by (rule combine_idem [OF assms(1-3,7)])
  note comb = refreshed_combine [OF assms(1-3) _ assms(5) _ assms(7), unfolded mod_add_right_eq]
  have nn: "\<forall>cs \<in> set polys. \<forall>c \<in> set cs. 0 \<le> c" using assms(6) by blast
  have kept: "(secret + d) mod q = secret \<longleftrightarrow> d mod q = 0" for d
    by (metis s add.commute add_diff_cancel_right' mod_eq_dvd_iff mod_0_imp_dvd dvd_imp_mod_0)
  have one: "\<exists>!a. 0 \<le> a \<and> a < q
      \<and> combineSignatures q (refreshed_shares q nodes peers shares (polys[0 := a # tl (polys ! 0)])) (signer_indices t)
        = Inr secret" if ne: "polys \<noteq> [] \<and> polys ! 0 \<noteq> []"
  proof -
    let ?P = "\<lambda>a. polys[0 := a # tl (polys ! 0)]"
    have t: "0 < t" using ne assms(4) by auto
    have "polys ! 0 \<in> set polys" using ne by simp
    then have tl: "\<forall>c \<in> set (tl (polys ! 0)). 0 \<le> c" using nn ne by (meson list.set_sel(2))
    have "combineSignatures q (refreshed_shares q nodes peers shares (?P a)) (signer_indices t) = Inr secret
        \<longleftrightarrow> (int t * a + refresh_drift q t (?P 0)) mod q = 0" if "0 \<le> a" for a
    proof -
      have "\<forall>cs \<in> set (?P a). \<forall>c \<in> set cs. 0 \<le> c"
        using nn tl that by (auto dest!: set_update_subset_insert [THEN subsetD])
      then show ?thesis
        using comb [where polys = "?P a" and peers = peers] assms(4) refresh_drift_first [OF q t assms(4) that tl] kept by simp
    qed
    then show ?thesis using affine_root [OF assms(1) t assms(2), of "refresh_drift q t (?P 0)"] by (metis (no_types, lifting))
  qed
  have "combineSignatures q (map (\<lambda>k. shares ! k + (\<Sum>cs\<leftarrow>polys. zero_eval q cs (int k + 1))) [0..<t])
        (signer_indices t) = Inr ((secret + 0) mod q)"
    by (rule combine_add [OF assms(1-3) _ _ _ assms(7) dealt_sums_zero [OF assms(1,2,6)]])
      (simp_all add: signer_indices_def)
  then show ?thesis using comb [OF assms(4) nn, where peers = peers] kept one s by simp
qed

definition toy_node :: "string \<Rightarrow> key_refresh" where
  "toy_node nodeId = refresh_new nodeId 2 2"

text \<open>Over the prime 13, two nodes hold the secret 5; after the refresh they hold 1.\<close>

theorem refresh_changes_secret_witness:
  "combineSignatures 13 [7, 9] (signer_indices 2) = Inr 5
   \<and> combineSignatures 13 (refreshed_shares 13 [toy_node ''node-1'', toy_node ''node-2''] [''node-1'', ''node-2'']
        [7, 9] [[1], [3]]) (signer_indices 2) = Inr 1
   \<and> (\<exists>!a. 0 \<le> a \<and> a < 13 \<and> combineSignatures 13 (refreshed_shares 13 [toy_node ''node-1'', toy_node ''node-2'']
        [''node-1'', ''node-2''] [7, 9] [[a], [3]]) (signer_indices 2) = Inr 5)"
proof -
  have p: "is_prime 13" by (rule is_primeI) (simp, code_simp)
  have idx: "\<forall>k < 2. 0 \<le> [7, 9 :: int] ! k
      \<and> getPeerIndex (kr_nodeId ([toy_node ''node-1'', toy_node ''node-2''] ! k)) = int k + 1"
    unfolding All_less_Suc2 numeral_2_eq_2 by (simp add: toy_node_def refresh_new_def) code_simp
  have a: "combineSignatures 13 [7, 9] (signer_indices 2) = Inr 5" by code_simp
  have d: "refresh_drift 13 2 [[1], [3]] mod 13 = 9" by code_simp
  show ?thesis
    using refresh_changes_secret [OF p _ _ _ idx _ a, of "[[1], [3]]" "[''node-1'', ''node-2'']"] a d
    by (simp add: mod_add_right_eq [of 5 "refresh_drift 13 2 [[1], [3]]" 13, symmetric])
qed

subsection \<open>A refresh that throws\<close>

text \<open>As the modules are written a refresh never returns a result: key generation throws. By then
  the sub-shares are sent and the share is already replaced, while the epoch and the Paillier keys
  are the old ones.\<close>

theorem refresh_never_completes:
  "case executeRefresh NotImported h E is_open tr st t of None \<Rightarrow> True
   | Some ((res, acts, st'), t') \<Rightarrow>
       (\<exists>e. res = Inl e) \<and> kr_epoch st' = kr_epoch st \<and> kr_paillier st' = kr_paillier st
       \<and> (st' = st \<or> (\<exists>share coeffs v. kr_share st = Some share \<and> sbi_get share = Inr v
            \<and> kr_share st' = Some (sbi_new (refreshed_value (ec_order E) (kr_nodeId st) coeffs
                (received_subshares st (getConnectedPeers tr)) v))))"
proof (cases "executeRefresh NotImported h E is_open tr st t")
  case (Some out)
  obtain res acts st' t' where out: "out = ((res, acts, st'), t')" by (cases out) auto
  note run = Some [unfolded out executeRefresh_def]
  show ?thesis
  proof (cases "(\<exists>share. kr_share st = Some share) \<and> (\<exists>keys. kr_paillier st = Some keys)")
    case False
    then have "(Inl (Error ''KeyRefreshEngine not initialized''), [], st) = (res, acts, st')"
      using run by (auto split: option.splits)
    then show ?thesis using Some out by auto
  next
    case True
    then obtain share keys where s: "kr_share st = Some share" "kr_paillier st = Some keys" by blast
    show ?thesis unfolding Some out using run s keygen_unbound [of 2048]
      by (auto simp: Let_def split: option.splits sum.splits prod.splits)
  qed
qed simp

subsection \<open>The proof of a sub-share\<close>

lemma generateSubShareZKP_Inr:
  assumes "ec_laws E G" and "ec_point_laws h E G raw"
    and "generateSubShareZKP h E st x t = Some (Inr proof, t')"
  obtains r e where "0 < r" and "r < ec_order E" and "0 < x" and "x < ec_order E"
    and "e = subshare_digest h (ec_order E) (h_bytesToHex h (raw r) @ '':'' @ h_bytesToHex h (raw x) @ '':''
                 @ kr_nodeId st @ '':'' @ dec (kr_epoch st))"
    and "proof = \<lparr>rz_commitmentR = ''0x'' @ h_bytesToHex h (raw r), rz_challengeE = ''0x'' @ hex64 e,
           rz_responseZ = ''0x'' @ hex64 ((r + e * x) smod ec_order E)\<rparr>"
proof -
  obtain r t1 where r: "randomScalar (ec_order E) t = Some (Inr r, t1)"
    using assms(3) unfolding generateSubShareZKP_def by (auto simp: result_simps)
  have rr: "0 < r" "r < ec_order E" using randomScalar_range [OF r] by blast+
  note eval = assms(3) [unfolded generateSubShareZKP_def rnd_bind_step [where m = "randomScalar (ec_order E)", OF r]
      rnd_lift_def ec_multiply_in [OF assms(1) rr] rbind.simps]
  have x: "0 < x" "x < ec_order E"
    using eval by (auto simp: result_simps ec_multiply_Inr_iff [OF assms(1)] eq_commute [of "Inr proof"])
  show thesis
    by (rule that [OF rr x refl])
      (use eval in \<open>simp add: ec_multiply_in [OF assms(1) x] assms(2) [unfolded ec_point_laws_def] rr x Let_def\<close>)
qed

lemma hex_without_0x:
  assumes "hex_laws h"
  shows "h_bytesToHex h bs @ '':'' @ a \<noteq> ''0x'' @ h_bytesToHex h bs @ '':'' @ b"
proof (cases bs)
  case Nil
  then show ?thesis using hex_lawsD(2) [OF assms, of "[]"] by simp
next
  case (Cons c cs)
  have t: "list_all (\<lambda>d. digit_char d \<noteq> CHR ''x'') [0..15]" by code_simp
  have "digit_char (uint c mod 16) \<noteq> CHR ''x''"
    using t byte_digits_range [of c] by (simp add: list_all_iff)
  then show ?thesis using assms by (simp add: hex_laws_def Cons byte_hex_eq)
qed

text \<open>What an honest node proves about a sub-share is accepted exactly when the digests of two texts
  that are never equal coincide: the verifier hashes the commitment with its \<open>0x\<close> prefix.\<close>

theorem subshare_proof_rejected:
  assumes "hex_laws h" and "ec_laws E G" and "ec_point_laws h E G raw"
    and "generateSubShareZKP h E st x t = Some (Inr proof, t')"
  shows "\<exists>proved checked. proved \<noteq> checked
    \<and> rz_challengeE proof = ''0x'' @ hex64 (subshare_digest h (ec_order E) proved)
    \<and> (verifySubShareZKP h E (''0x'' @ hex64 x) proof nodeId epoch \<longrightarrow>
         subshare_digest h (ec_order E) proved = subshare_digest h (ec_order E) checked)
    \<and> (subshare_digest h (ec_order E) proved = subshare_digest h (ec_order E) checked
       \<and> subshare_digest h (ec_order E) proved \<noteq> 0 \<and> rz_responseZ proof \<noteq> ''0x'' @ hex64 0
       \<longrightarrow> verifySubShareZKP h E (''0x'' @ hex64 x) proof nodeId epoch)"
proof -
  let ?q = "ec_order E"
  obtain r e where rr: "0 < r" "r < ?q" and x: "0 < x" "x < ?q"
    and e: "e = subshare_digest h ?q (h_bytesToHex h (raw r) @ '':'' @ h_bytesToHex h (raw x) @ '':''
                 @ kr_nodeId st @ '':'' @ dec (kr_epoch st))"
    and p: "proof = \<lparr>rz_commitmentR = ''0x'' @ h_bytesToHex h (raw r), rz_challengeE = ''0x'' @ hex64 e,
           rz_responseZ = ''0x'' @ hex64 ((r + e * x) smod ?q)\<rparr>"
    by (rule generateSubShareZKP_Inr [OF assms(2-4)])
  let ?proved = "h_bytesToHex h (raw r) @ '':'' @ h_bytesToHex h (raw x) @ '':'' @ kr_nodeId st @ '':'' @ dec (kr_epoch st)"
  let ?checked = "''0x'' @ h_bytesToHex h (raw r) @ '':'' @ h_bytesToHex h (raw x) @ '':'' @ nodeId @ '':'' @ dec epoch"
  have ne: "?proved \<noteq> ?checked" by (rule hex_without_0x [OF assms(1)])
  have q: "1 < ?q" by (rule ec_laws_simps(1) [OF assms(2)])
  have e0: "0 \<le> e" "e < ?q" unfolding e subshare_digest_def using q by (simp_all add: smod_nonneg)
  let ?z = "(r + e * x) smod ?q"
  have z: "?z = (r + e * x) mod ?q" using rr x e0 q by (simp add: smod_nonneg)
  have z0: "0 \<le> ?z" "?z < ?q" unfolding z using q by simp_all
  have C: "ec_BASE_multiply E x = Inr (G x)" by (rule ec_multiply_in [OF assms(2) x])
  have raw: "ec_toRawBytes E (G x) False = Inr (raw x)" "ec_fromHex E (h_bytesToHex h (raw r)) = Inr (G r)"
    and mult: "\<And>k. 0 < k \<Longrightarrow> k < ?q \<Longrightarrow> ec_multiply E (G x) k = Inr (G (x * k))"
    using assms(3) rr x unfolding ec_point_laws_def by blast+
  have eq: "ec_equals E (G ?z) (ec_add E (G r) (G (x * e)))"
    unfolding z by (simp add: ec_laws_simps(2,4) [OF assms(2)] mult.commute)
  have zG: "0 < ?z \<Longrightarrow> ec_BASE_multiply E ?z = Inr (G ?z)" by (rule ec_multiply_in [OF assms(2) _ z0(2)])
  have z_out: "\<not> 0 < ?z \<Longrightarrow> \<exists>err. ec_BASE_multiply E ?z = Inl err" by (rule ec_multiply_out [OF assms(2)]) simp
  have eval: "verifySubShareZKP h E (''0x'' @ hex64 x) proof nodeId epoch \<longleftrightarrow>
      e = subshare_digest h ?q ?checked
      \<and> (case rbind (ec_BASE_multiply E ?z) (\<lambda>zG. rbind (ec_multiply E (G x) e) (\<lambda>eC.
                   Inr (ec_equals E zG (ec_add E (G r) eC)))) of Inl err \<Rightarrow> False | Inr b \<Rightarrow> b)"
    (is "_ \<longleftrightarrow> _ \<and> ?equation")
    using x(1) z0(1) e0(1)
    by (simp add: verifySubShareZKP_def p parse_BigInt_0x_hex64 raw C Let_def)
  have "?equation" if "0 < e" "0 < ?z"
    using eq by (simp add: zG [OF that(2)] mult [OF that(1) e0(2)])
  then have acc: "e = subshare_digest h ?q ?checked \<Longrightarrow> 0 < e \<Longrightarrow> 0 < ?z \<Longrightarrow>
      verifySubShareZKP h E (''0x'' @ hex64 x) proof nodeId epoch"
    using eval by blast
  have resp: "rz_challengeE proof = ''0x'' @ hex64 e" "rz_responseZ proof = ''0x'' @ hex64 ?z" by (simp_all add: p)
  show ?thesis
  proof (rule exI [of _ ?proved], rule exI [of _ ?checked], unfold e [symmetric], intro conjI impI)
    assume "e = subshare_digest h ?q ?checked \<and> e \<noteq> 0 \<and> rz_responseZ proof \<noteq> ''0x'' @ hex64 0"
    then have "e = subshare_digest h ?q ?checked" "0 < e" "?z \<noteq> 0" using e0(1) resp(2) by auto
    with acc z0(1) show "verifySubShareZKP h E (''0x'' @ hex64 x) proof nodeId epoch" by linarith
  qed (use ne resp(1) eval in blast)+
qed

theorem subshare_proof_rejected_witness:
  "\<exists>proof t' proved checked. generateSubShareZKP toy_hashes (toy_ec 13) (toy_node ''node-1'') 3 (replicate 8 0 @ [5])
      = Some (Inr proof, t')
    \<and> proved \<noteq> checked \<and> rz_challengeE proof = ''0x'' @ hex64 (subshare_digest toy_hashes 13 proved)
    \<and> (if verifySubShareZKP toy_hashes (toy_ec 13) (''0x'' @ hex64 3) proof ''node-1'' 1
       then subshare_digest toy_hashes 13 proved = subshare_digest toy_hashes 13 checked else True)"
proof -
  have draw: "randomScalar 13 (replicate 8 0 @ [5]) = Some (Inr 5, [])" by code_simp
  have ord: "ec_order (toy_ec 13) = 13" by (simp add: toy_ec_def)
  obtain pf t' where run: "generateSubShareZKP toy_hashes (toy_ec 13) (toy_node ''node-1'') 3 (replicate 8 0 @ [5])
      = Some (Inr pf, t')"
    using draw by (simp add: generateSubShareZKP_def ord rnd_bind_def rnd_lift_def)
      (simp add: toy_ec_def Let_def)
  have "1 < (13 :: int)" by simp
  from subshare_proof_rejected [OF toy_hex_laws toy_ec_laws [OF this] toy_point_laws [of 13, simplified] run, of "''node-1''" 1]
  show ?thesis using run unfolding ord by auto
qed

end
