(* ===== verification/Queues.thy ===== *)
theory Queues
  imports Main "HOL-Library.Sublist"
begin

section \<open>Bounded queues\<close>

text \<open>
  The interface of a first-in first-out queue that refuses elements above a bound: what the
  pre-computation engine relies on when it stores tuples and hands them out.
\<close>

locale bounded_fifo =
  fixes items :: "'s \<Rightarrow> 'a list" and offer :: "'a \<Rightarrow> 's \<Rightarrow> 's" and poll :: "'s \<Rightarrow> 'a option \<times> 's"
    and bound :: "'s \<Rightarrow> int"
  assumes items_offer: "items (offer x s) = (if int (length (items s)) < bound s then items s @ [x] else items s)"
    and bound_offer: "bound (offer x s) = bound s"
    and items_poll: "(case fst (poll s) of None \<Rightarrow> [] | Some x \<Rightarrow> [x]) @ items (snd (poll s)) = items s"
    and bound_poll: "bound (snd (poll s)) = bound s"
begin

lemma bound_offers: "bound (foldl (\<lambda>s x. offer x s) s xs) = bound s"
  by (induction xs arbitrary: s) (simp_all add: bound_offer)

text \<open>Of a list offered one by one the queue takes the longest prefix that fits.\<close>

lemma items_offers:
  "items (foldl (\<lambda>s x. offer x s) s xs) = items s @ take (nat (bound s - int (length (items s)))) xs"
proof (induction xs arbitrary: s)
  case (Cons x xs)
  show ?case
  proof (cases "int (length (items s)) < bound s")
    case True
    then have "nat (bound s - int (length (items s))) = Suc (nat (bound s - int (length (items s @ [x]))))" by simp
    then show ?thesis using True by (simp only: foldl.simps Cons items_offer bound_offer if_True take_Suc_Cons) simp
  qed (simp add: Cons items_offer bound_offer)
qed simp

definition within :: "'s \<Rightarrow> bool" where
  "within s \<longleftrightarrow> int (length (items s)) \<le> max 0 (bound s)"

lemma within_offer: "within s \<Longrightarrow> within (offer x s)"
  by (auto simp: within_def items_offer bound_offer)

lemma within_offers: "within s \<Longrightarrow> within (foldl (\<lambda>s x. offer x s) s xs)"
  by (induction xs arbitrary: s) (simp_all add: within_offer)

lemma within_poll: "within s \<Longrightarrow> within (snd (poll s))"
  using arg_cong [OF items_poll [of s], of length] by (auto simp: within_def bound_poll split: option.splits)

text \<open>One step of a history: what is handed out, followed by what is left, keeps the order in which the
  elements were offered, and contains each offer at most once.\<close>

lemma offers_subseq: "subseq (items (foldl (\<lambda>s x. offer x s) s xs)) (items s @ xs)"
proof -
  have "subseq (take n xs) xs" for n by (metis append_take_drop_id list_emb_append2 subseq_order.order_refl
      list_emb_append_mono list_emb_Nil append_Nil2)
  then show ?thesis unfolding items_offers by (intro list_emb_append_mono) simp_all
qed

lemma history_step:
  assumes "subseq (out @ items s') (items s @ xs)" and "subseq (out' @ rest) (items s' @ ys)"
  shows "subseq ((out @ out') @ rest) (items s @ xs @ ys)"
proof -
  have "subseq (out @ (out' @ rest)) (out @ (items s' @ ys))"
    by (rule list_emb_append_mono [OF subseq_order.order_refl assms(2)])
  moreover have "subseq ((out @ items s') @ ys) ((items s @ xs) @ ys)"
    by (rule list_emb_append_mono [OF assms(1) subseq_order.order_refl])
  ultimately show ?thesis unfolding append_assoc by (rule subseq_order.order_trans)
qed

end

end
