(* ===== verification/PreComputation.thy ===== *)
theory PreComputation
  imports Curves SecureMemory SecureRandom Queues
begin

text \<open>
  Offline pre-signatures (protocol/signing_worker.ts and protocol/pre_computation_engine.ts): the
  worker that generates tuples, the engine that queues them, and the signature computed from a
  tuple. Both modules import \<open>CURVE_ORDER\<close> and \<open>modN\<close> from a module that exports neither; the order of
  the curve and the \<open>modN\<close> of crypto/secp256k1.ts are read in their place. The three readings of the
  clock are arguments. Events are values of the result; a worker is the index it was started with.
\<close>

subsection \<open>The worker\<close>

record PreSignatureTuple =
  ps_k :: string
  ps_gamma :: string
  ps_chi :: string
  ps_id :: string
  ps_timestamp :: int

definition generateTuple :: "hashes \<Rightarrow> 'p ec \<Rightarrow> int \<Rightarrow> int \<Rightarrow> PreSignatureTuple rnd" where
  "generateTuple h E now1 now2 =
     rnd_bind (randomScalar (ec_order E)) (\<lambda>k.
     rnd_lift (
       rbind (ec_BASE_multiply E k) (\<lambda>gammaPoint.
       rbind (ec_toRawBytes E gammaPoint False) (\<lambda>raw.
       rbind (ec_toRawBytes E gammaPoint True) (\<lambda>compressed.
       let gamma = ''0x'' @ h_bytesToHex h raw;
           chi = ''0x'' @ h_bytesToHex h (h_sha256 h compressed);
           tid = ''0x'' @ h_bytesToHex h (take 16 (h_sha256 h (utf8
                   (hex k @ '':'' @ gamma @ '':'' @ chi @ '':'' @ dec now1))))
       in Inr \<lparr>ps_k = ''0x'' @ hex64 k, ps_gamma = gamma, ps_chi = chi, ps_id = tid, ps_timestamp = now2\<rparr>)))))"

datatype worker_msg =
    WORKER_READY
  | TUPLE_BATCH "PreSignatureTuple list"
  | WORKER_STOPPED

text \<open>One batch: the i-th tuple reads the clock twice.\<close>

fun generateBatch :: "hashes \<Rightarrow> 'p ec \<Rightarrow> (nat \<Rightarrow> int \<times> int) \<Rightarrow> nat \<Rightarrow> PreSignatureTuple list rnd" where
  "generateBatch h E clock 0 = rnd_return []"
| "generateBatch h E clock (Suc n) =
     rnd_bind (generateBatch h E clock n) (\<lambda>batch.
     rnd_bind (generateTuple h E (fst (clock n)) (snd (clock n))) (\<lambda>tuple.
     rnd_return (batch @ [tuple])))"

text \<open>The life of a worker: the call of \<open>workerMain\<close>, the ticks of its interval, the messages it
  receives. The state says whether the thread runs; after \<open>process.exit\<close> nothing happens.\<close>

datatype worker_event =
    WorkerMain "nat \<Rightarrow> int \<times> int"
  | Tick "nat \<Rightarrow> int \<times> int"
  | StopMessage
  | OtherMessage

definition workerMain ::
  "hashes \<Rightarrow> 'p ec \<Rightarrow> nat \<Rightarrow> worker_event \<Rightarrow> bool \<Rightarrow> (worker_msg list \<times> bool) rnd" where
  "workerMain h E batchSize ev running =
     (case ev of
        WorkerMain clock \<Rightarrow> rnd_bind (generateBatch h E clock batchSize) (\<lambda>batch.
          rnd_return ([WORKER_READY, TUPLE_BATCH batch], True))
      | Tick clock \<Rightarrow>
          if running then rnd_bind (generateBatch h E clock batchSize) (\<lambda>batch.
            rnd_return ([TUPLE_BATCH batch], True))
          else rnd_return ([], False)
      | StopMessage \<Rightarrow> rnd_return (if running then [WORKER_STOPPED] else [], False)
      | OtherMessage \<Rightarrow> rnd_return ([], running))"

subsection \<open>The engine\<close>

record PreComputationConfig =
  pcc_workerCount :: int
  pcc_queueTargetSize :: int
  pcc_queueMaxSize :: int
  pcc_batchSize :: int
  pcc_lowWatermark :: int

record QueuedTuple =
  qt_id :: string
  qt_k :: SecureBigInt
  qt_gamma :: SecureBuffer
  qt_chi :: SecureBuffer
  qt_timestamp :: int

record precomp =
  pc_config :: PreComputationConfig
  pc_workers :: "int list"
  pc_queue :: "QueuedTuple list"
  pc_isRunning :: bool
  pc_totalGenerated :: int
  pc_totalConsumed :: int

datatype pc_event =
    WorkerReady int
  | WorkerError int js_error
  | Started int
  | Stopped
  | QueueEmpty
  | QueueLow int int
  | QueueFull
  | BatchIngested int int

definition or_default :: "int \<Rightarrow> int \<Rightarrow> int" where
  "or_default v d = (if v = 0 then d else v)"

text \<open>The arguments of the constructor; a missing field is 0, which the code treats alike. The default
  number of workers needs \<open>require\<close>, which an ES module does not have.\<close>

definition precomp_new :: "PreComputationConfig \<Rightarrow> precomp result" where
  "precomp_new config =
     (if pcc_workerCount config = 0 then Inl (ReferenceError ''require is not defined'')
      else Inr \<lparr>pc_config = \<lparr>pcc_workerCount = pcc_workerCount config,
                  pcc_queueTargetSize = or_default (pcc_queueTargetSize config) 1000,
                  pcc_queueMaxSize = or_default (pcc_queueMaxSize config) 5000,
                  pcc_batchSize = or_default (pcc_batchSize config) 10,
                  pcc_lowWatermark = or_default (pcc_lowWatermark config) 100\<rparr>,
                pc_workers = [], pc_queue = [], pc_isRunning = False, pc_totalGenerated = 0,
                pc_totalConsumed = 0\<rparr>)"

definition precomp_start :: "precomp \<Rightarrow> pc_event list \<times> precomp" where
  "precomp_start st =
     (if pc_isRunning st then ([], st)
      else ([Started (pcc_workerCount (pc_config st))],
            st\<lparr>pc_isRunning := True,
               pc_workers := pc_workers st @ map int [0..<nat (pcc_workerCount (pc_config st))]\<rparr>))"

definition release_tuple :: "QueuedTuple \<Rightarrow> QueuedTuple" where
  "release_tuple t = t\<lparr>qt_k := sbi_release (qt_k t), qt_gamma := sb_release (qt_gamma t),
     qt_chi := sb_release (qt_chi t)\<rparr>"

text \<open>The tuples released are the first component.\<close>

definition zeroizeQueue :: "precomp \<Rightarrow> QueuedTuple list \<times> precomp" where
  "zeroizeQueue st = (map release_tuple (pc_queue st), st\<lparr>pc_queue := []\<rparr>)"

text \<open>\<open>stop\<close> awaits the exit of the workers: what runs before, and what runs after.\<close>

definition precomp_stop_begin :: "precomp \<Rightarrow> int list \<times> precomp" where
  "precomp_stop_begin st = (pc_workers st, st\<lparr>pc_isRunning := False\<rparr>)"

definition precomp_stop_end :: "precomp \<Rightarrow> pc_event list \<times> QueuedTuple list \<times> precomp" where
  "precomp_stop_end st = (let (released, st') = zeroizeQueue (st\<lparr>pc_workers := []\<rparr>) in ([Stopped], released, st'))"

definition consumeTuple :: "precomp \<Rightarrow> QueuedTuple option \<times> pc_event list \<times> precomp" where
  "consumeTuple st =
     (case pc_queue st of
        [] \<Rightarrow> (None, [QueueEmpty], st)
      | tuple # rest \<Rightarrow>
          (Some tuple,
           if int (length rest) < pcc_lowWatermark (pc_config st) \<and> pc_isRunning st
           then [QueueLow (int (length rest)) (pcc_queueTargetSize (pc_config st))] else [],
           st\<lparr>pc_queue := rest, pc_totalConsumed := pc_totalConsumed st + 1\<rparr>))"

definition queued_tuple :: "PreSignatureTuple \<Rightarrow> QueuedTuple result" where
  "queued_tuple raw =
     rbind (sbi_fromSecureBuffer (sb_fromHex (ps_k raw))) (\<lambda>k.
     Inr \<lparr>qt_id = ps_id raw, qt_k = k, qt_gamma = sb_fromHex (ps_gamma raw),
          qt_chi = sb_fromHex (ps_chi raw), qt_timestamp = ps_timestamp raw\<rparr>)"

definition push_tuple :: "QueuedTuple \<Rightarrow> precomp \<Rightarrow> precomp" where
  "push_tuple tuple st = st\<lparr>pc_queue := pc_queue st @ [tuple], pc_totalGenerated := pc_totalGenerated st + 1\<rparr>"

definition queue_full :: "precomp \<Rightarrow> bool" where
  "queue_full st \<longleftrightarrow> int (length (pc_queue st)) \<ge> pcc_queueMaxSize (pc_config st)"

fun ingest_tuples :: "PreSignatureTuple list \<Rightarrow> precomp \<Rightarrow> unit result \<times> precomp" where
  "ingest_tuples [] st = (Inr (), st)"
| "ingest_tuples (raw # batch) st =
     (if queue_full st then (Inr (), st)
      else case queued_tuple raw of
        Inl e \<Rightarrow> (Inl e, st)
      | Inr tuple \<Rightarrow> ingest_tuples batch (push_tuple tuple st))"

definition ingestBatch :: "PreSignatureTuple list \<Rightarrow> precomp \<Rightarrow> pc_event list result \<times> precomp" where
  "ingestBatch batch st =
     (if \<not> pc_isRunning st then (Inr [], st)
      else if queue_full st then (Inr [QueueFull], st)
      else case ingest_tuples batch st of
        (Inl e, st') \<Rightarrow> (Inl e, st')
      | (Inr u, st') \<Rightarrow> (Inr [BatchIngested (int (length batch)) (int (length (pc_queue st')))], st'))"

text \<open>The handler of the messages of worker \<open>i\<close>.\<close>

definition on_worker_message :: "int \<Rightarrow> worker_msg \<Rightarrow> precomp \<Rightarrow> pc_event list result \<times> precomp" where
  "on_worker_message i msg st =
     (case msg of
        TUPLE_BATCH batch \<Rightarrow> ingestBatch batch st
      | WORKER_READY \<Rightarrow> (Inr [WorkerReady i], st)
      | WORKER_STOPPED \<Rightarrow> (Inr [], st))"

record precomp_stats =
  sz_queueSize :: int
  sz_totalGenerated :: int
  sz_totalConsumed :: int
  sz_workersActive :: int
  sz_isRunning :: bool

definition getStats :: "precomp \<Rightarrow> precomp_stats" where
  "getStats st = \<lparr>sz_queueSize = int (length (pc_queue st)), sz_totalGenerated = pc_totalGenerated st,
     sz_totalConsumed = pc_totalConsumed st, sz_workersActive = int (length (pc_workers st)),
     sz_isRunning = pc_isRunning st\<rparr>"

subsection \<open>Signing from a tuple\<close>

record online_signature =
  os_r :: string
  os_s :: string
  os_signatureHex :: string

text \<open>The scalars of the signature, computed inside \<open>try\<close>.\<close>

definition online_scalars ::
  "hashes \<Rightarrow> 'p ec \<Rightarrow> bytes \<Rightarrow> SecureBigInt \<Rightarrow> QueuedTuple \<Rightarrow> (int \<times> int) result" where
  "online_scalars h E messageHash privateShare tuple =
     (let q = ec_order E in
      rbind (sbi_get (qt_k tuple)) (\<lambda>k.
      rbind (sb_bytes (qt_gamma tuple)) (\<lambda>gammaBytes.
      rbind (ec_fromHex E (strip0x (h_bytesToHex h gammaBytes))) (\<lambda>gammaPoint.
      let r = modN q (ec_x E gammaPoint) in
      rbind (bytesToBigInt messageHash) (\<lambda>z.
      rbind (sbi_get privateShare) (\<lambda>x_i.
      rbind (modInverseOrder q k) (\<lambda>kInv.
      let rx = modN q (r * x_i);
          zPlusRx = modN q (z + rx);
          s = modN q (kInv * zPlusRx)
      in Inr (r, s))))))))"

text \<open>\<open>finally\<close> releases the tuple whether or not the signature was computed.\<close>

definition executeOnlineSign ::
  "hashes \<Rightarrow> 'p ec \<Rightarrow> bytes \<Rightarrow> SecureBigInt \<Rightarrow> QueuedTuple \<Rightarrow> online_signature result \<times> QueuedTuple" where
  "executeOnlineSign h E messageHash privateShare tuple =
     (rbind (online_scalars h E messageHash privateShare tuple) (\<lambda>(r, s).
        let rHex = ''0x'' @ hex64 r; sHex = ''0x'' @ hex64 s in
        Inr \<lparr>os_r = rHex, os_s = sHex, os_signatureHex = rHex @ drop 2 sHex\<rparr>),
      release_tuple tuple)"

subsection \<open>Sequences of calls and events\<close>

datatype pc_op =
    OpStart
  | OpStopBegin
  | OpStopEnd
  | OpMessage int worker_msg
  | OpConsume

text \<open>The tuples an operation hands out, the tuples it zeroizes, the state it leaves.\<close>

fun pc_apply :: "pc_op \<Rightarrow> precomp \<Rightarrow> QueuedTuple list \<times> QueuedTuple list \<times> precomp" where
  "pc_apply OpStart st = ([], [], snd (precomp_start st))"
| "pc_apply OpStopBegin st = ([], [], snd (precomp_stop_begin st))"
| "pc_apply OpStopEnd st = ([], snd (precomp_stop_end st))"
| "pc_apply (OpMessage i msg) st = ([], [], snd (on_worker_message i msg st))"
| "pc_apply OpConsume st =
     (let (t, evs, st') = consumeTuple st in (case t of None \<Rightarrow> [] | Some x \<Rightarrow> [x], [], st'))"

fun pc_run :: "pc_op list \<Rightarrow> precomp \<Rightarrow> QueuedTuple list \<times> QueuedTuple list \<times> precomp" where
  "pc_run [] st = ([], [], st)"
| "pc_run (op # ops) st =
     (let (handed, zeroized, st') = pc_apply op st; (handed', zeroized', st'') = pc_run ops st'
      in (handed @ handed', zeroized @ zeroized', st''))"

subsection \<open>The queue of the engine\<close>

definition made_tuple :: "PreSignatureTuple \<Rightarrow> QueuedTuple" where
  "made_tuple raw = \<lparr>qt_id = ps_id raw, qt_k = sbi_new (be_int (hex_pairs (clean_hex (ps_k raw)))),
     qt_gamma = sb_fromHex (ps_gamma raw), qt_chi = sb_fromHex (ps_chi raw), qt_timestamp = ps_timestamp raw\<rparr>"

lemma queued_tuple_eq: "queued_tuple raw = Inr (made_tuple raw)"
  by (simp add: queued_tuple_def made_tuple_def sbi_fromSecureBuffer_def sb_asBigInt_def sb_fromHex_def
      buffer.read_hold)

definition offer_tuple :: "QueuedTuple \<Rightarrow> precomp \<Rightarrow> precomp" where
  "offer_tuple t st = (if queue_full st then st else push_tuple t st)"

definition poll_tuple :: "precomp \<Rightarrow> QueuedTuple option \<times> precomp" where
  "poll_tuple st = (let (t, evs, st') = consumeTuple st in (t, st'))"

definition queue_bound :: "precomp \<Rightarrow> int" where
  "queue_bound st = pcc_queueMaxSize (pc_config st)"

interpretation tuples: bounded_fifo pc_queue offer_tuple poll_tuple queue_bound
  by unfold_locales (auto simp: offer_tuple_def push_tuple_def queue_full_def queue_bound_def poll_tuple_def
      consumeTuple_def split: list.splits)

lemma offer_full: "queue_full st \<Longrightarrow> foldl (\<lambda>st x. offer_tuple x st) st xs = st"
  by (induction xs) (simp_all add: offer_tuple_def)

lemma ingest_tuples_eq:
  "ingest_tuples batch st = (Inr (), foldl (\<lambda>st x. offer_tuple x st) st (map made_tuple batch))"
proof (induction batch arbitrary: st)
  case (Cons raw batch)
  have "queue_full st \<Longrightarrow> offer_tuple t st = st" "\<not> queue_full st \<Longrightarrow> offer_tuple t st = push_tuple t st" for t
    by (simp_all add: offer_tuple_def)
  then show ?case by (cases "queue_full st") (simp_all add: queued_tuple_eq offer_full Cons)
qed simp

lemma ingestBatch_eq:
  "snd (ingestBatch batch st) = foldl (\<lambda>st x. offer_tuple x st) st (if pc_isRunning st then map made_tuple batch else [])"
  by (simp add: ingestBatch_def ingest_tuples_eq offer_full)

text \<open>The tuples the workers deliver, in order.\<close>

fun delivered :: "pc_op list \<Rightarrow> QueuedTuple list" where
  "delivered [] = []"
| "delivered (OpMessage i (TUPLE_BATCH batch) # ops) = map made_tuple batch @ delivered ops"
| "delivered (op # ops) = delivered ops"

definition op_offers :: "pc_op \<Rightarrow> QueuedTuple list" where
  "op_offers op = delivered [op]"

lemma delivered_Cons: "delivered (op # ops) = op_offers op @ delivered ops"
proof (cases op)
  case (OpMessage i msg)
  then show ?thesis by (cases msg) (simp_all add: op_offers_def)
qed (simp_all add: op_offers_def)

text \<open>Accounting of the counters, and the bound of the queue.\<close>

lemma offers_counts:
  "pc_totalGenerated (foldl (\<lambda>st x. offer_tuple x st) st xs)
     - int (length (pc_queue (foldl (\<lambda>st x. offer_tuple x st) st xs)))
   = pc_totalGenerated st - int (length (pc_queue st))
   \<and> pc_totalConsumed (foldl (\<lambda>st x. offer_tuple x st) st xs) = pc_totalConsumed st
   \<and> pc_config (foldl (\<lambda>st x. offer_tuple x st) st xs) = pc_config st"
  by (induction xs arbitrary: st) (simp_all add: offer_tuple_def push_tuple_def)

lemma batch_message_step:
  fixes i :: int and batch and st
  defines "xs \<equiv> if pc_isRunning st then map made_tuple batch else []"
    and "st' \<equiv> snd (on_worker_message i (TUPLE_BATCH batch) st)"
  shows "subseq (pc_queue st') (pc_queue st @ op_offers (OpMessage i (TUPLE_BATCH batch)))
    \<and> (tuples.within st \<longrightarrow> tuples.within st')
    \<and> pc_totalConsumed st' = pc_totalConsumed st
    \<and> pc_totalGenerated st' - int (length (pc_queue st')) = pc_totalGenerated st - int (length (pc_queue st))
    \<and> pc_config st' = pc_config st"
proof -
  have e: "st' = foldl (\<lambda>st x. offer_tuple x st) st xs"
    by (simp add: st'_def xs_def on_worker_message_def ingestBatch_eq)
  have "subseq xs (op_offers (OpMessage i (TUPLE_BATCH batch)))" by (simp add: op_offers_def xs_def)
  then have "subseq (pc_queue st @ xs) (pc_queue st @ op_offers (OpMessage i (TUPLE_BATCH batch)))"
    by (intro list_emb_append_mono) simp_all
  then have "subseq (pc_queue st') (pc_queue st @ op_offers (OpMessage i (TUPLE_BATCH batch)))"
    unfolding e by (rule subseq_order.order_trans [OF tuples.offers_subseq])
  then show ?thesis using offers_counts [of st xs] tuples.within_offers [of st xs] by (simp add: e)
qed

lemma pc_apply_step:
  assumes "pc_apply op st = (handed, zeroized, st')"
  shows "subseq (handed @ pc_queue st') (pc_queue st @ op_offers op)"
    and "tuples.within st \<Longrightarrow> tuples.within st'"
    and "pc_totalConsumed st' = pc_totalConsumed st + int (length handed)"
    and "pc_totalGenerated st' - int (length (pc_queue st')) - pc_totalConsumed st'
      = pc_totalGenerated st - int (length (pc_queue st)) - pc_totalConsumed st + int (length zeroized)"
    and "pc_config st' = pc_config st" and "\<forall>t \<in> set zeroized. \<exists>u. t = release_tuple u"
proof -
  have "subseq (handed @ pc_queue st') (pc_queue st @ op_offers op)
    \<and> (tuples.within st \<longrightarrow> tuples.within st')
    \<and> pc_totalConsumed st' = pc_totalConsumed st + int (length handed)
    \<and> pc_totalGenerated st' - int (length (pc_queue st')) - pc_totalConsumed st'
      = pc_totalGenerated st - int (length (pc_queue st)) - pc_totalConsumed st + int (length zeroized)
    \<and> pc_config st' = pc_config st \<and> (\<forall>t \<in> set zeroized. \<exists>u. t = release_tuple u)"
  proof (cases op)
    case OpStart
    then show ?thesis using assms
      by (auto simp: precomp_start_def op_offers_def tuples.within_def queue_bound_def)
  next
    case OpStopBegin
    then show ?thesis using assms
      by (auto simp: precomp_stop_begin_def op_offers_def tuples.within_def queue_bound_def)
  next
    case OpStopEnd
    then show ?thesis using assms
      by (auto simp: precomp_stop_end_def zeroizeQueue_def op_offers_def tuples.within_def queue_bound_def)
  next
    case OpConsume
    have c: "consumeTuple st = (fst (consumeTuple st), fst (snd (consumeTuple st)), snd (poll_tuple st))"
      by (simp add: poll_tuple_def case_prod_beta)
    then have "zeroized = []" "st' = snd (poll_tuple st)" "handed = (case fst (poll_tuple st) of None \<Rightarrow> [] | Some x \<Rightarrow> [x])"
      using assms OpConsume by (auto simp: poll_tuple_def case_prod_beta)
    then show ?thesis using tuples.items_poll [of st] tuples.within_poll [of st]
      by (auto simp: op_offers_def OpConsume poll_tuple_def consumeTuple_def split: list.splits)
  next
    case (OpMessage i msg)
    show ?thesis
    proof (cases msg)
      case (TUPLE_BATCH batch)
      have m: "handed = []" "zeroized = []" "st' = snd (on_worker_message i msg st)"
        using assms by (auto simp: OpMessage TUPLE_BATCH)
      show ?thesis using batch_message_step [of i batch st] by (simp add: m OpMessage TUPLE_BATCH)
    qed (use assms in \<open>simp_all add: OpMessage on_worker_message_def op_offers_def\<close>)
  qed
  then show "subseq (handed @ pc_queue st') (pc_queue st @ op_offers op)"
    and "tuples.within st \<Longrightarrow> tuples.within st'"
    and "pc_totalConsumed st' = pc_totalConsumed st + int (length handed)"
    and "pc_totalGenerated st' - int (length (pc_queue st')) - pc_totalConsumed st'
      = pc_totalGenerated st - int (length (pc_queue st)) - pc_totalConsumed st + int (length zeroized)"
    and "pc_config st' = pc_config st" and "\<forall>t \<in> set zeroized. \<exists>u. t = release_tuple u"
    by blast+
qed

lemma pc_run_steps:
  assumes "pc_run ops st = (handed, zeroized, st')"
  shows "subseq (handed @ pc_queue st') (pc_queue st @ delivered ops)
    \<and> (tuples.within st \<longrightarrow> tuples.within st')
    \<and> pc_totalConsumed st' = pc_totalConsumed st + int (length handed)
    \<and> pc_totalGenerated st' - int (length (pc_queue st')) - pc_totalConsumed st'
      = pc_totalGenerated st - int (length (pc_queue st)) - pc_totalConsumed st + int (length zeroized)
    \<and> pc_config st' = pc_config st \<and> (\<forall>t \<in> set zeroized. \<exists>u. t = release_tuple u)"
  using assms
proof (induction ops arbitrary: st handed zeroized)
  case (Cons op ops)
  obtain h z st1 where one: "pc_apply op st = (h, z, st1)" by (cases "pc_apply op st") auto
  obtain h' z' where rest: "pc_run ops st1 = (h', z', st')" and out: "handed = h @ h'" "zeroized = z @ z'"
    using Cons.prems by (auto simp: one split: prod.splits)
  note step = pc_apply_step [OF one] and IH = Cons.IH [OF rest]
  have "subseq ((h @ h') @ pc_queue st') (pc_queue st @ op_offers op @ delivered ops)"
    by (rule tuples.history_step [OF step(1)]) (use IH in blast)
  then show ?case using step IH unfolding out delivered_Cons by auto
qed simp

lemma precomp_new_fresh:
  "precomp_new config = Inr st \<Longrightarrow> pc_queue st = [] \<and> pc_totalGenerated st = 0 \<and> pc_totalConsumed st = 0
    \<and> \<not> pc_isRunning st \<and> pc_workers st = []
    \<and> pcc_queueMaxSize (pc_config st) = or_default (pcc_queueMaxSize config) 5000"
  by (auto simp: precomp_new_def split: if_splits)

subsection \<open>Properties\<close>

text \<open>C11: The queue never exceeds its configured maximum and its counters account for every tuple:
  what was stored was handed out, is queued, or was zeroized by \<open>stop\<close> and can no longer be read.\<close>

theorem precomputation_bounds:
  assumes "precomp_new config = Inr st0" and "pc_run ops st0 = (handed, zeroized, st)"
  shows "sz_queueSize (getStats st) \<le> max 0 (or_default (pcc_queueMaxSize config) 5000)
    \<and> sz_totalConsumed (getStats st) = int (length handed)
    \<and> sz_totalGenerated (getStats st) = int (length handed) + sz_queueSize (getStats st) + int (length zeroized)
    \<and> (\<forall>t \<in> set zeroized. sbi_get (qt_k t) = Inl (Error ''SecureBigInt: Attempted access after release''))"
proof -
  note fresh = precomp_new_fresh [OF assms(1)] and run = pc_run_steps [OF assms(2)]
  have "tuples.within st0" using fresh by (simp add: tuples.within_def)
  then have "tuples.within st" using run by blast
  moreover have "\<forall>t \<in> set zeroized. sbi_get (qt_k t) = Inl (Error ''SecureBigInt: Attempted access after release'')"
    using run by (auto simp: release_tuple_def scalar.read_release)
  ultimately show ?thesis using run fresh by (simp add: getStats_def tuples.within_def queue_bound_def)
qed

text \<open>C10: Tuples leave the queue in the order the workers delivered them and each at most once: no nonce
  is handed out for two signatures, in any interleaving of batches, consumers, starts and stops.\<close>

theorem precomputation_fifo:
  assumes "precomp_new config = Inr st0" and "pc_run ops st0 = (handed, zeroized, st)"
  shows "subseq (handed @ pc_queue st) (delivered ops)
    \<and> (distinct (map qt_k (delivered ops)) \<longrightarrow> distinct (map qt_k handed))"
proof
  show s: "subseq (handed @ pc_queue st) (delivered ops)"
    using pc_run_steps [OF assms(2)] precomp_new_fresh [OF assms(1)] by simp
  have "subseq (map qt_k (handed @ pc_queue st)) (map qt_k (delivered ops))" by (rule subseq_map [OF s])
  then show "distinct (map qt_k (delivered ops)) \<longrightarrow> distinct (map qt_k handed)"
    by (metis append_assoc distinct_append map_append subseq_conv_nths distinct_nthsI)
qed

text \<open>\<open>stop\<close> awaits its workers without a guard: a \<open>start\<close> in the meantime leaves an engine that runs,
  accepts batches, and knows none of its workers, so no later \<open>stop\<close> reaches them.\<close>

theorem stop_loses_new_workers:
  assumes "precomp_new config = Inr st0" and "0 < or_default (pcc_queueMaxSize config) 5000"
  shows "case pc_run [OpStart, OpStopBegin, OpStart, OpStopEnd] st0 of (handed, zeroized, st) \<Rightarrow>
      pc_isRunning st \<and> fst (precomp_stop_begin st) = []
      \<and> pc_queue (snd (on_worker_message i (TUPLE_BATCH [raw]) st)) = [made_tuple raw]"
  using precomp_new_fresh [OF assms(1)] assms(2)
  by (simp add: precomp_start_def precomp_stop_begin_def precomp_stop_end_def zeroizeQueue_def
      on_worker_message_def ingestBatch_def ingest_tuples_eq queue_full_def)
    (simp add: offer_tuple_def push_tuple_def queue_full_def)

subsection \<open>Signing from a generated tuple\<close>

lemma generateTuple_Inr:
  assumes "ec_laws E G" and "ec_point_laws h E G raw" and "generateTuple h E now1 now2 t = Some (Inr tup, t')"
  obtains k where "0 < k" and "k < ec_order E" and "ps_k tup = ''0x'' @ hex64 k"
    and "ps_gamma tup = ''0x'' @ h_bytesToHex h (raw k)"
proof -
  obtain k t1 where k: "randomScalar (ec_order E) t = Some (Inr k, t1)"
    using assms(3) unfolding generateTuple_def by (auto simp: result_simps)
  have kk: "0 < k" "k < ec_order E" using randomScalar_range [OF k] by blast+
  have raw: "ec_toRawBytes E (G k) False = Inr (raw k)" using assms(2) kk unfolding ec_point_laws_def by blast
  note run = assms(3) [unfolded generateTuple_def rnd_bind_step [where m = "randomScalar (ec_order E)", OF k]
      rnd_lift_def ec_multiply_in [OF assms(1) kk] rbind.simps raw Let_def]
  show thesis
    by (rule that [OF kk]; use run in \<open>cases "ec_toRawBytes E (G k) True"; auto\<close>)
qed

lemma strip0x_hex:
  assumes "hex_laws h"
  shows "strip0x (h_bytesToHex h bs) = h_bytesToHex h bs"
proof -
  have t: "list_all (\<lambda>d. digit_char d \<noteq> CHR ''x'') [0..15]" by code_simp
  have "CHR ''x'' \<notin> set (concat (map byte_hex bs))"
  proof
    assume "CHR ''x'' \<in> set (concat (map byte_hex bs))"
    then obtain d where "0 \<le> d" "d < 16" "digit_char d = CHR ''x''" using hex_bytes_chars by metis
    then show False using t by (simp add: list_all_iff)
  qed
  moreover have "CHR ''x'' \<notin> set s \<Longrightarrow> strip0x s = s" for s by (induction s rule: strip0x.induct) auto
  ultimately show ?thesis using assms by (simp add: hex_laws_def)
qed

lemma made_tuple_nonce:
  assumes "0 \<le> k" and "k < 2 ^ 256" and "ps_k raw = ''0x'' @ hex64 k"
  shows "sbi_get (qt_k (made_tuple raw)) = Inr k"
proof -
  have "clean_hex (ps_k raw) = padStart (32 * 2) CHR ''0'' (hex k)" by (simp add: assms(3) clean_hex_def hex64_def)
  moreover have "be_int (hex_pairs (padStart (32 * 2) CHR ''0'' (hex k))) = k"
    by (rule hex_pairs_padded(1)) (use assms(1,2) in simp_all)
  ultimately show ?thesis by (simp only: made_tuple_def QueuedTuple.simps scalar.read_hold)
qed

text \<open>C27: Signing from a tuple of a worker gives the scalars of the interactive partial signature with the
  same nonce, and leaves a tuple no further signature can be computed from.\<close>

theorem online_sign_equals_partial:
  assumes "hex_laws h" and "ec_laws E G" and "ec_point_laws h E G raw" and "is_prime (ec_order E)"
    and "ec_order E \<le> 2 ^ 256" and "generateTuple h E now1 now2 t = Some (Inr tup, t')" and "sbi_get share = Inr x"
  shows "\<exists>k. 0 < k \<and> k < ec_order E
    \<and> online_scalars h E m share (made_tuple tup) = rbind (generatePartialSignature E x m k) (\<lambda>(r, s, R). Inr (r, s))
    \<and> fst (executeOnlineSign h E m' share (snd (executeOnlineSign h E m share (made_tuple tup))))
        = Inl (Error ''SecureBigInt: Attempted access after release'')"
proof -
  let ?q = "ec_order E"
  obtain k where k: "0 < k" "k < ?q" and tup: "ps_k tup = ''0x'' @ hex64 k" "ps_gamma tup = ''0x'' @ h_bytesToHex h (raw k)"
    by (rule generateTuple_Inr [OF assms(2,3,6)])
  have nonce: "sbi_get (qt_k (made_tuple tup)) = Inr k" by (rule made_tuple_nonce [OF _ _ tup(1)]) (use k assms(5) in simp_all)
  have gamma: "sb_bytes (qt_gamma (made_tuple tup)) = Inr (raw k)"
    by (simp add: made_tuple_def tup(2) sb_fromHex_def clean_hex_def hex_lawsD(5) [OF assms(1)] buffer.read_hold)
  have point: "ec_fromHex E (strip0x (h_bytesToHex h (raw k))) = Inr (G k)" "ec_toRawBytes E (G k) False = Inr (raw k)"
    using assms(3) k by (simp_all add: ec_point_laws_def strip0x_hex [OF assms(1)])
  have "\<not> ?q dvd k" using k by (simp add: zdvd_not_zless)
  then have "coprime k ?q" using is_prime_coprime [OF assms(4)] by (simp add: coprime_commute)
  then obtain kInv where inv: "modInverseOrder ?q k = Inr kInv"
    using modInverseOrder_ok [OF is_prime_gt1 [OF assms(4)]] by blast
  have "online_scalars h E m share (made_tuple tup) = rbind (generatePartialSignature E x m k) (\<lambda>(r, s, R). Inr (r, s))"
    by (cases "bytesToBigInt m")
      (simp_all add: online_scalars_def generatePartialSignature_def nonce gamma point assms(7) inv Let_def
        ec_multiply_in [OF assms(2) k])
  then show ?thesis using k
    by (intro exI [of _ k]) (simp add: executeOnlineSign_def release_tuple_def online_scalars_def scalar.read_release Let_def)
qed

subsection \<open>A small engine\<close>

definition toy_precomp_config :: PreComputationConfig where
  "toy_precomp_config = \<lparr>pcc_workerCount = 2, pcc_queueTargetSize = 4, pcc_queueMaxSize = 2, pcc_batchSize = 3,
     pcc_lowWatermark = 1\<rparr>"

definition toy_raw :: "string \<Rightarrow> PreSignatureTuple" where
  "toy_raw k = \<lparr>ps_k = ''0x'' @ k, ps_gamma = ''0x04'', ps_chi = ''0x'', ps_id = k, ps_timestamp = 0\<rparr>"

definition toy_precomp :: precomp where
  "toy_precomp = \<lparr>pc_config = toy_precomp_config, pc_workers = [], pc_queue = [], pc_isRunning = False,
     pc_totalGenerated = 0, pc_totalConsumed = 0\<rparr>"

text \<open>A batch of three into a queue of two, one consumer, a stop.\<close>

definition toy_ops :: "pc_op list" where
  "toy_ops = [OpStart, OpMessage 0 (TUPLE_BATCH [toy_raw ''01'', toy_raw ''02'', toy_raw ''03'']), OpConsume,
     OpStopBegin, OpStopEnd]"

lemma toy_precomp_new: "precomp_new toy_precomp_config = Inr toy_precomp"
  by (simp add: precomp_new_def toy_precomp_config_def toy_precomp_def or_default_def)

lemma toy_run: "pc_run toy_ops toy_precomp
  = ([made_tuple (toy_raw ''01'')], [release_tuple (made_tuple (toy_raw ''02''))],
     toy_precomp\<lparr>pc_totalGenerated := 2, pc_totalConsumed := 1\<rparr>)"
  by code_simp

theorem precomputation_bounds_witness:
  "sz_queueSize (getStats (toy_precomp\<lparr>pc_totalGenerated := 2, pc_totalConsumed := 1\<rparr>)) \<le> 2
   \<and> sz_totalGenerated (getStats (toy_precomp\<lparr>pc_totalGenerated := 2, pc_totalConsumed := 1\<rparr>)) = 1 + 0 + 1"
  using precomputation_bounds [OF toy_precomp_new toy_run]
  by (simp add: toy_precomp_config_def or_default_def getStats_def toy_precomp_def)

theorem precomputation_fifo_witness:
  "subseq [made_tuple (toy_raw ''01'')] (map made_tuple [toy_raw ''01'', toy_raw ''02'', toy_raw ''03''])
   \<and> distinct (map qt_k [made_tuple (toy_raw ''01'')])"
  using precomputation_fifo [OF toy_precomp_new toy_run] by (simp add: toy_ops_def toy_precomp_def)

theorem stop_loses_new_workers_witness:
  "case pc_run [OpStart, OpStopBegin, OpStart, OpStopEnd] toy_precomp of (handed, zeroized, st) \<Rightarrow>
      pc_isRunning st \<and> fst (precomp_stop_begin st) = []
      \<and> pc_queue (snd (on_worker_message 1 (TUPLE_BATCH [toy_raw ''01'']) st)) = [made_tuple (toy_raw ''01'')]"
  by (rule stop_loses_new_workers [OF toy_precomp_new]) (simp add: toy_precomp_config_def or_default_def)

theorem online_sign_equals_partial_witness:
  "\<exists>tup t' k. generateTuple toy_hashes (toy_ec 11) 0 0 (replicate 8 0 @ [5]) = Some (Inr tup, t') \<and> 0 < k \<and> k < 11
    \<and> online_scalars toy_hashes (toy_ec 11) [7] (sbi_new 3) (made_tuple tup)
      = rbind (generatePartialSignature (toy_ec 11) 3 [7] k) (\<lambda>(r, s, R). Inr (r, s))
    \<and> fst (executeOnlineSign toy_hashes (toy_ec 11) [8] (sbi_new 3)
          (snd (executeOnlineSign toy_hashes (toy_ec 11) [7] (sbi_new 3) (made_tuple tup))))
        = Inl (Error ''SecureBigInt: Attempted access after release'')"
proof -
  have draw: "randomScalar 11 (replicate 8 0 @ [5]) = Some (Inr 5, [])" by code_simp
  have ord: "ec_order (toy_ec 11) = 11" by (simp add: toy_ec_def)
  obtain tup t' where run: "generateTuple toy_hashes (toy_ec 11) 0 0 (replicate 8 0 @ [5]) = Some (Inr tup, t')"
    using draw by (simp add: generateTuple_def ord rnd_bind_def rnd_lift_def) (simp add: toy_ec_def Let_def)
  have p: "is_prime (ec_order (toy_ec 11))" unfolding ord by (rule is_primeI; code_simp)
  have q: "1 < (11 :: int)" "ec_order (toy_ec 11) \<le> 2 ^ 256" by (simp_all add: ord)
  show ?thesis
    using online_sign_equals_partial [OF toy_hex_laws toy_ec_laws [OF q(1)] toy_point_laws [of 11, simplified] p q(2) run
        scalar.read_hold, of "[7]" 3 "[8]"] run
    unfolding ord by blast
qed

end
