(* ===== verification/License.thy ===== *)
theory License
  imports Complex_Main Serializer Hsm Json Sanitize
begin

text \<open>
  Licensing (lib/licensing): the signed license, the hardware fingerprint, the heartbeat tokens and the
  telemetry. What the platform answers to the readers of the fingerprint is a record; the master key
  of the environment, the clock and the random numbers are arguments. The modules import each other
  through paths that do not exist, and hardware_fingerprint.ts holds a line break inside a quoted
  string; the imports are read as meant and the string as the line feed.
\<close>

subsection \<open>The license\<close>

record TransactionQuota =
  tq_period :: string
  tq_maxTransactions :: int
  tq_maxVolumeUSD :: int

record LicenseBlob =
  lb_licenseId :: string
  lb_customerId :: string
  lb_tier :: string
  lb_featureFlags :: "string list"
  lb_nodeLimit :: int
  lb_transactionQuota :: TransactionQuota
  lb_notBefore :: int
  lb_notAfter :: int
  lb_hardwareFingerprint :: "string option"
  lb_gracePeriodHours :: int
  lb_issuedAt :: int
  lb_signature :: string

record LicenseVerificationResult =
  lv_valid :: bool
  lv_expired :: bool
  lv_inGracePeriod :: bool
  lv_gracePeriodEndsAt :: "int option"
  lv_reason :: "string option"
  lv_features :: "string list"
  lv_nodeLimit :: int

definition license_fields :: "LicenseBlob \<Rightarrow> (string \<times> js_val) list" where
  "license_fields blob =
     [(''licenseId'', VStr (lb_licenseId blob)), (''customerId'', VStr (lb_customerId blob)),
      (''tier'', VStr (lb_tier blob)), (''featureFlags'', VArr (map VStr (lb_featureFlags blob))),
      (''nodeLimit'', VNum (lb_nodeLimit blob)),
      (''txPeriod'', VStr (tq_period (lb_transactionQuota blob))),
      (''txMax'', VNum (tq_maxTransactions (lb_transactionQuota blob))),
      (''txVolume'', VNum (tq_maxVolumeUSD (lb_transactionQuota blob))),
      (''notBefore'', VNum (lb_notBefore blob)), (''notAfter'', VNum (lb_notAfter blob)),
      (''hwFingerprint'', VStr (case lb_hardwareFingerprint blob of None \<Rightarrow> [] | Some f \<Rightarrow> f)),
      (''graceHours'', VNum (lb_gracePeriodHours blob)), (''issuedAt'', VNum (lb_issuedAt blob))]"

definition serializeLicenseData :: "hashes \<Rightarrow> LicenseBlob \<Rightarrow> bytes result" where
  "serializeLicenseData h blob =
     rbind (pack h ''LICENSE_BLOB'' (license_fields blob)) (\<lambda>payload. Inr (sp_bytes payload))"

definition signLicenseBlob :: "hashes \<Rightarrow> ed25519 \<Rightarrow> LicenseBlob \<Rightarrow> bytes \<Rightarrow> LicenseBlob result" where
  "signLicenseBlob h D blob masterPrivateKey =
     rbind (serializeLicenseData h blob) (\<lambda>serialized.
     rbind (ed_sign D serialized masterPrivateKey) (\<lambda>sig.
     Inr (blob\<lparr>lb_signature := ''0x'' @ h_bytesToHex h sig\<rparr>)))"

definition license_authentic :: "hashes \<Rightarrow> ed25519 \<Rightarrow> string \<Rightarrow> LicenseBlob \<Rightarrow> bool result" where
  "license_authentic h D masterKey blob =
     rbind (serializeLicenseData h blob) (\<lambda>serialized.
     rbind (h_hexToBytes h (strip0x masterKey)) (\<lambda>pub.
     rbind (h_hexToBytes h (strip0x (lb_signature blob))) (\<lambda>sig.
     ed_verify D sig serialized pub)))"

definition grace_end :: "LicenseBlob \<Rightarrow> int" where
  "grace_end blob = lb_notAfter blob + lb_gracePeriodHours blob * 3600 * 1000"

definition verifyLicenseBlob ::
  "hashes \<Rightarrow> ed25519 \<Rightarrow> string \<Rightarrow> int \<Rightarrow> LicenseBlob \<Rightarrow> LicenseVerificationResult" where
  "verifyLicenseBlob h D masterKey now blob =
     (let result = \<lparr>lv_valid = False, lv_expired = False, lv_inGracePeriod = False, lv_gracePeriodEndsAt = None,
            lv_reason = None, lv_features = lb_featureFlags blob, lv_nodeLimit = lb_nodeLimit blob\<rparr>
      in case license_authentic h D masterKey blob of
           Inl e \<Rightarrow> result\<lparr>lv_reason := Some ''SIGNATURE_VERIFICATION_FAILED''\<rparr>
         | Inr False \<Rightarrow> result\<lparr>lv_reason := Some ''INVALID_SIGNATURE''\<rparr>
         | Inr True \<Rightarrow>
             (if now < lb_notBefore blob then result\<lparr>lv_reason := Some ''NOT_YET_VALID''\<rparr>
              else if now > lb_notAfter blob
              then (if now < grace_end blob
                    then result\<lparr>lv_expired := True, lv_inGracePeriod := True,
                           lv_gracePeriodEndsAt := Some (grace_end blob), lv_valid := True\<rparr>
                    else result\<lparr>lv_expired := True, lv_reason := Some ''EXPIRED''\<rparr>)
              else result\<lparr>lv_valid := True\<rparr>))"

definition hasFeature :: "LicenseBlob \<Rightarrow> string \<Rightarrow> bool" where
  "hasFeature blob feature \<longleftrightarrow> feature \<in> set (lb_featureFlags blob)"

subsection \<open>The hardware fingerprint\<close>

text \<open>What the file system, the child processes and the network interfaces answer: \<open>None\<close> or \<open>Inl\<close>
  when reading fails.\<close>

record platform =
  pf_ekpub :: "string option"
  pf_cpuinfo :: "string result"
  pf_nets :: "(string \<times> (bool \<times> string) list) list result"
  pf_disk :: "string result"
  pf_cgroup :: "string option"
  pf_hostname :: "string option"

datatype fingerprint_source = TPM | SEV_SNP | TDX | CPUID_MAC_DISK | CONTAINER | FALLBACK

record HardwareFingerprint =
  hf_fingerprint :: string
  hf_source :: fingerprint_source
  hf_components :: "(string \<times> string) list"
  hf_confidence :: rat

definition sha_hex :: "hashes \<Rightarrow> string \<Rightarrow> string" where
  "sha_hex h s = ''0x'' @ h_bytesToHex h (h_sha256 h (utf8 s))"

definition readTPMEKpub :: "platform \<Rightarrow> string option" where
  "readTPMEKpub P = pf_ekpub P"

text \<open>Every reader catches its own errors.\<close>

definition readCPUID :: "platform \<Rightarrow> string result" where
  "readCPUID P = (case pf_cpuinfo P of Inl e \<Rightarrow> Inr ''unknown-cpu'' | Inr s \<Rightarrow> Inr (js_trim s))"

definition readMACAddress :: "platform \<Rightarrow> string result" where
  "readMACAddress P =
     (case pf_nets P of
        Inl e \<Rightarrow> Inr ''unknown-mac''
      | Inr nets \<Rightarrow>
          (case filter (\<lambda>(internal, mac). \<not> internal \<and> mac \<noteq> []) (concat (map snd nets)) of
             [] \<Rightarrow> Inr ''00:00:00:00:00:00''
           | (internal, mac) # _ \<Rightarrow> Inr mac))"

definition readDiskSerial :: "platform \<Rightarrow> string result" where
  "readDiskSerial P = (case pf_disk P of Inl e \<Rightarrow> Inr ''unknown-disk'' | Inr s \<Rightarrow> Inr (js_trim s))"

definition readContainerIdentity :: "platform \<Rightarrow> string" where
  "readContainerIdentity P =
     js_trim (case pf_hostname P of None \<Rightarrow> ''unknown'' | Some s \<Rightarrow> s) @ '':''
     @ hd (split_on CHR 0x0A (case pf_cgroup P of None \<Rightarrow> [] | Some s \<Rightarrow> s))"

definition tpm_fingerprint :: "hashes \<Rightarrow> string \<Rightarrow> HardwareFingerprint" where
  "tpm_fingerprint h tpm = \<lparr>hf_fingerprint = sha_hex h (''tpm:'' @ tpm), hf_source = TPM,
     hf_components = [(''ekpub'', sha_hex h tpm)], hf_confidence = 1\<rparr>"

definition cpu_fingerprint :: "hashes \<Rightarrow> platform \<Rightarrow> HardwareFingerprint result" where
  "cpu_fingerprint h P =
     rbind (readCPUID P) (\<lambda>cpuId.
     rbind (readMACAddress P) (\<lambda>macAddr.
     rbind (readDiskSerial P) (\<lambda>diskSerial.
     Inr \<lparr>hf_fingerprint = sha_hex h (cpuId @ '':'' @ macAddr @ '':'' @ diskSerial), hf_source = CPUID_MAC_DISK,
          hf_components = [(''cpuId'', sha_hex h cpuId), (''mac'', sha_hex h macAddr), (''disk'', sha_hex h diskSerial)],
          hf_confidence = 7 / 10\<rparr>)))"

definition container_fingerprint :: "hashes \<Rightarrow> platform \<Rightarrow> HardwareFingerprint" where
  "container_fingerprint h P =
     (let containerId = readContainerIdentity P in
      \<lparr>hf_fingerprint = sha_hex h (''container:'' @ containerId), hf_source = CONTAINER,
       hf_components = [(''containerId'', sha_hex h containerId)], hf_confidence = 3 / 10\<rparr>)"

definition generateHardwareFingerprint :: "hashes \<Rightarrow> platform \<Rightarrow> HardwareFingerprint" where
  "generateHardwareFingerprint h P =
     (case readTPMEKpub P of
        Some (c # cs) \<Rightarrow> tpm_fingerprint h (c # cs)
      | _ \<Rightarrow> (case cpu_fingerprint h P of Inr f \<Rightarrow> f | Inl e \<Rightarrow> container_fingerprint h P))"

record fingerprint_check =
  fc_matches :: bool
  fc_score :: "rat option"
  fc_reason :: "string option"

text \<open>With no stored components the score is \<open>0 / 0\<close>, which is \<open>NaN\<close>: \<open>None\<close>.\<close>

definition matching_components :: "(string \<times> string) list \<Rightarrow> (string \<times> string) list \<Rightarrow> nat" where
  "matching_components stored current = length (filter (\<lambda>(key, storedHash). map_of current key = Some storedHash) stored)"

definition verifyHardwareFingerprint ::
  "hashes \<Rightarrow> platform \<Rightarrow> HardwareFingerprint \<Rightarrow> fingerprint_check" where
  "verifyHardwareFingerprint h P stored =
     (let current = generateHardwareFingerprint h P in
      if hf_fingerprint current = hf_fingerprint stored
      then \<lparr>fc_matches = True, fc_score = Some 1, fc_reason = None\<rparr>
      else
        let total = length (hf_components stored);
            score = (if total = 0 then None
              else Some (of_nat (matching_components (hf_components stored) (hf_components current)) / of_nat total))
        in if hf_source stored = CPUID_MAC_DISK \<and> (case score of None \<Rightarrow> False | Some s \<Rightarrow> s \<ge> 66 / 100)
           then \<lparr>fc_matches = True, fc_score = score, fc_reason = Some ''Partial match (hardware change detected)''\<rparr>
           else \<lparr>fc_matches = False, fc_score = score,
                 fc_reason = Some (''Hardware fingerprint mismatch ''
                   @ [CHR 0xE2, CHR 0x80, CHR 0x94] @ '' possible license cloning'')\<rparr>)"

subsection \<open>Heartbeats\<close>

definition HEARTBEAT_INTERVAL_MS :: int where "HEARTBEAT_INTERVAL_MS = 5 * 60 * 1000"
definition EPOCH_DURATION_MS :: int where "EPOCH_DURATION_MS = 5 * 60 * 1000"

record HeartbeatToken =
  hb_epoch :: int
  hb_nodeId :: string
  hb_hwFingerprint :: string
  hb_usageHash :: string
  hb_timestamp :: int
  hb_token :: string

definition heartbeat_mac :: "hashes \<Rightarrow> bytes \<Rightarrow> HeartbeatToken \<Rightarrow> string" where
  "heartbeat_mac h secretKey t =
     ''0x'' @ h_bytesToHex h (h_hmac_sha256 h secretKey (utf8
       (dec (hb_epoch t) @ '':'' @ hb_nodeId t @ '':'' @ hb_hwFingerprint t @ '':'' @ hb_usageHash t @ '':''
        @ dec (hb_timestamp t))))"

definition generateHeartbeat ::
  "hashes \<Rightarrow> (rat \<Rightarrow> string) \<Rightarrow> int \<Rightarrow> string \<Rightarrow> HardwareFingerprint \<Rightarrow> (string \<times> js_number) list \<Rightarrow> bytes \<Rightarrow> HeartbeatToken" where
  "generateHeartbeat h num now nodeId hw usageCounters secretKey =
     (let usageData = json_text num (JObj (map (\<lambda>(k, v). (k, json_number v)) usageCounters));
          t = \<lparr>hb_epoch = now div EPOCH_DURATION_MS, hb_nodeId = nodeId, hb_hwFingerprint = hf_fingerprint hw,
               hb_usageHash = sha_hex h usageData, hb_timestamp = now, hb_token = []\<rparr>
      in t\<lparr>hb_token := heartbeat_mac h secretKey t\<rparr>)"

definition verifyHeartbeat :: "hashes \<Rightarrow> int \<Rightarrow> HeartbeatToken \<Rightarrow> bytes \<Rightarrow> string \<Rightarrow> bool \<times> string option" where
  "verifyHeartbeat h now token secretKey expectedHwFingerprint =
     (if \<bar>now div EPOCH_DURATION_MS - hb_epoch token\<bar> > 2 then (False, Some ''EPOCH_EXPIRED'')
      else if hb_hwFingerprint token \<noteq> expectedHwFingerprint then (False, Some ''HARDWARE_MISMATCH'')
      else if hb_token token \<noteq> heartbeat_mac h secretKey token then (False, Some ''INVALID_HMAC'')
      else (True, None))"

text \<open>A \<open>Set\<close> keeps its elements in insertion order.\<close>

definition set_add :: "'a \<Rightarrow> 'a list \<Rightarrow> 'a list" where
  "set_add x xs = (if x \<in> set xs then xs else xs @ [x])"

definition epoch_hardware :: "HeartbeatToken list \<Rightarrow> (int, string list) js_map" where
  "epoch_hardware tokens = foldl (\<lambda>m t.
     jm_set m (hb_epoch t) (set_add (hb_hwFingerprint t) (case jm_get m (hb_epoch t) of None \<Rightarrow> [] | Some s \<Rightarrow> s)))
     [] tokens"

record cloning_report =
  cr_cloned :: bool
  cr_evidence :: string
  cr_fingerprints :: "string list"

definition detectCloning :: "HeartbeatToken list \<Rightarrow> string \<Rightarrow> cloning_report" where
  "detectCloning tokens licenseId =
     (case filter (\<lambda>(epoch, fingerprints). 1 < length fingerprints) (epoch_hardware tokens) of
        [] \<Rightarrow> \<lparr>cr_cloned = False, cr_evidence = [], cr_fingerprints = []\<rparr>
      | (epoch, fingerprints) # _ \<Rightarrow>
          \<lparr>cr_cloned = True,
           cr_evidence = ''License '' @ licenseId @ '' detected on '' @ dec (int (length fingerprints))
             @ '' different hardware instances in epoch '' @ dec epoch,
           cr_fingerprints = fingerprints\<rparr>)"

subsection \<open>Telemetry\<close>

text \<open>The uniform draw is \<open>u\<close>; \<open>mlog\<close> stands for \<open>Math.log\<close> on positive arguments. At \<open>u = 0\<close> the
  logarithm is minus infinity and the sum is clamped to 0.\<close>

definition addLaplaceNoise :: "(rat \<Rightarrow> rat) \<Rightarrow> rat \<Rightarrow> rat \<Rightarrow> rat \<Rightarrow> rat \<Rightarrow> rat" where
  "addLaplaceNoise mlog u value epsilon sensitivity =
     (if u = 0 then 0
      else let sign = (if u < 1 / 2 then - 1 else 1);
               noise = - (sensitivity / epsilon) * sign * mlog (1 - 2 * \<bar>u - 1 / 2\<bar>)
           in max 0 (value + noise))"

definition js_round :: "rat \<Rightarrow> rat" where
  "js_round x = of_int \<lfloor>x + 1 / 2\<rfloor>"

text \<open>The same for the volume, which need not be finite: \<open>Math.max(0, NaN)\<close> is \<open>NaN\<close>.\<close>

fun noisy_volume :: "(rat \<Rightarrow> rat) \<Rightarrow> rat \<Rightarrow> js_number \<Rightarrow> rat \<Rightarrow> js_number" where
  "noisy_volume mlog u (Finite v) epsilon = Finite (js_round (addLaplaceNoise mlog u (v / 1000) epsilon 1) * 1000)"
| "noisy_volume mlog u Infinity epsilon = (if u = 0 then NotANumber else Infinity)"
| "noisy_volume mlog u MinusInfinity epsilon = Finite 0"
| "noisy_volume mlog u NotANumber epsilon = NotANumber"

record raw_metrics =
  rm_totalTransactions :: rat
  rm_totalVolumeUSD :: js_number
  rm_activeNodes :: rat
  rm_avgSigningLatencyMs :: rat
  rm_errorRatePercent :: rat
  rm_uniqueChains :: rat
  rm_dkgCount :: rat
  rm_signCount :: rat
  rm_refreshCount :: rat

record DifferentiallyPrivateMetrics =
  dp_totalTransactions :: rat
  dp_totalVolumeUSD :: js_number
  dp_activeNodes :: rat
  dp_avgSigningLatencyMs :: rat
  dp_errorRatePercent :: rat
  dp_uniqueChains :: rat
  dp_dkgCount :: rat
  dp_signCount :: rat
  dp_refreshCount :: rat

record TelemetryPayload =
  tp_customerId :: string
  tp_licenseId :: string
  tp_start :: int
  tp_end :: int
  tp_metrics :: DifferentiallyPrivateMetrics
  tp_schemaVersion :: int

text \<open>The five draws are \<open>u 0\<close> to \<open>u 4\<close>.\<close>

definition generateTelemetry ::
  "(rat \<Rightarrow> rat) \<Rightarrow> (nat \<Rightarrow> rat) \<Rightarrow> string \<Rightarrow> string \<Rightarrow> raw_metrics \<Rightarrow> int \<Rightarrow> int \<Rightarrow> rat \<Rightarrow> TelemetryPayload" where
  "generateTelemetry mlog u customerId licenseId raw periodStart periodEnd epsilon =
     \<lparr>tp_customerId = customerId, tp_licenseId = licenseId, tp_start = periodStart, tp_end = periodEnd,
      tp_metrics = \<lparr>
        dp_totalTransactions = js_round (addLaplaceNoise mlog (u 0) (rm_totalTransactions raw) epsilon 1),
        dp_totalVolumeUSD = noisy_volume mlog (u 1) (rm_totalVolumeUSD raw) epsilon,
        dp_activeNodes = js_round (addLaplaceNoise mlog (u 2) (rm_activeNodes raw) epsilon 1),
        dp_avgSigningLatencyMs = js_round (addLaplaceNoise mlog (u 3) (rm_avgSigningLatencyMs raw) epsilon 1),
        dp_errorRatePercent = max 0 (min 100 (addLaplaceNoise mlog (u 4) (rm_errorRatePercent raw) epsilon (1 / 10))),
        dp_uniqueChains = rm_uniqueChains raw, dp_dkgCount = rm_dkgCount raw, dp_signCount = rm_signCount raw,
        dp_refreshCount = rm_refreshCount raw\<rparr>,
      tp_schemaVersion = 1\<rparr>"

definition telemetry_json :: "TelemetryPayload \<Rightarrow> json" where
  "telemetry_json p =
     (let m = tp_metrics p in
      JObj [(''customerId'', JStr (tp_customerId p)), (''licenseId'', JStr (tp_licenseId p)),
        (''reportingPeriod'', JObj [(''start'', JNum (of_int (tp_start p))), (''end'', JNum (of_int (tp_end p)))]),
        (''metrics'', JObj [(''totalTransactions'', JNum (dp_totalTransactions m)),
           (''totalVolumeUSD'', json_number (dp_totalVolumeUSD m)), (''activeNodes'', JNum (dp_activeNodes m)),
           (''avgSigningLatencyMs'', JNum (dp_avgSigningLatencyMs m)),
           (''errorRatePercent'', JNum (dp_errorRatePercent m)), (''uniqueChains'', JNum (dp_uniqueChains m)),
           (''mpcCeremonies'', JObj [(''dkgCount'', JNum (dp_dkgCount m)), (''signCount'', JNum (dp_signCount m)),
              (''refreshCount'', JNum (dp_refreshCount m))])]),
        (''schemaVersion'', JNum (of_int (tp_schemaVersion p)))])"

record TelemetryExport =
  te_payload :: TelemetryPayload
  te_signature :: string
  te_exportedAt :: int

definition verifyTelemetry ::
  "binding \<Rightarrow> ed25519 \<Rightarrow> (rat \<Rightarrow> string) \<Rightarrow> TelemetryExport \<Rightarrow> bytes \<Rightarrow> bool" where
  "verifyTelemetry rq D num telemetry publicKey =
     (case (case rq of
              NotImported \<Rightarrow> Inl (ReferenceError ''require is not defined'')
            | Imported \<Rightarrow> ed_verify D (buffer_from_hex (strip0x (te_signature telemetry)))
                (utf8 (json_text num (telemetry_json (te_payload telemetry)))) publicKey) of
        Inl e \<Rightarrow> False
      | Inr b \<Rightarrow> b)"

subsection \<open>Properties of the license\<close>

lemma license_valid_cases:
  "lv_valid (verifyLicenseBlob h D masterKey now blob) \<longleftrightarrow>
     license_authentic h D masterKey blob = Inr True \<and> lb_notBefore blob \<le> now
     \<and> (now \<le> lb_notAfter blob \<or> now < grace_end blob)"
  by (cases "license_authentic h D masterKey blob")
    (auto simp: verifyLicenseBlob_def Let_def split: bool.splits)

text \<open>A license is valid exactly when its serialization carries the signature of the master key and the
  clock is between the two dates, or past the second by less than the grace period.\<close>

theorem license_valid_iff:
  "lv_valid (verifyLicenseBlob h D masterKey now blob) \<longleftrightarrow>
     license_authentic h D masterKey blob = Inr True \<and> lb_notBefore blob \<le> now
     \<and> (now \<le> lb_notAfter blob \<or> now < grace_end blob)"
  by (rule license_valid_cases)

lemma issued_license_valid:
  assumes "hex_laws h" and "ed_laws D" and "signLicenseBlob h D blob sk = Inr issued"
    and "ed_getPublicKey D sk = Inr pk" and "lb_notBefore blob \<le> now" and "now < grace_end blob"
  shows "lv_valid (verifyLicenseBlob h D (''0x'' @ h_bytesToHex h pk) now issued)
    \<and> lb_featureFlags issued = lb_featureFlags blob \<and> lb_nodeLimit issued = lb_nodeLimit blob"
proof -
  obtain data sig where data: "serializeLicenseData h blob = Inr data" and sig: "ed_sign D data sk = Inr sig"
    and issued: "issued = blob\<lparr>lb_signature := ''0x'' @ h_bytesToHex h sig\<rparr>"
    using assms(3) by (auto simp: signLicenseBlob_def result_simps)
  have "serializeLicenseData h issued = Inr data"
    using data by (simp add: issued serializeLicenseData_def license_fields_def)
  moreover have "ed_verify D sig data pk = Inr True" using assms(2,4) sig unfolding ed_laws_def by blast
  ultimately have "license_authentic h D (''0x'' @ h_bytesToHex h pk) issued = Inr True"
    by (simp add: license_authentic_def issued hex_lawsD(1) [OF assms(1)])
  then show ?thesis using assms(5,6) unfolding license_valid_cases by (simp add: issued grace_end_def)
qed

text \<open>Signing and verifying: a license the master key issued is valid for the whole of its period, and for
  its grace period, with the features and the node limit it was issued with.\<close>

theorem license_sign_verify:
  assumes "hex_laws h" and "ed_laws D" and "signLicenseBlob h D blob sk = Inr issued"
    and "ed_getPublicKey D sk = Inr pk" and "lb_notBefore blob \<le> now" and "now < grace_end blob"
  shows "lv_valid (verifyLicenseBlob h D (''0x'' @ h_bytesToHex h pk) now issued)
    \<and> lb_featureFlags issued = lb_featureFlags blob \<and> lb_nodeLimit issued = lb_nodeLimit blob"
  by (rule issued_license_valid [OF assms])

definition toy_license :: LicenseBlob where
  "toy_license = \<lparr>lb_licenseId = ''L1'', lb_customerId = ''C1'', lb_tier = ''BUSINESS'', lb_featureFlags = [''mpc''],
     lb_nodeLimit = 3, lb_transactionQuota = \<lparr>tq_period = ''MONTHLY'', tq_maxTransactions = 2, tq_maxVolumeUSD = 100\<rparr>,
     lb_notBefore = 10, lb_notAfter = 1000, lb_hardwareFingerprint = None, lb_gracePeriodHours = 1, lb_issuedAt = 5,
     lb_signature = []\<rparr>"

lemma toy_license_signed: "\<exists>issued. signLicenseBlob toy_hashes toy_ed toy_license [1] = Inr issued"
proof -
  have "case pack_fields 0 (license_fields toy_license) of Inl e \<Rightarrow> False | Inr b \<Rightarrow> length b < 1000" by code_simp
  then obtain body where "pack_fields 0 (license_fields toy_license) = Inr body" "length body < 1000"
    by (cases "pack_fields 0 (license_fields toy_license)") auto
  then show ?thesis
    by (simp add: signLicenseBlob_def serializeLicenseData_def pack_def MAX_PAYLOAD_SIZE_def Let_def toy_ed_def)
qed

theorem license_sign_verify_witness:
  "\<exists>issued. signLicenseBlob toy_hashes toy_ed toy_license [1] = Inr issued
    \<and> lv_valid (verifyLicenseBlob toy_hashes toy_ed (''0x'' @ h_bytesToHex toy_hashes (toy_hash [1])) 500 issued)"
proof -
  obtain issued where s: "signLicenseBlob toy_hashes toy_ed toy_license [1] = Inr issued"
    using toy_license_signed by blast
  have "ed_getPublicKey toy_ed [1] = Inr (toy_hash [1])" by (simp add: toy_ed_def)
  from license_sign_verify [OF toy_hex_laws toy_ed_laws s this, of 500] s show ?thesis
    by (simp add: toy_license_def grace_end_def)
qed

lemma license_data_throws:
  assumes "0xFFFFFFFF < lb_notAfter blob \<or> 0xFFFFFFFF < lb_issuedAt blob \<or> 0xFFFFFFFF < lb_notBefore blob"
  shows "\<exists>e. serializeLicenseData h blob = Inl e"
proof -
  have "(''notAfter'', VNum (lb_notAfter blob)) \<in> set (license_fields blob)"
    "(''issuedAt'', VNum (lb_issuedAt blob)) \<in> set (license_fields blob)"
    "(''notBefore'', VNum (lb_notBefore blob)) \<in> set (license_fields blob)"
    by (simp_all add: license_fields_def)
  with assms obtain e where "pack_fields 0 (license_fields blob) = Inl e" using pack_fields_big by metis
  then show ?thesis by (simp add: serializeLicenseData_def pack_def)
qed

text \<open>C35: The dates are milliseconds, and the serializer throws on numbers above \<open>2^32 - 1\<close>: no license whose
  dates or date of issue lie after 19 February 1970 can be signed, and after that day plus the grace
  period no license is valid.\<close>

theorem license_never_valid:
  assumes "0xFFFFFFFF < lb_issuedAt blob
    \<or> 0xFFFFFFFF < now \<and> 0xFFFFFFFF + lb_gracePeriodHours blob * 3600 * 1000 \<le> now"
  shows "\<not> lv_valid (verifyLicenseBlob h D masterKey now blob)
    \<and> (0xFFFFFFFF < lb_issuedAt blob \<or> now \<le> lb_notAfter blob
       \<longrightarrow> (\<exists>e. signLicenseBlob h D blob masterPrivateKey = Inl e))"
proof
  show "\<not> lv_valid (verifyLicenseBlob h D masterKey now blob)"
  proof
    assume v: "lv_valid (verifyLicenseBlob h D masterKey now blob)"
    then have "license_authentic h D masterKey blob = Inr True" unfolding license_valid_cases by blast
    then have "\<nexists>e. serializeLicenseData h blob = Inl e" by (auto simp: license_authentic_def)
    then have "lb_notAfter blob \<le> 0xFFFFFFFF" "lb_issuedAt blob \<le> 0xFFFFFFFF"
      using license_data_throws [of blob h] by (meson not_le)+
    then show False using assms v unfolding license_valid_cases grace_end_def by linarith
  qed
  show "0xFFFFFFFF < lb_issuedAt blob \<or> now \<le> lb_notAfter blob
       \<longrightarrow> (\<exists>e. signLicenseBlob h D blob masterPrivateKey = Inl e)"
  proof
    assume "0xFFFFFFFF < lb_issuedAt blob \<or> now \<le> lb_notAfter blob"
    then have "0xFFFFFFFF < lb_notAfter blob \<or> 0xFFFFFFFF < lb_issuedAt blob \<or> 0xFFFFFFFF < lb_notBefore blob"
      using assms by linarith
    then obtain e where "serializeLicenseData h blob = Inl e" using license_data_throws by blast
    then show "\<exists>e. signLicenseBlob h D blob masterPrivateKey = Inl e" by (simp add: signLicenseBlob_def)
  qed
qed

subsection \<open>Properties of the fingerprint\<close>

lemma cpu_fingerprint_returns:
  obtains f a b c where "cpu_fingerprint h P = Inr f" and "hf_source f = CPUID_MAC_DISK"
    and "hf_components f = [(''cpuId'', a), (''mac'', b), (''disk'', c)]"
proof -
  obtain a where a: "readCPUID P = Inr a" by (cases "pf_cpuinfo P") (auto simp: readCPUID_def)
  obtain b where b: "readMACAddress P = Inr b"
  proof (cases "pf_nets P")
    case (Inr nets)
    then show ?thesis using that
      by (cases "filter (\<lambda>(internal, mac). \<not> internal \<and> mac \<noteq> []) (concat (map snd nets))")
        (auto simp: readMACAddress_def)
  qed (use that in \<open>simp add: readMACAddress_def\<close>)
  obtain c where c: "readDiskSerial P = Inr c" by (cases "pf_disk P") (auto simp: readDiskSerial_def)
  show thesis
    by (rule that [OF cpu_fingerprint_def [of h P, unfolded a b c rbind.simps]])
      (simp_all only: HardwareFingerprint.simps)
qed

text \<open>The container fallback is dead code: the readers it should catch catch their own errors, so a
  machine that answers nothing has the fingerprint of the three texts "unknown".\<close>

theorem container_fallback_unreachable:
  "hf_source (generateHardwareFingerprint h P) \<in> {TPM, CPUID_MAC_DISK}"
proof -
  obtain f where "cpu_fingerprint h P = Inr f" "hf_source f = CPUID_MAC_DISK" by (rule cpu_fingerprint_returns)
  then show ?thesis
    by (auto simp: generateHardwareFingerprint_def readTPMEKpub_def tpm_fingerprint_def split: option.splits list.splits)
qed

text \<open>The hashes of the three components of a machine.\<close>

definition component_hashes :: "hashes \<Rightarrow> platform \<Rightarrow> string list" where
  "component_hashes h P = (case cpu_fingerprint h P of Inl e \<Rightarrow> [] | Inr f \<Rightarrow> map snd (hf_components f))"

text \<open>Between two machines without a TPM, a stored fingerprint matches when it is equal, or when at least
  two of the three component hashes agree.\<close>

theorem fingerprint_partial_match:
  assumes "pf_ekpub P = None" and "pf_ekpub P' = None"
  shows "fc_matches (verifyHardwareFingerprint h P (generateHardwareFingerprint h P')) \<longleftrightarrow>
      hf_fingerprint (generateHardwareFingerprint h P) = hf_fingerprint (generateHardwareFingerprint h P')
      \<or> 2 \<le> length (filter (\<lambda>(a, b). a = b) (zip (component_hashes h P) (component_hashes h P')))"
proof -
  obtain f a b c where f: "cpu_fingerprint h P = Inr f"
    and fc: "hf_components f = [(''cpuId'', a), (''mac'', b), (''disk'', c)]" by (rule cpu_fingerprint_returns)
  obtain g x y z where g: "cpu_fingerprint h P' = Inr g" "hf_source g = CPUID_MAC_DISK"
    and gc: "hf_components g = [(''cpuId'', x), (''mac'', y), (''disk'', z)]" by (rule cpu_fingerprint_returns)
  have gen: "generateHardwareFingerprint h P = f" "generateHardwareFingerprint h P' = g"
    by (simp_all add: generateHardwareFingerprint_def readTPMEKpub_def assms f g(1))
  let ?n = "length (filter (\<lambda>(a, b). a = b) (zip (component_hashes h P) (component_hashes h P')))"
  have n: "?n = of_bool (a = x) + of_bool (b = y) + of_bool (c = z)"
    by (simp add: component_hashes_def f g(1) fc gc)
  have m: "matching_components (hf_components g) (hf_components f) = ?n" unfolding n
    by (simp add: matching_components_def fc gc)
  have len: "length (hf_components g) = 3" by (simp add: gc)
  have score: "66 / 100 \<le> (of_nat ?n :: rat) / of_nat 3 \<longleftrightarrow> 2 \<le> ?n"
    unfolding n by (cases "a = x"; cases "b = y"; cases "c = z") simp_all
  show ?thesis
  proof (cases "hf_fingerprint f = hf_fingerprint g")
    case False
    then show ?thesis
      by (simp only: verifyHardwareFingerprint_def gen Let_def m len g(2) score option.case if_False simp_thms
          fingerprint_check.simps if_distrib [of fc_matches] numeral_eq_iff zero_neq_numeral [symmetric] not_False_eq_True
          if_True) simp
  qed (simp add: verifyHardwareFingerprint_def gen)
qed

subsection \<open>Properties of the heartbeats\<close>

lemma heartbeat_verifies:
  "fst (verifyHeartbeat h now (generateHeartbeat h num issued nodeId hw usage secretKey) secretKey (hf_fingerprint hw))
     \<longleftrightarrow> \<bar>now div 300000 - issued div 300000\<bar> \<le> 2"
  by (simp add: verifyHeartbeat_def generateHeartbeat_def Let_def EPOCH_DURATION_MS_def heartbeat_mac_def)

text \<open>A token verifies under its own secret and fingerprint exactly while the clock is at most two
  epochs away, before or after: up to fifteen minutes, not ten.\<close>

theorem heartbeat_window:
  "fst (verifyHeartbeat h now (generateHeartbeat h num issued nodeId hw usage secretKey) secretKey (hf_fingerprint hw))
     \<longleftrightarrow> \<bar>now div 300000 - issued div 300000\<bar> \<le> 2"
  by (rule heartbeat_verifies)

lemma epoch_hardware_get:
  fixes tokens :: "HeartbeatToken list"
  shows "jm_inv (epoch_hardware tokens)
    \<and> (case jm_get (epoch_hardware tokens) e of
         None \<Rightarrow> \<forall>t \<in> set tokens. hb_epoch t \<noteq> e
       | Some s \<Rightarrow> distinct s \<and> s \<noteq> [] \<and> set s = hb_hwFingerprint ` {t \<in> set tokens. hb_epoch t = e})"
proof (induction tokens rule: rev_induct)
  case Nil
  show ?case by (simp add: epoch_hardware_def js_map.inv_emp)
next
  case (snoc t tokens)
  have "epoch_hardware (tokens @ [t]) = jm_set (epoch_hardware tokens) (hb_epoch t)
      (set_add (hb_hwFingerprint t) (case jm_get (epoch_hardware tokens) (hb_epoch t) of None \<Rightarrow> [] | Some s \<Rightarrow> s))"
    by (simp add: epoch_hardware_def)
  then show ?case using snoc
    by (auto simp: js_map.inv_put set_add_def split: option.splits)
qed

text \<open>Cloning is reported exactly when two tokens of one epoch name different hardware; which license
  the tokens belong to is not looked at.\<close>

theorem detects_cloning_iff:
  "cr_cloned (detectCloning tokens licenseId) \<longleftrightarrow>
     (\<exists>t \<in> set tokens. \<exists>t' \<in> set tokens. hb_epoch t = hb_epoch t' \<and> hb_hwFingerprint t \<noteq> hb_hwFingerprint t')"
proof -
  let ?m = "epoch_hardware tokens"
  have inv: "jm_inv ?m" using epoch_hardware_get by blast
  have mem: "(e, s) \<in> set ?m \<longleftrightarrow> jm_get ?m e = Some s" for e s
    using inv by (simp add: jm_inv_def jm_get_def)
  have "cr_cloned (detectCloning tokens licenseId) \<longleftrightarrow> (\<exists>(e, s) \<in> set ?m. 1 < length s)"
    by (auto simp: detectCloning_def filter_empty_conv split: list.splits dest!: filter_eq_ConsD)
  also have "\<dots> \<longleftrightarrow> (\<exists>e s. jm_get ?m e = Some s \<and> 1 < length s)" using mem by auto
  also have "\<dots> \<longleftrightarrow> (\<exists>t \<in> set tokens. \<exists>t' \<in> set tokens. hb_epoch t = hb_epoch t' \<and> hb_hwFingerprint t \<noteq> hb_hwFingerprint t')"
  proof
    assume "\<exists>e s. jm_get ?m e = Some s \<and> 1 < length s"
    then obtain e s where s: "jm_get ?m e = Some s" "1 < length s" by blast
    then have ds: "distinct s" "set s = hb_hwFingerprint ` {t \<in> set tokens. hb_epoch t = e}"
      using epoch_hardware_get [of tokens e] by auto
    obtain x y r where "s = x # y # r" using s(2) by (cases s; cases "tl s") auto
    then have "x \<noteq> y" "x \<in> set s" "y \<in> set s" using ds(1) by auto
    then show "\<exists>t \<in> set tokens. \<exists>t' \<in> set tokens. hb_epoch t = hb_epoch t' \<and> hb_hwFingerprint t \<noteq> hb_hwFingerprint t'"
      unfolding ds(2) by fastforce
  next
    assume "\<exists>t \<in> set tokens. \<exists>t' \<in> set tokens. hb_epoch t = hb_epoch t' \<and> hb_hwFingerprint t \<noteq> hb_hwFingerprint t'"
    then obtain t t' where t: "t \<in> set tokens" "t' \<in> set tokens" "hb_epoch t = hb_epoch t'"
      "hb_hwFingerprint t \<noteq> hb_hwFingerprint t'" by blast
    then obtain s where s: "jm_get ?m (hb_epoch t) = Some s" "distinct s"
      "set s = hb_hwFingerprint ` {u \<in> set tokens. hb_epoch u = hb_epoch t}"
      using epoch_hardware_get [of tokens "hb_epoch t"] by (auto split: option.splits)
    have "{hb_hwFingerprint t, hb_hwFingerprint t'} \<subseteq> set s" unfolding s(3) using t by auto
    then have "card {hb_hwFingerprint t, hb_hwFingerprint t'} \<le> card (set s)" by (intro card_mono) auto
    then have "1 < length s" using t(4) s(2) by (simp add: distinct_card)
    then show "\<exists>e s. jm_get ?m e = Some s \<and> 1 < length s" using s(1) by blast
  qed
  finally show ?thesis .
qed

subsection \<open>Properties of the telemetry\<close>

lemma noise_nonneg: "0 \<le> addLaplaceNoise mlog u v e s"
  by (simp add: addLaplaceNoise_def Let_def)

lemma js_round_nonneg: "0 \<le> x \<Longrightarrow> 0 \<le> js_round x"
  by (simp add: js_round_def)

text \<open>Whatever the draws, the reported amounts are not negative (the volume may be no number
  at all) and the error rate is a percentage;
  the ceremony counters leave the node exactly as they are, without noise.\<close>

theorem telemetry_bounds:
  "case tp_metrics (generateTelemetry mlog u customer license raw start end epsilon) of m \<Rightarrow>
     0 \<le> dp_totalTransactions m
     \<and> (dp_totalVolumeUSD m \<in> {Infinity, NotANumber} \<or> (\<exists>v \<ge> 0. dp_totalVolumeUSD m = Finite v)) \<and> 0 \<le> dp_activeNodes m
     \<and> 0 \<le> dp_avgSigningLatencyMs m \<and> 0 \<le> dp_errorRatePercent m \<and> dp_errorRatePercent m \<le> 100
     \<and> dp_uniqueChains m = rm_uniqueChains raw \<and> dp_dkgCount m = rm_dkgCount raw
     \<and> dp_signCount m = rm_signCount raw \<and> dp_refreshCount m = rm_refreshCount raw"
proof -
  have "noisy_volume mlog w v epsilon \<in> {Infinity, NotANumber} \<or> (\<exists>x \<ge> 0. noisy_volume mlog w v epsilon = Finite x)" for w v
    by (cases v) (auto simp: noise_nonneg js_round_nonneg)
  then show ?thesis by (simp add: generateTelemetry_def noise_nonneg js_round_nonneg)
qed

subsection \<open>Witnesses\<close>

theorem license_never_valid_witness:
  "\<not> lv_valid (verifyLicenseBlob toy_hashes toy_ed [] 1700000000000 (toy_license\<lparr>lb_notAfter := 1800000000000\<rparr>))
   \<and> (\<exists>e. signLicenseBlob toy_hashes toy_ed (toy_license\<lparr>lb_notAfter := 1800000000000\<rparr>) [1] = Inl e)"
  using license_never_valid [of "toy_license\<lparr>lb_notAfter := 1800000000000\<rparr>" 1700000000000]
  by (simp add: toy_license_def)

definition toy_platform :: "string \<Rightarrow> platform" where
  "toy_platform mac = \<lparr>pf_ekpub = None, pf_cpuinfo = Inr ''cpu'', pf_nets = Inr [(''eth0'', [(False, mac)])],
     pf_disk = Inr ''disk'', pf_cgroup = None, pf_hostname = None\<rparr>"

theorem fingerprint_partial_match_witness:
  "fc_matches (verifyHardwareFingerprint toy_hashes (toy_platform ''aa:bb'')
     (generateHardwareFingerprint toy_hashes (toy_platform ''cc'')))"
  using fingerprint_partial_match [of "toy_platform ''aa:bb''" "toy_platform ''cc''" toy_hashes]
  by (simp add: toy_platform_def component_hashes_def cpu_fingerprint_def readCPUID_def readMACAddress_def
      readDiskSerial_def)

end
