(* ===== verification/LicenseKernel.thy ===== *)
theory LicenseKernel
  imports License
begin

text \<open>
  The license kernel (licensing/license_kernel.ts): initialization, the metering of transactions and
  ceremonies, heartbeats, telemetry and shutdown, as operations on one state, and the sequences of
  their calls. What a call reads of its environment (platform, clock, hashes, signatures) is a record.
\<close>

subsection \<open>Definitions\<close>

record kernel_env =
  ke_h :: hashes
  ke_D :: ed25519
  ke_num :: "rat \<Rightarrow> string"
  ke_log :: "rat \<Rightarrow> rat"
  ke_masterKey :: string

record UsageCounters =
  uc_totalTransactions :: int
  uc_totalVolumeUSD :: js_number
  uc_dkgCount :: int
  uc_signCount :: int
  uc_refreshCount :: int
  uc_periodStart :: int

record LicenseState =
  ls_blob :: LicenseBlob
  ls_hwFingerprint :: HardwareFingerprint
  ls_isValid :: bool
  ls_gracePeriodActive :: bool
  ls_gracePeriodEndsAt :: "int option"
  ls_usageCounters :: UsageCounters
  ls_lastHeartbeatAt :: int
  ls_lastHeartbeatToken :: "HeartbeatToken option"

text \<open>\<open>timer\<close> is the field \<open>heartbeatTimer\<close>; \<open>lost\<close> counts the intervals started before it that a second
  initialization overwrote.\<close>

record kernel =
  kn_state :: "LicenseState option"
  kn_heartbeatSecret :: bytes
  kn_timer :: bool
  kn_lost :: nat
  kn_nodeId :: string

definition kernel_new :: "string \<Rightarrow> string \<Rightarrow> kernel" where
  "kernel_new nodeId heartbeatSecretHex =
     \<lparr>kn_state = None, kn_heartbeatSecret = buffer_from_hex (strip0x heartbeatSecretHex), kn_timer = False,
      kn_lost = 0, kn_nodeId = nodeId\<rparr>"

definition startHeartbeat :: "kernel \<Rightarrow> kernel" where
  "startHeartbeat st = st\<lparr>kn_timer := True, kn_lost := (if kn_timer st then Suc (kn_lost st) else kn_lost st)\<rparr>"

definition binding_check :: "hashes \<Rightarrow> platform \<Rightarrow> LicenseBlob \<Rightarrow> unit result" where
  "binding_check h P blob =
     (case lb_hardwareFingerprint blob of
        Some (c # cs) \<Rightarrow>
          (let hwCheck = verifyHardwareFingerprint h P \<lparr>hf_fingerprint = c # cs, hf_source = TPM,
                 hf_components = [], hf_confidence = 1\<rparr>
           in if \<not> fc_matches hwCheck
              then Inl (Error (''Hardware fingerprint mismatch: ''
                     @ (case fc_reason hwCheck of None \<Rightarrow> ''undefined'' | Some r \<Rightarrow> r)))
              else Inr ())
      | _ \<Rightarrow> Inr ())"

definition fresh_usage :: "int \<Rightarrow> UsageCounters" where
  "fresh_usage now = \<lparr>uc_totalTransactions = 0, uc_totalVolumeUSD = Finite 0, uc_dkgCount = 0, uc_signCount = 0,
     uc_refreshCount = 0, uc_periodStart = now\<rparr>"

text \<open>The clock is read by the verification and again for the start of the metering period.\<close>

definition initializeLicense ::
  "kernel_env \<Rightarrow> platform \<Rightarrow> int \<Rightarrow> int \<Rightarrow> LicenseBlob \<Rightarrow> kernel \<Rightarrow> LicenseState result \<times> kernel" where
  "initializeLicense env P now1 now2 blob st =
     (let verification = verifyLicenseBlob (ke_h env) (ke_D env) (ke_masterKey env) now1 blob in
      if \<not> lv_valid verification \<and> \<not> lv_inGracePeriod verification
      then (Inl (Error (''License invalid: ''
              @ (case lv_reason verification of None \<Rightarrow> ''undefined'' | Some r \<Rightarrow> r))), st)
      else
        let hw = generateHardwareFingerprint (ke_h env) P in
        case binding_check (ke_h env) P blob of
          Inl e \<Rightarrow> (Inl e, st)
        | Inr u \<Rightarrow>
            (let s = \<lparr>ls_blob = blob, ls_hwFingerprint = hw,
                   ls_isValid = lv_valid verification \<or> lv_inGracePeriod verification,
                   ls_gracePeriodActive = lv_inGracePeriod verification,
                   ls_gracePeriodEndsAt = lv_gracePeriodEndsAt verification,
                   ls_usageCounters = fresh_usage now2, ls_lastHeartbeatAt = 0, ls_lastHeartbeatToken = None\<rparr>
             in (Inr s, startHeartbeat (st\<lparr>kn_state := Some s\<rparr>))))"

definition checkFeature :: "string \<Rightarrow> kernel \<Rightarrow> bool" where
  "checkFeature feature st = (case kn_state st of None \<Rightarrow> False | Some s \<Rightarrow> hasFeature (ls_blob s) feature)"

definition not_initialized :: js_error where
  "not_initialized = Error ''License not initialized''"

definition set_usage :: "(UsageCounters \<Rightarrow> UsageCounters) \<Rightarrow> kernel \<Rightarrow> kernel" where
  "set_usage f st = (case kn_state st of None \<Rightarrow> st
     | Some s \<Rightarrow> st\<lparr>kn_state := Some (s\<lparr>ls_usageCounters := f (ls_usageCounters s)\<rparr>)\<rparr>)"

definition recordTransaction :: "js_number \<Rightarrow> kernel \<Rightarrow> unit result \<times> kernel" where
  "recordTransaction volumeUSD st =
     (case kn_state st of
        None \<Rightarrow> (Inl not_initialized, st)
      | Some s \<Rightarrow>
          (let u = ls_usageCounters s; q = lb_transactionQuota (ls_blob s) in
           if uc_totalTransactions u \<ge> tq_maxTransactions q then (Inl (Error ''TRANSACTION_QUOTA_EXCEEDED''), st)
           else if js_greater (js_plus (uc_totalVolumeUSD u) volumeUSD) (of_int (tq_maxVolumeUSD q))
           then (Inl (Error ''VOLUME_QUOTA_EXCEEDED''), st)
           else (Inr (), set_usage (\<lambda>u. u\<lparr>uc_totalTransactions := uc_totalTransactions u + 1,
                                         uc_totalVolumeUSD := js_plus (uc_totalVolumeUSD u) volumeUSD\<rparr>) st)))"

datatype ceremony = DKG | SIGN | REFRESH

definition recordCeremony :: "ceremony \<Rightarrow> kernel \<Rightarrow> kernel" where
  "recordCeremony typ st =
     (case typ of
        DKG \<Rightarrow> set_usage (\<lambda>u. u\<lparr>uc_dkgCount := uc_dkgCount u + 1\<rparr>) st
      | SIGN \<Rightarrow> set_usage (\<lambda>u. u\<lparr>uc_signCount := uc_signCount u + 1\<rparr>) st
      | REFRESH \<Rightarrow> set_usage (\<lambda>u. u\<lparr>uc_refreshCount := uc_refreshCount u + 1\<rparr>) st)"

definition raw_usage :: "UsageCounters \<Rightarrow> raw_metrics" where
  "raw_usage u = \<lparr>rm_totalTransactions = of_int (uc_totalTransactions u), rm_totalVolumeUSD = uc_totalVolumeUSD u,
     rm_activeNodes = 1, rm_avgSigningLatencyMs = 150, rm_errorRatePercent = 1 / 10, rm_uniqueChains = 3,
     rm_dkgCount = of_int (uc_dkgCount u), rm_signCount = of_int (uc_signCount u),
     rm_refreshCount = of_int (uc_refreshCount u)\<rparr>"

text \<open>The clock is read twice.\<close>

definition exportTelemetry ::
  "kernel_env \<Rightarrow> (nat \<Rightarrow> rat) \<Rightarrow> int \<Rightarrow> int \<Rightarrow> kernel \<Rightarrow> TelemetryExport result" where
  "exportTelemetry env u now1 now2 st =
     (case kn_state st of
        None \<Rightarrow> Inl not_initialized
      | Some s \<Rightarrow>
          (let payload = generateTelemetry (ke_log env) u (lb_customerId (ls_blob s)) (lb_licenseId (ls_blob s))
                 (raw_usage (ls_usageCounters s)) (uc_periodStart (ls_usageCounters s)) now1 1
           in rbind (ed_sign (ke_D env) (utf8 (json_text (ke_num env) (telemetry_json payload))) (kn_heartbeatSecret st))
                (\<lambda>sig. Inr \<lparr>te_payload = payload, te_signature = ''0x'' @ h_bytesToHex (ke_h env) sig,
                           te_exportedAt = now2\<rparr>)))"

definition current_usage :: "LicenseState \<Rightarrow> (string \<times> js_number) list" where
  "current_usage s = [(''tx'', Finite (of_int (uc_totalTransactions (ls_usageCounters s)))),
     (''vol'', uc_totalVolumeUSD (ls_usageCounters s))]"

definition kernel_heartbeat :: "kernel_env \<Rightarrow> int \<Rightarrow> kernel \<Rightarrow> LicenseState \<Rightarrow> HeartbeatToken" where
  "kernel_heartbeat env now st s =
     generateHeartbeat (ke_h env) (ke_num env) now (kn_nodeId st) (ls_hwFingerprint s) (current_usage s)
       (kn_heartbeatSecret st)"

definition getCurrentHeartbeat :: "kernel_env \<Rightarrow> int \<Rightarrow> kernel \<Rightarrow> HeartbeatToken result" where
  "getCurrentHeartbeat env now st =
     (case kn_state st of None \<Rightarrow> Inl not_initialized | Some s \<Rightarrow> Inr (kernel_heartbeat env now st s))"

text \<open>The callback of an interval.\<close>

definition heartbeat_tick :: "kernel_env \<Rightarrow> int \<Rightarrow> int \<Rightarrow> kernel \<Rightarrow> kernel" where
  "heartbeat_tick env now1 now2 st =
     (case kn_state st of
        None \<Rightarrow> st
      | Some s \<Rightarrow> st\<lparr>kn_state := Some (s\<lparr>ls_lastHeartbeatAt := now2,
                     ls_lastHeartbeatToken := Some (kernel_heartbeat env now1 st s)\<rparr>)\<rparr>)"

definition kernel_shutdown :: "kernel \<Rightarrow> kernel" where
  "kernel_shutdown st = st\<lparr>kn_timer := False, kn_heartbeatSecret := map (\<lambda>_. 0) (kn_heartbeatSecret st)\<rparr>"

definition kernel_getState :: "kernel \<Rightarrow> LicenseState option" where
  "kernel_getState st = kn_state st"

text \<open>The calls that change the state; a tick needs a live interval.\<close>

datatype kernel_op =
    Initialize platform int int LicenseBlob
  | RecordTransaction js_number
  | RecordCeremony ceremony
  | HeartbeatTick int int
  | Shutdown

fun kernel_apply :: "kernel_env \<Rightarrow> kernel_op \<Rightarrow> kernel \<Rightarrow> kernel" where
  "kernel_apply env (Initialize P now1 now2 blob) st = snd (initializeLicense env P now1 now2 blob st)"
| "kernel_apply env (RecordTransaction v) st = snd (recordTransaction v st)"
| "kernel_apply env (RecordCeremony c) st = recordCeremony c st"
| "kernel_apply env (HeartbeatTick t1 t2) st =
     (if kn_timer st \<or> 0 < kn_lost st then heartbeat_tick env t1 t2 st else st)"
| "kernel_apply env Shutdown st = kernel_shutdown st"

definition kernel_run :: "kernel_env \<Rightarrow> kernel_op list \<Rightarrow> kernel \<Rightarrow> kernel" where
  "kernel_run env ops st = foldl (\<lambda>st op. kernel_apply env op st) st ops"

subsection \<open>Invariant\<close>

text \<open>A state in use comes from a license that passed verification, and its counters are within the quota.
  Of the volume this holds as long as it is a number.\<close>

fun volume_within :: "js_number \<Rightarrow> rat \<Rightarrow> bool" where
  "volume_within (Finite x) q = (x \<le> max 0 q)"
| "volume_within Infinity q = False"
| "volume_within MinusInfinity q = True"
| "volume_within NotANumber q = True"

lemma volume_within_plus:
  assumes "volume_within u q" and "\<not> js_greater (js_plus u v) q"
  shows "volume_within (js_plus u v) q"
  using assms by (cases "(u, v)" rule: js_plus.cases) auto

definition metered :: "LicenseState \<Rightarrow> bool" where
  "metered s \<longleftrightarrow>
     (let u = ls_usageCounters s; q = lb_transactionQuota (ls_blob s) in
      0 \<le> uc_totalTransactions u \<and> uc_totalTransactions u \<le> max 0 (tq_maxTransactions q)
      \<and> volume_within (uc_totalVolumeUSD u) (of_int (tq_maxVolumeUSD q))
      \<and> 0 \<le> uc_dkgCount u \<and> 0 \<le> uc_signCount u \<and> 0 \<le> uc_refreshCount u)"

definition licensed :: "kernel_env \<Rightarrow> LicenseState \<Rightarrow> bool" where
  "licensed env s \<longleftrightarrow> ls_isValid s
     \<and> (\<exists>now. lv_valid (verifyLicenseBlob (ke_h env) (ke_D env) (ke_masterKey env) now (ls_blob s)))"

definition kernel_inv :: "kernel_env \<Rightarrow> kernel \<Rightarrow> bool" where
  "kernel_inv env st \<longleftrightarrow> (case kn_state st of None \<Rightarrow> True | Some s \<Rightarrow> metered s \<and> licensed env s)"

lemma initializeLicense_Inr:
  assumes "initializeLicense env P now1 now2 blob st = (Inr s, st')"
  shows "kn_state st' = Some s" and "ls_blob s = blob" and "ls_usageCounters s = fresh_usage now2"
    and "ls_hwFingerprint s = generateHardwareFingerprint (ke_h env) P"
    and "licensed env s" and "kn_timer st'" and "kn_lost st' = (if kn_timer st then Suc (kn_lost st) else kn_lost st)"
    and "kn_heartbeatSecret st' = kn_heartbeatSecret st" and "binding_check (ke_h env) P blob = Inr ()"
proof -
  let ?v = "verifyLicenseBlob (ke_h env) (ke_D env) (ke_masterKey env) now1 blob"
  have g: "lv_inGracePeriod ?v \<Longrightarrow> lv_valid ?v"
    by (auto simp: verifyLicenseBlob_def Let_def split: sum.splits bool.splits if_splits)
  note run = assms [unfolded initializeLicense_def Let_def]
  have v: "lv_valid ?v" using run g by (auto split: if_splits)
  obtain u where b: "binding_check (ke_h env) P blob = Inr u"
    using run v by (cases "binding_check (ke_h env) P blob") auto
  note r = run [unfolded b]
  show "kn_state st' = Some s" and "ls_blob s = blob" and "ls_usageCounters s = fresh_usage now2"
    and "ls_hwFingerprint s = generateHardwareFingerprint (ke_h env) P"
    and "kn_timer st'" and "kn_lost st' = (if kn_timer st then Suc (kn_lost st) else kn_lost st)"
    and "kn_heartbeatSecret st' = kn_heartbeatSecret st" and "binding_check (ke_h env) P blob = Inr ()"
    using r v b by (auto simp: startHeartbeat_def)
  have "ls_isValid s" using r v by (auto simp: startHeartbeat_def)
  then show "licensed env s" using v \<open>ls_blob s = blob\<close> by (auto simp: licensed_def)
qed

lemma initializeLicense_Inl: "initializeLicense env P now1 now2 blob st = (Inl e, st') \<Longrightarrow> st' = st"
  by (auto simp: initializeLicense_def Let_def split: if_splits sum.splits)

lemma kernel_inv_usage:
  assumes "kernel_inv env st" and "\<And>s. kn_state st = Some s \<Longrightarrow> metered s \<Longrightarrow> metered (s\<lparr>ls_usageCounters := f (ls_usageCounters s)\<rparr>)"
  shows "kernel_inv env (set_usage f st)"
  using assms by (auto simp: kernel_inv_def set_usage_def licensed_def split: option.splits)

lemma recordTransaction_inv:
  assumes "kernel_inv env st"
  shows "kernel_inv env (snd (recordTransaction v st))"
proof (cases "kn_state st")
  case (Some s)
  let ?u = "ls_usageCounters s" and ?q = "lb_transactionQuota (ls_blob s)"
  show ?thesis
  proof (cases "uc_totalTransactions ?u < tq_maxTransactions ?q
      \<and> \<not> js_greater (js_plus (uc_totalVolumeUSD ?u) v) (of_int (tq_maxVolumeUSD ?q))")
    case True
    then have "snd (recordTransaction v st) = set_usage (\<lambda>u. u\<lparr>uc_totalTransactions := uc_totalTransactions u + 1,
        uc_totalVolumeUSD := js_plus (uc_totalVolumeUSD u) v\<rparr>) st"
      by (simp add: recordTransaction_def Some Let_def)
    moreover have "kernel_inv env \<dots>"
      by (rule kernel_inv_usage [OF assms]) (use True Some volume_within_plus in \<open>auto simp: metered_def Let_def\<close>)
    ultimately show ?thesis by simp
  next
    case False
    then show ?thesis using assms by (auto simp: recordTransaction_def Some Let_def)
  qed
qed (use assms in \<open>simp add: recordTransaction_def\<close>)

lemma kernel_inv_apply:
  assumes "kernel_inv env st"
  shows "kernel_inv env (kernel_apply env op st)"
proof (cases op)
  case (Initialize P now1 now2 blob)
  obtain r st' where i: "initializeLicense env P now1 now2 blob st = (r, st')" by force
  show ?thesis
  proof (cases r)
    case (Inr s)
    note f = initializeLicense_Inr [OF i [unfolded Inr]]
    have "metered s" by (simp add: metered_def f(3) fresh_usage_def)
    then show ?thesis using f(1,5) by (simp add: Initialize i kernel_inv_def)
  qed (use initializeLicense_Inl i assms Initialize in fastforce)
next
  case (RecordCeremony c)
  have "kernel_inv env (recordCeremony c st)"
    unfolding recordCeremony_def
    by (cases c) (simp, rule kernel_inv_usage [OF assms], simp add: metered_def Let_def)+
  then show ?thesis by (simp add: RecordCeremony)
next
  case (HeartbeatTick t1 t2)
  have "kernel_inv env (heartbeat_tick env t1 t2 st)"
    using assms by (auto simp: kernel_inv_def heartbeat_tick_def metered_def licensed_def split: option.splits)
  then show ?thesis using assms by (simp add: HeartbeatTick)
next
  case Shutdown
  then show ?thesis using assms by (simp add: kernel_inv_def kernel_shutdown_def)
qed (simp add: recordTransaction_inv assms)

lemma kernel_inv_run: "kernel_inv env st \<Longrightarrow> kernel_inv env (kernel_run env ops st)"
  unfolding kernel_run_def by (induction ops arbitrary: st) (simp_all add: kernel_inv_apply)

text \<open>The volume stays a number while the recorded volumes are.\<close>

fun finite_call :: "kernel_op \<Rightarrow> bool" where
  "finite_call (RecordTransaction v) = (\<exists>x. v = Finite x)"
| "finite_call op = True"

definition volume_finite :: "kernel \<Rightarrow> bool" where
  "volume_finite st \<longleftrightarrow> (case kn_state st of None \<Rightarrow> True | Some s \<Rightarrow> \<exists>x. uc_totalVolumeUSD (ls_usageCounters s) = Finite x)"

lemma volume_finite_record:
  assumes "volume_finite st"
  shows "volume_finite (snd (recordTransaction (Finite x) st))"
proof (cases "kn_state st")
  case (Some s)
  then obtain y where "uc_totalVolumeUSD (ls_usageCounters s) = Finite y" using assms by (auto simp: volume_finite_def)
  then show ?thesis by (simp add: recordTransaction_def Some Let_def set_usage_def volume_finite_def)
qed (simp add: recordTransaction_def volume_finite_def)

lemma volume_finite_apply:
  assumes "finite_call op" and "volume_finite st"
  shows "volume_finite (kernel_apply env op st)"
proof (cases op)
  case (Initialize P now1 now2 blob)
  obtain r st' where i: "initializeLicense env P now1 now2 blob st = (r, st')" by force
  show ?thesis
  proof (cases r)
    case (Inr s)
    note f = initializeLicense_Inr(1,3) [OF i [unfolded Inr]]
    show ?thesis by (simp add: Initialize i volume_finite_def f fresh_usage_def)
  next
    case (Inl e)
    show ?thesis using initializeLicense_Inl [OF i [unfolded Inl]] assms(2) by (simp add: Initialize i)
  qed
next
  case (RecordTransaction v)
  then show ?thesis using assms volume_finite_record by auto
next
  case (RecordCeremony c)
  show ?thesis using assms(2) unfolding RecordCeremony
    by (cases c; cases "kn_state st") (simp_all add: recordCeremony_def set_usage_def volume_finite_def)
next
  case (HeartbeatTick t1 t2)
  show ?thesis using assms(2) unfolding HeartbeatTick
    by (cases "kn_state st") (simp_all add: heartbeat_tick_def volume_finite_def)
next
  case Shutdown
  then show ?thesis using assms(2) by (simp add: kernel_shutdown_def volume_finite_def)
qed

lemma volume_finite_run:
  "list_all finite_call ops \<Longrightarrow> volume_finite st \<Longrightarrow> volume_finite (kernel_run env ops st)"
  unfolding kernel_run_def by (induction ops arbitrary: st) (simp_all add: volume_finite_apply)

text \<open>No volume is refused, and recording one changes nothing about that.\<close>

definition volume_unlimited :: "kernel \<Rightarrow> bool" where
  "volume_unlimited st \<longleftrightarrow> (\<forall>v. case recordTransaction v st of (r, st') \<Rightarrow>
     r \<in> {Inr (), Inl (Error ''TRANSACTION_QUOTA_EXCEEDED'')}
     \<and> (\<exists>s. kn_state st' = Some s \<and> uc_totalVolumeUSD (ls_usageCounters s) = NotANumber))"

lemma volume_unlimited_nan:
  "kn_state st = Some s \<Longrightarrow> uc_totalVolumeUSD (ls_usageCounters s) = NotANumber \<Longrightarrow> volume_unlimited st"
  by (simp add: volume_unlimited_def recordTransaction_def Let_def set_usage_def)

subsection \<open>Properties\<close>


text \<open>Telemetry: what a licensed node exports verifies under the public key of its heartbeat secret when
  \<open>require\<close> exists, and never in an ES module.\<close>

theorem telemetry_roundtrip:
  assumes "hex_laws (ke_h env)" and "ed_laws (ke_D env)" and "exportTelemetry env u now1 now2 st = Inr export"
    and "ed_getPublicKey (ke_D env) (kn_heartbeatSecret st) = Inr pk"
  shows "verifyTelemetry Imported (ke_D env) (ke_num env) export pk
    \<and> \<not> verifyTelemetry NotImported (ke_D env) (ke_num env) export pk"
proof -
  obtain payload sig where sig: "ed_sign (ke_D env) (utf8 (json_text (ke_num env) (telemetry_json payload)))
      (kn_heartbeatSecret st) = Inr sig"
    and export: "te_payload export = payload" "te_signature export = ''0x'' @ h_bytesToHex (ke_h env) sig"
    using assms(3) by (auto simp: exportTelemetry_def Let_def result_simps split: option.splits)
  have "buffer_from_hex (strip0x (te_signature export)) = sig"
    using assms(1) by (simp add: export(2) hex_laws_def buffer_from_hex_bytes)
  moreover have "ed_verify (ke_D env) sig (utf8 (json_text (ke_num env) (telemetry_json payload))) pk = Inr True"
    using assms(2,4) sig unfolding ed_laws_def by blast
  ultimately show ?thesis by (simp add: verifyTelemetry_def export(1))
qed

text \<open>After \<open>shutdown\<close> a licensed kernel still answers heartbeats, authenticated with a key of zeros that
  anybody knows.\<close>

theorem shutdown_heartbeat_forgeable:
  assumes "kn_state st = Some s"
  shows "\<exists>token. getCurrentHeartbeat env now (kernel_shutdown st) = Inr token
    \<and> fst (verifyHeartbeat (ke_h env) now token (replicate (length (kn_heartbeatSecret st)) 0)
             (hf_fingerprint (ls_hwFingerprint s)))"
proof -
  have z: "kn_heartbeatSecret (kernel_shutdown st) = replicate (length (kn_heartbeatSecret st)) 0"
    by (simp add: kernel_shutdown_def map_replicate_const)
  have "getCurrentHeartbeat env now (kernel_shutdown st) = Inr (kernel_heartbeat env now (kernel_shutdown st) s)"
    by (simp add: getCurrentHeartbeat_def kernel_shutdown_def assms)
  then show ?thesis by (simp add: kernel_heartbeat_def z heartbeat_verifies)
qed

text \<open>Initializing a licensed kernel again clears its counters and overwrites the handle of the running
  interval, which \<open>shutdown\<close> then cannot stop: heartbeats go on.\<close>

theorem reinitialization_leaks_interval:
  assumes "initializeLicense env P now1 now2 blob st = (Inr s, st')" and "kn_timer st"
  shows "ls_usageCounters s = fresh_usage now2
    \<and> kn_state (kernel_apply env (HeartbeatTick t1 t2) (kernel_shutdown st'))
        = Some (s\<lparr>ls_lastHeartbeatAt := t2, ls_lastHeartbeatToken := Some (kernel_heartbeat env t1 (kernel_shutdown st') s)\<rparr>)"
  using initializeLicense_Inr [OF assms(1)] assms(2)
  by (simp add: kernel_shutdown_def heartbeat_tick_def)

subsection \<open>Witnesses\<close>

definition toy_env :: kernel_env where
  "toy_env = \<lparr>ke_h = toy_hashes, ke_D = toy_ed, ke_num = (\<lambda>_. ''0''), ke_log = (\<lambda>x. x - 1),
     ke_masterKey = ''0x'' @ h_bytesToHex toy_hashes (toy_hash [1])\<rparr>"

definition toy_kernel :: kernel where "toy_kernel = kernel_new ''node-1'' ''0x0102''"

lemma toy_initialized: "\<exists>blob s st. initializeLicense toy_env (toy_platform ''aa'') 500 500 blob toy_kernel = (Inr s, st)
    \<and> initializeLicense toy_env (toy_platform ''aa'') 500 500 blob st = (Inr s, startHeartbeat (st\<lparr>kn_state := Some s\<rparr>))
    \<and> kn_timer st \<and> kn_state st = Some s \<and> kn_heartbeatSecret st = [1, 2]
    \<and> lb_transactionQuota blob = lb_transactionQuota toy_license"
proof -
  obtain issued where s: "signLicenseBlob toy_hashes toy_ed toy_license [1] = Inr issued"
    using toy_license_signed by blast
  have v: "lv_valid (verifyLicenseBlob toy_hashes toy_ed (''0x'' @ h_bytesToHex toy_hashes (toy_hash [1])) 500 issued)"
    using issued_license_valid [OF toy_hex_laws toy_ed_laws s, of "toy_hash [1]" 500]
    by (simp add: toy_ed_def toy_license_def grace_end_def)
  have hw: "lb_hardwareFingerprint issued = None" "lb_transactionQuota issued = lb_transactionQuota toy_license"
    using s by (auto simp: signLicenseBlob_def result_simps toy_license_def)
  have "kn_heartbeatSecret toy_kernel = [1, 2]" by code_simp
  then show ?thesis using v hw
    by (intro exI [of _ issued]) (simp add: initializeLicense_def Let_def toy_env_def binding_check_def startHeartbeat_def)
qed


theorem telemetry_roundtrip_witness:
  "\<exists>st export. kn_state st \<noteq> None \<and> exportTelemetry toy_env (\<lambda>_. 1 / 2) 600 601 st = Inr export
    \<and> verifyTelemetry Imported toy_ed (\<lambda>_. ''0'') export (toy_hash [1, 2])
    \<and> \<not> verifyTelemetry NotImported toy_ed (\<lambda>_. ''0'') export (toy_hash [1, 2])"
proof -
  obtain s and st :: kernel where st: "kn_state st = Some s" "kn_heartbeatSecret st = [1, 2]" using toy_initialized by blast
  have env: "ke_h toy_env = toy_hashes" "ke_D toy_env = toy_ed" "ke_num toy_env = (\<lambda>_. ''0'')"
    by (simp_all add: toy_env_def)
  obtain export where e: "exportTelemetry toy_env (\<lambda>_. 1 / 2) 600 601 st = Inr export"
    by (simp add: exportTelemetry_def st env Let_def) (simp add: toy_ed_def)
  have pk: "ed_getPublicKey (ke_D toy_env) (kn_heartbeatSecret st) = Inr (toy_hash [1, 2])"
    by (simp add: env st toy_ed_def)
  have l: "hex_laws (ke_h toy_env)" "ed_laws (ke_D toy_env)" by (simp_all add: env toy_hex_laws toy_ed_laws)
  show ?thesis using telemetry_roundtrip [OF l e pk] st(1) e unfolding env by blast
qed

theorem shutdown_heartbeat_forgeable_witness:
  "\<exists>st token fingerprint. getCurrentHeartbeat toy_env 700000 (kernel_shutdown st) = Inr token
    \<and> fst (verifyHeartbeat toy_hashes 700000 token [0, 0] fingerprint)"
proof -
  obtain s and st :: kernel where st: "kn_state st = Some s" "kn_heartbeatSecret st = [1, 2]" using toy_initialized by blast
  have "ke_h toy_env = toy_hashes" "replicate (length [1, 2 :: byte]) 0 = [0, 0 :: byte]" by (simp_all add: toy_env_def)
  then show ?thesis using shutdown_heartbeat_forgeable [OF st(1), of toy_env 700000] unfolding st(2) by metis
qed

theorem reinitialization_leaks_interval_witness:
  "\<exists>st s. kn_timer st = False
    \<and> kn_state (kernel_apply toy_env (HeartbeatTick 1 2) st)
        = Some (s\<lparr>ls_lastHeartbeatAt := 2, ls_lastHeartbeatToken := Some (kernel_heartbeat toy_env 1 st s)\<rparr>)"
proof -
  obtain blob s and st :: kernel where t: "kn_timer st"
    and i: "initializeLicense toy_env (toy_platform ''aa'') 500 500 blob st = (Inr s, startHeartbeat (st\<lparr>kn_state := Some s\<rparr>))"
    using toy_initialized by blast
  have "kn_timer (kernel_shutdown st') = False" for st' by (simp add: kernel_shutdown_def)
  then show ?thesis using reinitialization_leaks_interval [OF i t, of 1 2] by blast
qed

end
