(* ===== verification/Server.thy ===== *)
theory Server
  imports Policy MpcCmp AuditClient Hsm Sanitize
begin

text \<open>
  The HTTP server (server.ts): the handlers of its routes behind the API key, as functions from the
  state of the components to a response and the new state. The start-up and the middleware are in
  \<open>Gateway\<close>; the loggers and the listening sockets are left out. Bodies hold
  strings and numbers where the handlers expect them. A handler runs to its end before the next
  request: the functions it awaits do no input or output.
\<close>

subsection \<open>Definitions\<close>

record ('p, 'd) server_lib =
  sl_h :: hashes
  sl_E :: "'p ec"
  sl_S :: "'d sqlite"
  sl_paillier :: binding
  sl_require :: binding
  sl_apiKey :: string

record request_env =
  re_now :: int
  re_iso :: string
  re_policy :: policy_env

record 'd server_state =
  sv_mpc :: mpc_state
  sv_policy :: policy_state
  sv_audit :: "'d audit_state"
  sv_hsm :: hsm_driver
  sv_dkgCount :: nat
  sv_signCount :: nat
  sv_violationCount :: nat

record dkg_request =
  dr_threshold :: rat
  dr_totalParties :: rat
  dr_curve :: "string option"

record sign_request =
  sr_chainId :: string
  sr_amount :: string
  sr_symbol :: string
  sr_toAddress :: string
  sr_dropNodeId :: "string option"

datatype payload =
    PError string
  | PHealth string
  | PSession DKGSession
  | PBlocked PolicyEvaluationResult
  | PCeremony SigningCeremonyState
  | PIntegrity engine_report
  | PLogs "AuditLogItem list"
  | PHsm HSMStatus

record response =
  rp_status :: int
  rp_body :: payload

text \<open>The header \<open>x-api-key\<close> is \<open>None\<close> when missing.\<close>

datatype request =
    GetHealth
  | PostDKG "string option" dkg_request
  | PostSign "string option" sign_request
  | GetVerify "string option"
  | GetLogs "string option" "string option"
  | GetHsm "string option"
  | PostTamper "string option"

type_synonym ('d, 'r) handler = "'d server_state \<Rightarrow> tape \<Rightarrow> (('r \<times> 'd server_state) \<times> tape) option"

definition respond :: "int \<Rightarrow> payload \<Rightarrow> ('d, response) handler" where
  "respond status body st t = Some ((\<lparr>rp_status = status, rp_body = body\<rparr>, st), t)"

definition server_log ::
  "('p, 'd) server_lib \<Rightarrow> request_env \<Rightarrow> string \<Rightarrow> string \<Rightarrow> string \<Rightarrow> 'd server_state \<Rightarrow> 'd server_state" where
  "server_log L env action actor details st =
     st\<lparr>sv_audit := snd (appendLog (sl_h L) (sl_S L) (re_iso env) action actor details None (sv_audit st))\<rparr>"

text \<open>Without such a key the process exits before it listens.\<close>

definition starts_with :: "string option \<Rightarrow> bool" where
  "starts_with EXPECTED_API_KEY =
     (case EXPECTED_API_KEY of None \<Rightarrow> False | Some k \<Rightarrow> k \<noteq> [] \<and> k \<noteq> ''dev-api-key'')"

definition requireApiKey ::
  "('p, 'd) server_lib \<Rightarrow> string option \<Rightarrow> ('d, response) handler \<Rightarrow> ('d, response) handler" where
  "requireApiKey L key handler st t =
     (if key \<noteq> Some (sl_apiKey L) then respond 401 (PError ''Unauthorized'') st t else handler st t)"

definition dkg_details :: "dkg_request \<Rightarrow> DKGSession \<Rightarrow> string" where
  "dkg_details rq session =
     ''Session '' @ ds_sessionId session @ '' with threshold '' @ dec \<lfloor>dr_threshold rq\<rfloor> @ ''-of-''
     @ dec \<lfloor>dr_totalParties rq\<rfloor>"

definition post_dkg :: "('p, 'd) server_lib \<Rightarrow> request_env \<Rightarrow> dkg_request \<Rightarrow> ('d, response) handler" where
  "post_dkg L env rq st t =
     (let validation = validateMPCParams (dr_threshold rq) (dr_totalParties rq) in
      if \<not> mpr_valid validation
      then respond 400 (PError (case mpr_error validation of None \<Rightarrow> [] | Some e \<Rightarrow> e)) st t
      else case executeDKG (sl_paillier L) (sl_h L) (sl_E L) (re_now env) (nat \<lfloor>dr_threshold rq\<rfloor>)
             (nat \<lfloor>dr_totalParties rq\<rfloor>)
             (case dr_curve rq of Some (c # cs) \<Rightarrow> c # cs | _ \<Rightarrow> ''secp256k1'') (sv_mpc st) t of
          None \<Rightarrow> None
        | Some ((Inl e, mpc), t') \<Rightarrow> respond 500 (PError ''DKG failed'') (st\<lparr>sv_mpc := mpc\<rparr>) t'
        | Some ((Inr session, mpc), t') \<Rightarrow>
            (let st1 = server_log L env ''DKG_INITIATED'' ''API''
                   (dkg_details rq session) (st\<lparr>sv_mpc := mpc\<rparr>)
             in respond 200 (PSession session) (st1\<lparr>sv_dkgCount := Suc (sv_dkgCount st1)\<rparr>) t'))"

text \<open>\<open>parseFloat\<close> of a text \<open>validateAmount\<close> accepts: the exact value of the decimal.\<close>

definition parse_amount :: "string \<Rightarrow> rat" where
  "parse_amount s =
     (let parts = split_on CHR ''.'' (js_trim s);
          digits = (\<lambda>d. case parse_radix 10 d of None \<Rightarrow> 0 | Some n \<Rightarrow> n)
      in case parts of
           [a, b] \<Rightarrow> of_int (digits a) + of_int (digits b) / 10 ^ length b
         | a # _ \<Rightarrow> of_int (digits a)
         | [] \<Rightarrow> 0)"

definition sign_validation :: "('p, 'd) server_lib \<Rightarrow> sign_request \<Rightarrow> string option result" where
  "sign_validation L rq =
     (if \<not> validateChainId (sr_chainId rq) then Inr (Some ''Invalid chainId'')
      else if \<not> am_valid (validateAmount (sr_amount rq))
      then Inr (Some (case am_error (validateAmount (sr_amount rq)) of None \<Rightarrow> [] | Some e \<Rightarrow> e))
      else rbind (validateAddress (sl_h L) (sl_require L) (sr_toAddress rq)) (\<lambda>valid.
        Inr (if valid then None else Some ''Invalid destination address'')))"

definition blocked_details :: "sign_request \<Rightarrow> PolicyEvaluationResult \<Rightarrow> string" where
  "blocked_details rq policyResult =
     ''Blocked tx to '' @ sr_toAddress rq @ '': '' @ join '', '' (ev_rejectionReasons policyResult)"

definition signing_failed :: "('d, response) handler" where
  "signing_failed = respond 500 (PError ''Signing failed'')"

definition post_sign :: "('p, 'd) server_lib \<Rightarrow> request_env \<Rightarrow> sign_request \<Rightarrow> ('d, response) handler" where
  "post_sign L env rq st t =
     (case sign_validation L rq of
        Inl e \<Rightarrow> signing_failed st t
      | Inr (Some error) \<Rightarrow> respond 400 (PError error) st t
      | Inr None \<Rightarrow>
          (let amountUSD = parse_amount (sr_amount rq) * 3200;
               sim = simulateTransaction (re_policy env) (sr_chainId rq) (sr_toAddress rq) amountUSD (sv_policy st)
           in case evaluatePolicy (sl_h L) (sl_require L) (re_policy env) (sr_chainId rq) (sr_toAddress rq) amountUSD
                  (Some sim) (sv_policy st) of
                (Inl e, pol) \<Rightarrow> signing_failed (st\<lparr>sv_policy := pol\<rparr>) t
              | (Inr policyResult, pol) \<Rightarrow>
                  (let st1 = st\<lparr>sv_policy := pol\<rparr> in
                   if \<not> ev_allowed policyResult
                   then let st2 = server_log L env ''POLICY_BLOCKED'' ''POLICY_ENGINE''
                          (blocked_details rq policyResult)
                          (st1\<lparr>sv_violationCount := Suc (sv_violationCount st1)\<rparr>)
                        in respond 403 (PBlocked policyResult) st2 t
                   else case executeThresholdSigning (sl_h L) (sl_E L) (re_now env) (sr_chainId rq) (sr_amount rq)
                          (sr_symbol rq) (sr_toAddress rq) (sr_dropNodeId rq) (sv_mpc st1) t of
                       None \<Rightarrow> None
                     | Some (Inl e, t') \<Rightarrow> signing_failed st1 t'
                     | Some (Inr (ceremony, mpc), t') \<Rightarrow>
                         (let st2 = server_log L env ''SIGNING_COMPLETED'' ''API''
                                (''Ceremony '' @ sc_ceremonyId ceremony @ '' for '' @ sr_amount rq @ '' '' @ sr_symbol rq)
                                (st1\<lparr>sv_mpc := mpc, sv_signCount := Suc (sv_signCount st1)\<rparr>)
                          in respond 200 (PCeremony ceremony) st2 t'))))"

text \<open>\<open>parseInt(text)\<close>: white space, a sign, an optional \<open>0x\<close>, then the longest run of digits.\<close>

definition js_parseInt :: "string \<Rightarrow> int option" where
  "js_parseInt text =
     (let s = dropWhile js_space text;
          neg = (take 1 s = ''-'');
          u = (if take 1 s \<in> {''-'', ''+''} then drop 1 s else s);
          n = (if take 2 u \<in> {''0x'', ''0X''} then parse_radix 16 (takeWhile hex_digit (drop 2 u))
               else parse_radix 10 (takeWhile is_digit u))
      in map_option (\<lambda>n. if neg then - n else n) n)"

definition log_limit :: "string option \<Rightarrow> int" where
  "log_limit query =
     (case query of None \<Rightarrow> 100
      | Some q \<Rightarrow> (case js_parseInt q of None \<Rightarrow> 100 | Some n \<Rightarrow> if n = 0 then 100 else n))"

definition get_hsm :: "request_env \<Rightarrow> ('d, response) handler" where
  "get_hsm env st t =
     (case hsm_getStatus (re_now env) (sv_hsm st) t of
        None \<Rightarrow> None
      | Some (Inl e, t') \<Rightarrow> respond 500 (PError ''Internal Server Error'') st t'
      | Some (Inr status, t') \<Rightarrow> respond 200 (PHsm status) st t')"

definition post_tamper :: "('p, 'd) server_lib \<Rightarrow> request_env \<Rightarrow> ('d, response) handler" where
  "post_tamper L env st t =
     (case triggerTamperAlert (re_now env) (sv_hsm st) t of
        None \<Rightarrow> None
      | Some (Inl e, t') \<Rightarrow> respond 500 (PError ''Internal Server Error'') st t'
      | Some (Inr (status, d), t') \<Rightarrow>
          respond 200 (PHsm status) (server_log L env ''HSM_TAMPER'' ''SECURITY'' ''HSM tamper alert triggered''
            (st\<lparr>sv_hsm := d\<rparr>)) t')"

fun handle :: "('p, 'd) server_lib \<Rightarrow> request_env \<Rightarrow> request \<Rightarrow> ('d, response) handler" where
  "handle L env GetHealth st t = respond 200 (PHealth (re_iso env)) st t"
| "handle L env (PostDKG key rq) st t = requireApiKey L key (post_dkg L env rq) st t"
| "handle L env (PostSign key rq) st t = requireApiKey L key (post_sign L env rq) st t"
| "handle L env (GetVerify key) st t = requireApiKey L key
     (\<lambda>st t. respond 200 (PIntegrity (engine_verifyChainIntegrity (sl_h L) (sv_audit st))) st t) st t"
| "handle L env (GetLogs key limit) st t = requireApiKey L key
     (\<lambda>st t. respond 200 (PLogs (getLogs (Some (log_limit limit)) (sv_audit st))) st t) st t"
| "handle L env (GetHsm key) st t = requireApiKey L key (get_hsm env) st t"
| "handle L env (PostTamper key) st t = requireApiKey L key (post_tamper L env) st t"

subsection \<open>Sequences of requests\<close>

text \<open>Any requests, with any clocks and any random bytes.\<close>

inductive served :: "('p, 'd) server_lib \<Rightarrow> 'd server_state \<Rightarrow> 'd server_state \<Rightarrow> bool" for L where
  served_none: "served L st st"
| served_more: "served L s0 st \<Longrightarrow> handle L env rq st t = Some ((resp, st'), t') \<Longrightarrow> served L s0 st'"

inductive_cases served_moreE: "served L s0 st"

lemma respond_iff: "respond status body st t = Some ((resp, st'), t')
    \<longleftrightarrow> resp = \<lparr>rp_status = status, rp_body = body\<rparr> \<and> st' = st \<and> t' = t"
  by (auto simp: respond_def)

definition logged :: "('p, 'd) server_lib \<Rightarrow> string \<Rightarrow> 'd audit_state \<Rightarrow> 'd audit_state \<Rightarrow> bool" where
  "logged L action au au' \<longleftrightarrow>
     (\<exists>time actor details item. appendLog (sl_h L) (sl_S L) time action actor details None au = (item, au'))"

lemma logged_server_log: "logged L action (sv_audit st) (sv_audit (server_log L env action actor details st))"
  by (simp add: logged_def server_log_def) (metis prod.collapse)

lemma logged_unchanged:
  "sv_audit st = au \<Longrightarrow> logged L action au (sv_audit (server_log L env action actor details st))"
  using logged_server_log by blast

lemma logged_entry: "logged L action au au' \<Longrightarrow>
    \<exists>e. au_chain au' = au_chain au @ [e] \<and> ae_action e = action"
  using appendLog_chain by (fastforce simp: logged_def new_entry_def Let_def)

lemma server_log_frame [simp]:
  "sv_mpc (server_log L env a b c st) = sv_mpc st" "sv_policy (server_log L env a b c st) = sv_policy st"
  "sv_hsm (server_log L env a b c st) = sv_hsm st" "sv_dkgCount (server_log L env a b c st) = sv_dkgCount st"
  "sv_signCount (server_log L env a b c st) = sv_signCount st"
  by (simp_all add: server_log_def)

text \<open>What a signing request can answer: nothing but errors, and only a block of the policy is logged.\<close>

lemma post_sign_cases:
  assumes "post_sign L env rq st t = Some ((resp, st'), t')"
  obtains (refused) e where "rp_status resp \<in> {400, 500}" and "rp_body resp = PError e" and "sv_audit st' = sv_audit st" and "sv_mpc st' = sv_mpc st"
      and "sv_signCount st' = sv_signCount st" and "sv_dkgCount st' = sv_dkgCount st" and "t' = t"
      and "sv_hsm st' = sv_hsm st"
    | (blocked) r where "rp_status resp = 403" and "rp_body resp = PBlocked r" and "\<not> ev_allowed r"
      and "logged L ''POLICY_BLOCKED'' (sv_audit st) (sv_audit st')" and "sv_mpc st' = sv_mpc st"
      and "sv_signCount st' = sv_signCount st" and "sv_dkgCount st' = sv_dkgCount st" and "t' = t"
      and "sv_hsm st' = sv_hsm st"
proof (cases "sign_validation L rq")
  case (Inl e)
  then show ?thesis using assms refused by (auto simp: post_sign_def signing_failed_def respond_iff)
next
  case (Inr v)
  show ?thesis
  proof (cases v)
    case (Some err)
    then show ?thesis using assms Inr refused by (auto simp: post_sign_def respond_iff)
  next
    case None
    let ?amount = "parse_amount (sr_amount rq) * 3200"
    obtain res pol where e: "evaluatePolicy (sl_h L) (sl_require L) (re_policy env) (sr_chainId rq) (sr_toAddress rq) ?amount
        (Some (simulateTransaction (re_policy env) (sr_chainId rq) (sr_toAddress rq) ?amount (sv_policy st))) (sv_policy st)
        = (res, pol)" by force
    note run = assms [unfolded post_sign_def Inr None sum.case option.case Let_def e prod.case]
    show ?thesis
    proof (cases res)
      case (Inl err)
      then show ?thesis using run refused by (auto simp: signing_failed_def respond_iff)
    next
      case (Inr r)
      show ?thesis
      proof (cases "ev_allowed r")
        case True
        then show ?thesis using run Inr refused by (auto simp: signing_throws signing_failed_def respond_iff)
      next
        case False
        let ?st = "st\<lparr>sv_policy := pol, sv_violationCount := Suc (sv_violationCount st)\<rparr>"
        have r: "resp = \<lparr>rp_status = 403, rp_body = PBlocked r\<rparr>" "t' = t"
          "st' = server_log L env ''POLICY_BLOCKED'' ''POLICY_ENGINE'' (blocked_details rq r) ?st"
          using run Inr False by (auto simp: respond_iff)
        have "logged L ''POLICY_BLOCKED'' (sv_audit ?st) (sv_audit st')" unfolding r(3) by (rule logged_server_log)
        then show ?thesis using blocked [of r] False by (simp add: r)
      qed
    qed
  qed
qed

lemma requireApiKey_cases:
  assumes "requireApiKey L key handler st t = Some ((resp, st'), t')"
  obtains (unauthorized) "key \<noteq> Some (sl_apiKey L)" and "resp = \<lparr>rp_status = 401, rp_body = PError ''Unauthorized''\<rparr>"
      and "st' = st" and "t' = t"
    | (authorized) "key = Some (sl_apiKey L)" and "handler st t = Some ((resp, st'), t')"
  using assms by (auto simp: requireApiKey_def respond_iff split: if_splits)

lemma validated_parties:
  assumes "mpr_valid (validateMPCParams threshold parties)"
  obtains n where "nat \<lfloor>parties\<rfloor> = Suc n"
proof -
  have "2 \<le> parties" using assms by (auto simp: validateMPCParams_def split: if_splits)
  then have "2 \<le> \<lfloor>parties\<rfloor>" by (simp add: le_floor_iff)
  then show thesis using that [of "nat \<lfloor>parties\<rfloor> - 1"] by simp
qed

text \<open>A request for key generation that returns is refused or fails; it may extend the node registry.\<close>

lemma post_dkg_cases:
  assumes "sl_paillier L = NotImported" and "post_dkg L env rq st t = Some ((resp, st'), t')"
  shows "rp_status resp \<in> {400, 500} \<and> (\<exists>e. rp_body resp = PError e) \<and> sv_audit st' = sv_audit st
    \<and> sv_dkgCount st' = sv_dkgCount st \<and> sv_signCount st' = sv_signCount st
    \<and> ms_dkgSessions (sv_mpc st') = ms_dkgSessions (sv_mpc st)"
proof (cases "mpr_valid (validateMPCParams (dr_threshold rq) (dr_totalParties rq))")
  case True
  then obtain n where n: "nat \<lfloor>dr_totalParties rq\<rfloor> = Suc n" by (rule validated_parties)
  let ?curve = "case dr_curve rq of Some (c # cs) \<Rightarrow> c # cs | _ \<Rightarrow> ''secp256k1''"
  note run = assms(2) [unfolded post_dkg_def Let_def assms(1) n]
  obtain r mpc t1 where d: "executeDKG NotImported (sl_h L) (sl_E L) (re_now env) (nat \<lfloor>dr_threshold rq\<rfloor>) (Suc n) ?curve
      (sv_mpc st) t = Some ((r, mpc), t1)"
    using run True by (auto split: option.splits)
  have "(\<exists>e. r = Inl e) \<and> ms_dkgSessions mpc = ms_dkgSessions (sv_mpc st)"
    using dkg_unbound [where h = "sl_h L" and E = "sl_E L" and now = "re_now env" and threshold = "nat \<lfloor>dr_threshold rq\<rfloor>"
        and n = n and curve = ?curve and st = "sv_mpc st" and t = t]
    unfolding d by simp
  then show ?thesis using run True unfolding d by (auto simp: respond_iff)
qed (use assms(2) in \<open>auto simp: post_dkg_def respond_iff Let_def\<close>)

text \<open>What any request does to the audit chain: nothing, or one entry.\<close>

lemma post_dkg_audit:
  assumes "post_dkg L env d st t = Some ((resp, st'), t')"
  shows "sv_audit st' = sv_audit st \<or> (\<exists>action. logged L action (sv_audit st) (sv_audit st'))"
proof -
  from assms consider "sv_audit st' = sv_audit st"
    | session mpc n where "st' = (server_log L env ''DKG_INITIATED'' ''API'' (dkg_details d session) (st\<lparr>sv_mpc := mpc\<rparr>))
        \<lparr>sv_dkgCount := n\<rparr>"
    by (auto simp: post_dkg_def Let_def respond_iff split: if_splits option.splits sum.splits prod.splits)
  then show ?thesis
  proof cases
    case (2 session mpc n)
    have "sv_audit (st\<lparr>sv_mpc := mpc\<rparr>) = sv_audit st" by simp
    from logged_unchanged [OF this]
    have "logged L ''DKG_INITIATED'' (sv_audit st)
        (sv_audit (server_log L env ''DKG_INITIATED'' ''API'' (dkg_details d session) (st\<lparr>sv_mpc := mpc\<rparr>)))" .
    moreover have "sv_audit st' = sv_audit (server_log L env ''DKG_INITIATED'' ''API'' (dkg_details d session)
        (st\<lparr>sv_mpc := mpc\<rparr>))" by (simp add: 2)
    ultimately have "logged L ''DKG_INITIATED'' (sv_audit st) (sv_audit st')" by (simp only:)
    then show ?thesis by blast
  qed simp
qed

lemma post_tamper_audit:
  assumes "post_tamper L env st t = Some ((resp, st'), t')"
  shows "sv_audit st' = sv_audit st \<or> (\<exists>action. logged L action (sv_audit st) (sv_audit st'))"
proof -
  from assms consider "sv_audit st' = sv_audit st"
    | d where "st' = server_log L env ''HSM_TAMPER'' ''SECURITY'' ''HSM tamper alert triggered'' (st\<lparr>sv_hsm := d\<rparr>)"
    by (auto simp: post_tamper_def respond_iff split: option.splits sum.splits)
  then show ?thesis
  proof cases
    case (2 d)
    have "sv_audit (st\<lparr>sv_hsm := d\<rparr>) = sv_audit st" by simp
    from logged_unchanged [OF this] show ?thesis unfolding 2 by blast
  qed simp
qed

lemma handle_audit:
  assumes "handle L env rq st t = Some ((resp, st'), t')"
  shows "sv_audit st' = sv_audit st \<or> (\<exists>action. logged L action (sv_audit st) (sv_audit st'))"
proof (cases rq)
  case (PostDKG key d)
  then show ?thesis using assms unfolding PostDKG handle.simps by (auto elim: requireApiKey_cases dest: post_dkg_audit)
next
  case (PostSign key d)
  have "sv_audit st' = sv_audit st \<or> (\<exists>action. logged L action (sv_audit st) (sv_audit st'))"
    if "post_sign L env d st t = Some ((resp, st'), t')"
    using that by (cases rule: post_sign_cases) auto
  then show ?thesis using assms unfolding PostSign handle.simps by (auto elim: requireApiKey_cases)
next
  case (PostTamper key)
  then show ?thesis using assms unfolding PostTamper handle.simps by (auto elim: requireApiKey_cases dest: post_tamper_audit)
qed (use assms in \<open>auto simp: respond_iff get_hsm_def elim!: requireApiKey_cases split: option.splits sum.splits\<close>)

text \<open>One answered request, whatever it answers.\<close>

definition answers :: "('p, 'd) server_lib \<Rightarrow> 'd server_state \<Rightarrow> 'd server_state \<Rightarrow> bool" where
  "answers L st st' \<longleftrightarrow> (\<exists>env rq t resp t'. handle L env rq st t = Some ((resp, st'), t'))"

lemma served_steps: "served L s0 st \<Longrightarrow> (answers L)\<^sup>*\<^sup>* s0 st"
proof (induction rule: served.induct)
  case (served_more s0 st env rq t resp st' t')
  then have "answers L st st'" unfolding answers_def by blast
  with served_more.IH show ?case by (rule rtranclp.rtrancl_into_rtrancl)
qed simp

interpretation server_audit: audit_client "sl_h L" "sl_S L" sv_audit "answers L" for L
proof unfold_locales
  fix st st' assume "answers L st st'"
  then obtain env rq t resp t' where "handle L env rq st t = Some ((resp, st'), t')" unfolding answers_def by blast
  from handle_audit [OF this] show "audit_step (sl_h L) (sl_S L) (sv_audit st) (sv_audit st')"
    unfolding audit_step_def logged_def by blast
qed

lemma post_dkg_hsm: "post_dkg L env rq st t = Some ((resp, st'), t') \<Longrightarrow> sv_hsm st' = sv_hsm st"
  by (auto simp: post_dkg_def Let_def respond_iff split: if_splits option.splits sum.splits prod.splits)

text \<open>No route but the tamper alert touches the hardware module.\<close>

lemma handle_hsm:
  assumes "handle L env rq st t = Some ((resp, st'), t')"
  shows "sv_hsm st' = sv_hsm st \<or> sv_hsm st' = driver_zeroize (sv_hsm st)"
proof (cases rq)
  case (PostDKG key d)
  then show ?thesis using assms by (auto elim!: requireApiKey_cases dest: post_dkg_hsm)
next
  case (PostSign key d)
  from assms have "requireApiKey L key (post_sign L env d) st t = Some ((resp, st'), t')" by (simp add: PostSign)
  then show ?thesis
  proof (cases rule: requireApiKey_cases)
    case authorized
    from authorized(2) show ?thesis by (cases rule: post_sign_cases) simp_all
  qed simp
next
  case (PostTamper key)
  then show ?thesis
    using assms by (auto elim!: requireApiKey_cases
        simp: post_tamper_def triggerTamperAlert_def result_simps respond_iff split: option.splits sum.splits)
qed (use assms in \<open>auto simp: respond_iff get_hsm_def elim!: requireApiKey_cases split: option.splits sum.splits\<close>)

lemma served_wiped: "served L s0 st \<Longrightarrow> enclave.wiped (sv_hsm s0) \<Longrightarrow> enclave.wiped (sv_hsm st)"
proof (induction rule: served.induct)
  case (served_more s0 st env rq t resp st' t')
  then show ?case using handle_hsm [OF served_more.hyps(2)] enclave.wiped_wipe by metis
qed

subsection \<open>Properties\<close>

text \<open>In every state of the components a signing request is refused or fails, whatever its body: the
  sessions and the counter stay as they are, and the audit chain grows exactly when the policy blocks
  the transaction, by one entry.\<close>

theorem signing_route_outcomes:
  assumes "handle L env (PostSign key rq) st t = Some ((resp, st'), t')"
  shows "rp_status resp \<in> {400, 401, 403, 500}
    \<and> sv_mpc st' = sv_mpc st \<and> sv_signCount st' = sv_signCount st
    \<and> (if rp_status resp = 403
       then \<exists>entry. au_chain (sv_audit st') = au_chain (sv_audit st) @ [entry] \<and> ae_action entry = ''POLICY_BLOCKED''
       else sv_audit st' = sv_audit st)"
proof -
  from assms have "requireApiKey L key (post_sign L env rq) st t = Some ((resp, st'), t')" by simp
  then show ?thesis
  proof (cases rule: requireApiKey_cases)
    case unauthorized
    then show ?thesis by simp
  next
    case authorized
    from authorized(2) show ?thesis
    proof (cases rule: post_sign_cases)
      case (blocked r)
      then show ?thesis using logged_entry [OF blocked(4)] by simp
    qed auto
  qed
qed

definition produces_key_or_signature :: "response \<Rightarrow> bool" where
  "produces_key_or_signature resp =
     (case rp_body resp of PSession session \<Rightarrow> True | PCeremony ceremony \<Rightarrow> True | _ \<Rightarrow> False)"

lemma handle_keeps_counts:
  assumes "sl_paillier L = NotImported" and "handle L env rq st t = Some ((resp, st'), t')"
  shows "\<not> produces_key_or_signature resp \<and> sv_dkgCount st' = sv_dkgCount st \<and> sv_signCount st' = sv_signCount st"
proof (cases rq)
  case (PostDKG key d)
  from assms(2) have "requireApiKey L key (post_dkg L env d) st t = Some ((resp, st'), t')" by (simp add: PostDKG)
  then show ?thesis
    by (cases rule: requireApiKey_cases)
      (use post_dkg_cases [OF assms(1)] in \<open>fastforce simp: produces_key_or_signature_def\<close>)+
next
  case (PostSign key d)
  from assms(2) have "requireApiKey L key (post_sign L env d) st t = Some ((resp, st'), t')" by (simp add: PostSign)
  then show ?thesis
  proof (cases rule: requireApiKey_cases)
    case authorized
    from authorized(2) show ?thesis
      by (cases rule: post_sign_cases) (simp_all add: produces_key_or_signature_def)
  qed (simp add: produces_key_or_signature_def)
next
  case (PostTamper key)
  from assms(2) have "requireApiKey L key (post_tamper L env) st t = Some ((resp, st'), t')" by (simp add: PostTamper)
  then show ?thesis
    by (cases rule: requireApiKey_cases)
      (auto simp: post_tamper_def respond_iff produces_key_or_signature_def split: option.splits sum.splits)
qed (use assms(2) in \<open>auto simp: respond_iff get_hsm_def produces_key_or_signature_def
    elim!: requireApiKey_cases split: option.splits sum.splits\<close>)

text \<open>C8: Whatever requests were served before, no request is answered with a key generation session or a
  signing ceremony, and their counters keep their first values: with the modules as they are written
  the server generates no key and signs nothing.\<close>

theorem service_never_signs:
  assumes "sl_paillier L = NotImported" and "served L s0 st" and "handle L env rq st t = Some ((resp, st'), t')"
  shows "\<not> produces_key_or_signature resp \<and> sv_dkgCount st' = sv_dkgCount s0 \<and> sv_signCount st' = sv_signCount s0"
proof -
  have "sv_dkgCount st = sv_dkgCount s0 \<and> sv_signCount st = sv_signCount s0"
    using assms(2) by (induction rule: served.induct) (use handle_keeps_counts [OF assms(1)] in fastforce)+
  then show ?thesis using handle_keeps_counts [OF assms(1,3)] by simp
qed

text \<open>C16: What the audit route reports after any sequence of requests depends on the start only: the chain
  is intact when the process started on an empty database (or one that holds a single row), and broken
  when it started on two rows or more. The entries of the start stay a prefix of the chain, and every
  entry is counted.\<close>

theorem service_audit_intact:
  assumes "sv_audit s0 = initChain (sl_h L) (sl_S L) db t1 t2 sig" and "served L s0 st"
  shows "\<exists>report. handle L env (GetVerify (Some (sl_apiKey L))) st t
      = Some ((\<lparr>rp_status = 200, rp_body = PIntegrity report\<rparr>, st), t)
    \<and> (er_isChainValid report \<longleftrightarrow> length (loadFromDB (sl_S L) db) \<le> 1)
    \<and> er_totalBlocksChecked report = length (au_chain (sv_audit st))
    \<and> prefix (au_chain (sv_audit s0)) (au_chain (sv_audit st))"
proof -
  note steps = served_steps [OF assms(2)]
  have "linked (sl_h L) (au_chain (sv_audit st)) \<longleftrightarrow> length (loadFromDB (sl_S L) db) \<le> 1"
    using server_audit.run_linked [OF steps] init_linked [of "sl_h L" "sl_S L" db t1 t2 sig] by (simp add: assms(1))
  moreover have "prefix (au_chain (sv_audit s0)) (au_chain (sv_audit st))"
    by (rule server_audit.run_prefix [OF steps])
  ultimately show ?thesis
    by (simp add: requireApiKey_def respond_def engine_verifyChainIntegrity_def Let_def
        verifyChainIntegrity_def verify_from_valid_iff verify_from_total)
qed

text \<open>C40: Once a tamper alert has been raised over HTTP, no later request makes the hardware module usable
  again: it holds no key and stores no share.\<close>

theorem tamper_alert_is_final:
  assumes "handle L env (PostTamper (Some (sl_apiKey L))) st t = Some ((resp, st1), t1)" and "rp_status resp = 200"
    and "served L st1 st2"
  shows "driver_keys (sv_hsm st2) = 0 \<and> \<not> driver_healthy (sv_hsm st2) \<and> \<not> driver_stores W K (sv_hsm st2) d"
proof -
  have "sv_hsm st1 = driver_zeroize (sv_hsm st)"
    using assms(1,2) by (auto simp: requireApiKey_def post_tamper_def triggerTamperAlert_def result_simps respond_iff
        split: option.splits sum.splits)
  then have "enclave.wiped (sv_hsm st2)" using served_wiped [OF assms(3)] enclave.wiped_wipe by metis
  then show ?thesis using enclave.wiped_stores_nothing by (auto simp: enclave.wiped_def)
qed

fun request_key :: "request \<Rightarrow> string option" where
  "request_key GetHealth = None"
| "request_key (PostDKG key rq) = key"
| "request_key (PostSign key rq) = key"
| "request_key (GetVerify key) = key"
| "request_key (GetLogs key limit) = key"
| "request_key (GetHsm key) = key"
| "request_key (PostTamper key) = key"

text \<open>A request without the key is answered 401 and changes nothing, on every route but the health check.\<close>

theorem unauthorized_changes_nothing:
  assumes "request_key rq \<noteq> Some (sl_apiKey L)"
  shows "\<exists>resp. handle L env rq st t = Some ((resp, st), t) \<and> (rp_status resp = 401 \<longleftrightarrow> rq \<noteq> GetHealth)"
  using assms by (cases rq) (simp_all add: requireApiKey_def respond_def)

text \<open>A server that has started answers 401 to every request without a key, with an empty one or with
  the development key, on every route but the health check, and changes nothing.\<close>

theorem default_keys_rejected:
  assumes "starts_with (Some (sl_apiKey L))" and "request_key rq \<in> {None, Some [], Some ''dev-api-key''}"
    and "rq \<noteq> GetHealth"
  shows "\<exists>resp. handle L env rq st t = Some ((resp, st), t) \<and> rp_status resp = 401"
  using assms by (cases rq) (auto simp: requireApiKey_def respond_def starts_with_def)

subsection \<open>A small server\<close>

definition toy_server :: "(int, audit_row list) server_lib" where
  "toy_server = \<lparr>sl_h = toy_hashes, sl_E = toy_ec 13, sl_S = toy_sqlite, sl_paillier = NotImported,
     sl_require = NotImported, sl_apiKey = ''key''\<rparr>"

definition toy_server_state :: "audit_row list server_state" where
  "toy_server_state = \<lparr>sv_mpc = mpc_init, sv_policy = policy_init,
     sv_audit = initChain toy_hashes toy_sqlite (Some []) ''t1'' ''t2'' [0],
     sv_hsm = KMS \<lparr>kh_status = HEALTHY, kh_keyCount = 0, kh_client = True, kh_commands = True, kh_keyId = ''k''\<rparr>,
     sv_dkgCount = 0, sv_signCount = 0, sv_violationCount = 0\<rparr>"

definition toy_request_env :: request_env where
  "toy_request_env = \<lparr>re_now = 5000000, re_iso = ''t3'', re_policy = env_at 5000000\<rparr>"

text \<open>1000 coins are above the limit of the default policy.\<close>

definition toy_sign_request :: sign_request where
  "toy_sign_request = \<lparr>sr_chainId = ''bitcoin'', sr_amount = ''1000'', sr_symbol = ''BTC'',
     sr_toAddress = sample_address, sr_dropNodeId = None\<rparr>"

lemma toy_blocked:
  "\<exists>resp st'. handle toy_server toy_request_env (PostSign (Some ''key'') toy_sign_request) toy_server_state []
    = Some ((resp, st'), []) \<and> rp_status resp = 403"
proof -
  have "case handle toy_server toy_request_env (PostSign (Some ''key'') toy_sign_request) toy_server_state [] of
      None \<Rightarrow> False | Some ((resp, st'), t) \<Rightarrow> rp_status resp = 403 \<and> t = []" by code_simp
  then show ?thesis by (auto split: option.splits)
qed

theorem signing_route_outcomes_witness:
  "\<exists>(st' :: audit_row list server_state) entry. sv_mpc st' = sv_mpc toy_server_state \<and> sv_signCount st' = 0
    \<and> au_chain (sv_audit st') = au_chain (sv_audit toy_server_state) @ [entry] \<and> ae_action entry = ''POLICY_BLOCKED''"
proof -
  obtain resp st' where r: "handle toy_server toy_request_env (PostSign (Some ''key'') toy_sign_request) toy_server_state []
      = Some ((resp, st'), [])" "rp_status resp = 403" using toy_blocked by blast
  have "sv_signCount toy_server_state = 0" by (simp add: toy_server_state_def)
  then show ?thesis using signing_route_outcomes [OF r(1)] r(2) by auto
qed

theorem service_never_signs_witness:
  "\<exists>resp st'. handle toy_server toy_request_env (PostSign (Some ''key'') toy_sign_request) toy_server_state []
      = Some ((resp, st'), []) \<and> \<not> produces_key_or_signature resp \<and> sv_dkgCount st' = 0"
proof -
  obtain resp st' where r: "handle toy_server toy_request_env (PostSign (Some ''key'') toy_sign_request) toy_server_state []
      = Some ((resp, st'), [])" using toy_blocked by blast
  have "sl_paillier toy_server = NotImported" by (simp add: toy_server_def)
  from service_never_signs [OF this served_none r] r show ?thesis by (auto simp: toy_server_state_def)
qed

theorem service_audit_intact_witness:
  "\<exists>st report. handle toy_server toy_request_env (GetVerify (Some ''key'')) st []
      = Some ((\<lparr>rp_status = 200, rp_body = PIntegrity report\<rparr>, st), [])
    \<and> er_isChainValid report \<and> er_totalBlocksChecked report = 2"
proof -
  obtain resp st' where r: "handle toy_server toy_request_env (PostSign (Some ''key'') toy_sign_request) toy_server_state []
      = Some ((resp, st'), [])" "rp_status resp = 403" using toy_blocked by blast
  have f: "loadFromDB toy_sqlite (Some []) = []" by code_simp
  have a: "sv_audit toy_server_state = initChain (sl_h toy_server) (sl_S toy_server) (Some []) ''t1'' ''t2'' [0]"
    by (simp add: toy_server_def toy_server_state_def)
  have n: "length (loadFromDB (sl_S toy_server) (Some [])) \<le> 1" using f by (simp add: toy_server_def)
  from r(1) have "requireApiKey toy_server (Some ''key'') (post_sign toy_server toy_request_env toy_sign_request)
      toy_server_state [] = Some ((resp, st'), [])" by simp
  then have "post_sign toy_server toy_request_env toy_sign_request toy_server_state [] = Some ((resp, st'), [])"
    by (cases rule: requireApiKey_cases) (simp_all add: toy_server_def)
  then have "length (au_chain (sv_audit st')) = 2"
  proof (cases rule: post_sign_cases)
    case (blocked res)
    have "length (au_chain (sv_audit toy_server_state)) = 1"
      using init_chain_fresh [OF f] by (simp add: toy_server_state_def)
    then show ?thesis using logged_entry [OF blocked(4)] by auto
  qed (use r(2) in simp)
  moreover have "sl_apiKey toy_server = ''key''" by (simp add: toy_server_def)
  ultimately show ?thesis using service_audit_intact [OF a served_more [OF served_none r(1)], of toy_request_env "[]"] n
    by metis
qed

theorem unauthorized_changes_nothing_witness:
  "\<exists>resp. handle toy_server toy_request_env (PostTamper (Some ''guess'')) toy_server_state []
      = Some ((resp, toy_server_state), []) \<and> rp_status resp = 401"
  using unauthorized_changes_nothing [of "PostTamper (Some ''guess'')" toy_server] by (simp add: toy_server_def)

theorem default_keys_rejected_witness:
  "\<exists>resp. handle toy_server toy_request_env (GetHsm (Some ''dev-api-key'')) toy_server_state []
      = Some ((resp, toy_server_state), []) \<and> rp_status resp = 401"
  using default_keys_rejected [of toy_server "GetHsm (Some ''dev-api-key'')"] by (simp add: toy_server_def starts_with_def)

theorem tamper_alert_is_final_witness:
  "\<exists>(st :: audit_row list server_state). driver_keys (sv_hsm st) = 0 \<and> \<not> driver_healthy (sv_hsm st)"
proof -
  obtain resp st1 where r: "handle toy_server toy_request_env (PostTamper (Some ''key'')) toy_server_state (replicate 32 0)
      = Some ((resp, st1), [])" "rp_status resp = 200"
    by (simp add: requireApiKey_def toy_server_def toy_server_state_def post_tamper_def triggerTamperAlert_def
        hsm_getStatus_def generateAttestation_def secureRandomBytes_def rnd_bind_def rnd_return_def respond_def)
  have "sl_apiKey toy_server = ''key''" by (simp add: toy_server_def)
  then show ?thesis using tamper_alert_is_final [OF _ r(2) served_none] r(1) by metis
qed

end
