(* ===== verification/StateFuzzer.thy ===== *)
theory StateFuzzer
  imports Complex_Main JsText "HOL-Library.Sublist"
begin

text \<open>
  The protocol state machine and the fuzzer that walks it (chaos/state_machine_fuzzer.ts). A random
  number is a rational in \<open>[0, 1)\<close>; one step of a walk consumes at most two of them, given as a pair.
  The arrow in the keys of the coverage list is the UTF-8 form of the character.
\<close>

subsection \<open>Definitions\<close>

datatype MPCState =
    IDLE | DKG_COMMIT | DKG_SHARE | DKG_COMPLETE | SIGN_COMMIT | SIGN_MTA | SIGN_PARTIAL | SIGN_COMPLETE
  | REFRESHING | ABORTED

datatype MPCAction =
    START_DKG | COMMIT_RECEIVED | SHARE_RECEIVED | DKG_DONE | START_SIGN | NONCE_COMMIT | MTA_COMPLETE
  | SIGN_DONE | START_REFRESH | REFRESH_DONE | ABORT | RECOVER

fun state_text :: "MPCState \<Rightarrow> string" where
  "state_text IDLE = ''IDLE''"
| "state_text DKG_COMMIT = ''DKG_COMMIT''"
| "state_text DKG_SHARE = ''DKG_SHARE''"
| "state_text DKG_COMPLETE = ''DKG_COMPLETE''"
| "state_text SIGN_COMMIT = ''SIGN_COMMIT''"
| "state_text SIGN_MTA = ''SIGN_MTA''"
| "state_text SIGN_PARTIAL = ''SIGN_PARTIAL''"
| "state_text SIGN_COMPLETE = ''SIGN_COMPLETE''"
| "state_text REFRESHING = ''REFRESH''"
| "state_text ABORTED = ''ABORTED''"

fun mpc_action_text :: "MPCAction \<Rightarrow> string" where
  "mpc_action_text START_DKG = ''START_DKG''"
| "mpc_action_text COMMIT_RECEIVED = ''COMMIT_RECEIVED''"
| "mpc_action_text SHARE_RECEIVED = ''SHARE_RECEIVED''"
| "mpc_action_text DKG_DONE = ''DKG_DONE''"
| "mpc_action_text START_SIGN = ''START_SIGN''"
| "mpc_action_text NONCE_COMMIT = ''NONCE_COMMIT''"
| "mpc_action_text MTA_COMPLETE = ''MTA_COMPLETE''"
| "mpc_action_text SIGN_DONE = ''SIGN_DONE''"
| "mpc_action_text START_REFRESH = ''START_REFRESH''"
| "mpc_action_text REFRESH_DONE = ''REFRESH_DONE''"
| "mpc_action_text ABORT = ''ABORT''"
| "mpc_action_text RECOVER = ''RECOVER''"

definition transition_key :: "MPCState \<Rightarrow> MPCAction \<Rightarrow> string" where
  "transition_key s a = state_text s @ [CHR 0xE2, CHR 0x86, CHR 0x92] @ mpc_action_text a"

record StateContext =
  cx_dkgComplete :: bool
  cx_signInProgress :: bool
  cx_refreshInProgress :: bool
  cx_currentEpoch :: nat
  cx_activeSigners :: nat
  cx_threshold :: nat

record Transition =
  tn_from :: MPCState
  tn_action :: MPCAction
  tn_to :: MPCState
  tn_guard :: "(StateContext \<Rightarrow> bool) option"

definition plain :: "MPCState \<Rightarrow> MPCAction \<Rightarrow> MPCState \<Rightarrow> Transition" where
  "plain s a s' = \<lparr>tn_from = s, tn_action = a, tn_to = s', tn_guard = None\<rparr>"

definition guarded :: "MPCState \<Rightarrow> MPCAction \<Rightarrow> MPCState \<Rightarrow> (StateContext \<Rightarrow> bool) \<Rightarrow> Transition" where
  "guarded s a s' g = \<lparr>tn_from = s, tn_action = a, tn_to = s', tn_guard = Some g\<rparr>"

definition transitions :: "Transition list" where
  "transitions =
     [plain IDLE START_DKG DKG_COMMIT,
      plain DKG_COMMIT COMMIT_RECEIVED DKG_SHARE,
      plain DKG_SHARE SHARE_RECEIVED DKG_COMPLETE,
      plain DKG_COMPLETE START_SIGN SIGN_COMMIT,
      plain SIGN_COMMIT NONCE_COMMIT SIGN_MTA,
      plain SIGN_MTA MTA_COMPLETE SIGN_PARTIAL,
      plain SIGN_PARTIAL SIGN_DONE SIGN_COMPLETE,
      plain DKG_COMPLETE START_REFRESH REFRESHING,
      plain REFRESHING REFRESH_DONE DKG_COMPLETE,
      plain SIGN_COMMIT ABORT ABORTED,
      plain ABORTED RECOVER IDLE,
      guarded IDLE START_SIGN IDLE (\<lambda>ctx. \<not> cx_dkgComplete ctx),
      guarded DKG_COMMIT START_SIGN DKG_COMMIT (\<lambda>ctx. \<not> cx_dkgComplete ctx),
      guarded SIGN_COMMIT START_DKG SIGN_COMMIT (\<lambda>ctx. cx_signInProgress ctx),
      guarded REFRESHING START_REFRESH REFRESHING (\<lambda>ctx. cx_refreshInProgress ctx),
      guarded SIGN_PARTIAL START_REFRESH SIGN_PARTIAL (\<lambda>ctx. cx_signInProgress ctx)]"

definition passes :: "StateContext \<Rightarrow> Transition \<Rightarrow> bool" where
  "passes ctx t \<longleftrightarrow> (case tn_guard t of None \<Rightarrow> True | Some g \<Rightarrow> g ctx)"

definition getValidActions :: "MPCState \<Rightarrow> StateContext \<Rightarrow> MPCAction list" where
  "getValidActions s ctx = map tn_action (filter (\<lambda>t. tn_from t = s \<and> passes ctx t) transitions)"

text \<open>\<open>Math.floor(Math.random() * length)\<close>\<close>

definition pick :: "rat \<Rightarrow> 'a list \<Rightarrow> 'a" where
  "pick r xs = xs ! nat \<lfloor>r * of_nat (length xs)\<rfloor>"

definition all_actions :: "MPCAction list" where
  "all_actions = [START_DKG, COMMIT_RECEIVED, SHARE_RECEIVED, DKG_DONE, START_SIGN, NONCE_COMMIT, MTA_COMPLETE,
     SIGN_DONE, START_REFRESH, REFRESH_DONE, ABORT, RECOVER]"

definition getRandomAction :: "rat \<Rightarrow> MPCAction" where
  "getRandomAction r = pick r all_actions"

definition updateContext :: "MPCAction \<Rightarrow> StateContext \<Rightarrow> StateContext" where
  "updateContext a ctx =
     (case a of
        DKG_DONE \<Rightarrow> ctx\<lparr>cx_dkgComplete := True\<rparr>
      | START_SIGN \<Rightarrow> ctx\<lparr>cx_signInProgress := True\<rparr>
      | SIGN_DONE \<Rightarrow> ctx\<lparr>cx_signInProgress := False\<rparr>
      | START_REFRESH \<Rightarrow> ctx\<lparr>cx_refreshInProgress := True\<rparr>
      | REFRESH_DONE \<Rightarrow> ctx\<lparr>cx_refreshInProgress := False, cx_currentEpoch := Suc (cx_currentEpoch ctx)\<rparr>
      | ABORT \<Rightarrow> ctx\<lparr>cx_signInProgress := False\<rparr>
      | RECOVER \<Rightarrow> ctx\<lparr>cx_dkgComplete := False, cx_signInProgress := False, cx_refreshInProgress := False\<rparr>
      | _ \<Rightarrow> ctx)"

definition getAllPossibleTransitions :: "string list" where
  "getAllPossibleTransitions =
     concat (map (\<lambda>s. map (transition_key s) [START_DKG, START_SIGN, START_REFRESH, ABORT, RECOVER])
       [IDLE, DKG_COMMIT, DKG_SHARE, DKG_COMPLETE, SIGN_COMMIT, SIGN_MTA, SIGN_PARTIAL, SIGN_COMPLETE, REFRESHING, ABORTED])"

record StateFuzzReport =
  sf_totalTransitions :: nat
  sf_invalidTransitions :: nat
  sf_deadlocks :: nat
  sf_livelocks :: nat
  sf_uncoveredTransitions :: "string list"
  sf_crashes :: nat

definition start_context :: StateContext where
  "start_context = \<lparr>cx_dkgComplete = False, cx_signInProgress = False, cx_refreshInProgress = False,
     cx_currentEpoch = 1, cx_activeSigners = 0, cx_threshold = 2\<rparr>"

definition covered :: "string \<Rightarrow> StateFuzzReport \<Rightarrow> StateFuzzReport" where
  "covered key rep = rep\<lparr>sf_uncoveredTransitions := filter (\<lambda>t. t \<noteq> key) (sf_uncoveredTransitions rep),
     sf_totalTransitions := Suc (sf_totalTransitions rep)\<rparr>"

text \<open>The last ten entries of a sequence of more than twenty are equal.\<close>

definition looping :: "(MPCState \<times> MPCAction) list \<Rightarrow> bool" where
  "looping sequence \<longleftrightarrow> 20 < length sequence
     \<and> (let recent = drop (length sequence - 10) sequence in list_all (\<lambda>x. x = hd recent) recent)"

text \<open>90% valid action, 10% random action\<close>

definition choose_action :: "rat \<Rightarrow> rat \<Rightarrow> MPCAction list \<Rightarrow> MPCAction" where
  "choose_action r1 r2 validActions = (if r1 < 9 / 10 then pick r2 validActions else getRandomAction r2)"

definition find_transition :: "MPCState \<Rightarrow> MPCAction \<Rightarrow> Transition option" where
  "find_transition s a = find (\<lambda>t. tn_from t = s \<and> tn_action t = a) transitions"

definition refuse :: "StateFuzzReport \<Rightarrow> StateFuzzReport" where
  "refuse rep = rep\<lparr>sf_invalidTransitions := Suc (sf_invalidTransitions rep)\<rparr>"

text \<open>One walk: the argument lists the random numbers of its remaining steps, and has as many entries as
  the loop has iterations left.\<close>

fun walk :: "(rat \<times> rat) list \<Rightarrow> MPCState \<Rightarrow> StateContext \<Rightarrow> (MPCState \<times> MPCAction) list \<Rightarrow> StateFuzzReport
  \<Rightarrow> StateFuzzReport \<times> (MPCState \<times> MPCAction) list" where
  "walk [] s ctx sequence rep = (rep, sequence)"
| "walk ((r1, r2) # rs) s ctx sequence rep =
     (if getValidActions s ctx = [] then (rep\<lparr>sf_deadlocks := Suc (sf_deadlocks rep)\<rparr>, sequence)
      else
        let action = choose_action r1 r2 (getValidActions s ctx);
            rep1 = covered (transition_key s action) rep
        in case find_transition s action of
             None \<Rightarrow> walk rs s ctx sequence (refuse rep1)
           | Some t \<Rightarrow>
               if \<not> passes ctx t then walk rs s ctx sequence (refuse rep1)
               else
                 let sequence' = sequence @ [(tn_to t, action)]
                 in if looping sequence' then (rep1\<lparr>sf_livelocks := Suc (sf_livelocks rep1)\<rparr>, sequence')
                    else walk rs (tn_to t) (updateContext action ctx) sequence' rep1)"

definition runRandomSequence :: "(rat \<times> rat) list \<Rightarrow> StateFuzzReport \<Rightarrow> StateFuzzReport" where
  "runRandomSequence rs rep = fst (walk rs IDLE start_context [] rep)"

definition empty_report :: StateFuzzReport where
  "empty_report = \<lparr>sf_totalTransitions = 0, sf_invalidTransitions = 0, sf_deadlocks = 0, sf_livelocks = 0,
     sf_uncoveredTransitions = getAllPossibleTransitions, sf_crashes = 0\<rparr>"

text \<open>One list of 100 pairs per iteration.\<close>

definition runCampaign :: "(rat \<times> rat) list list \<Rightarrow> StateFuzzReport" where
  "runCampaign randoms = foldl (\<lambda>rep rs. runRandomSequence rs rep) empty_report randoms"

subsection \<open>The state machine as a step relation\<close>

inductive machine_step :: "MPCState \<times> StateContext \<Rightarrow> MPCAction \<Rightarrow> MPCState \<times> StateContext \<Rightarrow> bool" where
  fire: "find_transition s a = Some t \<Longrightarrow> passes ctx t
    \<Longrightarrow> machine_step (s, ctx) a (tn_to t, updateContext a ctx)"

inductive_cases machine_stepE: "machine_step (s, ctx) a c"

text \<open>The configurations a walk passes through, with the trace it has recorded.\<close>

inductive reached :: "MPCState \<Rightarrow> StateContext \<Rightarrow> (MPCState \<times> MPCAction) list \<Rightarrow> bool" where
  at_start: "reached IDLE start_context []"
| after_step: "reached s ctx tr \<Longrightarrow> machine_step (s, ctx) a (s', ctx') \<Longrightarrow> reached s' ctx' (tr @ [(s', a)])"

text \<open>What must have happened, in this order, before a state is entered.\<close>

fun required :: "MPCState \<Rightarrow> MPCAction list" where
  "required IDLE = []"
| "required DKG_COMMIT = [START_DKG]"
| "required DKG_SHARE = [START_DKG, COMMIT_RECEIVED]"
| "required DKG_COMPLETE = [START_DKG, COMMIT_RECEIVED, SHARE_RECEIVED]"
| "required REFRESHING = [START_DKG, COMMIT_RECEIVED, SHARE_RECEIVED, START_REFRESH]"
| "required SIGN_COMMIT = [START_DKG, COMMIT_RECEIVED, SHARE_RECEIVED, START_SIGN]"
| "required ABORTED = [START_DKG, COMMIT_RECEIVED, SHARE_RECEIVED, START_SIGN, ABORT]"
| "required SIGN_MTA = [START_DKG, COMMIT_RECEIVED, SHARE_RECEIVED, START_SIGN, NONCE_COMMIT]"
| "required SIGN_PARTIAL = [START_DKG, COMMIT_RECEIVED, SHARE_RECEIVED, START_SIGN, NONCE_COMMIT, MTA_COMPLETE]"
| "required SIGN_COMPLETE =
     [START_DKG, COMMIT_RECEIVED, SHARE_RECEIVED, START_SIGN, NONCE_COMMIT, MTA_COMPLETE, SIGN_DONE]"

subsection \<open>Lemmas\<close>

lemmas table_simps = transitions_def plain_def guarded_def

lemma find_transitionD:
  "find_transition s a = Some t \<Longrightarrow> t \<in> set transitions \<and> tn_from t = s \<and> tn_action t = a"
  by (auto simp: find_transition_def find_Some_iff)

text \<open>Every row of the table extends what its source state requires by its own action, or returns to a
  state whose requirements its source already has.\<close>

lemma rows_extend:
  "list_all (\<lambda>t. required (tn_to t) = required (tn_from t) @ [tn_action t]
     \<or> subseq (required (tn_to t)) (required (tn_from t))) transitions"
  by (simp add: table_simps)

lemma rows_no_DKG_DONE: "list_all (\<lambda>t. tn_action t \<noteq> DKG_DONE) transitions"
  by (simp add: table_simps)

lemma machine_step_required:
  assumes "machine_step (s, ctx) a (s', ctx')"
  shows "required s' = required s @ [a] \<or> subseq (required s') (required s)"
  using assms rows_extend
  by (auto elim!: machine_stepE dest!: find_transitionD simp: list_all_iff)

lemma updateContext_simps [simp]:
  "cx_threshold (updateContext a ctx) = cx_threshold ctx"
  "cx_activeSigners (updateContext a ctx) = cx_activeSigners ctx"
  "cx_currentEpoch (updateContext a ctx) = cx_currentEpoch ctx + (if a = REFRESH_DONE then 1 else 0)"
  "a \<noteq> DKG_DONE \<Longrightarrow> \<not> cx_dkgComplete ctx \<Longrightarrow> \<not> cx_dkgComplete (updateContext a ctx)"
  by (simp_all add: updateContext_def split: MPCAction.split)

lemma machine_step_no_DKG_DONE: "machine_step (s, ctx) a c \<Longrightarrow> a \<noteq> DKG_DONE \<and> snd c = updateContext a ctx"
  using rows_no_DKG_DONE by (auto elim!: machine_stepE dest!: find_transitionD simp: list_all_iff)

definition machine_inv :: "MPCState \<Rightarrow> StateContext \<Rightarrow> (MPCState \<times> MPCAction) list \<Rightarrow> bool" where
  "machine_inv s ctx tr \<longleftrightarrow> subseq (required s) (map snd tr) \<and> \<not> cx_dkgComplete ctx
     \<and> cx_currentEpoch ctx = 1 + count_list (map snd tr) REFRESH_DONE
     \<and> (if tr = [] then s = IDLE else fst (last tr) = s)"

lemma reached_inv: "reached s ctx tr \<Longrightarrow> machine_inv s ctx tr"
proof (induction rule: reached.induct)
  case at_start
  then show ?case by (simp add: machine_inv_def start_context_def)
next
  case (after_step s ctx tr a s' ctx')
  note step = after_step.hyps(2) and inv = after_step.IH [unfolded machine_inv_def]
  have "subseq (required s') (map snd tr @ [a])"
    using machine_step_required [OF step] inv
    by (auto intro: list_emb_append_mono subseq_order.order_trans [OF _ subseq_rev_drop_many] simp: subseq_append')
  then show ?case
    using machine_step_no_DKG_DONE [OF step] inv by (auto simp: machine_inv_def)
qed

lemma deadlock_iff: "getValidActions s ctx = [] \<longleftrightarrow> s = SIGN_COMPLETE"
  by (cases s) (simp_all add: getValidActions_def table_simps passes_def)

declare walk.simps(2) [simp del]

lemma covered_simps [simp]:
  "sf_totalTransitions (covered k rep) = Suc (sf_totalTransitions rep)"
  "sf_invalidTransitions (covered k rep) = sf_invalidTransitions rep"
  "sf_deadlocks (covered k rep) = sf_deadlocks rep"
  "sf_livelocks (covered k rep) = sf_livelocks rep"
  "sf_crashes (covered k rep) = sf_crashes rep"
  "sf_uncoveredTransitions (covered k rep) = filter (\<lambda>t. t \<noteq> k) (sf_uncoveredTransitions rep)"
  by (simp_all add: covered_def)

text \<open>One iteration of a walk: it stops at once, tries an action that the machine refuses, or fires one.\<close>

lemma refuse_simps [simp]:
  "sf_totalTransitions (refuse rep) = sf_totalTransitions rep"
  "sf_invalidTransitions (refuse rep) = Suc (sf_invalidTransitions rep)"
  "sf_deadlocks (refuse rep) = sf_deadlocks rep"
  "sf_livelocks (refuse rep) = sf_livelocks rep"
  "sf_crashes (refuse rep) = sf_crashes rep"
  "sf_uncoveredTransitions (refuse rep) = sf_uncoveredTransitions rep"
  by (simp_all add: refuse_def)

lemma walk_cases:
  obtains (deadlock) "s = SIGN_COMPLETE"
      "walk ((r1, r2) # rs) s ctx tr rep = (rep\<lparr>sf_deadlocks := Suc (sf_deadlocks rep)\<rparr>, tr)"
  | (refused) a where "s \<noteq> SIGN_COMPLETE"
      "walk ((r1, r2) # rs) s ctx tr rep = walk rs s ctx tr (refuse (covered (transition_key s a) rep))"
  | (livelock) a s' ctx' where "s \<noteq> SIGN_COMPLETE" "machine_step (s, ctx) a (s', ctx')" "looping (tr @ [(s', a)])"
      "walk ((r1, r2) # rs) s ctx tr rep
        = ((covered (transition_key s a) rep)\<lparr>sf_livelocks := Suc (sf_livelocks rep)\<rparr>, tr @ [(s', a)])"
  | (fired) a s' ctx' where "s \<noteq> SIGN_COMPLETE" "machine_step (s, ctx) a (s', ctx')"
      "walk ((r1, r2) # rs) s ctx tr rep = walk rs s' ctx' (tr @ [(s', a)]) (covered (transition_key s a) rep)"
proof (cases "s = SIGN_COMPLETE")
  case True
  then show ?thesis using deadlock by (simp add: walk.simps deadlock_iff)
next
  case False
  define a where "a = choose_action r1 r2 (getValidActions s ctx)"
  note walk = walk.simps(2) [of r1 r2 rs s ctx tr rep, unfolded deadlock_iff Let_def, folded a_def]
  show ?thesis
  proof (cases "find_transition s a")
    case None
    with walk False refused show ?thesis by simp
  next
    case (Some t)
    have step: "passes ctx t \<Longrightarrow> machine_step (s, ctx) a (tn_to t, updateContext a ctx)"
      using Some fire by simp
    show ?thesis
    proof (cases "passes ctx t")
      case True
      show ?thesis
      proof (cases "looping (tr @ [(tn_to t, a)])")
        case looping: True
        with walk Some False True step show ?thesis by (intro livelock [OF False step]) simp_all
      next
        case looping: False
        with walk Some False True step show ?thesis by (intro fired [OF False step]) simp_all
      qed
    next
      case passes: False
      with walk Some False show ?thesis by (intro refused [OF False]) simp
    qed
  qed
qed

lemma walk_reached:
  assumes "walk rs s ctx tr rep = (rep', tr')" "reached s ctx tr"
  shows "\<exists>s' ctx'. reached s' ctx' tr'"
  using assms
proof (induction rs arbitrary: s ctx tr rep)
  case (Cons r rs)
  obtain r1 r2 where [simp]: "r = (r1, r2)" by (cases r)
  have next_reached: "machine_step (s, ctx) a (s', ctx') \<Longrightarrow> reached s' ctx' (tr @ [(s', a)])" for a s' ctx'
    using Cons.prems(2) after_step by blast
  show ?case
    by (rule walk_cases [of s r1 r2 rs ctx tr rep])
      (use Cons next_reached in \<open>simp_all, blast+\<close>)
qed auto

text \<open>What the counters of one walk say of its length.\<close>

lemma walk_counts:
  assumes "walk rs s ctx tr rep = (rep', tr')"
  shows "sf_totalTransitions rep' \<le> sf_totalTransitions rep + length rs"
    and "sf_invalidTransitions rep' + sf_totalTransitions rep \<le> sf_totalTransitions rep' + sf_invalidTransitions rep"
    and "sf_totalTransitions rep' + sf_invalidTransitions rep + length tr
          = sf_totalTransitions rep + sf_invalidTransitions rep' + length tr'"
    and "sf_deadlocks rep' + sf_livelocks rep' \<le> Suc (sf_deadlocks rep + sf_livelocks rep)"
    and "sf_crashes rep' = sf_crashes rep"
    and "subseq (sf_uncoveredTransitions rep') (sf_uncoveredTransitions rep)"
  using assms
proof (induction rs arbitrary: s ctx tr rep)
  case (Cons r rs)
  obtain r1 r2 where [simp]: "r = (r1, r2)" by (cases r)
  { case 1 then show ?case
      by (rule_tac walk_cases [of s r1 r2 rs ctx tr rep]) (auto dest!: Cons.IH(1)) }
  { case 2 then show ?case
      by (rule_tac walk_cases [of s r1 r2 rs ctx tr rep]) (auto dest!: Cons.IH(2)) }
  { case 3 then show ?case
      by (rule_tac walk_cases [of s r1 r2 rs ctx tr rep]) (auto dest!: Cons.IH(3)) }
  { case 4 then show ?case
      by (rule_tac walk_cases [of s r1 r2 rs ctx tr rep]) (auto dest!: Cons.IH(4)) }
  { case 5 then show ?case
      by (rule_tac walk_cases [of s r1 r2 rs ctx tr rep]) (auto dest!: Cons.IH(5)) }
  { case 6 then show ?case
      by (rule_tac walk_cases [of s r1 r2 rs ctx tr rep])
        (auto dest!: Cons.IH(6) intro: subseq_order.order_trans [OF _ subseq_filter_left]) }
qed auto

lemma walk_deadlock:
  assumes "walk rs s ctx tr rep = (rep', tr')" "reached s ctx tr" "sf_deadlocks rep' \<noteq> sf_deadlocks rep"
  shows "sf_deadlocks rep' = Suc (sf_deadlocks rep) \<and> tr' \<noteq> [] \<and> fst (last tr') = SIGN_COMPLETE"
  using assms
proof (induction rs arbitrary: s ctx tr rep)
  case (Cons r rs)
  obtain r1 r2 where [simp]: "r = (r1, r2)" by (cases r)
  show ?case
  proof (rule walk_cases [of s r1 r2 rs ctx tr rep])
    assume "s = SIGN_COMPLETE" and
      "walk ((r1, r2) # rs) s ctx tr rep = (rep\<lparr>sf_deadlocks := Suc (sf_deadlocks rep)\<rparr>, tr)"
    then show ?thesis
      using Cons.prems reached_inv [OF Cons.prems(2)] by (auto simp: machine_inv_def split: if_splits)
  next
    fix a
    assume "walk ((r1, r2) # rs) s ctx tr rep = walk rs s ctx tr (refuse (covered (transition_key s a) rep))"
    then show ?thesis using Cons.prems Cons.IH [of s ctx tr "refuse (covered (transition_key s a) rep)"] by simp
  next
    fix a s' ctx'
    assume "machine_step (s, ctx) a (s', ctx')" and
      "walk ((r1, r2) # rs) s ctx tr rep = walk rs s' ctx' (tr @ [(s', a)]) (covered (transition_key s a) rep)"
    then show ?thesis
      using Cons.prems Cons.IH [of s' ctx' "tr @ [(s', a)]" "covered (transition_key s a) rep"] after_step by simp
  qed (use Cons.prems in auto)
qed auto

subsection \<open>The campaign\<close>

lemma runCampaign_snoc: "runCampaign (rss @ [rs]) = runRandomSequence rs (runCampaign rss)"
  by (simp add: runCampaign_def)

lemma getAllPossibleTransitions_length: "length getAllPossibleTransitions = 50"
  by (simp add: getAllPossibleTransitions_def)

lemma runRandomSequence_walk:
  obtains tr where "walk rs IDLE start_context [] rep = (runRandomSequence rs rep, tr)"
  by (cases "walk rs IDLE start_context [] rep") (auto simp: runRandomSequence_def)

lemma runCampaign_empty [simp]: "runCampaign [] = empty_report"
  by (simp add: runCampaign_def)

text \<open>Every prefix of a trace has what its last state requires.\<close>

definition causal :: "(MPCState \<times> MPCAction) list \<Rightarrow> bool" where
  "causal tr \<longleftrightarrow> list_all (\<lambda>i. subseq (required (fst (tr ! i))) (map snd (take (Suc i) tr))) [0..<length tr]"

lemma causal_snoc: "causal (tr @ [x]) \<longleftrightarrow> causal tr \<and> subseq (required (fst x)) (map snd (tr @ [x]))"
  by (auto simp: causal_def list_all_iff nth_append less_Suc_eq)

lemma reached_causal: "reached s ctx tr \<Longrightarrow> causal tr"
proof (induction rule: reached.induct)
  case (after_step s ctx tr a s' ctx')
  have "machine_inv s' ctx' (tr @ [(s', a)])"
    using after_step.hyps by (blast intro: reached_inv reached.after_step)
  then show ?case using after_step.IH by (simp add: causal_snoc machine_inv_def)
qed (simp add: causal_def)

lemma campaign_counts:
  assumes "list_all (\<lambda>rs. length rs \<le> k) rss"
  shows "sf_totalTransitions (runCampaign rss) \<le> k * length rss
    \<and> sf_invalidTransitions (runCampaign rss) \<le> sf_totalTransitions (runCampaign rss)
    \<and> sf_deadlocks (runCampaign rss) + sf_livelocks (runCampaign rss) \<le> length rss
    \<and> sf_crashes (runCampaign rss) = 0
    \<and> subseq (sf_uncoveredTransitions (runCampaign rss)) getAllPossibleTransitions"
  using assms
proof (induction rss rule: rev_induct)
  case Nil
  then show ?case by (simp add: empty_report_def)
next
  case (snoc rs rss)
  obtain tr where walk: "walk rs IDLE start_context [] (runCampaign rss) = (runRandomSequence rs (runCampaign rss), tr)"
    by (rule runRandomSequence_walk)
  note counts = walk_counts(1,2,4,5,6) [OF walk]
  have ih: "sf_totalTransitions (runCampaign rss) \<le> k * length rss"
    "sf_invalidTransitions (runCampaign rss) \<le> sf_totalTransitions (runCampaign rss)"
    "sf_deadlocks (runCampaign rss) + sf_livelocks (runCampaign rss) \<le> length rss"
    "sf_crashes (runCampaign rss) = 0"
    "subseq (sf_uncoveredTransitions (runCampaign rss)) getAllPossibleTransitions" and len: "length rs \<le> k"
    using snoc by simp_all
  show ?case
    unfolding runCampaign_snoc using counts ih len subseq_order.order_trans [OF counts(5) ih(5)] by simp
qed

subsection \<open>Properties\<close>

text \<open>C25: 
  C1: every state a fuzzing walk records was entered only after the actions it requires, in order:
  no state of a signature without START_DKG, COMMIT_RECEIVED, SHARE_RECEIVED and START_SIGN before it,
  no completed signature without its nonce commitment and conversion, no aborted state without an
  ABORT, whatever actions the fuzzer tries.
\<close>

theorem fuzzed_walk_causal:
  assumes "walk rs IDLE start_context [] rep = (rep', tr)"
  shows "causal tr"
  using walk_reached [OF assms at_start] reached_causal by blast

theorem fuzzed_walk_causal_witness:
  "causal (snd (walk (replicate 12 (0, 0)) IDLE start_context [] empty_report))
     \<and> map fst (snd (walk (replicate 12 (0, 0)) IDLE start_context [] empty_report))
        = [DKG_COMMIT, DKG_SHARE, DKG_COMPLETE, SIGN_COMMIT, SIGN_MTA, SIGN_PARTIAL, SIGN_COMPLETE]"
  by (intro conjI fuzzed_walk_causal [where rs = "replicate 12 (0, 0)" and rep = empty_report
        and rep' = "fst (walk (replicate 12 (0, 0)) IDLE start_context [] empty_report)"])
     (simp, code_simp)

text \<open>
  C1: what a campaign reports: with 100 steps per walk it counts at most 100 transitions per
  iteration, never more refused transitions than transitions, at most one deadlock or livelock per
  iteration and no crash, and its list of uncovered transitions is a part of the initial 50.
\<close>

theorem campaign_bounds:
  assumes "list_all (\<lambda>rs. length rs = 100) rss"
  shows "sf_totalTransitions (runCampaign rss) \<le> 100 * length rss
    \<and> sf_invalidTransitions (runCampaign rss) \<le> sf_totalTransitions (runCampaign rss)
    \<and> sf_deadlocks (runCampaign rss) + sf_livelocks (runCampaign rss) \<le> length rss
    \<and> sf_crashes (runCampaign rss) = 0
    \<and> subseq (sf_uncoveredTransitions (runCampaign rss)) getAllPossibleTransitions
    \<and> length getAllPossibleTransitions = 50"
  using campaign_counts [of 100 rss] assms getAllPossibleTransitions_length by (simp add: list_all_iff)

theorem campaign_bounds_witness:
  "sf_totalTransitions (runCampaign [replicate 100 (0, 0), replicate 100 (0, 9 / 10)]) \<le> 200"
  using campaign_bounds [of "[replicate 100 (0, 0), replicate 100 (0, 9 / 10)]"] by simp

text \<open>
  C1: a walk that counts a deadlock has just completed a signature: SIGN_COMPLETE is the only state
  with no valid action, so the deadlocks of the report are the successful ceremonies.
\<close>

theorem deadlock_is_signature:
  assumes "walk rs IDLE start_context [] rep = (rep', tr)" and "sf_deadlocks rep' \<noteq> sf_deadlocks rep"
  shows "sf_deadlocks rep' = Suc (sf_deadlocks rep) \<and> fst (last tr) = SIGN_COMPLETE
    \<and> subseq [START_DKG, COMMIT_RECEIVED, SHARE_RECEIVED, START_SIGN, NONCE_COMMIT, MTA_COMPLETE, SIGN_DONE]
        (map snd tr)"
proof -
  obtain s ctx where "reached s ctx tr" using walk_reached [OF assms(1) at_start] by blast
  then have "machine_inv s ctx tr" by (rule reached_inv)
  then show ?thesis
    using walk_deadlock [OF assms(1) at_start assms(2)] by (auto simp: machine_inv_def split: if_splits)
qed

theorem deadlock_is_signature_witness:
  "sf_deadlocks (fst (walk (replicate 8 (0, 0)) IDLE start_context [] empty_report)) = 1"
  using deadlock_is_signature [of "replicate 8 (0, 0)" empty_report
      "fst (walk (replicate 8 (0, 0)) IDLE start_context [] empty_report)"
      "snd (walk (replicate 8 (0, 0)) IDLE start_context [] empty_report)"]
  by code_simp

text \<open>
  C1: no row of the table carries DKG_DONE, so key generation is never recorded as complete, and the
  guard meant to stop a signature before it always passes: START_SIGN is taken in IDLE, the machine
  stays there, and a signature is recorded as in progress.
\<close>

theorem sign_before_dkg_accepted:
  assumes "reached IDLE ctx tr"
  shows "\<not> cx_dkgComplete ctx \<and> START_SIGN \<in> set (getValidActions IDLE ctx)
    \<and> machine_step (IDLE, ctx) START_SIGN (IDLE, ctx\<lparr>cx_signInProgress := True\<rparr>)"
proof -
  have flag: "\<not> cx_dkgComplete ctx" using reached_inv [OF assms] by (simp add: machine_inv_def)
  define row where "row = guarded IDLE START_SIGN IDLE (\<lambda>ctx. \<not> cx_dkgComplete ctx)"
  have find: "find_transition IDLE START_SIGN = Some row"
    by (simp add: find_transition_def row_def table_simps)
  have "machine_step (IDLE, ctx) START_SIGN (tn_to row, updateContext START_SIGN ctx)"
    using find flag by (intro fire) (simp_all add: row_def guarded_def passes_def)
  then show ?thesis
    using flag by (simp add: row_def guarded_def updateContext_def getValidActions_def table_simps passes_def)
qed

theorem sign_before_dkg_accepted_witness:
  "START_SIGN \<in> set (getValidActions IDLE start_context)"
  using sign_before_dkg_accepted [OF at_start] by simp

end
