(* ===== verification/RaceDetector.thy ===== *)
theory RaceDetector
  imports JsText JsMap
begin

section \<open>The race detector\<close>

text \<open>
  The four simulated races of chaos/race_detector.ts. JavaScript runs one section of an asynchronous
  function at a time, up to its next \<open>await\<close>; every function here awaits \<open>yield()\<close> at most once, which
  queues its second section with \<open>setImmediate\<close>, a first-in first-out queue. A thread is therefore its
  first section, a state transformer that ends or leaves a second section, and \<open>Promise.all\<close> over a
  list of calls runs the first sections in order, then the second ones in order.
\<close>

subsection \<open>Cooperative threads\<close>

type_synonym 's thread = "'s \<Rightarrow> 's \<times> ('s \<Rightarrow> 's) option"

fun start_all :: "'s thread list \<Rightarrow> 's \<Rightarrow> 's \<times> ('s \<Rightarrow> 's) list" where
  "start_all [] s = (s, [])"
| "start_all (t # ts) s =
     (case t s of (s1, next_section) \<Rightarrow>
      case start_all ts s1 of (s2, queue) \<Rightarrow>
        (s2, (case next_section of None \<Rightarrow> queue | Some c \<Rightarrow> c # queue)))"

definition promise_all :: "'s thread list \<Rightarrow> 's \<Rightarrow> 's" where
  "promise_all ts s = (case start_all ts s of (s1, queue) \<Rightarrow> foldl (\<lambda>s c. c s) s1 queue)"

text \<open>The same calls awaited one after the other, for comparison.\<close>

definition await_each :: "'s thread list \<Rightarrow> 's \<Rightarrow> 's" where
  "await_each ts s = foldl (\<lambda>s t. case t s of (s1, None) \<Rightarrow> s1 | (s1, Some c) \<Rightarrow> c s1) s ts"

subsection \<open>Reports\<close>

record data_race =
  dr_variable :: string
  dr_threadA :: string
  dr_threadB :: string

record RaceReport =
  rr_testName :: string
  rr_racesDetected :: nat
  rr_dataRaces :: "data_race list"
  rr_atomicityViolations :: int
  rr_recommendation :: string

text \<open>The end of every test: one race with its accesses and advice, or none.\<close>

definition report_of :: "string \<Rightarrow> bool \<Rightarrow> data_race \<Rightarrow> int \<Rightarrow> string \<Rightarrow> RaceReport" where
  "report_of name race accesses violations advice =
     \<lparr>rr_testName = name, rr_racesDetected = (if race then 1 else 0),
      rr_dataRaces = (if race then [accesses] else []),
      rr_atomicityViolations = (if race then violations else 0),
      rr_recommendation = (if race then advice else ''No race conditions detected'')\<rparr>"

subsection \<open>The pre-signature queue\<close>

record queue_state =
  qs_queue :: "string list"
  qs_operations :: "string list"

definition consume :: "string \<Rightarrow> queue_state \<Rightarrow> queue_state" where
  "consume who s =
     (case qs_queue s of
        [] \<Rightarrow> s\<lparr>qs_operations := qs_operations s @ [who @ '' consumed: undefined'']\<rparr>
      | item # rest \<Rightarrow> s\<lparr>qs_queue := rest, qs_operations := qs_operations s @ [who @ '' consumed: '' @ item]\<rparr>)"

definition threadA :: "queue_state thread" where
  "threadA s = (let hasItems = qs_queue s \<noteq> [] in (s, Some (\<lambda>s. if hasItems then consume ''A'' s else s)))"

definition threadB :: "queue_state thread" where
  "threadB s = (s, Some (consume ''B''))"

definition testPreSignatureQueueRace :: RaceReport where
  "testPreSignatureQueueRace =
     (let s = promise_all [threadA, threadB] \<lparr>qs_queue = [''item1''], qs_operations = []\<rparr>
      in report_of ''PreSignatureQueue Concurrent Access''
           (list_ex (\<lambda>op. js_includes op ''undefined'') (qs_operations s))
           \<lparr>dr_variable = ''queue.length'', dr_threadA = ''check queue.length > 0'', dr_threadB = ''queue.shift()''\<rparr>
           1 ''CRITICAL: Use atomic compare-and-swap (CAS) or mutex lock for queue operations'')"

subsection \<open>The key refresh\<close>

record refresh_state =
  rs_epoch :: int
  rs_refreshInProgress :: bool
  rs_results :: "int list"

definition finish_refresh :: "refresh_state \<Rightarrow> refresh_state" where
  "finish_refresh s = (let e = rs_epoch s + 1 in
     \<lparr>rs_epoch = e, rs_refreshInProgress = False, rs_results = rs_results s @ [e]\<rparr>)"

definition refresh_thread :: "refresh_state thread" where
  "refresh_thread s =
     (if rs_refreshInProgress s then (s\<lparr>rs_results := rs_results s @ [-1]\<rparr>, None)
      else (s\<lparr>rs_refreshInProgress := True\<rparr>, Some finish_refresh))"

definition refresh_start :: refresh_state where
  "refresh_start = \<lparr>rs_epoch = 1, rs_refreshInProgress = False, rs_results = []\<rparr>"

definition testKeyRefreshRace :: RaceReport where
  "testKeyRefreshRace =
     (let s = promise_all [refresh_thread, refresh_thread, refresh_thread] refresh_start;
          successfulRefreshes = length (filter (\<lambda>r. 0 < r) (rs_results s))
      in report_of ''KeyRefreshEngine Concurrent Refresh'' (1 < successfulRefreshes)
           \<lparr>dr_variable = ''refreshInProgress'', dr_threadA = ''check refreshInProgress'',
            dr_threadB = ''set refreshInProgress = true''\<rparr>
           1 ''CRITICAL: Use atomic test-and-set or semaphore for refresh lock'')"

subsection \<open>The approvals\<close>

record approval_state =
  as_approvals :: "(string, int) js_map"
  as_approvalSet :: "string list"

text \<open>\<open>approvals.get(approver) || 0\<close>\<close>

definition approval_count :: "approval_state \<Rightarrow> string \<Rightarrow> int" where
  "approval_count s approver = (case jm_get (as_approvals s) approver of None \<Rightarrow> 0 | Some n \<Rightarrow> n)"

definition submit_approval :: "string \<Rightarrow> approval_state thread" where
  "submit_approval approver s =
     (let current = approval_count s approver in
      (s, Some (\<lambda>s. \<lparr>as_approvals = jm_set (as_approvals s) approver (current + 1),
                    as_approvalSet = List.insert approver (as_approvalSet s)\<rparr>)))"

definition approval_start :: approval_state where
  "approval_start = \<lparr>as_approvals = [], as_approvalSet = []\<rparr>"

definition testGovernanceApprovalRace :: RaceReport where
  "testGovernanceApprovalRace =
     (let s = promise_all (map submit_approval [''alice'', ''alice'', ''bob'']) approval_start
      in report_of ''GovernanceEngine Concurrent Approvals'' (1 < approval_count s ''alice'')
           \<lparr>dr_variable = ''approvals.get(approver)'', dr_threadA = ''read current count'',
            dr_threadB = ''read current count''\<rparr>
           1 ''HIGH: Use atomic increment or compare-and-swap for approval counting'')"

subsection \<open>The metering\<close>

record meter_state =
  ms_txCount :: int
  ms_violations :: "int list"

definition count_tx :: "meter_state \<Rightarrow> meter_state" where
  "count_tx s = s\<lparr>ms_txCount := ms_txCount s + 1\<rparr>"

definition record_tx :: "int \<Rightarrow> meter_state thread" where
  "record_tx quota s =
     (if ms_txCount s < quota then (s, Some count_tx) else (s\<lparr>ms_violations := ms_violations s @ [1]\<rparr>, None))"

definition meter_start :: meter_state where
  "meter_start = \<lparr>ms_txCount = 0, ms_violations = []\<rparr>"

definition testLicenseMeteringRace :: RaceReport where
  "testLicenseMeteringRace =
     (let quota = 100; s = promise_all (replicate 150 (record_tx quota)) meter_start
      in report_of ''LicenseKernel Concurrent Metering'' (quota < ms_txCount s)
           \<lparr>dr_variable = ''txCount'', dr_threadA = ''check txCount < quota'', dr_threadB = ''txCount++''\<rparr>
           (ms_txCount s - quota) ''CRITICAL: Use atomic compare-and-swap for quota enforcement'')"

definition runFullDetection :: "RaceReport list" where
  "runFullDetection =
     [testPreSignatureQueueRace, testKeyRefreshRace, testGovernanceApprovalRace, testLicenseMeteringRace]"

subsection \<open>Lemmas\<close>

text \<open>Threads whose first section only reads: all of them see the initial state.\<close>

lemma start_all_readers:
  assumes "\<And>x. x \<in> set xs \<Longrightarrow> f x s = (s, Some (g x))"
  shows "start_all (map f xs) s = (s, map g xs)"
  using assms by (induction xs) auto

lemma promise_all_readers:
  assumes "\<And>x. x \<in> set xs \<Longrightarrow> f x s = (s, Some (g x))"
  shows "promise_all (map f xs) s = foldl (\<lambda>s x. g x s) s xs"
  using start_all_readers [of xs f s g] assms by (simp add: promise_all_def foldl_map)

lemma promise_all_replicate:
  assumes "t s = (s, Some c)"
  shows "promise_all (replicate n t) s = (c ^^ n) s"
proof -
  have "promise_all (map (\<lambda>_. t) (replicate n ())) s = foldl (\<lambda>s x. c s) s (replicate n ())"
    using assms by (intro promise_all_readers) simp
  moreover have "foldl (\<lambda>s x. c s) s (replicate n ()) = (c ^^ n) s"
    by (induction n arbitrary: s) (simp_all add: funpow_swap1)
  ultimately show ?thesis by simp
qed

lemma await_each_Cons [simp]:
  "await_each [] s = s"
  "await_each (t # ts) s = await_each ts (case t s of (s1, None) \<Rightarrow> s1 | (s1, Some c) \<Rightarrow> c s1)"
  by (simp_all add: await_each_def)

lemma count_tx_funpow: "(count_tx ^^ n) s = s\<lparr>ms_txCount := ms_txCount s + int n\<rparr>"
  by (induction n arbitrary: s) (simp_all add: count_tx_def)

lemma await_each_record_tx:
  "await_each (replicate n (record_tx q)) s =
     \<lparr>ms_txCount = ms_txCount s + min (int n) (max 0 (q - ms_txCount s)),
      ms_violations = ms_violations s @ replicate (n - nat (q - ms_txCount s)) 1\<rparr>"
proof (induction n arbitrary: s)
  case (Suc n)
  show ?case
  proof (cases "ms_txCount s < q")
    case True
    then have "Suc n - nat (q - ms_txCount s) = n - nat (q - (ms_txCount s + 1))" by linarith
    then show ?thesis using True Suc [of "count_tx s"] by (simp add: record_tx_def count_tx_def min_def max_def)
  next
    case False
    then show ?thesis
      using Suc [of "s\<lparr>ms_violations := ms_violations s @ [1]\<rparr>"] by (simp add: record_tx_def min_def max_def)
  qed
qed simp

lemma refresh_rejected:
  "rs_refreshInProgress s \<Longrightarrow>
   start_all (replicate n refresh_thread) s = (s\<lparr>rs_results := rs_results s @ replicate n (-1)\<rparr>, [])"
  by (induction n arbitrary: s) (simp_all add: refresh_thread_def)

lemma promise_all_refresh:
  "promise_all (replicate (Suc n) refresh_thread) refresh_start
     = \<lparr>rs_epoch = 2, rs_refreshInProgress = False, rs_results = replicate n (-1) @ [2]\<rparr>"
  using refresh_rejected [of "refresh_start\<lparr>rs_refreshInProgress := True\<rparr>" n]
  by (simp add: promise_all_def refresh_thread_def refresh_start_def finish_refresh_def)

text \<open>Concurrent approvals all write the count they read at the start, plus one.\<close>

lemma approvals_written:
  "approval_count (foldl (\<lambda>s x. \<lparr>as_approvals = jm_set (as_approvals s) x (n x), as_approvalSet = List.insert x (as_approvalSet s)\<rparr>) s xs) a
     = (if a \<in> set xs then n a else approval_count s a)"
  by (induction xs arbitrary: s) (auto simp: approval_count_def js_map.get_put)

lemma promise_all_approvals:
  "approval_count (promise_all (map submit_approval xs) s) a
     = (if a \<in> set xs then approval_count s a + 1 else approval_count s a)"
  using promise_all_readers [of xs submit_approval s
      "\<lambda>x s'. \<lparr>as_approvals = jm_set (as_approvals s') x (approval_count s x + 1), as_approvalSet = List.insert x (as_approvalSet s')\<rparr>"]
    approvals_written [where n = "\<lambda>x. approval_count s x + 1"]
  by (simp add: submit_approval_def)

lemma await_each_approvals:
  "approval_count (await_each (map submit_approval xs) s) a = approval_count s a + int (count_list xs a)"
proof (induction xs arbitrary: s)
  case (Cons x xs)
  then show ?case by (simp add: submit_approval_def) (simp add: approval_count_def js_map.get_put)
qed simp

lemma report_of_simps [simp]:
  "rr_racesDetected (report_of n r d v a) = (if r then 1 else 0)"
  "rr_atomicityViolations (report_of n r d v a) = (if r then v else 0)"
  by (simp_all add: report_of_def)

lemma queue_race: "rr_racesDetected testPreSignatureQueueRace = 1 \<and> rr_atomicityViolations testPreSignatureQueueRace = 1"
  by code_simp

lemma refresh_race: "rr_racesDetected testKeyRefreshRace = 0 \<and> rr_atomicityViolations testKeyRefreshRace = 0"
  using promise_all_refresh [of 2] by (simp add: testKeyRefreshRace_def Let_def numeral_eq_Suc)

lemma approval_race:
  "rr_racesDetected testGovernanceApprovalRace = 0 \<and> rr_atomicityViolations testGovernanceApprovalRace = 0"
proof -
  have "approval_count (promise_all (map submit_approval [''alice'', ''alice'', ''bob'']) approval_start) ''alice'' = 1"
    unfolding promise_all_approvals by (simp add: approval_start_def approval_count_def jm_get_def)
  then show ?thesis by (simp only: testGovernanceApprovalRace_def Let_def report_of_simps) simp
qed

lemma promise_all_record_tx:
  "0 < q \<Longrightarrow> promise_all (replicate n (record_tx q)) meter_start = \<lparr>ms_txCount = int n, ms_violations = []\<rparr>"
  by (subst promise_all_replicate [where c = count_tx]) (simp_all add: record_tx_def meter_start_def count_tx_funpow)

lemma metering_race:
  "rr_racesDetected testLicenseMeteringRace = 1 \<and> rr_atomicityViolations testLicenseMeteringRace = 50"
  by (simp add: testLicenseMeteringRace_def Let_def promise_all_record_tx)

subsection \<open>Properties\<close>

text \<open>
  C1: the detector's verdict does not depend on the engines: every run reports one race in the
  queue, none in the refresh, none in the approvals, and an overrun of 50 in the metering.
\<close>

theorem full_detection_verdict:
  "map (\<lambda>r. (rr_racesDetected r, rr_atomicityViolations r)) runFullDetection = [(1, 1), (0, 0), (0, 0), (1, 50)]"
  using queue_race refresh_race approval_race metering_race by (simp add: runFullDetection_def)

text \<open>
  C1: a check before a context switch and an increment after it: with any positive quota, n
  concurrent recordings are all counted and none is refused, whereas the same n recordings awaited
  one after the other count at most the quota and refuse the rest.
\<close>

theorem concurrent_metering_overruns:
  assumes "0 < quota"
  shows "promise_all (replicate n (record_tx quota)) meter_start = \<lparr>ms_txCount = int n, ms_violations = []\<rparr>
    \<and> await_each (replicate n (record_tx quota)) meter_start
        = \<lparr>ms_txCount = min (int n) quota, ms_violations = replicate (n - nat quota) 1\<rparr>"
  using assms promise_all_record_tx [OF assms]
  by (simp add: await_each_record_tx meter_start_def)

theorem concurrent_metering_overruns_witness:
  "ms_txCount (promise_all (replicate 150 (record_tx 100)) meter_start) = 150
     \<and> ms_txCount (await_each (replicate 150 (record_tx 100)) meter_start) = 100"
  using concurrent_metering_overruns [of 100 150] by simp

text \<open>
  C1: the approval test is the wrong way round: for every list of concurrent submissions each
  approver ends with a count of one, the updates of the same approver overwriting each other, so the
  test for a count above one never reports; awaited one after the other, with no race, the counts
  are the numbers of submissions and the test reports a race.
\<close>

theorem approval_test_inverted:
  "approval_count (promise_all (map submit_approval xs) approval_start) a = (if a \<in> set xs then 1 else 0)
    \<and> approval_count (await_each (map submit_approval xs) approval_start) a = int (count_list xs a)"
  unfolding promise_all_approvals await_each_approvals
  by (simp add: approval_start_def approval_count_def jm_get_def)

text \<open>
  C1: the refresh flag is tested and set in one section, so of any number of concurrent refreshes
  exactly one advances the epoch and the others are rejected.
\<close>

theorem one_refresh_succeeds:
  assumes "0 < n"
  shows "promise_all (replicate n refresh_thread) refresh_start
    = \<lparr>rs_epoch = 2, rs_refreshInProgress = False, rs_results = replicate (n - 1) (-1) @ [2]\<rparr>"
  using promise_all_refresh [of "n - 1"] assms by simp

theorem one_refresh_succeeds_witness:
  "rs_results (promise_all [refresh_thread, refresh_thread, refresh_thread] refresh_start) = [-1, -1, 2]"
  using one_refresh_succeeds [of 3] by (simp add: numeral_eq_Suc)

end
