(* ===== verification/SerializerFuzzer.thy ===== *)
theory SerializerFuzzer
  imports Complex_Main Serializer
begin

section \<open>The serializer fuzzer\<close>

text \<open>
  chaos/serializer_fuzzer.ts: eight strategies that corrupt a packed payload, and the campaign that
  counts how \<open>unpack\<close> answers. A test consumes a random number in \<open>[0, 1)\<close> (only the truncation
  uses it) and the milliseconds that passed until a rejection was caught.
\<close>

subsection \<open>Definitions\<close>

record fuzz_coverage =
  cv_validMagic :: bool
  cv_validVersion :: bool
  cv_validLength :: bool
  cv_validType :: bool
  cv_validFields :: bool
  cv_validCrc :: bool

record FuzzResult =
  fr_totalTests :: nat
  fr_crashes :: nat
  fr_hangs :: nat
  fr_uniqueBugs :: "(string, nat) js_map"
  fr_coverage :: fuzz_coverage

definition no_coverage :: fuzz_coverage where
  "no_coverage = \<lparr>cv_validMagic = False, cv_validVersion = False, cv_validLength = False,
     cv_validType = False, cv_validFields = False, cv_validCrc = False\<rparr>"

definition fuzz_start :: FuzzResult where
  "fuzz_start = \<lparr>fr_totalTests = 0, fr_crashes = 0, fr_hangs = 0, fr_uniqueBugs = [], fr_coverage = no_coverage\<rparr>"

definition TIMEOUT_MS :: rat where "TIMEOUT_MS = 1000"

definition fuzz_fields :: "(string \<times> js_val) list" where
  "fuzz_fields =
     [(''id'', VStr ''test-123''), (''count'', VNum 42), (''active'', VBool True), (''data'', VBytes [1, 2, 3, 4]),
      (''nested'', VMap [(''key'', VStr ''value''), (''num'', VBig 100)])]"

definition generateValidPayload :: "hashes \<Rightarrow> bytes result" where
  "generateValidPayload h = rbind (pack h ''FUZZ_TEST'' fuzz_fields) (\<lambda>p. Inr (sp_bytes p))"

definition fuzzMagicBytes :: "hashes \<Rightarrow> rat \<Rightarrow> bytes result" where
  "fuzzMagicBytes h r = rbind (generateValidPayload h)
     (\<lambda>base. Inr (base[0 := 0xDE, 1 := 0xAD, 2 := 0xBE, 3 := 0xEF]))"

definition fuzzVersionByte :: "hashes \<Rightarrow> rat \<Rightarrow> bytes result" where
  "fuzzVersionByte h r = rbind (generateValidPayload h) (\<lambda>base. Inr (base[4 := 0xFF]))"

definition fuzzLengthFields :: "hashes \<Rightarrow> rat \<Rightarrow> bytes result" where
  "fuzzLengthFields h r = rbind (generateValidPayload h)
     (\<lambda>base. Inr (base[5 := 0xFF, 6 := 0xFF, 7 := 0xFF, 8 := 0xFF]))"

text \<open>The first byte from position 10 that could be a field type.\<close>

definition corrupt_type :: "bytes \<Rightarrow> bytes" where
  "corrupt_type base =
     (case find (\<lambda>i. 1 \<le> base ! i \<and> base ! i \<le> 0x0A) [10..<length base - 4] of
        None \<Rightarrow> base
      | Some i \<Rightarrow> base[i := 0xFF])"

definition fuzzFieldTypes :: "hashes \<Rightarrow> rat \<Rightarrow> bytes result" where
  "fuzzFieldTypes h r = rbind (generateValidPayload h) (\<lambda>base. Inr (corrupt_type base))"

text \<open>The object built by the loop: \<open>n\<close> more levels below the one with value \<open>v\<close>.\<close>

fun nested_levels :: "int \<Rightarrow> int \<Rightarrow> nat \<Rightarrow> (string \<times> js_val) list" where
  "nested_levels v i 0 = [(''value'', VNum v)]"
| "nested_levels v i (Suc n) = [(''value'', VNum v), (''nested'', VMap (nested_levels i (i + 1) n))]"

definition fuzzNestedDepth :: "hashes \<Rightarrow> rat \<Rightarrow> bytes result" where
  "fuzzNestedDepth h r =
     (case pack h ''DEEP_NEST'' (nested_levels 1 0 1000) of
        Inr serialized \<Rightarrow> Inr (sp_bytes serialized)
      | Inl _ \<Rightarrow> generateValidPayload h)"

definition fuzzTruncation :: "hashes \<Rightarrow> rat \<Rightarrow> bytes result" where
  "fuzzTruncation h r = rbind (generateValidPayload h)
     (\<lambda>base. Inr (let truncateAt = \<lfloor>r * of_nat (length base)\<rfloor> in take (nat (max 10 truncateAt)) base))"

definition fuzzCrcCorruption :: "hashes \<Rightarrow> rat \<Rightarrow> bytes result" where
  "fuzzCrcCorruption h r = rbind (generateValidPayload h)
     (\<lambda>base. let len = length base; b1 = base[len - 1 := base ! (len - 1) XOR 0xFF]
             in Inr (b1[len - 2 := b1 ! (len - 2) XOR 0xFF]))"

definition fuzzValidPayloads :: "hashes \<Rightarrow> rat \<Rightarrow> bytes result" where
  "fuzzValidPayloads h r = generateValidPayload h"

definition strategies :: "hashes \<Rightarrow> (rat \<Rightarrow> bytes result) list" where
  "strategies h = [fuzzMagicBytes h, fuzzVersionByte h, fuzzLengthFields h, fuzzFieldTypes h, fuzzNestedDepth h,
     fuzzTruncation h, fuzzCrcCorruption h, fuzzValidPayloads h]"

definition updateCoverage :: "bytes \<Rightarrow> FuzzResult \<Rightarrow> FuzzResult" where
  "updateCoverage payload res =
     (let c0 = fr_coverage res;
          c1 = (if map (byte_at payload) [0, 1, 2, 3] = [Some 0x42, Some 0x46, Some 0x4D, Some 0x50]
                then c0\<lparr>cv_validMagic := True\<rparr> else c0);
          c2 = (if byte_at payload 4 = Some 1 then c1\<lparr>cv_validVersion := True\<rparr> else c1)
      in res\<lparr>fr_coverage := c2\<rparr>)"

definition count_bug :: "string \<Rightarrow> FuzzResult \<Rightarrow> FuzzResult" where
  "count_bug msg res =
     (let bugKey = hd (split_on (CHR '':'') msg);
          n = (case jm_get (fr_uniqueBugs res) bugKey of None \<Rightarrow> 0 | Some n \<Rightarrow> n)
      in res\<lparr>fr_uniqueBugs := jm_set (fr_uniqueBugs res) bugKey (n + 1)\<rparr>)"

text \<open>\<open>err.message\<close>: the class puts its name in front of the text.\<close>

definition serialization_message :: "string \<Rightarrow> string" where
  "serialization_message m = ''[BinarySerializer] '' @ m"

text \<open>The \<open>try\<close> around \<open>unpack\<close>.\<close>

definition judge :: "hashes \<Rightarrow> nat \<Rightarrow> bytes \<Rightarrow> rat \<Rightarrow> FuzzResult \<Rightarrow> FuzzResult option" where
  "judge h fuel payload elapsed res =
     (case unpack h fuel payload of
        None \<Rightarrow> None
      | Some (Inr _) \<Rightarrow> Some (updateCoverage payload res)
      | Some (Inl err) \<Rightarrow>
          Some (if TIMEOUT_MS < elapsed then res\<lparr>fr_hangs := fr_hangs res + 1\<rparr>
                else case err of
                  SerializationError msg \<Rightarrow> count_bug (serialization_message msg) res
                | _ \<Rightarrow> res\<lparr>fr_crashes := fr_crashes res + 1\<rparr>))"

fun runStrategy :: "hashes \<Rightarrow> nat \<Rightarrow> (rat \<Rightarrow> bytes result) \<Rightarrow> (rat \<times> rat) list \<Rightarrow> FuzzResult
  \<Rightarrow> FuzzResult result option" where
  "runStrategy h fuel strategy [] res = Some (Inr res)"
| "runStrategy h fuel strategy ((r, elapsed) # tests) res =
     (case strategy r of
        Inl e \<Rightarrow> Some (Inl e)
      | Inr payload \<Rightarrow>
          case judge h fuel payload elapsed (res\<lparr>fr_totalTests := fr_totalTests res + 1\<rparr>) of
            None \<Rightarrow> None
          | Some res' \<Rightarrow> runStrategy h fuel strategy tests res')"

text \<open>\<open>Math.floor(MAX_TESTS / strategies.length)\<close> tests per strategy: one list of 12500 for each.\<close>

fun run_strategies :: "hashes \<Rightarrow> nat \<Rightarrow> ((rat \<Rightarrow> bytes result) \<times> (rat \<times> rat) list) list \<Rightarrow> FuzzResult
  \<Rightarrow> FuzzResult result option" where
  "run_strategies h fuel [] res = Some (Inr res)"
| "run_strategies h fuel ((strategy, tests) # rest) res =
     orbind (runStrategy h fuel strategy tests res) (run_strategies h fuel rest)"

definition runFuzzCampaign :: "hashes \<Rightarrow> nat \<Rightarrow> (rat \<times> rat) list list \<Rightarrow> FuzzResult result option" where
  "runFuzzCampaign h fuel tests = run_strategies h fuel (zip (strategies h) tests) fuzz_start"

subsection \<open>What a corruption leaves of a payload\<close>

lemma i32_at_5:
  "9 \<le> length p \<Longrightarrow> i32_at p 5 = sint (word_of_int (be_int [p ! 5, p ! 6, p ! 7, p ! 8]) :: 32 word)"
  by (simp add: i32_at_def bits_at_def byte_at_def)

lemma i32_at_update: "9 \<le> length p \<Longrightarrow> 9 \<le> i \<Longrightarrow> i32_at (p[i := v]) 5 = i32_at p 5"
  by (simp only: i32_at_5 length_list_update) simp

lemma i32_at_take: "9 \<le> length p \<Longrightarrow> 9 \<le> k \<Longrightarrow> i32_at (take k p) 5 = i32_at p 5"
  by (subst (1 2) i32_at_5) simp_all

lemma framed_update: "framed p n \<Longrightarrow> 9 \<le> i \<Longrightarrow> framed (p[i := v]) n"
  by (simp add: framed_def i32_at_update)

lemma framed_take: "framed p n \<Longrightarrow> 9 \<le> k \<Longrightarrow> framed (take k p) n"
  by (simp add: framed_def i32_at_take min_def)

lemma framed_corrupt_type: "framed p n \<Longrightarrow> framed (corrupt_type p) n"
proof -
  assume framed: "framed p n"
  have found: "9 \<le> i" if "find P [10..<m] = Some i" for P i m
  proof -
    have "i \<in> set [10..<m]" using that by (metis find_Some_iff nth_mem)
    then show ?thesis by simp
  qed
  show ?thesis
    using framed by (auto simp: corrupt_type_def split: option.split dest!: found intro: framed_update)
qed

lemma fuzz_body: "case pack_fields 0 fuzz_fields of Inr body \<Rightarrow> length body = 122 | Inl e \<Rightarrow> False"
  by code_simp

lemma fuzz_packs: "\<exists>p. pack h ''FUZZ_TEST'' fuzz_fields = Inr p"
  using fuzz_body by (auto simp: pack_def MAX_PAYLOAD_SIZE_def Let_def split: sum.splits)

text \<open>The payload every strategy but one starts from.\<close>

lemma generated:
  assumes "\<forall>x. length (h_sha256 h x) = 32"
  obtains base where "generateValidPayload h = Inr base" "framed base (length base)" "16 \<le> length base"
  using fuzz_packs [of h] packed_framed [OF assms] by (auto simp: generateValidPayload_def)

text \<open>The message of the rejection of a strategy's payload.\<close>

definition rejected_with :: "hashes \<Rightarrow> bytes \<Rightarrow> string \<Rightarrow> bool" where
  "rejected_with h p msg \<longleftrightarrow> unpack_checks h p = Inl (SerializationError msg)"

lemma rejected_unpack: "rejected_with h p msg \<Longrightarrow> unpack h fuel p = Some (Inl (SerializationError msg))"
  by (simp add: rejected_with_def unpack_def)

lemma framed_rejected:
  "framed p n \<Longrightarrow> rejected_with h p (if length p < 12 then ''Payload too small'' else ''Length mismatch'')"
  by (simp add: rejected_with_def framed_checks)

definition fuzz_messages :: "string list" where
  "fuzz_messages = [''Invalid magic bytes'', ''Unsupported version'', ''Length mismatch'', ''Payload too small'']"

text \<open>A strategy returns a payload, and \<open>unpack\<close> throws one of the four messages at it.\<close>

definition rejected_by_checks :: "hashes \<Rightarrow> (rat \<Rightarrow> bytes result) \<Rightarrow> rat \<Rightarrow> string \<Rightarrow> bool" where
  "rejected_by_checks h strategy r msg \<longleftrightarrow> (\<exists>p. strategy r = Inr p \<and> rejected_with h p msg)"

lemma take4_update: "4 \<le> i \<Longrightarrow> take 4 (p[i := v]) = take 4 p"
  by simp

lemma magic_rejected:
  assumes "\<forall>x. length (h_sha256 h x) = 32"
  shows "rejected_by_checks h (fuzzMagicBytes h) r ''Invalid magic bytes''"
proof -
  obtain base where b: "generateValidPayload h = Inr base" "framed base (length base)" "16 \<le> length base"
    using generated [OF assms] .
  have "base \<noteq> []" using b(3) by auto
  then have "take 4 (base[0 := 0xDE, 1 := 0xAD, 2 := 0xBE, 3 := 0xEF]) ! 0 \<noteq> MAGIC ! 0"
    by (simp add: MAGIC_def nth_list_update)
  then have "take 4 (base[0 := 0xDE, 1 := 0xAD, 2 := 0xBE, 3 := 0xEF]) \<noteq> MAGIC" by metis
  then show ?thesis
    using b by (simp add: rejected_by_checks_def fuzzMagicBytes_def rejected_with_def unpack_checks_def
        framed_def MAX_PAYLOAD_SIZE_def ser_throw_def)
qed

lemma version_rejected:
  assumes "\<forall>x. length (h_sha256 h x) = 32"
  shows "rejected_by_checks h (fuzzVersionByte h) r ''Unsupported version''"
  by (rule generated [OF assms])
    (simp add: rejected_by_checks_def fuzzVersionByte_def rejected_with_def unpack_checks_def
        framed_def MAX_PAYLOAD_SIZE_def ser_throw_def VERSION_def)

lemma length_rejected:
  assumes "\<forall>x. length (h_sha256 h x) = 32"
  shows "rejected_by_checks h (fuzzLengthFields h) r ''Length mismatch''"
proof -
  obtain base where b: "generateValidPayload h = Inr base" "framed base (length base)" "16 \<le> length base"
    using generated [OF assms] .
  have "i32_at (base[5 := 0xFF, 6 := 0xFF, 7 := 0xFF, 8 := 0xFF]) 5 = -1"
  proof -
    have "i32_at (base[5 := 0xFF, 6 := 0xFF, 7 := 0xFF, 8 := 0xFF]) 5
        = sint (word_of_int (be_int [0xFF, 0xFF, 0xFF, 0xFF]) :: 32 word)"
      using b(3) by (subst i32_at_5) simp_all
    then show ?thesis by (simp add: be_int_def be_step_def)
  qed
  then show ?thesis
    using b by (simp add: rejected_by_checks_def fuzzLengthFields_def rejected_with_def unpack_checks_def
        framed_def MAX_PAYLOAD_SIZE_def ser_throw_def)
qed

lemma types_rejected:
  assumes "\<forall>x. length (h_sha256 h x) = 32"
  shows "rejected_by_checks h (fuzzFieldTypes h) r ''Length mismatch''"
proof -
  obtain base where b: "generateValidPayload h = Inr base" "framed base (length base)" "16 \<le> length base"
    using generated [OF assms] .
  have "length (corrupt_type base) = length base" by (simp add: corrupt_type_def split: option.split)
  then show ?thesis
    using b framed_rejected [OF framed_corrupt_type [OF b(2)], of h]
    by (simp add: rejected_by_checks_def fuzzFieldTypes_def)
qed

lemma nested_rejected:
  assumes "\<forall>x. length (h_sha256 h x) = 32"
  shows "rejected_by_checks h (fuzzNestedDepth h) r ''Length mismatch''"
proof (cases "pack h ''DEEP_NEST'' (nested_levels 1 0 1000)")
  case (Inr p)
  then show ?thesis
    using packed_framed [OF assms Inr] framed_rejected [of "sp_bytes p" _ h]
    by (auto simp: rejected_by_checks_def fuzzNestedDepth_def simp del: nested_levels.simps)
next
  case (Inl e)
  obtain base where "generateValidPayload h = Inr base" "framed base (length base)" "16 \<le> length base"
    using generated [OF assms] .
  then show ?thesis
    using Inl framed_rejected [of base _ h]
    by (auto simp: rejected_by_checks_def fuzzNestedDepth_def simp del: nested_levels.simps)
qed

text \<open>A cut below the twelfth byte is too small; any other cut has the wrong length.\<close>

lemma truncation_rejected:
  assumes "\<forall>x. length (h_sha256 h x) = 32"
  shows "rejected_by_checks h (fuzzTruncation h) r ''Length mismatch''
    \<or> rejected_by_checks h (fuzzTruncation h) r ''Payload too small''"
proof -
  obtain base where b: "generateValidPayload h = Inr base" "framed base (length base)" "16 \<le> length base"
    using generated [OF assms] .
  have "9 \<le> nat (max 10 \<lfloor>r * of_nat (length base)\<rfloor>)" by simp
  from framed_rejected [OF framed_take [OF b(2) this], of h] show ?thesis
    using b(1) by (auto simp: rejected_by_checks_def fuzzTruncation_def Let_def split: if_splits)
qed

lemma crc_rejected:
  assumes "\<forall>x. length (h_sha256 h x) = 32"
  shows "rejected_by_checks h (fuzzCrcCorruption h) r ''Length mismatch''"
proof -
  obtain base where b: "generateValidPayload h = Inr base" "framed base (length base)" "16 \<le> length base"
    using generated [OF assms] .
  have "9 \<le> length base - 1" "9 \<le> length base - 2" using b(3) by simp_all
  then have "framed (base[length base - 1 := v, length base - 2 := w]) (length base)" for v w
    using b(2) framed_update by blast
  from framed_rejected [OF this, of h] show ?thesis
    using b(1,3) by (simp add: rejected_by_checks_def fuzzCrcCorruption_def Let_def)
qed

lemma valid_rejected:
  assumes "\<forall>x. length (h_sha256 h x) = 32"
  shows "rejected_by_checks h (fuzzValidPayloads h) r ''Length mismatch''"
  by (rule generated [OF assms], drule framed_rejected [of _ _ h])
    (simp add: rejected_by_checks_def fuzzValidPayloads_def)

subsection \<open>What a campaign counts\<close>

lemma strategies_rejected:
  assumes "\<forall>x. length (h_sha256 h x) = 32"
  shows "list_all2 (\<lambda>strategy msg. rejected_by_checks h strategy r msg \<or> msg = ''Length mismatch'' \<and> rejected_by_checks h strategy r ''Payload too small'')
    (strategies h)
    [''Invalid magic bytes'', ''Unsupported version'', ''Length mismatch'', ''Length mismatch'', ''Length mismatch'',
     ''Length mismatch'', ''Length mismatch'', ''Length mismatch'']"
  using magic_rejected [OF assms] version_rejected [OF assms] length_rejected [OF assms] types_rejected [OF assms]
    nested_rejected [OF assms] truncation_rejected [OF assms] crc_rejected [OF assms] valid_rejected [OF assms]
  by (simp add: strategies_def)

lemma strategy_rejected:
  assumes "\<forall>x. length (h_sha256 h x) = 32" "strategy \<in> set (strategies h)"
  shows "\<exists>msg. rejected_by_checks h strategy r msg"
  using strategies_rejected [OF assms(1), of r] assms(2)
  by (auto simp: list_all2_conv_all_nth in_set_conv_nth)

definition bugs_sum :: "(string, nat) js_map \<Rightarrow> nat" where
  "bugs_sum m = sum_list (map snd m)"

lemma bugs_sum_count: "bugs_sum (jm_set m k ((case jm_get m k of None \<Rightarrow> 0 | Some n \<Rightarrow> n) + 1)) = Suc (bugs_sum m)"
    and bugs_sum_Suc: "bugs_sum (jm_set m k (Suc (case jm_get m k of None \<Rightarrow> 0 | Some n \<Rightarrow> n))) = Suc (bugs_sum m)"
  by (induction m) (auto simp: bugs_sum_def jm_set_def jm_get_def)

text \<open>The state of the counters while the campaign runs.\<close>

definition tally :: "nat \<Rightarrow> FuzzResult \<Rightarrow> bool" where
  "tally n res \<longleftrightarrow> fr_totalTests res = n \<and> fr_crashes res = 0 \<and> fr_coverage res = no_coverage
     \<and> fr_hangs res + bugs_sum (fr_uniqueBugs res) = n"

lemma judge_rejected:
  assumes "rejected_with h p msg" "tally n res"
  shows "\<exists>res'. judge h fuel p elapsed (res\<lparr>fr_totalTests := fr_totalTests res + 1\<rparr>) = Some res' \<and> tally (Suc n) res'"
  using assms rejected_unpack [OF assms(1), of fuel]
  by (auto simp: judge_def tally_def count_bug_def Let_def bugs_sum_Suc)

lemma runStrategy_tally:
  assumes "\<And>r. \<exists>msg. rejected_by_checks h strategy r msg" "tally n res"
  shows "\<exists>res'. runStrategy h fuel strategy tests res = Some (Inr res') \<and> tally (n + length tests) res'"
  using assms(2)
proof (induction tests arbitrary: n res)
  case (Cons t tests)
  obtain r elapsed where t: "t = (r, elapsed)" by force
  obtain p msg where p: "strategy r = Inr p" "rejected_with h p msg"
    using assms(1) [of r] by (auto simp: rejected_by_checks_def)
  obtain res' where "judge h fuel p elapsed (res\<lparr>fr_totalTests := fr_totalTests res + 1\<rparr>) = Some res'" "tally (Suc n) res'"
    using judge_rejected [OF p(2) Cons.prems] by blast
  with Cons.IH [of "Suc n" res'] show ?case by (simp add: t p(1))
qed simp

lemma run_strategies_tally:
  assumes "\<And>s r. s \<in> fst ` set sts \<Longrightarrow> \<exists>msg. rejected_by_checks h s r msg" "tally n res"
  shows "\<exists>res'. run_strategies h fuel sts res = Some (Inr res') \<and> tally (n + sum_list (map (length \<circ> snd) sts)) res'"
  using assms
proof (induction sts arbitrary: n res)
  case (Cons st sts)
  obtain strategy tests where st: "st = (strategy, tests)" by force
  obtain res' where "runStrategy h fuel strategy tests res = Some (Inr res')" "tally (n + length tests) res'"
    using runStrategy_tally [of h strategy n res fuel tests] Cons.prems by (auto simp: st)
  with Cons.IH [of "n + length tests" res'] Cons.prems(1) show ?case by (auto simp: st orbind_def add.assoc)
qed simp

lemma sum_zip_lengths:
  "length ts = length ss \<Longrightarrow> sum_list (map (length \<circ> snd) (zip ss ts)) = sum_list (map length ts)"
  by (simp flip: map_map)

subsection \<open>Properties\<close>

text \<open>
  C1: the fuzzer never gets past the length check: whatever the hash and the random numbers, the
  eight strategies make payloads that unpack rejects with, in order, the magic, the version and six
  times the length error (a truncation may be too small first); the field types, the checksum and
  the fields are never reached, for the valid payload either. The answer needs no fuel.
\<close>

theorem fuzz_payloads_rejected_early:
  assumes "\<forall>x. length (h_sha256 h x) = 32"
  shows "list_all2 (\<lambda>strategy msg. \<exists>p. strategy r = Inr p
      \<and> unpack h fuel p \<in> {Some (Inl (SerializationError msg)), Some (Inl (SerializationError ''Payload too small''))})
    (strategies h)
    [''Invalid magic bytes'', ''Unsupported version'', ''Length mismatch'', ''Length mismatch'', ''Length mismatch'',
     ''Length mismatch'', ''Length mismatch'', ''Length mismatch'']"
  using strategies_rejected [OF assms, of r]
  by (rule list_all2_mono) (auto simp: rejected_by_checks_def dest!: rejected_unpack [where fuel = fuel])

theorem fuzz_payloads_rejected_early_witness:
  "\<exists>p. fuzzValidPayloads toy_hashes 0 = Inr p
    \<and> unpack toy_hashes 0 p \<in> {Some (Inl (SerializationError ''Length mismatch'')), Some (Inl (SerializationError ''Payload too small''))}"
proof -
  have "\<forall>x. length (h_sha256 toy_hashes x) = 32" by (simp add: toy_hashes_def toy_hash_def)
  from fuzz_payloads_rejected_early [OF this, of 0 0] show ?thesis
    unfolding strategies_def list_all2_Cons by blast
qed

text \<open>
  C1: the campaign returns, with every test counted as a hang or under a rejection message, no crash,
  and no coverage flag ever set: with 12500 tests for each of the eight strategies, 100000 tests.
\<close>

theorem fuzz_campaign_result:
  assumes "\<forall>x. length (h_sha256 h x) = 32" and "length tests = 8" and "list_all (\<lambda>ts. length ts = 12500) tests"
  shows "\<exists>res. runFuzzCampaign h fuel tests = Some (Inr res) \<and> fr_totalTests res = 100000 \<and> fr_crashes res = 0
    \<and> fr_coverage res = no_coverage \<and> fr_hangs res + bugs_sum (fr_uniqueBugs res) = 100000"
proof -
  have len: "length tests = length (strategies h)" using assms(2) by (simp add: strategies_def)
  have lengths: "map length tests = replicate 8 12500"
    using assms(2,3) by (intro nth_equalityI) (auto simp: list_all_length)
  then have total: "sum_list (map (length \<circ> snd) (zip (strategies h) tests)) = 100000"
    by (simp only: sum_zip_lengths [OF len] lengths sum_list_replicate) simp
  have "tally 0 fuzz_start" by (simp add: tally_def fuzz_start_def bugs_sum_def)
  moreover have "\<exists>msg. rejected_by_checks h s r msg" if "s \<in> fst ` set (zip (strategies h) tests)" for s r
    using that by (intro strategy_rejected [OF assms(1)]) (auto dest: set_zip_leftD)
  ultimately obtain res where "run_strategies h fuel (zip (strategies h) tests) fuzz_start = Some (Inr res)" "tally 100000 res"
    using run_strategies_tally [of "zip (strategies h) tests" h 0 fuzz_start fuel] unfolding total by auto
  then show ?thesis by (simp add: runFuzzCampaign_def tally_def)
qed

theorem fuzz_campaign_result_witness:
  "\<exists>res. runFuzzCampaign toy_hashes 0 (replicate 8 (replicate 12500 (1 / 2, 3))) = Some (Inr res)
     \<and> fr_totalTests res = 100000 \<and> fr_crashes res = 0"
proof -
  have "\<forall>x. length (h_sha256 toy_hashes x) = 32" by (simp add: toy_hashes_def toy_hash_def)
  from fuzz_campaign_result [OF this, of "replicate 8 (replicate 12500 (1 / 2, 3))" 0] show ?thesis
    by (auto simp: list_all_length)
qed

text \<open>
  C1: the strategy that means to corrupt a field type corrupts the field count: in the payload it is
  given the first byte between 1 and 10 from position 10 on is the low byte of the count, at position
  20, behind the nine letters of the type name; it becomes 255.
\<close>

theorem fuzzFieldTypes_hits_count:
  assumes "\<forall>x. length (h_sha256 h x) = 32" and "generateValidPayload h = Inr base"
  shows "fuzzFieldTypes h r = Inr (base[20 := 0xFF])
    \<and> take 11 (drop 10 base) = utf8 ''FUZZ_TEST'' @ u16_bytes (int (length fuzz_fields))"
proof -
  obtain p where p: "pack h ''FUZZ_TEST'' fuzz_fields = Inr p" using fuzz_packs by blast
  then have base: "base = sp_bytes p" using assms(2) by (simp add: generateValidPayload_def)
  obtain body where "sp_bytes p = payload_head ''FUZZ_TEST'' (length fuzz_fields) body
      @ take 4 (h_sha256 h (payload_head ''FUZZ_TEST'' (length fuzz_fields) body))"
    using pack_Inr [OF p] by blast
  then obtain rest where tl: "drop 10 base = utf8 ''FUZZ_TEST'' @ [0, 5] @ rest" and "4 \<le> length rest"
    using assms(1) by (auto simp: base payload_head_def Let_def MAGIC_def u32_bytes_def u16_bytes_def fuzz_fields_def)
  have len: "length base = 21 + length rest" using arg_cong [OF tl, of length] by simp
  have at: "base ! (10 + j) = (utf8 ''FUZZ_TEST'' @ [0, 5] @ rest) ! j" for j
    using len by (simp only: nth_drop flip: tl)
  define P where "P = (\<lambda>i. 1 \<le> base ! i \<and> base ! i \<le> 0x0A)"
  have "\<not> P (10 + j)" if "j < 10" for j
  proof -
    have "(utf8 ''FUZZ_TEST'' @ [0, 5] @ rest) ! j = (utf8 ''FUZZ_TEST'' @ [0]) ! j"
      using that nth_append_left [of j "utf8 ''FUZZ_TEST'' @ [0]" "5 # rest"] by simp
    moreover have
      "list_all (\<lambda>j. \<not> (1 \<le> (utf8 ''FUZZ_TEST'' @ [0]) ! j \<and> (utf8 ''FUZZ_TEST'' @ [0]) ! j \<le> 0x0A)) [0..<10]"
      by code_simp
    ultimately show ?thesis using that by (simp only: list_all_iff P_def at) simp
  qed
  moreover have "P 20" using at [of 10] by (simp add: P_def nth_append)
  ultimately have "find P [10..<length base - 4] = Some 20"
    using len \<open>4 \<le> length rest\<close> by (subst find_Some_iff) (auto intro!: exI [of _ 10])
  then have "corrupt_type base = base[20 := 0xFF]" by (simp add: corrupt_type_def flip: P_def)
  then show ?thesis
    using assms(2) tl by (simp add: fuzzFieldTypes_def fuzz_fields_def u16_bytes_def)
qed

theorem fuzzFieldTypes_hits_count_witness:
  "\<exists>base. generateValidPayload toy_hashes = Inr base \<and> fuzzFieldTypes toy_hashes 0 = Inr (base[20 := 0xFF])"
proof -
  have hash: "\<forall>x. length (h_sha256 toy_hashes x) = 32" by (simp add: toy_hashes_def toy_hash_def)
  obtain base where base: "generateValidPayload toy_hashes = Inr base" using generated [OF hash] .
  from fuzzFieldTypes_hits_count [OF hash base] base show ?thesis by blast
qed

end
