(* ===== verification/SideChannel.thy ===== *)
theory SideChannel
  imports Complex_Main ModArith SecureMemory
begin

section \<open>The timing analyzer\<close>

text \<open>
  chaos/side_channel_analyzer.ts: four operations timed on two groups of inputs, and Welch's test on
  the timings. A \<open>number\<close> is a real, an infinity or \<open>NaN\<close> (rounding and overflow are not modelled);
  the clock \<open>now\<close> gives the time of every call of \<open>performance.now()\<close> in order. The module imports
  its operations from paths that do not exist and \<open>CURVE_ORDER\<close> from a module without it: the
  operations are those of lib/crypto and lib/security, the order of the curve is the parameter \<open>q\<close>.
\<close>

subsection \<open>Numbers\<close>

datatype number = Fin real | PosInf | NegInf | NaN

fun nadd :: "number \<Rightarrow> number \<Rightarrow> number" where
  "nadd (Fin x) (Fin y) = Fin (x + y)"
| "nadd NaN y = NaN"
| "nadd x NaN = NaN"
| "nadd PosInf NegInf = NaN"
| "nadd NegInf PosInf = NaN"
| "nadd PosInf y = PosInf"
| "nadd x PosInf = PosInf"
| "nadd NegInf y = NegInf"
| "nadd x NegInf = NegInf"

fun nneg :: "number \<Rightarrow> number" where
  "nneg (Fin x) = Fin (- x)"
| "nneg PosInf = NegInf"
| "nneg NegInf = PosInf"
| "nneg NaN = NaN"

definition nsub :: "number \<Rightarrow> number \<Rightarrow> number" where
  "nsub x y = nadd x (nneg y)"

text \<open>An infinity times a number of the given sign; \<open>0 * Infinity\<close> is \<open>NaN\<close>.\<close>

definition signed_inf :: "real \<Rightarrow> number" where
  "signed_inf s = (if 0 < s then PosInf else if s < 0 then NegInf else NaN)"

fun nsign :: "number \<Rightarrow> real" where
  "nsign (Fin x) = sgn x"
| "nsign PosInf = 1"
| "nsign NegInf = -1"
| "nsign NaN = 0"

definition nmul :: "number \<Rightarrow> number \<Rightarrow> number" where
  "nmul x y =
     (if x = NaN \<or> y = NaN then NaN
      else case (x, y) of
        (Fin a, Fin b) \<Rightarrow> Fin (a * b)
      | _ \<Rightarrow> signed_inf (nsign x * nsign y))"

text \<open>A zero is the positive one: no divisor here is a negative zero.\<close>

definition ndiv :: "number \<Rightarrow> number \<Rightarrow> number" where
  "ndiv x y =
     (case (x, y) of
        (Fin a, Fin b) \<Rightarrow> if b = 0 then signed_inf a else Fin (a / b)
      | (Fin a, PosInf) \<Rightarrow> Fin 0
      | (Fin a, NegInf) \<Rightarrow> Fin 0
      | (PosInf, Fin b) \<Rightarrow> if b < 0 then NegInf else PosInf
      | (NegInf, Fin b) \<Rightarrow> if b < 0 then PosInf else NegInf
      | _ \<Rightarrow> NaN)"

fun nabs :: "number \<Rightarrow> number" where
  "nabs (Fin x) = Fin \<bar>x\<bar>"
| "nabs PosInf = PosInf"
| "nabs NegInf = PosInf"
| "nabs NaN = NaN"

fun nsqrt :: "number \<Rightarrow> number" where
  "nsqrt (Fin x) = (if x < 0 then NaN else Fin (sqrt x))"
| "nsqrt PosInf = PosInf"
| "nsqrt NegInf = NaN"
| "nsqrt NaN = NaN"

fun nfloor :: "number \<Rightarrow> number" where
  "nfloor (Fin x) = Fin (of_int \<lfloor>x\<rfloor>)"
| "nfloor x = x"

text \<open>\<open>x ** a\<close> on a finite base.\<close>

definition finite_pow :: "real \<Rightarrow> real \<Rightarrow> number" where
  "finite_pow x a =
     (if a = 0 then Fin 1
      else if x = 0 then (if 0 < a then Fin 0 else PosInf)
      else if 0 < x then Fin (x powr a)
      else if a = of_int \<lfloor>a\<rfloor> then Fin (x powi \<lfloor>a\<rfloor>)
      else NaN)"

fun npow :: "number \<Rightarrow> number \<Rightarrow> number" where
  "npow x NaN = NaN"
| "npow (Fin x) (Fin a) = finite_pow x a"
| "npow (Fin x) PosInf = (if 1 < \<bar>x\<bar> then PosInf else if \<bar>x\<bar> = 1 then NaN else Fin 0)"
| "npow (Fin x) NegInf = (if 1 < \<bar>x\<bar> then Fin 0 else if \<bar>x\<bar> = 1 then NaN else PosInf)"
| "npow NaN (Fin a) = (if a = 0 then Fin 1 else NaN)"
| "npow NaN a = NaN"
| "npow PosInf (Fin a) = (if a = 0 then Fin 1 else if 0 < a then PosInf else Fin 0)"
| "npow NegInf (Fin a) =
     (if a = 0 then Fin 1
      else if 0 < a then (if a = of_int \<lfloor>a\<rfloor> \<and> odd \<lfloor>a\<rfloor> then NegInf else PosInf)
      else Fin 0)"
| "npow _ PosInf = PosInf"
| "npow _ NegInf = Fin 0"

fun nless :: "number \<Rightarrow> number \<Rightarrow> bool" where
  "nless (Fin x) (Fin y) \<longleftrightarrow> x < y"
| "nless NaN y \<longleftrightarrow> False"
| "nless x NaN \<longleftrightarrow> False"
| "nless x PosInf \<longleftrightarrow> x \<noteq> PosInf"
| "nless NegInf y \<longleftrightarrow> y \<noteq> NegInf"
| "nless x y \<longleftrightarrow> False"

definition nmin :: "number \<Rightarrow> number \<Rightarrow> number" where
  "nmin x y = (if x = NaN \<or> y = NaN then NaN else if nless y x then y else x)"

subsection \<open>The statistics\<close>

definition incompleteBeta :: "number \<Rightarrow> number \<Rightarrow> number \<Rightarrow> number" where
  "incompleteBeta x a b = npow x a"

definition studentTCDF :: "number \<Rightarrow> number \<Rightarrow> number" where
  "studentTCDF t df =
     (let x = ndiv df (nadd df (nmul t t));
          beta = incompleteBeta x (ndiv df (Fin 2)) (Fin (1 / 2))
      in nsub (Fin 1) (nmul (Fin (1 / 2)) beta))"

definition nlength :: "'a list \<Rightarrow> number" where
  "nlength xs = Fin (real (length xs))"

definition mean :: "number list \<Rightarrow> number" where
  "mean xs = ndiv (foldl nadd (Fin 0) xs) (nlength xs)"

definition sample_variance :: "number list \<Rightarrow> number \<Rightarrow> number" where
  "sample_variance xs m =
     ndiv (foldl (\<lambda>sum x. nadd sum (npow (nsub x m) (Fin 2))) (Fin 0) xs) (nsub (nlength xs) (Fin 1))"

record welch =
  w_pValue :: number
  w_meanDiff :: number

definition welchTTest :: "number list \<Rightarrow> number list \<Rightarrow> welch" where
  "welchTTest groupA groupB =
     (let meanA = mean groupA; meanB = mean groupB;
          meanDiff = nabs (nsub meanA meanB);
          varA = sample_variance groupA meanA; varB = sample_variance groupB meanB;
          a = ndiv varA (nlength groupA); b = ndiv varB (nlength groupB);
          se = nsqrt (nadd a b);
          t = ndiv meanDiff se;
          df = nfloor (ndiv (npow (nadd a b) (Fin 2))
            (nadd (ndiv (npow a (Fin 2)) (nsub (nlength groupA) (Fin 1)))
                  (ndiv (npow b (Fin 2)) (nsub (nlength groupB) (Fin 1)))));
          pValue = nmin (Fin 1) (nmul (Fin 2) (nsub (Fin 1) (studentTCDF (nabs t) df)))
      in \<lparr>w_pValue = pValue, w_meanDiff = meanDiff\<rparr>)"

subsection \<open>The tests\<close>

definition SAMPLE_SIZE :: nat where "SAMPLE_SIZE = 10000"
definition SIGNIFICANCE_THRESHOLD :: number where "SIGNIFICANCE_THRESHOLD = Fin (1 / 1000)"

record TimingLeakReport =
  tl_operation :: string
  tl_leaked :: bool
  tl_pValue :: number
  tl_meanDifferenceMs :: number
  tl_sampleSize :: nat
  tl_recommendation :: string

definition leak_report :: "string \<Rightarrow> string \<Rightarrow> string \<Rightarrow> number list \<Rightarrow> number list \<Rightarrow> TimingLeakReport" where
  "leak_report operation advice fine groupA groupB =
     (let w = welchTTest groupA groupB; leaked = nless (w_pValue w) SIGNIFICANCE_THRESHOLD in
      \<lparr>tl_operation = operation, tl_leaked = leaked, tl_pValue = w_pValue w, tl_meanDifferenceMs = w_meanDiff w,
       tl_sampleSize = SAMPLE_SIZE, tl_recommendation = (if leaked then advice else fine)\<rparr>)"

text \<open>A group: one timed call per operand, \<open>k\<close> being the number of clock readings so far. A call that
  throws ends the test, unless it is caught, in which case it is timed like the others.\<close>

definition elapsed :: "(nat \<Rightarrow> real) \<Rightarrow> nat \<Rightarrow> nat \<Rightarrow> number" where
  "elapsed now k i = Fin (now (k + 2 * i + 1) - now (k + 2 * i))"

fun make_calls :: "('a \<Rightarrow> 'b result) \<Rightarrow> 'a list \<Rightarrow> unit result" where
  "make_calls op [] = Inr ()"
| "make_calls op (x # xs) = rbind (op x) (\<lambda>_. make_calls op xs)"

definition time_group :: "(nat \<Rightarrow> real) \<Rightarrow> nat \<Rightarrow> ('a \<Rightarrow> 'b result) \<Rightarrow> 'a list \<Rightarrow> number list result" where
  "time_group now k op xs = rbind (make_calls op xs) (\<lambda>_. Inr (map (elapsed now k) [0..<length xs]))"

definition caught :: "('a \<Rightarrow> 'b result) \<Rightarrow> 'a \<Rightarrow> unit result" where
  "caught op x = Inr ()"

definition timing_test :: "(nat \<Rightarrow> real) \<Rightarrow> nat \<Rightarrow> ('a \<Rightarrow> 'b result) \<Rightarrow> 'a list \<Rightarrow> 'a list
  \<Rightarrow> string \<Rightarrow> string \<Rightarrow> string \<Rightarrow> TimingLeakReport result" where
  "timing_test now k op operandsA operandsB operation advice fine =
     rbind (time_group now k op operandsA) (\<lambda>groupA.
     rbind (time_group now (k + SAMPLE_SIZE) op operandsB) (\<lambda>groupB.
     Inr (leak_report operation advice fine groupA groupB)))"

definition half :: nat where "half = SAMPLE_SIZE div 2"

definition modPow_A :: "int list" where
  "modPow_A = map (\<lambda>i. push_bit 128 (int i)) [0..<half]"

definition modPow_B :: "int list" where
  "modPow_B = map (\<lambda>i. push_bit 128 (int i) OR (push_bit 128 1 - 1)) [0..<half]"

definition modPow_modulus :: int where
  "modPow_modulus = 0xFFFFFFFFFFFFFFFFFFFFFFFFFFFFFFFEBAAEDCE6AF48A03BBFD25E8CD0364141"

definition testModPowTiming :: "(nat \<Rightarrow> real) \<Rightarrow> nat \<Rightarrow> TimingLeakReport result" where
  "testModPowTiming now k = timing_test now k (\<lambda>exp. modPow 2 exp modPow_modulus) modPow_A modPow_B ''modPow''
     ''CRITICAL: Implement Montgomery ladder with constant-time conditional swap''
     ''No significant timing leakage detected''"

text \<open>The operands of the inversion are reduced modulo the order; a zero order would make that throw.\<close>

definition modInverse_A :: "int \<Rightarrow> int list" where
  "modInverse_A q = map (\<lambda>i. (int i + 1) * 123456789 smod q) [0..<half]"

definition modInverse_B :: "int \<Rightarrow> int list" where
  "modInverse_B q = map (\<lambda>i. q - (int i + 1)) [0..<half]"

definition testModInverseTiming :: "int \<Rightarrow> (nat \<Rightarrow> real) \<Rightarrow> nat \<Rightarrow> TimingLeakReport result" where
  "testModInverseTiming q now k =
     timing_test now k (caught (modInverseOrder q)) (modInverse_A q) (modInverse_B q) ''modInverse''
       ''CRITICAL: Implement constant-time modular inverse (Kaliski algorithm)''
       ''No significant timing leakage detected''"

definition modN_A :: "int \<Rightarrow> int list" where
  "modN_A q = map (\<lambda>i. int i smod q) [0..<half]"

definition modN_B :: "int \<Rightarrow> int list" where
  "modN_B q = map (\<lambda>i. - (int i + 1) smod q) [0..<half]"

definition testModNTiming :: "int \<Rightarrow> (nat \<Rightarrow> real) \<Rightarrow> nat \<Rightarrow> TimingLeakReport result" where
  "testModNTiming q now k =
     timing_test now k (\<lambda>val. Inr (modN q val)) (modN_A q) (modN_B q) ''modN''
       ''HIGH: Replace conditional with bit-masking: r = (r & mask) + (n & ~mask)''
       ''No significant timing leakage detected''"

definition testConstantTimeComparison :: "(nat \<Rightarrow> real) \<Rightarrow> nat \<Rightarrow> TimingLeakReport result" where
  "testConstantTimeComparison now k =
     (let bufA = replicate 32 0xAA; bufB = replicate 32 0xAA; bufC = replicate 32 0xBB in
      timing_test now k (\<lambda>bufs. Inr (constantTimeEqual (fst bufs) (snd bufs)))
        (replicate half (bufA, bufB)) (replicate half (bufA, bufC)) ''constantTimeEqual''
        (''CRITICAL: Ensure NO early returns '' @ [CHR 0xE2, CHR 0x80, CHR 0x94] @ '' always scan full length'') ''Constant-time property verified'')"

definition runFullAnalysis :: "int \<Rightarrow> (nat \<Rightarrow> real) \<Rightarrow> TimingLeakReport list result" where
  "runFullAnalysis q now =
     rbind (testModPowTiming now 0) (\<lambda>r1.
     rbind (testModInverseTiming q now (2 * SAMPLE_SIZE)) (\<lambda>r2.
     rbind (testModNTiming q now (4 * SAMPLE_SIZE)) (\<lambda>r3.
     rbind (testConstantTimeComparison now (6 * SAMPLE_SIZE)) (\<lambda>r4.
     Inr [r1, r2, r3, r4]))))"

subsection \<open>Welch's test on real samples\<close>

text \<open>The textbook quantities the test approximates.\<close>

definition avg :: "real list \<Rightarrow> real" where
  "avg xs = sum_list xs / real (length xs)"

definition var :: "real list \<Rightarrow> real" where
  "var xs = (\<Sum>x\<leftarrow>xs. (x - avg xs)\<^sup>2) / (real (length xs) - 1)"

definition se2 :: "real list \<Rightarrow> real" where
  "se2 xs = var xs / real (length xs)"

definition welch_t2 :: "real list \<Rightarrow> real list \<Rightarrow> real" where
  "welch_t2 xs ys = (avg xs - avg ys)\<^sup>2 / (se2 xs + se2 ys)"

definition welch_df :: "real list \<Rightarrow> real list \<Rightarrow> real" where
  "welch_df xs ys = of_int \<lfloor>(se2 xs + se2 ys)\<^sup>2
     / ((se2 xs)\<^sup>2 / (real (length xs) - 1) + (se2 ys)\<^sup>2 / (real (length ys) - 1))\<rfloor>"

definition welch_p :: "real list \<Rightarrow> real list \<Rightarrow> real" where
  "welch_p xs ys = (welch_df xs ys / (welch_df xs ys + welch_t2 xs ys)) powr (welch_df xs ys / 2)"

lemma foldl_nadd: "foldl nadd (Fin s) (map Fin xs) = Fin (s + sum_list xs)"
  by (induction xs arbitrary: s) (simp_all add: add.assoc)

lemma finite_pow_2 [simp]: "finite_pow x 2 = Fin (x\<^sup>2)"
  by (simp add: finite_pow_def)

lemma mean_Fin: "xs \<noteq> [] \<Longrightarrow> mean (map Fin xs) = Fin (avg xs)"
  by (simp add: mean_def foldl_nadd nlength_def ndiv_def avg_def)

lemma foldl_squares:
  "foldl (\<lambda>sum x. nadd sum (npow (nsub x (Fin m)) (Fin 2))) (Fin s) (map Fin xs)
     = Fin (s + (\<Sum>x\<leftarrow>xs. (x - m)\<^sup>2))"
  by (induction xs arbitrary: s) (simp_all add: nsub_def add.assoc)

lemma variance_Fin: "2 \<le> length xs \<Longrightarrow> sample_variance (map Fin xs) (Fin (avg xs)) = Fin (var xs)"
  unfolding sample_variance_def foldl_squares by (auto simp: nlength_def nsub_def ndiv_def var_def)

lemma se2_Fin: "2 \<le> length xs \<Longrightarrow> ndiv (Fin (var xs)) (nlength (map Fin xs)) = Fin (se2 xs)"
  by (auto simp: nlength_def ndiv_def se2_def)

lemma se2_nonneg: "2 \<le> length xs \<Longrightarrow> 0 \<le> se2 xs"
  by (auto simp: se2_def var_def intro!: divide_nonneg_nonneg sum_list_nonneg)

lemma welch_df_ge_1:
  assumes "2 \<le> length xs" "2 \<le> length ys" "0 < se2 xs + se2 ys"
  shows "1 \<le> welch_df xs ys"
    and "0 < (se2 xs)\<^sup>2 / (real (length xs) - 1) + (se2 ys)\<^sup>2 / (real (length ys) - 1)"
proof -
  have shrink: "z\<^sup>2 / (real (length zs) - 1) \<le> z\<^sup>2" if "2 \<le> length zs" for z :: real and zs :: "real list"
    using that mult_right_mono [of 1 "real (length zs) - 1" "z\<^sup>2"] by (simp add: divide_le_eq mult.commute)
  let ?D = "(se2 xs)\<^sup>2 / (real (length xs) - 1) + (se2 ys)\<^sup>2 / (real (length ys) - 1)"
  have nonneg: "0 \<le> se2 xs" "0 \<le> se2 ys" using assms se2_nonneg by blast+
  have "0 \<le> 2 * se2 xs * se2 ys" using nonneg by simp
  then have "?D \<le> (se2 xs + se2 ys)\<^sup>2"
    using shrink [OF assms(1), of "se2 xs"] shrink [OF assms(2), of "se2 ys"] by (simp only: power2_sum)
  moreover show pos: "0 < ?D"
  proof (cases "se2 xs = 0")
    case True
    then show ?thesis using assms by simp
  next
    case False
    then show ?thesis using assms by (intro add_pos_nonneg divide_nonneg_nonneg) simp_all
  qed
  ultimately have "1 \<le> (se2 xs + se2 ys)\<^sup>2 / ?D" by simp
  then show "1 \<le> welch_df xs ys" unfolding welch_df_def by (simp add: le_floor_iff)
qed

lemma welch_x_range:
  assumes "1 \<le> df" "0 \<le> t2"
  shows "0 < df / (df + t2)" "df / (df + t2) \<le> (1 :: real)"
  using assms by (simp_all add: divide_le_eq)

lemma welchTTest_Fin:
  assumes "2 \<le> length xs" "2 \<le> length ys" "0 < se2 xs + se2 ys"
  shows "welchTTest (map Fin xs) (map Fin ys) = \<lparr>w_pValue = Fin (welch_p xs ys), w_meanDiff = Fin \<bar>avg xs - avg ys\<bar>\<rparr>"
proof -
  have ne: "xs \<noteq> []" "ys \<noteq> []" using assms by auto
  define df where "df = welch_df xs ys"
  define t where "t = \<bar>avg xs - avg ys\<bar> / sqrt (se2 xs + se2 ys)"
  have t2: "t * t = welch_t2 xs ys"
    using assms(3) by (simp add: t_def welch_t2_def power2_eq_square abs_mult_self_eq)
  have df1: "1 \<le> df" and D: "0 < (se2 xs)\<^sup>2 / (real (length xs) - 1) + (se2 ys)\<^sup>2 / (real (length ys) - 1)"
    using welch_df_ge_1 [OF assms] by (simp_all add: df_def)
  have t2_nonneg: "0 \<le> welch_t2 xs ys" using assms(3) by (simp add: welch_t2_def)
  have df_num: "nfloor (ndiv (npow (nadd (Fin (se2 xs)) (Fin (se2 ys))) (Fin 2))
      (nadd (ndiv (npow (Fin (se2 xs)) (Fin 2)) (nsub (nlength (map Fin xs)) (Fin 1)))
            (ndiv (npow (Fin (se2 ys)) (Fin 2)) (nsub (nlength (map Fin ys)) (Fin 1))))) = Fin df"
    using D assms by (simp add: ndiv_def nsub_def nlength_def df_def welch_df_def)
  have t_num: "ndiv (nabs (nsub (Fin (avg xs)) (Fin (avg ys)))) (nsqrt (nadd (Fin (se2 xs)) (Fin (se2 ys)))) = Fin t"
    using assms(3) by (simp add: ndiv_def nsub_def t_def)
  have x: "0 < df / (df + welch_t2 xs ys)" "df / (df + welch_t2 xs ys) \<le> 1"
    using welch_x_range [OF df1 t2_nonneg] .
  have cdf: "studentTCDF (nabs (Fin t)) (Fin df) = Fin (1 - welch_p xs ys / 2)"
  proof -
    have "ndiv (Fin df) (nadd (Fin df) (nmul (Fin \<bar>t\<bar>) (Fin \<bar>t\<bar>))) = Fin (df / (df + welch_t2 xs ys))"
      using df1 t2_nonneg by (simp add: ndiv_def nmul_def t2 flip: abs_mult)
    then show ?thesis
      using x(1) df1 by (simp add: studentTCDF_def incompleteBeta_def ndiv_def finite_pow_def nsub_def nmul_def
          welch_p_def df_def)
  qed
  have "welch_p xs ys \<le> 1"
    using powr_mono2 [of "df / 2" "df / (df + welch_t2 xs ys)" 1] x df1 by (simp add: welch_p_def df_def)
  then show ?thesis
    unfolding welchTTest_def Let_def mean_Fin [OF ne(1)] mean_Fin [OF ne(2)] variance_Fin [OF assms(1)]
      variance_Fin [OF assms(2)] se2_Fin [OF assms(1)] se2_Fin [OF assms(2)] df_num t_num cdf
    by (auto simp: nsub_def nmul_def nmin_def)
qed

lemma const_stats:
  "2 \<le> n \<Longrightarrow> avg (replicate n x) = x" "se2 (replicate n x) = 0"
  by (auto simp: avg_def se2_def var_def sum_list_replicate)

text \<open>With no variance at all the statistic is infinite or NaN, and the number of degrees of freedom is NaN.\<close>

lemma welchTTest_constant:
  assumes "2 \<le> length xs" "2 \<le> length ys" "se2 xs = 0" "se2 ys = 0"
  shows "w_pValue (welchTTest (map Fin xs) (map Fin ys)) = NaN"
proof -
  have ne: "xs \<noteq> []" "ys \<noteq> []" using assms by auto
  have "studentTCDF t NaN = NaN" for t
    by (simp add: studentTCDF_def incompleteBeta_def ndiv_def nsub_def nmul_def)
  then show ?thesis
    unfolding welchTTest_def Let_def mean_Fin [OF ne(1)] mean_Fin [OF ne(2)] variance_Fin [OF assms(1)]
      variance_Fin [OF assms(2)] se2_Fin [OF assms(1)] se2_Fin [OF assms(2)] assms(3,4)
    using assms(1,2) by (simp add: ndiv_def nsub_def nlength_def signed_inf_def nmul_def nmin_def)
qed

subsection \<open>The operands\<close>

lemma make_calls_ok: "(\<And>x. x \<in> set xs \<Longrightarrow> \<exists>y. op x = Inr y) \<Longrightarrow> make_calls op xs = Inr ()"
proof (induction xs)
  case (Cons x xs)
  then obtain y where "op x = Inr y" by (metis list.set_intros(1))
  then show ?case using Cons by simp
qed simp

lemma timing_test_ok:
  assumes "\<And>x. x \<in> set xs \<union> set ys \<Longrightarrow> \<exists>y. op x = Inr y"
  shows "timing_test now k op xs ys name advice fine
    = Inr (leak_report name advice fine (map (elapsed now k) [0..<length xs])
        (map (elapsed now (k + SAMPLE_SIZE)) [0..<length ys]))"
  using make_calls_ok [of xs op] make_calls_ok [of ys op] assms by (simp add: timing_test_def time_group_def)

lemma half_simps [simp]:
  "length modPow_A = half" "length modPow_B = half" "length (modInverse_A q) = half" "length (modInverse_B q) = half"
  "length (modN_A q) = half" "length (modN_B q) = half"
  by (simp_all add: modPow_A_def modPow_B_def modInverse_A_def modInverse_B_def modN_A_def modN_B_def)

lemma push_bit_OR_ones: "0 \<le> i \<Longrightarrow> push_bit n i OR (push_bit n 1 - 1) = push_bit n i + (2 ^ n - 1)" for i :: int
proof -
  have "push_bit n i AND mask n = 0"
    by (rule bit_eqI) (auto simp: bit_simps)
  then have "push_bit n i OR mask n = push_bit n i + mask n" using plus_and_or [of "push_bit n i" "mask n"] by simp
  then show ?thesis by (simp add: mask_eq_exp_minus_1 push_bit_eq_mult)
qed

lemma modPow_operands_nonneg: "e \<in> set modPow_A \<union> set modPow_B \<Longrightarrow> 0 \<le> e"
  by (auto simp: modPow_A_def modPow_B_def push_bit_OR_ones)

lemma modPow_never_throws: "e \<in> set modPow_A \<union> set modPow_B \<Longrightarrow> \<exists>r. modPow 2 e modPow_modulus = Inr r"
  using modPow_operands_nonneg [of e] by (simp add: modPow_def modPow_modulus_def)

text \<open>The reports of an analysis, whatever the clock.\<close>

definition group_times :: "(nat \<Rightarrow> real) \<Rightarrow> nat \<Rightarrow> number list" where
  "group_times now g = map (elapsed now (g * SAMPLE_SIZE)) [0..<half]"

lemma runFullAnalysis_reports:
  obtains r1 r2 r3 r4 where "runFullAnalysis q now = Inr [r1, r2, r3, r4]"
    "\<exists>n a f. r1 = leak_report n a f (group_times now 0) (group_times now 1) \<and> n = ''modPow''"
    "\<exists>n a f. r2 = leak_report n a f (group_times now 2) (group_times now 3) \<and> n = ''modInverse''"
    "\<exists>n a f. r3 = leak_report n a f (group_times now 4) (group_times now 5) \<and> n = ''modN''"
    "\<exists>n a f. r4 = leak_report n a f (group_times now 6) (group_times now 7) \<and> n = ''constantTimeEqual''"
proof -
  obtain r1 where 1: "testModPowTiming now 0 = Inr r1"
    "\<exists>n a f. r1 = leak_report n a f (group_times now 0) (group_times now 1) \<and> n = ''modPow''"
    unfolding testModPowTiming_def
    using timing_test_ok [of modPow_A modPow_B "\<lambda>exp. modPow 2 exp modPow_modulus" now 0] modPow_never_throws
    by (auto simp: group_times_def)
  obtain r2 where 2: "testModInverseTiming q now (2 * SAMPLE_SIZE) = Inr r2"
    "\<exists>n a f. r2 = leak_report n a f (group_times now 2) (group_times now 3) \<and> n = ''modInverse''"
    unfolding testModInverseTiming_def
    by (auto simp: timing_test_ok caught_def group_times_def algebra_simps)
  obtain r3 where 3: "testModNTiming q now (4 * SAMPLE_SIZE) = Inr r3"
    "\<exists>n a f. r3 = leak_report n a f (group_times now 4) (group_times now 5) \<and> n = ''modN''"
    unfolding testModNTiming_def
    by (auto simp: timing_test_ok group_times_def algebra_simps)
  obtain r4 where 4: "testConstantTimeComparison now (6 * SAMPLE_SIZE) = Inr r4"
    "\<exists>n a f. r4 = leak_report n a f (group_times now 6) (group_times now 7) \<and> n = ''constantTimeEqual''"
    unfolding testConstantTimeComparison_def Let_def
    by (auto simp: timing_test_ok group_times_def algebra_simps)
  show ?thesis
    using that [of r1 r2 r3 r4] 1 2 3 4 by (simp add: runFullAnalysis_def)
qed

lemma leak_report_leaked:
  "tl_leaked (leak_report n a f xs ys) = nless (w_pValue (welchTTest xs ys)) SIGNIFICANCE_THRESHOLD"
  by (simp add: leak_report_def Let_def)

lemma group_times_constant:
  assumes "\<And>i. i < half \<Longrightarrow> now (g * SAMPLE_SIZE + 2 * i + 1) - now (g * SAMPLE_SIZE + 2 * i) = d"
  shows "group_times now g = map Fin (replicate half d)"
  using assms by (intro nth_equalityI) (simp_all add: group_times_def elapsed_def)

lemma constant_groups_not_leaked:
  assumes "xs = map Fin (replicate half c)" "ys = map Fin (replicate half d)"
  shows "\<not> tl_leaked (leak_report n a f xs ys)"
proof -
  have "2 \<le> half" by (simp add: half_def SAMPLE_SIZE_def)
  then have "w_pValue (welchTTest xs ys) = NaN"
    unfolding assms by (intro welchTTest_constant) (simp_all only: length_replicate const_stats)
  then show ?thesis by (simp add: leak_report_leaked)
qed

lemma powr_less_iff_threshold:
  fixes df t2 :: real
  assumes "0 < df" "0 \<le> t2"
  shows "(df / (df + t2)) powr (df / 2) < 1 / 1000 \<longleftrightarrow> df * (1000 powr (2 / df) - 1) < t2"
proof -
  let ?x = "df / (df + t2)"
  have "(1000 powr (- 2 / df)) powr (df / 2) = 1000 powr (-1)"
    using assms(1) by (simp only: powr_powr) simp
  then have thousandth: "(1000 powr (- 2 / df)) powr (df / 2) = 1 / 1000" by (simp add: powr_minus)
  have x: "0 < ?x" by (rule divide_pos_pos [OF assms(1) add_pos_nonneg [OF assms]])
  have "?x powr (df / 2) < 1 / 1000 \<longleftrightarrow> ?x powr (df / 2) < (1000 powr (- 2 / df)) powr (df / 2)"
    by (simp only: thousandth)
  also have "\<dots> \<longleftrightarrow> ?x < 1000 powr (- 2 / df)"
    using x assms(1) powr_less_mono2 [of "df / 2" ?x "1000 powr (- 2 / df)"]
      powr_mono2 [of "df / 2" "1000 powr (- 2 / df)" ?x] by fastforce
  also have "\<dots> \<longleftrightarrow> df < 1000 powr (- 2 / df) * (df + t2)"
    using add_pos_nonneg [OF assms] by (simp add: divide_less_eq)
  also have "1000 powr (- 2 / df) = inverse (1000 powr (2 / df))"
    by (simp add: powr_minus flip: minus_divide_left)
  also have "df < inverse (1000 powr (2 / df)) * (df + t2) \<longleftrightarrow> df * 1000 powr (2 / df) < df + t2"
    by (simp add: inverse_eq_divide less_divide_eq)
  also have "\<dots> \<longleftrightarrow> df * (1000 powr (2 / df) - 1) < t2"
    by (simp add: algebra_simps)
  finally show ?thesis .
qed

subsection \<open>Properties\<close>

text \<open>C24: 
  C1: on two samples of at least two timings each, not both constant, the test computes Welch's
  statistic and degrees of freedom, and reports a leak exactly when the squared statistic exceeds
  \<open>df (1000 powr (2 / df) - 1)\<close>.
\<close>

theorem leak_reported_iff:
  assumes "2 \<le> length xs" "2 \<le> length ys" "0 < se2 xs + se2 ys"
  shows "tl_leaked (leak_report n a f (map Fin xs) (map Fin ys))
    \<longleftrightarrow> welch_df xs ys * (1000 powr (2 / welch_df xs ys) - 1) < welch_t2 xs ys"
proof -
  have "0 \<le> welch_t2 xs ys" using assms(3) by (simp add: welch_t2_def)
  moreover have "0 < welch_df xs ys" using welch_df_ge_1 [OF assms] by linarith
  ultimately show ?thesis
    by (simp only: leak_report_leaked welchTTest_Fin [OF assms] SIGNIFICANCE_THRESHOLD_def welch_p_def
        powr_less_iff_threshold nless.simps welch.simps)
qed

theorem leak_reported_iff_witness:
  "tl_leaked (leak_report ''modPow'' ''advice'' ''fine'' (map Fin [0, 2]) (map Fin [1000, 1002]))"
proof -
  have stats: "avg [0, 2] = 1" "avg [1000, 1002] = 1001" by (simp_all add: avg_def)
  then have se: "se2 [0, 2] = 1" "se2 [1000, 1002] = 1" by (simp_all add: se2_def var_def)
  then have "welch_df [0, 2] [1000, 1002] = 2" "welch_t2 [0, 2] [1000, 1002] = 500000"
    by (simp_all add: welch_df_def welch_t2_def stats)
  then show ?thesis by (subst leak_reported_iff) (simp_all add: se)
qed

text \<open>
  C1: two groups whose timings are constant are never reported, however far apart the two constants
  are: without variance the number of degrees of freedom, and with it the p-value, is NaN.
\<close>

theorem constant_timings_not_reported:
  assumes "list_all (\<lambda>g. list_all (\<lambda>i. now (g * SAMPLE_SIZE + 2 * i + 1) - now (g * SAMPLE_SIZE + 2 * i) = d g) [0..<half]) [0..<8]"
  shows "\<exists>rs. runFullAnalysis q now = Inr rs \<and> length rs = 4 \<and> list_all (\<lambda>r. \<not> tl_leaked r) rs"
proof -
  have g: "group_times now g = map Fin (replicate half (d g))" if "g < 8" for g
    using assms that by (intro group_times_constant) (simp add: list_all_iff)
  obtain r1 r2 r3 r4 where rs: "runFullAnalysis q now = Inr [r1, r2, r3, r4]"
    "\<exists>n a f. r1 = leak_report n a f (group_times now 0) (group_times now 1) \<and> n = ''modPow''"
    "\<exists>n a f. r2 = leak_report n a f (group_times now 2) (group_times now 3) \<and> n = ''modInverse''"
    "\<exists>n a f. r3 = leak_report n a f (group_times now 4) (group_times now 5) \<and> n = ''modN''"
    "\<exists>n a f. r4 = leak_report n a f (group_times now 6) (group_times now 7) \<and> n = ''constantTimeEqual''"
    by (rule runFullAnalysis_reports)
  then have "list_all (\<lambda>r. \<not> tl_leaked r) [r1, r2, r3, r4]"
    using constant_groups_not_leaked g by auto
  with rs(1) show ?thesis by simp
qed

theorem constant_timings_not_reported_witness:
  "\<exists>rs. runFullAnalysis 7 (\<lambda>i. if odd i \<and> i < SAMPLE_SIZE then 1000 else 0) = Inr rs
     \<and> list_all (\<lambda>r. \<not> tl_leaked r) rs"
proof -
  have "list_all (\<lambda>g. list_all (\<lambda>i. (if odd (g * SAMPLE_SIZE + 2 * i + 1) \<and> g * SAMPLE_SIZE + 2 * i + 1 < SAMPLE_SIZE then 1000 else 0)
      - (if odd (g * SAMPLE_SIZE + 2 * i) \<and> g * SAMPLE_SIZE + 2 * i < SAMPLE_SIZE then 1000 else 0)
      = (if g = 0 then 1000 else 0 :: real)) [0..<half]) [0..<8]"
    by (auto simp: list_all_iff SAMPLE_SIZE_def half_def)
  from constant_timings_not_reported [OF this, of 7] show ?thesis by auto
qed

text \<open>
  C1: the analysis never throws: it returns the reports of its four tests in order, for any clock.
\<close>

theorem full_analysis_returns:
  "\<exists>rs. runFullAnalysis q now = Inr rs
     \<and> map tl_operation rs = [''modPow'', ''modInverse'', ''modN'', ''constantTimeEqual'']"
proof -
  obtain r1 r2 r3 r4 where "runFullAnalysis q now = Inr [r1, r2, r3, r4]"
    "\<exists>n a f. r1 = leak_report n a f (group_times now 0) (group_times now 1) \<and> n = ''modPow''"
    "\<exists>n a f. r2 = leak_report n a f (group_times now 2) (group_times now 3) \<and> n = ''modInverse''"
    "\<exists>n a f. r3 = leak_report n a f (group_times now 4) (group_times now 5) \<and> n = ''modN''"
    "\<exists>n a f. r4 = leak_report n a f (group_times now 6) (group_times now 7) \<and> n = ''constantTimeEqual''"
    by (rule runFullAnalysis_reports)
  then show ?thesis by (auto simp: leak_report_def Let_def)
qed

text \<open>
  C1: what the groups of exponents are: those of the first group end in 128 zero bits, those of the
  second differ from them in these low bits only, which are all ones.
\<close>

theorem modPow_groups:
  "list_all2 (\<lambda>a b. a mod 2 ^ 128 = 0 \<and> b mod 2 ^ 128 = 2 ^ 128 - 1 \<and> a div 2 ^ 128 = b div 2 ^ 128) modPow_A modPow_B"
proof -
  have "push_bit 128 (int i) OR (push_bit 128 1 - 1) = int i * 2 ^ 128 + (2 ^ 128 - 1)" for i
    unfolding push_bit_OR_ones [OF of_nat_0_le_iff] by (simp add: push_bit_eq_mult)
  moreover have "(x * 2 ^ 128 + (2 ^ 128 - 1)) mod 2 ^ 128 = 2 ^ 128 - 1"
    "(x * 2 ^ 128 + (2 ^ 128 - 1)) div 2 ^ 128 = x" for x :: int
    by simp_all
  ultimately show ?thesis
    unfolding list_all2_conv_all_nth modPow_A_def modPow_B_def by (simp only: length_map nth_map) (simp add: push_bit_eq_mult)
qed

text \<open>
  C1: the groups of modN are the two branches of its correction: with an order above 5000 no operand
  of the first group is negative after the reduction and every operand of the second one is.
\<close>

theorem modN_groups:
  assumes "5000 < q"
  shows "list_all (\<lambda>v. \<not> v smod q < 0) (modN_A q) \<and> list_all (\<lambda>v. v smod q < 0) (modN_B q)"
proof -
  have "int i smod q = int i" "(- int i - 1) smod q = - int i - 1" if "i < half" for i
    using that assms by (auto simp: signed_modulo_int_def half_def SAMPLE_SIZE_def)
  then show ?thesis by (auto simp: list_all_iff modN_A_def modN_B_def)
qed

theorem modN_groups_witness: "list_all (\<lambda>v. v smod 5003 < 0) (modN_B 5003)"
  using modN_groups [of 5003] by simp

end
