(* ===== verification/Reconnect.thy ===== *)
theory Reconnect
  imports Transport
begin

section \<open>Reconnection\<close>

text \<open>
  How the handlers of Transport work together when a peer cannot be reached: the timers they set, the
  attempts these timers start, and what \<open>disconnect\<close> and \<open>close\<close> can stop. A failed attempt is an
  \<open>error\<close> event followed by a \<open>close\<close> event, as the \<open>ws\<close> library documents for a connection that
  cannot be established.
\<close>

subsection \<open>Attempts\<close>

definition failed_attempt :: "(string \<Rightarrow> string option result) \<Rightarrow> string \<Rightarrow> transport \<Rightarrow> action list \<times> transport" where
  "failed_attempt U url st =
     (case on_outbound_error U url st of (a1, st1) \<Rightarrow>
      case on_outbound_close U url st1 of (a2, st2) \<Rightarrow> (a1 @ a2, st2))"

text \<open>The URLs whose timers are pending after some actions.\<close>

fun timers_set :: "action list \<Rightarrow> string list" where
  "timers_set [] = []"
| "timers_set (SetTimer url ms # acts) = url # timers_set acts"
| "timers_set (_ # acts) = timers_set acts"

text \<open>A pending timer fires: it calls \<open>connect\<close>, whose attempt fails if it opens a socket. Its errors
  are caught.\<close>

definition timer_fires :: "(string \<Rightarrow> string option result) \<Rightarrow> string \<Rightarrow> transport \<Rightarrow> string list \<times> transport" where
  "timer_fires U url st =
     (case transport_connect U url st of
        Inl e \<Rightarrow> ([], st)
      | Inr [] \<Rightarrow> ([], st)
      | Inr (act # acts) \<Rightarrow> (case failed_attempt U url st of (acts', st') \<Rightarrow> (timers_set acts', st')))"

text \<open>All pending timers fire once, in order.\<close>

fun fire_all :: "(string \<Rightarrow> string option result) \<Rightarrow> string list \<Rightarrow> transport \<Rightarrow> string list \<times> transport" where
  "fire_all U [] st = ([], st)"
| "fire_all U (url # urls) st =
     (case timer_fires U url st of (p1, st1) \<Rightarrow> case fire_all U urls st1 of (p2, st2) \<Rightarrow> (p1 @ p2, st2))"

fun fire_rounds :: "(string \<Rightarrow> string option result) \<Rightarrow> nat \<Rightarrow> string list \<Rightarrow> transport \<Rightarrow> string list \<times> transport" where
  "fire_rounds U 0 pending st = (pending, st)"
| "fire_rounds U (Suc n) pending st =
     (case fire_all U pending st of (pending', st') \<Rightarrow> fire_rounds U n pending' st')"

subsection \<open>Lemmas\<close>

definition unreachable :: "(string \<Rightarrow> string option result) \<Rightarrow> string \<Rightarrow> transport \<Rightarrow> bool" where
  "unreachable U url st \<longleftrightarrow> \<not> tr_isClosing st \<and> \<not> jm_has (tr_clients st) (extractPeerIdFromUrl U url)"

text \<open>The interval of a timer is one of two values.\<close>

definition backoff :: "transport \<Rightarrow> int set" where
  "backoff st = {min (tc_reconnectIntervalMs (tr_config st)) (tc_reconnectMaxIntervalMs (tr_config st)),
     min (tc_reconnectIntervalMs (tr_config st) * 2) (tc_reconnectMaxIntervalMs (tr_config st))}"

lemma scheduleReconnect_open:
  assumes "\<not> tr_isClosing st"
  obtains ms where "scheduleReconnect U url st = ([SetTimer url ms],
      st\<lparr>tr_reconnectTimers := jm_set (tr_reconnectTimers st) (extractPeerIdFromUrl U url) ms\<rparr>)" "ms \<in> backoff st"
  using assms by (auto simp: scheduleReconnect_def Let_def backoff_def)

lemma failed_attempt_open:
  assumes "unreachable U url st"
  obtains ms1 ms2 st' where "failed_attempt U url st = ([SetTimer url ms1, SetTimer url ms2], st')"
    "unreachable U url st'" "jm_keys (tr_reconnectTimers st') = jm_keys (jm_set (tr_reconnectTimers st) (extractPeerIdFromUrl U url) ms1)"
    "ms1 \<in> backoff st" "ms2 \<in> backoff st" "tr_config st' = tr_config st"
proof -
  have open_st: "\<not> tr_isClosing st" using assms by (simp add: unreachable_def)
  obtain ms1 where s1: "scheduleReconnect U url st = ([SetTimer url ms1],
      st\<lparr>tr_reconnectTimers := jm_set (tr_reconnectTimers st) (extractPeerIdFromUrl U url) ms1\<rparr>)" "ms1 \<in> backoff st"
    by (rule scheduleReconnect_open [OF open_st, of U url])
  let ?st1 = "st\<lparr>tr_reconnectTimers := jm_set (tr_reconnectTimers st) (extractPeerIdFromUrl U url) ms1,
    tr_clients := jm_delete (tr_clients st) (extractPeerIdFromUrl U url)\<rparr>"
  have "\<not> tr_isClosing ?st1" using open_st by simp
  then obtain ms2 where s2: "scheduleReconnect U url ?st1 = ([SetTimer url ms2],
      ?st1\<lparr>tr_reconnectTimers := jm_set (tr_reconnectTimers ?st1) (extractPeerIdFromUrl U url) ms2\<rparr>)" "ms2 \<in> backoff ?st1"
    by (rule scheduleReconnect_open [of ?st1 U url])
  have keys: "jm_keys (jm_set (jm_set m k a) k b) = jm_keys (jm_set m k a)" for m :: "(string, int) js_map" and k a b
    by (simp add: jm_keys_def jm_set_def update_keys)
  let ?st2 = "?st1\<lparr>tr_reconnectTimers := jm_set (tr_reconnectTimers ?st1) (extractPeerIdFromUrl U url) ms2\<rparr>"
  have "failed_attempt U url st = ([SetTimer url ms1, SetTimer url ms2], ?st2)"
    by (simp add: failed_attempt_def on_outbound_error_def on_outbound_close_def s1 s2)
  moreover have "unreachable U url ?st2" using open_st by (simp add: unreachable_def js_map.get_del jm_has_def)
  moreover have "jm_keys (tr_reconnectTimers ?st2) = jm_keys (jm_set (tr_reconnectTimers st) (extractPeerIdFromUrl U url) ms1)"
    by (simp add: keys)
  moreover have "ms2 \<in> backoff st" using s2(2) by (simp add: backoff_def)
  ultimately show ?thesis using that [of ms1 ms2 ?st2] s1(2) by simp
qed

lemma timer_fires_unreachable:
  assumes "unreachable U url st"
  obtains st' where "timer_fires U url st = ([url, url], st')" "unreachable U url st'"
    "length (tr_reconnectTimers st') = length (jm_set (tr_reconnectTimers st) (extractPeerIdFromUrl U url) 0)"
    "jm_has (tr_reconnectTimers st') (extractPeerIdFromUrl U url)"
proof -
  obtain ms1 ms2 st' where f: "failed_attempt U url st = ([SetTimer url ms1, SetTimer url ms2], st')"
    "unreachable U url st'"
    "jm_keys (tr_reconnectTimers st') = jm_keys (jm_set (tr_reconnectTimers st) (extractPeerIdFromUrl U url) ms1)"
    by (rule failed_attempt_open [OF assms])
  have "timer_fires U url st = ([url, url], st')"
    using assms f(1) by (simp add: timer_fires_def transport_connect_def unreachable_def)
  moreover have "length (tr_reconnectTimers st') = length (jm_set (tr_reconnectTimers st) (extractPeerIdFromUrl U url) 0)"
    using arg_cong [OF f(3), of length] by (simp add: jm_keys_def length_jm_set)
  moreover have "jm_has (tr_reconnectTimers st') (extractPeerIdFromUrl U url)"
    using f(3) js_map.keys_iff [of "extractPeerIdFromUrl U url" "tr_reconnectTimers st'"]
      js_map.keys_iff [of "extractPeerIdFromUrl U url" "jm_set (tr_reconnectTimers st) (extractPeerIdFromUrl U url) ms1"]
    by (simp add: jm_has_def js_map.get_put)
  ultimately show ?thesis using that f(2) by blast
qed

text \<open>A round of firings doubles the pending timers, and leaves one handle for the peer.\<close>

lemma fire_all_unreachable:
  assumes "unreachable U url st" "tr_reconnectTimers st = [(extractPeerIdFromUrl U url, ms)]"
  shows "\<exists>st' ms'. fire_all U (replicate n url) st = (replicate (2 * n) url, st') \<and> unreachable U url st'
    \<and> tr_reconnectTimers st' = [(extractPeerIdFromUrl U url, ms')]"
  using assms
proof (induction n arbitrary: st ms)
  case (Suc n)
  obtain st1 where f: "timer_fires U url st = ([url, url], st1)" "unreachable U url st1"
    "length (tr_reconnectTimers st1) = length (jm_set (tr_reconnectTimers st) (extractPeerIdFromUrl U url) 0)"
    "jm_has (tr_reconnectTimers st1) (extractPeerIdFromUrl U url)"
    by (rule timer_fires_unreachable [OF Suc.prems(1)])
  have "length (tr_reconnectTimers st1) = 1" using f(3) Suc.prems(2) by (simp add: jm_set_def)
  then obtain ms1 where "tr_reconnectTimers st1 = [(extractPeerIdFromUrl U url, ms1)]"
    using f(4) by (auto simp: length_Suc_conv jm_has_def jm_get_def split: if_splits)
  from Suc.IH [OF f(2) this] show ?case using f(1) by auto
qed auto

lemma fire_rounds_unreachable:
  assumes "unreachable U url st" "tr_reconnectTimers st = [(extractPeerIdFromUrl U url, ms)]"
  shows "\<exists>st' ms'. fire_rounds U n (replicate k url) st = (replicate (2 ^ n * k) url, st') \<and> unreachable U url st'
    \<and> tr_reconnectTimers st' = [(extractPeerIdFromUrl U url, ms')]"
  using assms
proof (induction n arbitrary: st ms k)
  case (Suc n)
  obtain st1 ms1 where f: "fire_all U (replicate k url) st = (replicate (2 * k) url, st1)" "unreachable U url st1"
    "tr_reconnectTimers st1 = [(extractPeerIdFromUrl U url, ms1)]"
    using fire_all_unreachable [OF Suc.prems] by blast
  from Suc.IH [OF f(2,3), of "2 * k"] show ?case using f(1) by (simp add: algebra_simps)
qed auto

lemma first_attempt:
  assumes "unreachable U url st" "tr_reconnectTimers st = []"
  obtains acts st' ms where "failed_attempt U url st = (acts, st')" "timers_set acts = [url, url]" "unreachable U url st'"
    "tr_reconnectTimers st' = [(extractPeerIdFromUrl U url, ms)]"
proof -
  obtain ms1 ms2 st' where f: "failed_attempt U url st = ([SetTimer url ms1, SetTimer url ms2], st')"
    "unreachable U url st'"
    "jm_keys (tr_reconnectTimers st') = jm_keys (jm_set (tr_reconnectTimers st) (extractPeerIdFromUrl U url) ms1)"
    by (rule failed_attempt_open [OF assms(1)])
  from f(3) obtain ms where "tr_reconnectTimers st' = [(extractPeerIdFromUrl U url, ms)]"
    using assms(2) by (cases "tr_reconnectTimers st'") (auto simp: jm_keys_def jm_set_def)
  then show ?thesis using that f(1,2) by simp
qed

subsection \<open>Properties\<close>

text \<open>C37: Attempts to reach an unreachable peer double: the \<open>error\<close> and the \<open>close\<close> event of a failed
  attempt each set a timer, so after the first attempt and n rounds of firings 2^(n+1) attempts are
  pending, while the transport holds one handle, the only one \<open>close\<close> and \<open>disconnect\<close> can clear.\<close>

theorem reconnect_attempts_double:
  assumes "\<not> tr_isClosing st" and "\<not> jm_has (tr_clients st) (extractPeerIdFromUrl U url)"
    and "tr_reconnectTimers st = []"
  shows "\<exists>acts st1 st2. failed_attempt U url st = (acts, st1)
    \<and> fire_rounds U n (timers_set acts) st1 = (replicate (2 ^ Suc n) url, st2)
    \<and> fst (transport_close st2) = ClearTimer (extractPeerIdFromUrl U url)
        # map (\<lambda>(peerId, ws). CloseSocket ws 1001) (tr_clients st2) @ (if tr_server st2 then [CloseServer] else [])"
proof -
  have "unreachable U url st" using assms by (simp add: unreachable_def)
  then obtain acts st1 ms where f: "failed_attempt U url st = (acts, st1)" "timers_set acts = [url, url]"
    "unreachable U url st1" "tr_reconnectTimers st1 = [(extractPeerIdFromUrl U url, ms)]"
    using assms(3) by (rule first_attempt)
  have "replicate 2 url = [url, url]" by (simp add: numeral_2_eq_2)
  with fire_rounds_unreachable [OF f(3,4), of n 2] obtain st2 ms2 where
    "fire_rounds U n [url, url] st1 = (replicate (2 ^ n * 2) url, st2)"
    "tr_reconnectTimers st2 = [(extractPeerIdFromUrl U url, ms2)]" by auto
  then show ?thesis using f(1,2) by (simp add: transport_close_def jm_keys_def mult.commute)
qed

theorem reconnect_attempts_double_witness:
  "\<exists>acts st1 st2. failed_attempt (\<lambda>url. Inr None) ''ws://peer'' (transport_new (default_config ''a'' 9000)) = (acts, st1)
     \<and> fire_rounds (\<lambda>url. Inr None) 9 (timers_set acts) st1 = (replicate 1024 ''ws://peer'', st2)"
  using reconnect_attempts_double [of "transport_new (default_config ''a'' 9000)" "\<lambda>url. Inr None" "''ws://peer''" 9]
  by (force simp: transport_new_def jm_has_def jm_get_def)

text \<open>Disconnecting from a peer the node connected to itself does not last: the socket's \<open>close\<close> event,
  which \<open>disconnect\<close> causes, schedules a reconnection.\<close>

theorem disconnect_reconnects:
  assumes "jm_get (tr_clients st) (extractPeerIdFromUrl U url) = Some ws" and "\<not> tr_isClosing st"
  shows "case transport_disconnect (extractPeerIdFromUrl U url) st of (acts, st1) \<Rightarrow>
      CloseSocket ws 1000 \<in> set acts
      \<and> (case on_outbound_close U url st1 of (acts2, st2) \<Rightarrow>
           timers_set acts2 = [url]
           \<and> transport_connect U url st2 = Inr [OpenSocket (url @ ''?nodeId='' @ tc_nodeId (tr_config st))])"
  using assms
  by (auto simp: transport_disconnect_def on_outbound_close_def scheduleReconnect_def transport_connect_def Let_def
      jm_has_def js_map.get_del)

theorem disconnect_reconnects_witness:
  "CloseSocket 7 1000 \<in> set (fst (transport_disconnect ''ws://peer''
     (on_outbound_open (\<lambda>url. Inr None) ''ws://peer'' 7 (transport_new (default_config ''a'' 9000)))))"
  using disconnect_reconnects [of "on_outbound_open (\<lambda>url. Inr None) ''ws://peer'' 7 (transport_new (default_config ''a'' 9000))"
      "\<lambda>url. Inr None" "''ws://peer''" 7]
  by (simp add: on_outbound_open_def setupClient_def transport_new_def extractPeerIdFromUrl_def jm_get_def jm_set_def
      transport_disconnect_def)

text \<open>The interval of every reconnection is one of two values, the configured interval or twice it, each
  capped by the maximum: it does not grow with the number of failures.\<close>

theorem reconnect_interval_bounds:
  assumes "scheduleReconnect U url st = (SetTimer url' ms # acts, st')"
  shows "url' = url \<and> acts = [] \<and> ms \<in> backoff st \<and> backoff st' = backoff st
    \<and> ms \<le> tc_reconnectMaxIntervalMs (tr_config st)"
  using assms by (auto simp: scheduleReconnect_def Let_def backoff_def split: if_splits)

theorem reconnect_interval_bounds_witness:
  "\<exists>st'. scheduleReconnect (\<lambda>url. Inr None) ''u'' (transport_new (default_config ''a'' 9000)) = ([SetTimer ''u'' 1000], st')
     \<and> backoff st' = {1000, 2000}"
proof -
  obtain st' where s: "scheduleReconnect (\<lambda>url. Inr None) ''u'' (transport_new (default_config ''a'' 9000)) = ([SetTimer ''u'' 1000], st')"
    by (simp add: scheduleReconnect_def transport_new_def default_config_def Let_def jm_has_def jm_get_def)
  from reconnect_interval_bounds [OF s] s show ?thesis
    by (auto simp: backoff_def transport_new_def default_config_def)
qed

end
