(* ===== verification/Services.thy ===== *)
theory Services
  imports Prelude
begin

section \<open>Cache and metrics\<close>

text \<open>
  persistence/db.ts and monitoring/metrics.ts. The Redis client and the Prometheus registry are
  third-party: \<open>redis_lib\<close> and \<open>prom\<close> have the calls the modules make as fields, and the laws state
  what the libraries document of them. The module variable \<open>redis\<close> is the state of the cache.
\<close>

subsection \<open>The cache\<close>

text \<open>\<open>rl_open\<close> observes \<open>client.isOpen\<close>; a command is a step of the client that may reject.\<close>

record 'c redis_lib =
  rl_createClient :: "string \<Rightarrow> 'c"
  rl_connect :: "'c \<Rightarrow> unit result \<times> 'c"
  rl_open :: "'c \<Rightarrow> bool"
  rl_setEx :: "string \<Rightarrow> int \<Rightarrow> string \<Rightarrow> 'c \<Rightarrow> unit result \<times> 'c"
  rl_get :: "string \<Rightarrow> 'c \<Rightarrow> string option result \<times> 'c"
  rl_del :: "string \<Rightarrow> 'c \<Rightarrow> unit result \<times> 'c"

text \<open>What node-redis documents: a client whose \<open>connect\<close> rejected is not open, and commands on a
  client that is not open reject and leave it so; while it is open, a value set with a positive
  lifetime is read back, until the key is set or deleted again or its lifetime has passed.\<close>

definition redis_laws :: "'c redis_lib \<Rightarrow> bool" where
  "redis_laws R \<longleftrightarrow>
     (\<forall>c. (case rl_connect R c of (r, c') \<Rightarrow> rl_open R c' \<longleftrightarrow> (\<exists>u. r = Inr u)))
     \<and> (\<forall>c key ttl value. \<not> rl_open R c \<longrightarrow>
          (\<exists>e. rl_setEx R key ttl value c = (Inl e, c)) \<and> (\<exists>e. rl_get R key c = (Inl e, c))
          \<and> (\<exists>e. rl_del R key c = (Inl e, c)))
     \<and> (\<forall>c key ttl value. rl_open R c \<and> 0 < ttl \<longrightarrow>
          (case rl_setEx R key ttl value c of (r, c') \<Rightarrow>
             r = Inr () \<and> rl_open R c' \<and> (\<exists>c''. rl_get R key c' = (Inr (Some value), c'') \<and> rl_open R c'')))
     \<and> (\<forall>c key. rl_open R c \<longrightarrow>
          (case rl_del R key c of (r, c') \<Rightarrow>
             r = Inr () \<and> rl_open R c' \<and> (\<exists>c''. rl_get R key c' = (Inr None, c'') \<and> rl_open R c'')))"

type_synonym ('c, 'r) cached = "'c option \<Rightarrow> 'r result \<times> 'c option"

definition redis_url :: "string option \<Rightarrow> string" where
  "redis_url env = (case env of Some (c # cs) \<Rightarrow> c # cs | _ \<Rightarrow> ''redis://localhost:6379'')"

text \<open>The variable is assigned before the connection is awaited.\<close>

definition getRedisClient :: "'c redis_lib \<Rightarrow> string option \<Rightarrow> ('c, 'c) cached" where
  "getRedisClient R env redis =
     (case redis of
        Some c \<Rightarrow> (Inr c, Some c)
      | None \<Rightarrow>
          (case rl_connect R (rl_createClient R (redis_url env)) of
             (Inl e, c) \<Rightarrow> (Inl e, Some c)
           | (Inr u, c) \<Rightarrow> (Inr c, Some c)))"

text \<open>A command on the client of the module.\<close>

definition with_client :: "'c redis_lib \<Rightarrow> string option \<Rightarrow> ('c \<Rightarrow> 'r result \<times> 'c) \<Rightarrow> ('c, 'r) cached" where
  "with_client R env command redis =
     (case getRedisClient R env redis of
        (Inl e, redis') \<Rightarrow> (Inl e, redis')
      | (Inr c, redis') \<Rightarrow> (case command c of (r, c') \<Rightarrow> (r, Some c')))"

definition setCache :: "'c redis_lib \<Rightarrow> string option \<Rightarrow> string \<Rightarrow> string \<Rightarrow> int option \<Rightarrow> ('c, unit) cached" where
  "setCache R env key value ttlSeconds =
     with_client R env (rl_setEx R key (case ttlSeconds of None \<Rightarrow> 3600 | Some t \<Rightarrow> t) value)"

definition getCache :: "'c redis_lib \<Rightarrow> string option \<Rightarrow> string \<Rightarrow> ('c, string option) cached" where
  "getCache R env key = with_client R env (rl_get R key)"

definition delCache :: "'c redis_lib \<Rightarrow> string option \<Rightarrow> string \<Rightarrow> ('c, unit) cached" where
  "delCache R env key = with_client R env (rl_del R key)"

subsection \<open>The metrics\<close>

type_synonym labels = "(string \<times> string) list"

record ('c, 'g) prom =
  pm_inc :: "labels \<Rightarrow> 'c \<Rightarrow> 'c"
  pm_value :: "'c \<Rightarrow> labels \<Rightarrow> nat"
  pm_set :: "int \<Rightarrow> 'g \<Rightarrow> 'g"

text \<open>\<open>inc\<close> adds one to the child with these labels.\<close>

definition prom_laws :: "('c, 'g) prom \<Rightarrow> bool" where
  "prom_laws P \<longleftrightarrow> (\<forall>ls ls' c. pm_value P (pm_inc P ls c) ls' = pm_value P c ls' + (if ls' = ls then 1 else 0))"

record ('c, 'g) metrics =
  mt_signingOps :: 'c
  mt_dkg :: 'c
  mt_policyViolation :: 'c
  mt_activeNodes :: 'g

definition or_else :: "string option \<Rightarrow> string \<Rightarrow> string" where
  "or_else arg fallback = (case arg of None \<Rightarrow> fallback | Some s \<Rightarrow> s)"

definition incSigningOps :: "('c, 'g) prom \<Rightarrow> string option \<Rightarrow> string option \<Rightarrow> ('c, 'g) metrics \<Rightarrow> ('c, 'g) metrics" where
  "incSigningOps P chain status m = m\<lparr>mt_signingOps :=
     pm_inc P [(''chain'', or_else chain ''unknown''), (''status'', or_else status ''success'')] (mt_signingOps m)\<rparr>"

definition incDKG :: "('c, 'g) prom \<Rightarrow> ('c, 'g) metrics \<Rightarrow> ('c, 'g) metrics" where
  "incDKG P m = m\<lparr>mt_dkg := pm_inc P [] (mt_dkg m)\<rparr>"

definition incPolicyViolation :: "('c, 'g) prom \<Rightarrow> string option \<Rightarrow> ('c, 'g) metrics \<Rightarrow> ('c, 'g) metrics" where
  "incPolicyViolation P reason m = m\<lparr>mt_policyViolation :=
     pm_inc P [(''reason'', or_else reason ''unknown'')] (mt_policyViolation m)\<rparr>"

definition setActiveNodes :: "('c, 'g) prom \<Rightarrow> int \<Rightarrow> ('c, 'g) metrics \<Rightarrow> ('c, 'g) metrics" where
  "setActiveNodes P n m = m\<lparr>mt_activeNodes := pm_set P n (mt_activeNodes m)\<rparr>"

text \<open>The calls of the server pass no arguments.\<close>

datatype metric_event = Signed | Generated | Blocked

fun server_metric :: "('c, 'g) prom \<Rightarrow> metric_event \<Rightarrow> ('c, 'g) metrics \<Rightarrow> ('c, 'g) metrics" where
  "server_metric P Signed m = incSigningOps P None None m"
| "server_metric P Generated m = incDKG P m"
| "server_metric P Blocked m = incPolicyViolation P None m"

subsection \<open>Sequences of calls\<close>

datatype cache_call = SetCache string string "int option" | GetCache string | DelCache string

fun cache_fails :: "'c redis_lib \<Rightarrow> string option \<Rightarrow> cache_call \<Rightarrow> 'c option \<Rightarrow> bool \<times> 'c option" where
  "cache_fails R env (SetCache key value ttl) st =
     (case setCache R env key value ttl st of (r, st') \<Rightarrow> (\<not> (case r of Inl e \<Rightarrow> False | Inr u \<Rightarrow> True), st'))"
| "cache_fails R env (GetCache key) st =
     (case getCache R env key st of (r, st') \<Rightarrow> (\<not> (case r of Inl e \<Rightarrow> False | Inr v \<Rightarrow> True), st'))"
| "cache_fails R env (DelCache key) st =
     (case delCache R env key st of (r, st') \<Rightarrow> (\<not> (case r of Inl e \<Rightarrow> False | Inr u \<Rightarrow> True), st'))"

fun cache_failures :: "'c redis_lib \<Rightarrow> string option \<Rightarrow> cache_call list \<Rightarrow> 'c option \<Rightarrow> bool list" where
  "cache_failures R env [] st = []"
| "cache_failures R env (call # calls) st =
     (case cache_fails R env call st of (failed, st') \<Rightarrow> failed # cache_failures R env calls st')"

lemma redis_lawsD:
  assumes "redis_laws R"
  shows "rl_connect R c = (Inl e, c') \<Longrightarrow> \<not> rl_open R c'"
    and "rl_connect R c = (Inr u, c') \<Longrightarrow> rl_open R c'"
    and "\<not> rl_open R c \<Longrightarrow> \<exists>e. rl_setEx R key ttl value c = (Inl e, c)"
    and "\<not> rl_open R c \<Longrightarrow> \<exists>e. rl_get R key c = (Inl e, c)"
    and "\<not> rl_open R c \<Longrightarrow> \<exists>e. rl_del R key c = (Inl e, c)"
    and "rl_open R c \<Longrightarrow> 0 < ttl \<Longrightarrow> \<exists>c' c''. rl_setEx R key ttl value c = (Inr (), c') \<and> rl_open R c'
      \<and> rl_get R key c' = (Inr (Some value), c'')"
proof -
  note laws = assms [unfolded redis_laws_def]
  show "rl_connect R c = (Inl e, c') \<Longrightarrow> \<not> rl_open R c'" and "rl_connect R c = (Inr u, c') \<Longrightarrow> rl_open R c'"
    using conjunct1 [OF laws, THEN spec [of _ c]] by auto
  show "\<not> rl_open R c \<Longrightarrow> \<exists>e. rl_setEx R key ttl value c = (Inl e, c)"
    and "\<not> rl_open R c \<Longrightarrow> \<exists>e. rl_get R key c = (Inl e, c)"
    and "\<not> rl_open R c \<Longrightarrow> \<exists>e. rl_del R key c = (Inl e, c)"
    using conjunct1 [OF conjunct2 [OF laws]] by blast+
  show "rl_open R c \<Longrightarrow> 0 < ttl \<Longrightarrow> \<exists>c' c''. rl_setEx R key ttl value c = (Inr (), c') \<and> rl_open R c'
      \<and> rl_get R key c' = (Inr (Some value), c'')"
    using conjunct1 [OF conjunct2 [OF conjunct2 [OF laws]], THEN spec [of _ c], THEN spec [of _ key],
        THEN spec [of _ ttl], THEN spec [of _ "value"]] by auto
qed

lemma closed_call:
  assumes "redis_laws R" "\<not> rl_open R c"
  shows "cache_fails R env call (Some c) = (True, Some c)"
proof (cases call)
  case (SetCache key val ttl)
  obtain e where "rl_setEx R key (case ttl of None \<Rightarrow> 3600 | Some t \<Rightarrow> t) val c = (Inl e, c)"
    using redis_lawsD(3) [OF assms] by blast
  then show ?thesis by (simp add: SetCache setCache_def with_client_def getRedisClient_def)
next
  case (GetCache key)
  obtain e where "rl_get R key c = (Inl e, c)" using redis_lawsD(4) [OF assms] by blast
  then show ?thesis by (simp add: GetCache getCache_def with_client_def getRedisClient_def)
next
  case (DelCache key)
  obtain e where "rl_del R key c = (Inl e, c)" using redis_lawsD(5) [OF assms] by blast
  then show ?thesis by (simp add: DelCache delCache_def with_client_def getRedisClient_def)
qed

lemma closed_calls:
  "redis_laws R \<Longrightarrow> \<not> rl_open R c \<Longrightarrow> cache_failures R env calls (Some c) = replicate (length calls) True"
  by (induction calls) (simp_all add: closed_call)

subsection \<open>Properties\<close>

text \<open>A failed first connection is final: the rejected client stays in the module variable, so every call
  fails, whatever the calls are and however the server recovers; no further connection is attempted.\<close>

theorem failed_connection_sticks:
  assumes "redis_laws R" and "rl_connect R (rl_createClient R (redis_url env)) = (Inl e, c)"
  shows "cache_failures R env calls None = replicate (length calls) True"
proof (cases calls)
  case (Cons call rest)
  have "cache_fails R env call None = (True, Some c)"
    using assms(2) by (cases call) (simp_all add: setCache_def getCache_def delCache_def with_client_def getRedisClient_def)
  then show ?thesis
    using closed_calls [OF assms(1) redis_lawsD(1) [OF assms]] Cons by simp
qed simp

text \<open>On a module that has not been used yet and a server that answers, what is cached is read back.\<close>

theorem cache_roundtrip:
  assumes "redis_laws R" and "rl_connect R (rl_createClient R (redis_url env)) = (Inr (), c)"
    and "(case ttl of None \<Rightarrow> True | Some t \<Rightarrow> 0 < t)"
  shows "case setCache R env key value ttl None of (r, st) \<Rightarrow>
    r = Inr () \<and> fst (getCache R env key st) = Inr (Some value)"
proof -
  define t where "t = (case ttl of None \<Rightarrow> 3600 | Some t \<Rightarrow> t)"
  have "0 < t" using assms(3) by (auto simp: t_def split: option.splits)
  from redis_lawsD(6) [OF assms(1) redis_lawsD(2) [OF assms(1,2)] this, of key "value"]
  obtain c' c'' where "rl_setEx R key t value c = (Inr (), c')" "rl_get R key c' = (Inr (Some value), c'')" by blast
  then show ?thesis
    using assms(2) by (simp add: setCache_def getCache_def with_client_def getRedisClient_def flip: t_def)
qed

text \<open>Every signing operation and every policy violation the server counts goes to the label
  \<open>unknown\<close>: the child of any chain or reason keeps its value.\<close>

theorem server_metrics_unlabelled:
  assumes "prom_laws P" and "chain \<noteq> ''unknown''" and "reason \<noteq> ''unknown''"
  shows "case fold (server_metric P) events m of m' \<Rightarrow>
    pm_value P (mt_signingOps m') [(''chain'', chain), (''status'', status)]
        = pm_value P (mt_signingOps m) [(''chain'', chain), (''status'', status)]
    \<and> pm_value P (mt_policyViolation m') [(''reason'', reason)] = pm_value P (mt_policyViolation m) [(''reason'', reason)]
    \<and> pm_value P (mt_signingOps m') [(''chain'', ''unknown''), (''status'', ''success'')]
        = pm_value P (mt_signingOps m) [(''chain'', ''unknown''), (''status'', ''success'')] + count_list events Signed"
proof (induction events arbitrary: m)
  case (Cons ev events)
  have law: "pm_value P (pm_inc P ls c) ls' = pm_value P c ls' + (if ls' = ls then 1 else 0)" for ls ls' c
    using assms(1) by (simp add: prom_laws_def)
  show ?case
    using Cons.IH [of "server_metric P ev m"] assms(2,3)
    by (cases ev) (simp_all add: incSigningOps_def incDKG_def incPolicyViolation_def or_else_def law)
qed simp

subsection \<open>Instances\<close>

text \<open>A client that answers, or not, from a map of the values.\<close>

definition toy_redis :: "bool \<Rightarrow> (bool \<times> (string \<Rightarrow> string option)) redis_lib" where
  "toy_redis up = \<lparr>rl_createClient = (\<lambda>url. (False, \<lambda>k. None)),
     rl_connect = (\<lambda>(o', m). if up then (Inr (), (True, m)) else (Inl (Error ''ECONNREFUSED''), (False, m))),
     rl_open = fst,
     rl_setEx = (\<lambda>k t v (o', m). if o' then (Inr (), (o', m(k := Some v))) else (Inl (Error ''The client is closed''), (o', m))),
     rl_get = (\<lambda>k (o', m). if o' then (Inr (m k), (o', m)) else (Inl (Error ''The client is closed''), (o', m))),
     rl_del = (\<lambda>k (o', m). if o' then (Inr (), (o', m(k := None))) else (Inl (Error ''The client is closed''), (o', m)))\<rparr>"

lemma toy_redis_laws: "redis_laws (toy_redis up)"
  by (auto simp: redis_laws_def toy_redis_def)

theorem failed_connection_sticks_witness:
  "cache_failures (toy_redis False) None [SetCache ''k'' ''v'' None, GetCache ''k''] None = [True, True]"
proof -
  have "rl_connect (toy_redis False) (rl_createClient (toy_redis False) (redis_url None))
      = (Inl (Error ''ECONNREFUSED''), (False, \<lambda>k. None))" by (simp add: toy_redis_def)
  from failed_connection_sticks [OF toy_redis_laws this, of "[SetCache ''k'' ''v'' None, GetCache ''k'']"] show ?thesis
    by (simp only: list.size replicate.simps One_nat_def add_0 add_Suc)
qed

theorem cache_roundtrip_witness:
  "case setCache (toy_redis True) None ''k'' ''v'' None None of (r, st) \<Rightarrow>
    r = Inr () \<and> fst (getCache (toy_redis True) None ''k'' st) = Inr (Some ''v'')"
proof -
  have "rl_connect (toy_redis True) (rl_createClient (toy_redis True) (redis_url None)) = (Inr (), (True, \<lambda>k. None))"
    by (simp add: toy_redis_def)
  from cache_roundtrip [OF toy_redis_laws this, of None] show ?thesis by (simp only: option.case)
qed

definition toy_prom :: "(labels \<Rightarrow> nat, int) prom" where
  "toy_prom = \<lparr>pm_inc = (\<lambda>ls c. c(ls := c ls + 1)), pm_value = (\<lambda>c. c), pm_set = (\<lambda>n g. n)\<rparr>"

theorem server_metrics_unlabelled_witness:
  "pm_value toy_prom (mt_signingOps (fold (server_metric toy_prom) [Signed, Blocked, Signed]
      \<lparr>mt_signingOps = (\<lambda>l. 0), mt_dkg = (\<lambda>l. 0), mt_policyViolation = (\<lambda>l. 0), mt_activeNodes = 0\<rparr>))
    [(''chain'', ''ethereum''), (''status'', ''success'')] = 0"
proof -
  have "prom_laws toy_prom" by (simp add: prom_laws_def toy_prom_def)
  from server_metrics_unlabelled [OF this, of "''ethereum''" "''x''" "[Signed, Blocked, Signed]"] show ?thesis
    by (simp add: toy_prom_def)
qed

end
