(* ===== verification/Gateway.thy ===== *)
theory Gateway
  imports Server
begin

text \<open>
  The front of server.ts: what the process reads from its environment, and the chain of middleware a
  request passes before a route of \<open>Server\<close> handles it, in the order of the \<open>app.use\<close> calls. Express,
  \<open>cors\<close>, the body parser and the limiter's store are third-party: \<open>express_lib\<close> and \<open>rate_store\<close>
  have what they answer as fields. \<open>helmet\<close> and \<open>compression\<close> pass every request on. The runs are
  sequences of requests of any addresses; the limiter is followed through its store.
\<close>

section \<open>Start\<close>

record server_env =
  vn_PORT :: "string option"
  vn_METRICS_PORT :: "string option"
  vn_BIOFIRE_API_KEY :: "string option"
  vn_ALLOWED_ORIGINS :: "string option"

record server_config =
  cf_port :: string
  cf_metricsPort :: string
  cf_apiKey :: string
  cf_origins :: "string list"

text \<open>An unset variable and an empty one are both falsy.\<close>

definition env_or :: "string option \<Rightarrow> string \<Rightarrow> string" where
  "env_or v fallback = (case v of Some (c # cs) \<Rightarrow> c # cs | _ \<Rightarrow> fallback)"

text \<open>The array \<open>split\<close> returns is always truthy: the default origin stands in for an unset variable only.\<close>

definition allowed_origins :: "string option \<Rightarrow> string list" where
  "allowed_origins v = (case v of None \<Rightarrow> [''http://localhost:5173''] | Some s \<Rightarrow> split_on CHR '','' s)"

text \<open>\<open>None\<close>: the process exits before it listens.\<close>

definition server_start :: "server_env \<Rightarrow> server_config option" where
  "server_start env =
     (if \<not> starts_with (vn_BIOFIRE_API_KEY env) then None
      else Some \<lparr>cf_port = env_or (vn_PORT env) ''3000'', cf_metricsPort = env_or (vn_METRICS_PORT env) ''9090'',
        cf_apiKey = the (vn_BIOFIRE_API_KEY env), cf_origins = allowed_origins (vn_ALLOWED_ORIGINS env)\<rparr>)"

section \<open>Rate limiter\<close>

record limiter_config =
  lc_windowMs :: int
  lc_max :: nat

definition limiter_config :: limiter_config where
  "limiter_config = \<lparr>lc_windowMs = 60 * 1000, lc_max = 120\<rparr>"

definition keyGenerator :: "string option \<Rightarrow> string" where
  "keyGenerator ip = env_or ip ''unknown''"

text \<open>The store: \<open>rs_increment\<close> counts a hit of a key and returns the hits of its window; \<open>rs_window\<close>
  observes when the window of a key began and how many hits it has.\<close>

record 's rate_store =
  rs_increment :: "int \<Rightarrow> int \<Rightarrow> string \<Rightarrow> 's \<Rightarrow> nat \<times> 's"
  rs_window :: "'s \<Rightarrow> string \<Rightarrow> (int \<times> nat) option"

text \<open>The documented behaviour of a fixed window: it begins with a hit and ends \<open>windowMs\<close> later, and
  the next hit begins another.\<close>

fun count_hit :: "int \<Rightarrow> int \<Rightarrow> (int \<times> nat) option \<Rightarrow> int \<times> nat" where
  "count_hit windowMs now (Some (start, hits)) =
     (if now < start + windowMs then (start, Suc hits) else (now, 1))"
| "count_hit windowMs now None = (now, 1)"

definition rate_laws :: "'s rate_store \<Rightarrow> bool" where
  "rate_laws R \<longleftrightarrow> (\<forall>w now k s n s'. rs_increment R w now k s = (n, s') \<longrightarrow>
     n = snd (count_hit w now (rs_window R s k))
     \<and> rs_window R s' = (rs_window R s)(k \<mapsto> count_hit w now (rs_window R s k)))"

text \<open>No \<open>store\<close> is configured: the Redis client of the module is not passed to the limiter.\<close>

definition limiter :: "'s rate_store \<Rightarrow> int \<Rightarrow> string option \<Rightarrow> 's \<Rightarrow> bool \<times> 's" where
  "limiter R now ip s =
     (case rs_increment R (lc_windowMs limiter_config) now (keyGenerator ip) s of
        (hits, s') \<Rightarrow> (hits \<le> lc_max limiter_config, s'))"

section \<open>The chain of middleware\<close>

datatype parsed = BodyTooLarge | BodyMalformed | BodyParsed

datatype route = Api request | Metrics | NoRoute

text \<open>A request as it arrives: \<open>xl_preflight\<close> says whether \<open>cors\<close> answers it itself, \<open>xl_json\<close> what
  the body parser makes of it under a limit in bytes, \<open>xl_route\<close> the route Express finds.\<close>

record 'b express_lib =
  xl_preflight :: "string list \<Rightarrow> 'b \<Rightarrow> bool"
  xl_json :: "nat \<Rightarrow> 'b \<Rightarrow> parsed"
  xl_route :: "'b \<Rightarrow> route"
  xl_metrics :: "nat \<Rightarrow> nat \<Rightarrow> nat \<Rightarrow> string"

record 'b http_request =
  hq_ip :: "string option"
  hq_raw :: 'b
  hq_env :: request_env

datatype http_response =
    NoContent
  | PayloadTooLarge
  | BadRequest
  | TooManyRequests
  | NotFound
  | MetricsText string
  | Routed response

record ('d, 's) gateway_state =
  gs_server :: "'d server_state"
  gs_hits :: 's

definition body_limit :: nat where
  "body_limit = 10 * 1024"

text \<open>The registry renders the counters of the server.\<close>

definition metrics_text :: "'b express_lib \<Rightarrow> 'd server_state \<Rightarrow> string" where
  "metrics_text X sv = xl_metrics X (sv_dkgCount sv) (sv_signCount sv) (sv_violationCount sv)"

definition dispatch ::
  "('p, 'd) server_lib \<Rightarrow> 'b express_lib \<Rightarrow> 'b http_request \<Rightarrow> ('d, http_response) handler" where
  "dispatch L X rq sv t =
     (case xl_route X (hq_raw rq) of
        Api r \<Rightarrow> (case handle L (hq_env rq) r sv t of
            None \<Rightarrow> None
          | Some ((resp, sv'), t') \<Rightarrow> Some ((Routed resp, sv'), t'))
      | Metrics \<Rightarrow> Some ((MetricsText (metrics_text X sv), sv), t)
      | NoRoute \<Rightarrow> Some ((NotFound, sv), t))"

definition gateway ::
  "('p, 'd) server_lib \<Rightarrow> 's rate_store \<Rightarrow> 'b express_lib \<Rightarrow> server_config \<Rightarrow> 'b http_request
    \<Rightarrow> ('d, 's) gateway_state \<Rightarrow> tape \<Rightarrow> ((http_response \<times> ('d, 's) gateway_state) \<times> tape) option" where
  "gateway L R X cfg rq st t =
     (if xl_preflight X (cf_origins cfg) (hq_raw rq) then Some ((NoContent, st), t)
      else case xl_json X body_limit (hq_raw rq) of
        BodyTooLarge \<Rightarrow> Some ((PayloadTooLarge, st), t)
      | BodyMalformed \<Rightarrow> Some ((BadRequest, st), t)
      | BodyParsed \<Rightarrow>
          (case limiter R (re_now (hq_env rq)) (hq_ip rq) (gs_hits st) of
             (False, s) \<Rightarrow> Some ((TooManyRequests, st\<lparr>gs_hits := s\<rparr>), t)
           | (True, s) \<Rightarrow>
               (case dispatch L X rq (gs_server st) t of
                  None \<Rightarrow> None
                | Some ((resp, sv), t') \<Rightarrow> Some ((resp, \<lparr>gs_server = sv, gs_hits = s\<rparr>), t'))))"

text \<open>The second listener serves the metrics alone, with neither limiter nor key.\<close>

definition metrics_server :: "'b express_lib \<Rightarrow> ('d, 's) gateway_state \<Rightarrow> http_response" where
  "metrics_server X st = MetricsText (metrics_text X (gs_server st))"

text \<open>Requests one after the other, with their answers.\<close>

inductive gateway_run ::
  "('p, 'd) server_lib \<Rightarrow> 's rate_store \<Rightarrow> 'b express_lib \<Rightarrow> server_config \<Rightarrow> ('d, 's) gateway_state
    \<Rightarrow> ('b http_request \<times> http_response) list \<Rightarrow> ('d, 's) gateway_state \<Rightarrow> bool"
  for L R X cfg where
  run_idle: "gateway_run L R X cfg st [] st"
| run_request: "gateway L R X cfg rq st t = Some ((resp, st'), t') \<Longrightarrow> gateway_run L R X cfg st' tr st''
    \<Longrightarrow> gateway_run L R X cfg st ((rq, resp) # tr) st''"

inductive_cases gateway_run_ConsE: "gateway_run L R X cfg st ((rq, resp) # tr) st''"

text \<open>The request got past the limiter.\<close>

fun let_in :: "http_response \<Rightarrow> bool" where
  "let_in (Routed resp) = True"
| "let_in (MetricsText s) = True"
| "let_in NotFound = True"
| "let_in resp = False"

definition request_time :: "'b http_request \<times> http_response \<Rightarrow> int" where
  "request_time x = re_now (hq_env (fst x))"

definition from_address :: "string \<Rightarrow> 'b http_request \<times> http_response \<Rightarrow> bool" where
  "from_address k x \<longleftrightarrow> keyGenerator (hq_ip (fst x)) = k"

text \<open>How many requests of an address reached a route in the minute that begins at \<open>a\<close>.\<close>

definition reached_in_minute ::
  "int \<Rightarrow> string \<Rightarrow> ('b http_request \<times> http_response) list \<Rightarrow> nat" where
  "reached_in_minute a k tr = length [x \<leftarrow> tr. from_address k x \<and> let_in (snd x)
     \<and> a \<le> request_time x \<and> request_time x < a + lc_windowMs limiter_config]"

section \<open>Steps\<close>

definition passes_front :: "'b express_lib \<Rightarrow> server_config \<Rightarrow> 'b http_request \<Rightarrow> bool" where
  "passes_front X cfg rq \<longleftrightarrow> \<not> xl_preflight X (cf_origins cfg) (hq_raw rq) \<and> xl_json X body_limit (hq_raw rq) = BodyParsed"

lemma limiter_cases:
  assumes "rate_laws R" and "limiter R now ip s = (ok, s')"
  shows "ok \<longleftrightarrow> snd (count_hit 60000 now (rs_window R s (keyGenerator ip))) \<le> 120"
    and "rs_window R s' = (rs_window R s)(keyGenerator ip \<mapsto> count_hit 60000 now (rs_window R s (keyGenerator ip)))"
  using assms unfolding rate_laws_def limiter_def limiter_config_def by (auto split: prod.splits)

lemma dispatch_cases:
  assumes "dispatch L X rq sv t = Some ((resp, sv'), t')"
  shows "let_in resp" and "sv' = sv \<or> (\<exists>r a. handle L (hq_env rq) r sv t = Some ((a, sv'), t') \<and> resp = Routed a)"
  using assms by (auto simp: dispatch_def split: route.splits option.splits prod.splits)

lemma gateway_cases:
  assumes "gateway L R X cfg rq st t = Some ((resp, st'), t')"
  obtains (Answered) "\<not> passes_front X cfg rq" "st' = st" "\<not> let_in resp" "resp \<noteq> TooManyRequests"
  | (Limited) s where "passes_front X cfg rq" "limiter R (re_now (hq_env rq)) (hq_ip rq) (gs_hits st) = (False, s)"
      "st' = st\<lparr>gs_hits := s\<rparr>" "resp = TooManyRequests"
  | (Reached) s sv where "passes_front X cfg rq" "limiter R (re_now (hq_env rq)) (hq_ip rq) (gs_hits st) = (True, s)"
      "dispatch L X rq (gs_server st) t = Some ((resp, sv), t')" "st' = \<lparr>gs_server = sv, gs_hits = s\<rparr>"
  using assms by (auto simp: gateway_def passes_front_def split: if_splits parsed.splits prod.splits bool.splits option.splits)

text \<open>What one request does to the window of an address.\<close>

lemma gateway_window:
  assumes "rate_laws R" and "gateway L R X cfg rq st t = Some ((resp, st'), t')"
  shows "rs_window R (gs_hits st') k = (if passes_front X cfg rq \<and> keyGenerator (hq_ip rq) = k
      then Some (count_hit 60000 (re_now (hq_env rq)) (rs_window R (gs_hits st) k)) else rs_window R (gs_hits st) k)"
    and "let_in resp \<longleftrightarrow> passes_front X cfg rq
      \<and> snd (count_hit 60000 (re_now (hq_env rq)) (rs_window R (gs_hits st) (keyGenerator (hq_ip rq)))) \<le> 120"
  using assms(2)
  by (cases rule: gateway_cases; use limiter_cases [OF assms(1)] dispatch_cases in fastforce)+

text \<open>The hits of one address alone, and which of them are admitted.\<close>

fun admitted :: "(int \<times> nat) option \<Rightarrow> int list \<Rightarrow> int list" where
  "admitted w [] = []"
| "admitted w (t # ts) =
     (let w' = count_hit 60000 t w in (if snd w' \<le> 120 then [t] else []) @ admitted (Some w') ts)"

definition hits_of :: "'b express_lib \<Rightarrow> server_config \<Rightarrow> string \<Rightarrow> ('b http_request \<times> http_response) list \<Rightarrow> int list" where
  "hits_of X cfg k tr = map request_time [x \<leftarrow> tr. from_address k x \<and> passes_front X cfg (fst x)]"

lemma run_admitted:
  assumes "rate_laws R" and "gateway_run L R X cfg st tr st'"
  shows "map request_time [x \<leftarrow> tr. from_address k x \<and> let_in (snd x)]
    = admitted (rs_window R (gs_hits st) k) (hits_of X cfg k tr)"
  using assms(2)
proof (induction rule: gateway_run.induct)
  case (run_request rq st t resp st' t' tr st'')
  show ?case
    using gateway_window(1) [OF assms(1) run_request.hyps(1), of k] gateway_window(2) [OF assms(1) run_request.hyps(1)]
      run_request.IH
    by (auto simp: hits_of_def from_address_def request_time_def Let_def)
qed (simp add: hits_of_def)

definition in_minute :: "int \<Rightarrow> int list \<Rightarrow> nat" where
  "in_minute a ts = length [t \<leftarrow> ts. a \<le> t \<and> t < a + 60000]"

lemma in_minute_simps [simp]:
  "in_minute a [] = 0"
  "in_minute a (t # ts) = (if a \<le> t \<and> t < a + 60000 then 1 else 0) + in_minute a ts"
  "in_minute a (ts @ us) = in_minute a ts + in_minute a us"
  by (simp_all add: in_minute_def)

lemma reached_in_minute_run:
  assumes "rate_laws R" and "gateway_run L R X cfg st tr st'"
  shows "reached_in_minute a k tr = in_minute a (admitted (rs_window R (gs_hits st) k) (hits_of X cfg k tr))"
proof -
  have "reached_in_minute a k tr = in_minute a (map request_time [x \<leftarrow> tr. from_address k x \<and> let_in (snd x)])"
    by (simp add: reached_in_minute_def in_minute_def limiter_config_def filter_map o_def conj_ac cong: filter_cong)
  then show ?thesis using run_admitted [OF assms] by simp
qed

text \<open>A minute that begins before the window: what is left of the window. One that begins inside it: what
  is left, and a second window. The hit that opened the first window is not in the minute then.\<close>

lemma admitted_late: "sorted (t # ts) \<Longrightarrow> a + 60000 \<le> t \<Longrightarrow> in_minute a (admitted w ts) = 0"
  by (induction ts arbitrary: w t) (auto simp: Let_def)

lemma admitted_one_window:
  "sorted ts \<Longrightarrow> a \<le> start \<Longrightarrow> in_minute a (admitted (Some (start, c)) ts) \<le> 120 - c"
proof (induction ts arbitrary: c)
  case (Cons t ts)
  then show ?case
  proof (cases "t < start + 60000")
    case False
    then have "in_minute a (admitted (Some (t, 1)) ts) = 0"
      using Cons.prems by (intro admitted_late [of t]) auto
    then show ?thesis using False Cons.prems by (auto simp: Let_def)
  qed (use Cons.IH [of "Suc c"] Cons.prems in \<open>auto simp: Let_def\<close>)
qed simp

lemma admitted_two_windows:
  "sorted ts \<Longrightarrow> \<forall>t\<in>set ts. a \<le> t \<Longrightarrow> in_minute a (admitted (Some (start, c)) ts) \<le> (120 - c) + 120"
proof (induction ts arbitrary: c)
  case (Cons t ts)
  then show ?case
  proof (cases "t < start + 60000")
    case False
    have "in_minute a (admitted (Some (t, 1)) ts) \<le> 120 - 1"
      using Cons.prems by (intro admitted_one_window) auto
    then show ?thesis using False by (auto simp: Let_def)
  qed (use Cons.IH [of "Suc c"] Cons.prems in \<open>auto simp: Let_def\<close>)
qed simp

lemma count_hit_pos: "0 < snd (count_hit w t win)"
  by (cases "(w, t, win)" rule: count_hit.cases) auto

lemma admitted_in_minute:
  "sorted ts \<Longrightarrow> (case win of None \<Rightarrow> True | Some (start, c) \<Rightarrow> 0 < c) \<Longrightarrow> in_minute a (admitted win ts) \<le> 239"
proof (induction ts arbitrary: win)
  case (Cons t ts)
  show ?case
  proof (cases "t < a")
    case True
    have "in_minute a (admitted (Some (count_hit 60000 t win)) ts) \<le> 239"
      using Cons count_hit_pos [of 60000 t win] by (intro Cons.IH) (auto split: prod.splits)
    then show ?thesis using True by (auto simp: Let_def)
  next
    case False
    show ?thesis
    proof (cases win)
      case None
      then show ?thesis using admitted_one_window [of ts a t 1] Cons.prems(1) False by (auto simp: Let_def)
    next
      case (Some w)
      obtain start c where w: "w = (start, c)" by (cases w)
      have "\<forall>u\<in>set (t # ts). a \<le> u" using Cons.prems(1) False by auto
      from admitted_two_windows [OF Cons.prems(1) this, of start c] show ?thesis
        using Cons.prems(2) Some w by simp
    qed
  qed
qed simp

section \<open>What the front guarantees\<close>

text \<open>C38: In any minute at most 239 requests of one address reach a route, whatever the requests are and
  whatever other addresses send: so many keys can be tried. The limiter's window is fixed, so the bound
  is not the configured 120: a minute that begins inside a window has what is left of that window and
  another one.\<close>

theorem rate_limited_per_address:
  assumes "rate_laws R" and "rs_window R (gs_hits st) k = None" and "gateway_run L R X cfg st tr st'"
    and "sorted (map request_time tr)"
  shows "reached_in_minute a k tr \<le> 239"
proof -
  have "sorted (hits_of X cfg k tr)"
    unfolding hits_of_def using assms(4) by (rule sorted_filter)
  then show ?thesis
    using admitted_in_minute [of "hits_of X cfg k tr" None a] assms(2) by (simp add: reached_in_minute_run [OF assms(1,3)])
qed

text \<open>The front adds no state change of its own: its runs are runs of the server of \<open>Server\<close>, on the
  requests that reached a route, and every other answer leaves the server as it is. So what holds after
  any requests served holds behind the front.\<close>

lemma served_front: "served L st st' \<Longrightarrow> handle L env rq s0 t = Some ((resp, st), t') \<Longrightarrow> served L s0 st'"
proof (induction rule: served.induct)
  case (served_none st)
  then show ?case using served_more [OF served.served_none] by blast
qed (blast intro: served_more)

theorem gateway_refines_server:
  assumes "gateway_run L R X cfg st tr st'"
  shows "served L (gs_server st) (gs_server st')
    \<and> ((\<forall>x\<in>set tr. \<forall>resp. snd x \<noteq> Routed resp) \<longrightarrow> gs_server st' = gs_server st)"
  using assms
proof (induction rule: gateway_run.induct)
  case (run_request rq st t resp st' t' tr st'')
  have "gs_server st' = gs_server st
    \<or> (\<exists>r a. handle L (hq_env rq) r (gs_server st) t = Some ((a, gs_server st'), t') \<and> resp = Routed a)"
    using run_request.hyps(1) by (cases rule: gateway_cases) (use dispatch_cases(2) in fastforce)+
  then show ?case using run_request.IH served_front by fastforce
qed (simp add: served.served_none)

text \<open>What the front answers itself it answers in every state: \<open>cors\<close> and the body parser stand before
  the limiter, so a request they answer is never refused and never counted. The limiter refuses exactly
  the others whose window is used up.\<close>

theorem gateway_outcomes:
  assumes "rate_laws R"
  shows "\<not> passes_front X cfg rq \<Longrightarrow> \<exists>resp. resp \<noteq> TooManyRequests \<and> \<not> let_in resp
      \<and> (\<forall>st t. gateway L R X cfg rq st t = Some ((resp, st), t))"
    and "passes_front X cfg rq \<Longrightarrow> (\<exists>st'. gateway L R X cfg rq st t = Some ((TooManyRequests, st'), t))
      \<longleftrightarrow> 120 < snd (count_hit 60000 (re_now (hq_env rq)) (rs_window R (gs_hits st) (keyGenerator (hq_ip rq))))"
proof -
  show "\<exists>resp. resp \<noteq> TooManyRequests \<and> \<not> let_in resp \<and> (\<forall>st t. gateway L R X cfg rq st t = Some ((resp, st), t))"
    if "\<not> passes_front X cfg rq"
    using that
    by (cases "xl_preflight X (cf_origins cfg) (hq_raw rq)"; cases "xl_json X body_limit (hq_raw rq)")
      (simp_all add: gateway_def passes_front_def)
  show "(\<exists>st'. gateway L R X cfg rq st t = Some ((TooManyRequests, st'), t))
      \<longleftrightarrow> 120 < snd (count_hit 60000 (re_now (hq_env rq)) (rs_window R (gs_hits st) (keyGenerator (hq_ip rq))))"
    if "passes_front X cfg rq"
  proof -
    obtain ok s where l: "limiter R (re_now (hq_env rq)) (hq_ip rq) (gs_hits st) = (ok, s)" by fastforce
    have "(\<exists>st'. gateway L R X cfg rq st t = Some ((TooManyRequests, st'), t)) \<longleftrightarrow> \<not> ok"
      using that l dispatch_cases(1) [of L X rq "gs_server st" t TooManyRequests]
      by (auto simp: gateway_def passes_front_def split: bool.splits option.splits prod.splits)
    then show ?thesis using limiter_cases(1) [OF assms l] by (metis not_le)
  qed
qed

text \<open>Addresses do not share a window: however many requests others send, the first request of an
  address is not refused. Requests without an address share one.\<close>

theorem limiter_isolates_addresses:
  assumes "rate_laws R" and "gateway_run L R X cfg st tr st'" and "\<forall>x\<in>set tr. \<not> from_address (keyGenerator (hq_ip rq)) x"
    and "rs_window R (gs_hits st) (keyGenerator (hq_ip rq)) = None"
    and "gateway L R X cfg rq st' t = Some ((resp, st''), t')"
  shows "resp \<noteq> TooManyRequests"
proof -
  have "rs_window R (gs_hits st') (keyGenerator (hq_ip rq)) = rs_window R (gs_hits st) (keyGenerator (hq_ip rq))"
    using assms(2,3)
    by (induction rule: gateway_run.induct) (auto simp: gateway_window(1) [OF assms(1)] from_address_def)
  then have "passes_front X cfg rq \<Longrightarrow> let_in resp" using gateway_window(2) [OF assms(1,5)] assms(4) by simp
  with assms(5) show ?thesis by (cases rule: gateway_cases) auto
qed

section \<open>Concrete runs\<close>

text \<open>A store that is its windows, and requests that arrive parsed.\<close>

definition toy_rates :: "(string \<Rightarrow> (int \<times> nat) option) rate_store" where
  "toy_rates = \<lparr>rs_increment = (\<lambda>w now k s. let h = count_hit w now (s k) in (snd h, s(k \<mapsto> h))), rs_window = (\<lambda>s. s)\<rparr>"

definition toy_express :: "request express_lib" where
  "toy_express = \<lparr>xl_preflight = (\<lambda>origins r. False), xl_json = (\<lambda>n r. BodyParsed), xl_route = Api,
     xl_metrics = (\<lambda>a b c. ''metrics'')\<rparr>"

definition toy_config :: server_config where
  "toy_config = \<lparr>cf_port = ''3000'', cf_metricsPort = ''9090'', cf_apiKey = ''key'', cf_origins = []\<rparr>"

definition toy_gateway :: "(audit_row list, string \<Rightarrow> (int \<times> nat) option) gateway_state" where
  "toy_gateway = \<lparr>gs_server = toy_server_state, gs_hits = (\<lambda>k. None)\<rparr>"

definition health_at :: "int \<Rightarrow> request http_request" where
  "health_at t = \<lparr>hq_ip = Some ''a'', hq_raw = GetHealth, hq_env = toy_request_env\<lparr>re_now := t\<rparr>\<rparr>"

lemma toy_rate_laws: "rate_laws toy_rates"
  by (simp add: rate_laws_def toy_rates_def Let_def)

lemma toy_passes_front [simp]: "passes_front toy_express cfg rq"
  by (simp add: passes_front_def toy_express_def)

text \<open>Health checks are always answered, or refused.\<close>

lemma health_run:
  "\<exists>tr st'. gateway_run L toy_rates toy_express cfg st tr st' \<and> map fst tr = map health_at ts"
proof (induction ts arbitrary: st)
  case (Cons t ts)
  obtain resp st1 where "gateway L toy_rates toy_express cfg (health_at t) st [] = Some ((resp, st1), [])"
    by (cases "limiter toy_rates t (Some ''a'') (gs_hits st)"; cases "fst (limiter toy_rates t (Some ''a'') (gs_hits st))")
      (auto simp: gateway_def dispatch_def health_at_def toy_express_def toy_request_env_def respond_def)
  then show ?case using Cons.IH [of st1] run_request by (metis (no_types, opaque_lifting) fst_conv list.simps(9))
qed (use run_idle in fastforce)

definition burst :: "int list" where
  "burst = 0 # replicate 119 59999 @ replicate 120 60000"

lemma burst_admitted: "in_minute 59999 (admitted None burst) = 239"
  by code_simp

text \<open>The bound is reached: after one early request, 239 pass within two milliseconds.\<close>

theorem rate_limited_per_address_witness:
  "\<exists>tr st'. gateway_run toy_server toy_rates toy_express toy_config toy_gateway tr st' \<and> map fst tr = map health_at burst
     \<and> reached_in_minute 59999 ''a'' tr = 239 \<and> reached_in_minute 0 ''a'' tr \<le> 239"
proof -
  obtain tr st' where r: "gateway_run toy_server toy_rates toy_express toy_config toy_gateway tr st'"
    and f: "map fst tr = map health_at burst" using health_run by blast
  have times: "map request_time tr = burst"
    using arg_cong [OF f, of "map (\<lambda>rq. re_now (hq_env rq))"]
    by (simp add: request_time_def [abs_def] health_at_def o_def)
  have ip: "keyGenerator (hq_ip (fst x)) = ''a''" if "x \<in> set tr" for x
  proof -
    have "fst x \<in> set (map health_at burst)" using that f by (metis list.set_map image_eqI)
    then show ?thesis by (auto simp: health_at_def keyGenerator_def env_or_def)
  qed
  have hits: "hits_of toy_express toy_config ''a'' tr = burst"
    using times ip by (simp add: hits_of_def from_address_def cong: filter_cong)
  have w: "rs_window toy_rates (gs_hits toy_gateway) ''a'' = None" by (simp add: toy_rates_def toy_gateway_def)
  have "sorted (map request_time tr)" unfolding times by (simp add: burst_def sorted_append)
  note b = rate_limited_per_address [OF toy_rate_laws w r this]
  have "reached_in_minute 59999 ''a'' tr = 239"
    using reached_in_minute_run [OF toy_rate_laws r, of 59999 "''a''"] burst_admitted by (simp add: hits w)
  then show ?thesis using r f b by blast
qed

end
